(* ===== verification/Prelude.thy ===== *)
theory Prelude
  imports Main "HOL-Library.Word" "HOL-Library.Monad_Syntax"
begin

text \<open>
  The prelude of the development: machine integers of the x86 build written out on \<^typ>\<open>nat\<close>
  (\<open>Uint\<close>, \<open>size_t\<close> and every pointer are 32 bits wide, \<open>arch/x86/include/arch.h\<close>), byte addressed
  memory with little-endian 32-bit accesses, the outcome of a kernel routine that may panic, and
  lemmas on lists and memory that the components share.
\<close>

named_theorems c_arith \<open>facts that remove 32-bit wrap-around from in-range arithmetic\<close>
named_theorems mem_simps \<open>reads of byte addressed memory after writes\<close>

section \<open>Machine integers\<close>

abbreviation two32 :: nat where
  "two32 \<equiv> 4294967296"

text \<open>A 32-bit result: the low 32 bits of an unbounded one.\<close>

definition u32 :: "nat \<Rightarrow> nat" where
  "u32 n = n mod two32"

text \<open>C's \<open>a - b\<close> on \<open>unsigned int\<close>, wrapping below zero.\<close>

definition sub32 :: "nat \<Rightarrow> nat \<Rightarrow> nat" where
  "sub32 a b = u32 (a + two32 - b)"

lemma u32_less [simp]: "u32 n < two32"
  by (simp add: u32_def)

lemma u32_id [c_arith]: "n < two32 \<Longrightarrow> u32 n = n"
  by (simp add: u32_def)

lemma u32_u32 [simp]: "u32 (u32 n) = u32 n"
  by (simp add: u32_def)

definition u64 :: "nat \<Rightarrow> nat" where
  "u64 n = n mod 2 ^ 64"

definition sub64 :: "nat \<Rightarrow> nat \<Rightarrow> nat" where
  "sub64 a b = u64 (a + 2 ^ 64 - b)"

lemma u64_id [c_arith]: "n < 2 ^ 64 \<Longrightarrow> u64 n = n"
  by (simp add: u64_def)

lemma sub64_id [c_arith]: "b \<le> a \<Longrightarrow> a < 2 ^ 64 \<Longrightarrow> sub64 a b = a - b"
  by (simp add: sub64_def u64_def le_mod_geq)

lemma sub32_id [c_arith]:
  assumes "b \<le> a" and "a < two32"
  shows "sub32 a b = a - b"
proof -
  have "a + two32 - b = (a - b) + two32" using assms(1) by linarith
  then have "sub32 a b = (a - b + two32) mod two32" by (simp only: sub32_def u32_def)
  also have "\<dots> = (a - b) mod two32" by (rule mod_add_self2)
  also have "\<dots> = a - b" using assms(2) by (intro mod_less) linarith
  finally show ?thesis .
qed

text \<open>A C \<open>int\<close>, in two's complement.\<close>

definition s32 :: "int \<Rightarrow> int" where
  "s32 x = (x + 0x80000000) mod 0x100000000 - 0x80000000"

lemma s32_id [c_arith]: "- 0x80000000 \<le> x \<Longrightarrow> x < 0x80000000 \<Longrightarrow> s32 x = x"
  by (simp add: s32_def)

lemma s32_range: "- 0x80000000 \<le> s32 x" "s32 x < 0x80000000"
  by (simp_all add: s32_def)

text \<open>C's \<open>n & ~(2^k - 1)\<close>: clear the low bits.\<close>

definition align_down :: "nat \<Rightarrow> nat \<Rightarrow> nat" where
  "align_down d n = n - n mod d"

lemma align_down_le [simp]: "align_down d n \<le> n"
  by (simp add: align_down_def)

lemma align_down_dvd [simp]: "d dvd align_down d n"
  by (simp add: align_down_def dvd_minus_mod)

lemma align_down_ge: "0 < d \<Longrightarrow> n < align_down d n + d"
  unfolding align_down_def using mod_less_divisor [of d n] by linarith

section \<open>Byte addressed memory\<close>

type_synonym addr = nat
type_synonym memory = "addr \<Rightarrow> 8 word"

definition rd32 :: "memory \<Rightarrow> addr \<Rightarrow> nat" where
  "rd32 m a = unat (m a) + 256 * unat (m (a + 1)) + 65536 * unat (m (a + 2))
     + 16777216 * unat (m (a + 3))"

definition wr32 :: "memory \<Rightarrow> addr \<Rightarrow> nat \<Rightarrow> memory" where
  "wr32 m a v = m(a := word_of_nat v, a + 1 := word_of_nat (v div 256),
     a + 2 := word_of_nat (v div 65536), a + 3 := word_of_nat (v div 16777216))"

lemma unat_byte: "unat (word_of_nat v :: 8 word) = v mod 256"
  by (simp add: unat_of_nat)

lemma rd32_less [simp]: "rd32 m a < two32"
proof -
  have "unat (m x) < 256" for x
    using unsigned_less [of "m x", where 'a = nat] by simp
  from this [of a] this [of "a + 1"] this [of "a + 2"] this [of "a + 3"]
  show ?thesis unfolding rd32_def by linarith
qed

lemma div_mod_step: "(v::nat) mod b + b * (v div b) = v"
  by (simp add: mult.commute)

lemma bytes_split:
  assumes "(v::nat) < two32"
  shows "v mod 256 + 256 * (v div 256 mod 256) + 65536 * (v div 65536 mod 256)
     + 16777216 * (v div 16777216 mod 256) = v"
proof -
  have d: "v div 65536 = v div 256 div 256" "v div 16777216 = v div 256 div 256 div 256"
    by (simp_all flip: div_mult2_eq)
  have "v div 16777216 < 256"
    using assms by (intro less_mult_imp_div_less) simp
  then have top: "v div 256 div 256 div 256 mod 256 = v div 256 div 256 div 256"
    by (simp add: d)
  define x1 x2 x3 r0 r1 r2 where "x1 = v div 256" and "x2 = x1 div 256" and "x3 = x2 div 256"
    and "r0 = v mod 256" and "r1 = x1 mod 256" and "r2 = x2 mod 256"
  have "r0 + 256 * x1 = v" "r1 + 256 * x2 = x1" "r2 + 256 * x3 = x2"
    unfolding x1_def x2_def x3_def r0_def r1_def r2_def by (rule div_mod_step)+
  moreover have "r0 + 256 * r1 + 65536 * r2 + 16777216 * x3 = r0 + 256 * (r1 + 256 * (r2 + 256 * x3))"
    by (simp add: algebra_simps)
  ultimately have "r0 + 256 * r1 + 65536 * r2 + 16777216 * x3 = v" by simp
  then show ?thesis
    unfolding d top by (simp only: x1_def x2_def x3_def r0_def r1_def r2_def)
qed

lemma rd32_wr32_same [simp, mem_simps]:
  assumes "v < two32"
  shows "rd32 (wr32 m a v) a = v"
proof -
  have "rd32 (wr32 m a v) a = unat (word_of_nat v :: 8 word) + 256 * unat (word_of_nat (v div 256) :: 8 word)
     + 65536 * unat (word_of_nat (v div 65536) :: 8 word) + 16777216 * unat (word_of_nat (v div 16777216) :: 8 word)"
    by (simp add: rd32_def wr32_def)
  also have "\<dots> = v"
    unfolding unat_byte by (rule bytes_split [OF assms])
  finally show ?thesis .
qed

lemma rd32_wr32_other [mem_simps]:
  "a + 4 \<le> b \<or> b + 4 \<le> a \<Longrightarrow> rd32 (wr32 m a v) b = rd32 m b"
  by (auto simp: rd32_def wr32_def)

lemma wr32_outside [mem_simps]: "x < a \<or> a + 4 \<le> x \<Longrightarrow> wr32 m a v x = m x"
  by (auto simp: wr32_def)

lemma rd32_cong: "(\<And>x. a \<le> x \<Longrightarrow> x < a + 4 \<Longrightarrow> m x = m' x) \<Longrightarrow> rd32 m a = rd32 m' a"
  by (simp add: rd32_def)

text \<open>\<open>memset\<close> and a forward copying \<open>memcpy\<close>, byte by byte as the C loops do.\<close>

fun memset :: "memory \<Rightarrow> addr \<Rightarrow> 8 word \<Rightarrow> nat \<Rightarrow> memory" where
  "memset m a c 0 = m"
| "memset m a c (Suc n) = memset (m(a := c)) (a + 1) c n"

fun memcpy :: "memory \<Rightarrow> addr \<Rightarrow> addr \<Rightarrow> nat \<Rightarrow> memory" where
  "memcpy m d s 0 = m"
| "memcpy m d s (Suc n) = memcpy (m(d := m s)) (d + 1) (s + 1) n"

lemma memset_apply:
  "memset m a c n x = (if a \<le> x \<and> x < a + n then c else m x)"
proof (induction n arbitrary: m a)
  case (Suc n)
  show ?case by (simp only: memset.simps Suc.IH) auto
qed auto

lemma memcpy_outside: "x < d \<or> d + n \<le> x \<Longrightarrow> memcpy m d s n x = m x"
proof (induction n arbitrary: m d s)
  case (Suc n)
  from Suc.prems have "memcpy (m(d := m s)) (d + 1) (s + 1) n x = (m(d := m s)) x"
    by (intro Suc.IH) auto
  with Suc.prems show ?case by auto
qed simp

text \<open>A forward copy is right when the destination does not start inside the source.\<close>

lemma memcpy_apply:
  "d \<le> s \<or> s + n \<le> d \<Longrightarrow> i < n \<Longrightarrow> memcpy m d s n (d + i) = m (s + i)"
proof (induction m d s n arbitrary: i rule: memcpy.induct)
  case (2 m d s n)
  show ?case
  proof (cases i)
    case 0
    then show ?thesis by (simp add: memcpy_outside)
  next
    case (Suc j)
    with "2.prems" have "memcpy (m(d := m s)) (d + 1) (s + 1) n (d + 1 + j) = (m(d := m s)) (s + 1 + j)"
      by (intro "2.IH") auto
    moreover have "s + 1 + j \<noteq> d"
      using "2.prems" Suc by auto
    ultimately show ?thesis using Suc by simp
  qed
qed simp

section \<open>Outcomes\<close>

text \<open>
  A kernel routine returns, or stops the machine (\<open>Panic\<close>, a failed \<open>ASSERT\<close>). A routine
  with a loop that need not end has type \<open>'a outcome option\<close>, with \<^const>\<open>None\<close> for
  "never returns".
\<close>

datatype 'a outcome = Ret 'a | Panicked

fun bind_outcome :: "'a outcome \<Rightarrow> ('a \<Rightarrow> 'b outcome) \<Rightarrow> 'b outcome" where
  "bind_outcome (Ret x) f = f x"
| "bind_outcome Panicked f = Panicked"

definition obind :: "'a outcome option \<Rightarrow> ('a \<Rightarrow> 'b outcome option) \<Rightarrow> 'b outcome option" where
  "obind r f = (case r of None \<Rightarrow> None | Some Panicked \<Rightarrow> Some Panicked | Some (Ret x) \<Rightarrow> f x)"

lemma obind_simps [simp]:
  "obind None f = None" "obind (Some Panicked) f = Some Panicked" "obind (Some (Ret x)) f = f x"
  by (simp_all add: obind_def)

lemma obind_eq_Ret: "obind r f = Some (Ret y) \<longleftrightarrow> (\<exists>x. r = Some (Ret x) \<and> f x = Some (Ret y))"
  by (auto simp: obind_def split: option.splits outcome.splits)

end
