(* ===== verification/Libc_Memory.thy ===== *)
theory Libc_Memory
  imports Prelude
begin

text \<open>
  The memory routines: \<open>memset\<close>, \<open>memcpy\<close> and \<open>memcmp\<close> of \<open>arch/x86/lib.c\<close>, which move words and
  16-byte vectors where the alignment allows it, and \<open>memmove\<close> of \<open>libc.c\<close>. The byte loops of
  \<open>Prelude\<close> are the reference they are proved equal to. A string instruction \<open>rep movs\<close> copies its
  units in ascending order, each unit being read in full before it is written.
\<close>

section \<open>Copying by units\<close>

text \<open>One unit of \<open>k\<close> bytes, and \<open>rep movs\<close> over \<open>n\<close> units.\<close>

definition mov_unit :: "nat \<Rightarrow> memory \<Rightarrow> addr \<Rightarrow> addr \<Rightarrow> memory" where
  "mov_unit k m d s = (\<lambda>x. if d \<le> x \<and> x < d + k then m (s + (x - d)) else m x)"

fun rep_movs :: "nat \<Rightarrow> memory \<Rightarrow> addr \<Rightarrow> addr \<Rightarrow> nat \<Rightarrow> memory" where
  "rep_movs k m d s 0 = m"
| "rep_movs k m d s (Suc n) = rep_movs k (mov_unit k m d s) (d + k) (s + k) n"

text \<open>The \<open>movdqa\<close> loop of 16-byte units, with the bytes left over.\<close>

definition copy_sse :: "memory \<Rightarrow> addr \<Rightarrow> addr \<Rightarrow> nat \<Rightarrow> memory" where
  "copy_sse m dst src Num =
     (let m = rep_movs 16 m dst src (Num div 16);
          dst = dst + 16 * (Num div 16);
          src = src + 16 * (Num div 16);
          count = Num mod 16
      in if count \<noteq> 0 then rep_movs 1 m dst src count else m)"

definition memcpy_x86 :: "memory \<Rightarrow> addr \<Rightarrow> addr \<Rightarrow> nat \<Rightarrow> memory" where
  "memcpy_x86 m Dest Src Num =
     (if Dest mod 4 \<noteq> Src mod 4 then rep_movs 1 m Dest Src Num
      else if Num > 128 \<and> Dest mod 16 = Src mod 16 then
        (let count = 16 - Dest mod 16 in
         if count < 16
         then copy_sse (rep_movs 1 m Dest Src count) (Dest + count) (Src + count) (Num - count)
         else copy_sse m Dest Src Num)
      else
        (let m = rep_movs 4 m Dest Src (Num div 4)
         in rep_movs 1 m (Dest + 4 * (Num div 4)) (Src + 4 * (Num div 4)) (Num mod 4)))"

text \<open>\<open>rep stos\<close> of a word built by repeating one byte.\<close>

fun rep_stos :: "nat \<Rightarrow> memory \<Rightarrow> addr \<Rightarrow> 32 word \<Rightarrow> nat \<Rightarrow> memory" where
  "rep_stos k m d v 0 = m"
| "rep_stos k m d v (Suc n) =
     rep_stos k (\<lambda>x. if d \<le> x \<and> x < d + k then ucast (drop_bit (8 * (x - d)) v) else m x) (d + k) v n"

definition memset_x86 :: "memory \<Rightarrow> addr \<Rightarrow> 32 word \<Rightarrow> nat \<Rightarrow> memory" where
  "memset_x86 m Dest Val Num =
     (let val = and Val 0xFF;
          val = or val (push_bit 8 val);
          val = or val (push_bit 16 val);
          m = rep_stos 4 m Dest val (Num div 4)
      in rep_stos 1 m (Dest + 4 * (Num div 4)) val (Num mod 4))"

fun memcmp :: "memory \<Rightarrow> addr \<Rightarrow> addr \<Rightarrow> nat \<Rightarrow> int" where
  "memcmp m d1 d2 0 = 0"
| "memcmp m d1 d2 (Suc n) =
     (if m d1 \<noteq> m d2 then uint (m d1) - uint (m d2) else memcmp m (d1 + 1) (d2 + 1) n)"

section \<open>Overlapping copies\<close>

text \<open>The descending loop of \<open>memmove\<close>; its index is an \<open>int\<close>, so lengths are below two to the 31.\<close>

fun copy_down :: "memory \<Rightarrow> addr \<Rightarrow> addr \<Rightarrow> nat \<Rightarrow> memory" where
  "copy_down m d s 0 = m"
| "copy_down m d s (Suc i) = copy_down (m(d + i := m (s + i))) d s i"

definition memmove :: "memory \<Rightarrow> addr \<Rightarrow> addr \<Rightarrow> nat \<Rightarrow> memory" where
  "memmove m dest src len =
     (if len = 0 \<or> dest = src then m
      else if dest > u32 (src + len) then memcpy_x86 m dest src len
      else if u32 (dest + len) < src then memcpy_x86 m dest src len
      else if dest < src then memcpy_x86 m dest src len
      else copy_down m dest src len)"

section \<open>The optimised copies are the byte loop\<close>

lemma memcpy_add: "memcpy m d s (a + b) = memcpy (memcpy m d s a) (d + a) (s + a) b"
  by (induction m d s a rule: memcpy.induct) (simp_all del: fun_upd_apply)

lemma memcpy_id: "memcpy m d d n = m"
  by (induction n arbitrary: m d) simp_all

lemma mov_unit_memcpy:
  assumes "d + k \<le> s \<or> s + k \<le> d \<or> d = s"
  shows "mov_unit k m d s = memcpy m d s k"
proof
  fix x
  show "mov_unit k m d s x = memcpy m d s k x"
  proof (cases "d \<le> x \<and> x < d + k \<and> d \<noteq> s")
    case True
    then obtain i where "x = d + i" "i < k" by (metis add_less_cancel_left le_Suc_ex)
    with assms True memcpy_apply [of d s k i m] show ?thesis by (auto simp: mov_unit_def)
  next
    case False
    then show ?thesis using memcpy_outside [of x d k m s] by (auto simp: mov_unit_def memcpy_id)
  qed
qed

lemma rep_movs_memcpy:
  "d + k \<le> s \<or> s + k \<le> d \<or> d = s \<Longrightarrow> rep_movs k m d s n = memcpy m d s (k * n)"
proof (induction k m d s n rule: rep_movs.induct)
  case (2 k m d s n)
  then have "rep_movs k (mov_unit k m d s) (d + k) (s + k) n =
      memcpy (mov_unit k m d s) (d + k) (s + k) (k * n)" by auto
  also have "\<dots> = memcpy (memcpy m d s k) (d + k) (s + k) (k * n)"
    using mov_unit_memcpy [OF "2.prems"] by simp
  also have "\<dots> = memcpy m d s (k * Suc n)" by (simp flip: memcpy_add)
  finally show ?case by simp
qed simp

lemma same_residue_apart:
  assumes "(d::nat) mod k = s mod k"
  shows "d + k \<le> s \<or> s + k \<le> d \<or> d = s"
proof (rule ccontr)
  assume "\<not> ?thesis"
  then have "d < s \<and> s - d < k \<or> s < d \<and> d - s < k" by auto
  moreover have "k dvd s - d" "k dvd d - s"
    using assms by (metis mod_eq_dvd_iff_nat nat_le_linear diff_is_0_eq' dvd_0_right)+
  ultimately show False by (auto dest: dvd_imp_le)
qed

lemma rep_movs_bytes: "rep_movs (Suc 0) m d s n = memcpy m d s n"
  using rep_movs_memcpy [of d 1 s m n] by (cases d s rule: linorder_cases) auto

lemma memcpy_unit_rest:
  assumes "d mod k = s mod k"
  shows "rep_movs (Suc 0) (rep_movs k m d s (n div k)) (d + k * (n div k)) (s + k * (n div k)) (n mod k) =
    memcpy m d s n"
  using memcpy_add [of m d s "k * (n div k)" "n mod k"]
  by (simp add: rep_movs_bytes rep_movs_memcpy same_residue_apart [OF assms])

lemma copy_sse_bytes: "d mod 16 = s mod 16 \<Longrightarrow> copy_sse m d s n = memcpy m d s n"
  using memcpy_unit_rest [of d 16 s m n] by (cases "n mod 16") (simp_all add: copy_sse_def Let_def)

lemma memcpy_x86_bytes: "memcpy_x86 m d s n = memcpy m d s n"
proof -
  define c where "c = 16 - d mod 16"
  consider (byte) "d mod 4 \<noteq> s mod 4" | (vec) "d mod 4 = s mod 4" "n > 128" "d mod 16 = s mod 16"
    | (word) "d mod 4 = s mod 4" "\<not> (n > 128 \<and> d mod 16 = s mod 16)" by blast
  then show ?thesis
  proof cases
    case byte
    then show ?thesis by (simp add: memcpy_x86_def rep_movs_bytes)
  next
    case vec
    have "(d + c) mod 16 = (s + c) mod 16" using vec(3) by (rule mod_add_cong) simp
    then have "copy_sse (memcpy m d s c) (d + c) (s + c) (n - c) = memcpy m d s n" if "c < 16"
      using that vec(2) by (simp add: copy_sse_bytes flip: memcpy_add)
    with vec show ?thesis
      unfolding memcpy_x86_def Let_def c_def [symmetric] by (simp add: rep_movs_bytes copy_sse_bytes)
  next
    case word
    with memcpy_unit_rest [OF word(1), of m n] show ?thesis
      unfolding memcpy_x86_def Let_def c_def [symmetric] by auto
  qed
qed

section \<open>Filling\<close>

lemma memset_add: "memset m d c (a + b) = memset (memset m d c a) (d + a) c b"
  by (rule ext) (simp add: memset_apply)

lemma rep_stos_memset:
  assumes v: "\<And>i. i < k \<Longrightarrow> ucast (drop_bit (8 * i) v) = c"
  shows "rep_stos k m d v n = memset m d c (k * n)"
proof (induction n arbitrary: m d)
  case (Suc n)
  have "(\<lambda>x. if d \<le> x \<and> x < d + k then ucast (drop_bit (8 * (x - d)) v) else m x) = memset m d c k"
    by (rule ext) (auto simp: memset_apply intro!: v)
  then show ?case using Suc memset_add [of m d c k "k * n"] by simp
qed simp

lemma splat_byte:
  fixes V :: "32 word"
  defines "v \<equiv> or (or (and V 0xFF) (push_bit 8 (and V 0xFF)))
     (push_bit 16 (or (and V 0xFF) (push_bit 8 (and V 0xFF))))"
  assumes "i < 4"
  shows "ucast (drop_bit (8 * i) v) = (ucast V :: 8 word)"
proof -
  have m: "0xFF = (mask 8 :: 32 word)" by (simp add: mask_eq_exp_minus_1)
  have "i = 0 \<or> i = 1 \<or> i = 2 \<or> i = 3" using assms by auto
  then show ?thesis
    unfolding v_def m
    by (auto intro!: bit_eqI simp: bit_simps)
qed

lemma memset_x86_bytes: "memset_x86 m d V n = memset m d (ucast V) n"
proof -
  define v where "v = or (or (and V 0xFF) (push_bit 8 (and V 0xFF)))
     (push_bit 16 (or (and V 0xFF) (push_bit 8 (and V 0xFF))))"
  have b: "ucast (drop_bit (8 * i) v) = (ucast V :: 8 word)" if "i < 4" for i
    unfolding v_def using that by (rule splat_byte)
  have "memset_x86 m d V n =
      rep_stos 1 (rep_stos 4 m d v (n div 4)) (d + 4 * (n div 4)) v (n mod 4)"
    by (simp only: memset_x86_def Let_def v_def)
  also have "\<dots> = memset (memset m d (ucast V) (4 * (n div 4))) (d + 4 * (n div 4)) (ucast V) (1 * (n mod 4))"
    by (simp only: rep_stos_memset [of 4 v, OF b] rep_stos_memset [of 1 v, OF b] less_Suc_eq_le)
  finally show ?thesis using memset_add [of m d "ucast V" "4 * (n div 4)" "n mod 4"] by simp
qed

section \<open>Overlapping copies are right\<close>

lemma copy_down_outside: "x < d \<or> d + n \<le> x \<Longrightarrow> copy_down m d s n x = m x"
  by (induction m d s n rule: copy_down.induct) auto

lemma copy_down_apply: "s \<le> d \<Longrightarrow> i < n \<Longrightarrow> copy_down m d s n (d + i) = m (s + i)"
proof (induction m d s n rule: copy_down.induct)
  case (2 m d s n)
  show ?case
  proof (cases "i = n")
    case True
    then show ?thesis by (simp add: copy_down_outside)
  next
    case False
    with "2.prems" have "copy_down (m(d + n := m (s + n))) d s n (d + i) = (m(d + n := m (s + n))) (s + i)"
      by (intro "2.IH") auto
    with "2.prems" False show ?thesis by auto
  qed
qed simp

lemma memmove_apply:
  assumes "src + len < two32" "dest + len < two32"
  shows "memmove m dest src len x =
    (if dest \<le> x \<and> x < dest + len then m (src + (x - dest)) else m x)"
proof (cases "dest \<le> x \<and> x < dest + len")
  case True
  then obtain i where i: "x = dest + i" "i < len" by (metis add_less_cancel_left le_Suc_ex)
  have "memcpy m dest src len (dest + i) = m (src + i)" if "dest > src + len \<or> dest < src"
    using that i by (intro memcpy_apply) auto
  with i copy_down_apply [of src dest i len m] assms show ?thesis
    by (auto simp: memmove_def u32_id memcpy_x86_bytes)
next
  case False
  then show ?thesis
    using memcpy_outside [of x dest len m src] copy_down_outside [of x dest len m src]
    by (auto simp: memmove_def memcpy_x86_bytes)
qed

lemma memcmp_zero: "memcmp m a b n = 0 \<longleftrightarrow> (\<forall>i<n. m (a + i) = m (b + i))"
proof (induction m a b n rule: memcmp.induct)
  case (2 m d1 d2 n)
  have "uint (m d1) - uint (m d2) = 0 \<longleftrightarrow> m d1 = m d2" by (simp add: word_uint_eq_iff)
  with 2 show ?case by (auto simp: less_Suc_eq_0_disj)
qed simp

end
