(* ===== verification/Kernel_Heap.thy ===== *)
theory Kernel_Heap
  imports Libc_Memory
begin

text \<open>
  The kernel heap, \<open>KernelLand/Kernel/heap.c\<close>: a contiguous run of blocks from \<open>gHeapStart\<close> to
  \<open>gHeapEnd\<close>, each with a header (\<open>tHeapHead\<close>) and a footer (\<open>tHeapFoot\<close>) inside byte addressed
  memory. This theory holds the model of every routine of the file that changes the heap and of
  the consistency walk; \<open>Heap_Invariant\<close> and \<open>Heap_Correct\<close> hold the proofs.

  The layout is the one of the x86 build: \<open>Uint\<close> and pointers are 4 bytes, \<open>tTime\<close> is 8 bytes with
  4-byte alignment, so a header is 28 bytes and a footer 8. \<open>MM_Allocate\<close> (the page mapper) is the
  argument \<open>mm\<close>: whether mapping a page at that address succeeds. The clock is the argument
  \<open>tm\<close>. Log output and the statistics printer \<open>Heap_Stats\<close> do not change the heap and are left out.
\<close>

section \<open>Constants and structures\<close>

definition MM_KHEAP_BASE :: addr where "MM_KHEAP_BASE = 0xC0400000"
definition MM_KHEAP_MAX :: addr where "MM_KHEAP_MAX = 0xCF000000"

definition HEAP_INIT_SIZE :: nat where "HEAP_INIT_SIZE = 0x8000"
definition MIN_SIZE :: nat where "MIN_SIZE = 32"
definition MAGIC_FOOT :: nat where "MAGIC_FOOT = 0x544F4F46"
definition MAGIC_FREE :: nat where "MAGIC_FREE = 0x45455246"
definition MAGIC_USED :: nat where "MAGIC_USED = 0x44455355"
definition INVLPTR :: addr where "INVLPTR = 0xFFFFFFFF"

definition sizeof_tHeapHead :: nat where "sizeof_tHeapHead = 28"
definition sizeof_tHeapFoot :: nat where "sizeof_tHeapFoot = 8"

text \<open>The fields of a header at address \<open>h\<close> and of a footer at address \<open>f\<close>.\<close>

definition head_Size :: "memory \<Rightarrow> addr \<Rightarrow> nat" where "head_Size m h = rd32 m h"
definition head_ValidSize :: "memory \<Rightarrow> addr \<Rightarrow> nat" where "head_ValidSize m h = rd32 m (h + 4)"
definition head_File :: "memory \<Rightarrow> addr \<Rightarrow> nat" where "head_File m h = rd32 m (h + 8)"
definition head_Line :: "memory \<Rightarrow> addr \<Rightarrow> nat" where "head_Line m h = rd32 m (h + 12)"
definition head_Magic :: "memory \<Rightarrow> addr \<Rightarrow> nat" where "head_Magic m h = rd32 m (h + 16)"
definition head_Data :: "addr \<Rightarrow> addr" where "head_Data h = u32 (h + sizeof_tHeapHead)"
definition foot_Magic :: "memory \<Rightarrow> addr \<Rightarrow> nat" where "foot_Magic m f = rd32 m f"
definition foot_Head :: "memory \<Rightarrow> addr \<Rightarrow> addr" where "foot_Head m f = rd32 m (f + 4)"

definition set_Size :: "addr \<Rightarrow> nat \<Rightarrow> memory \<Rightarrow> memory" where "set_Size h v m = wr32 m h v"
definition set_ValidSize :: "addr \<Rightarrow> nat \<Rightarrow> memory \<Rightarrow> memory" where "set_ValidSize h v m = wr32 m (h + 4) v"
definition set_File :: "addr \<Rightarrow> nat \<Rightarrow> memory \<Rightarrow> memory" where "set_File h v m = wr32 m (h + 8) v"
definition set_Line :: "addr \<Rightarrow> nat \<Rightarrow> memory \<Rightarrow> memory" where "set_Line h v m = wr32 m (h + 12) v"
definition set_Magic :: "addr \<Rightarrow> nat \<Rightarrow> memory \<Rightarrow> memory" where "set_Magic h v m = wr32 m (h + 16) v"
definition set_AllocateTime :: "addr \<Rightarrow> nat \<Rightarrow> memory \<Rightarrow> memory" where
  "set_AllocateTime h t m = wr32 (wr32 m (h + 20) t) (h + 24) (t div two32)"
definition set_foot_Magic :: "addr \<Rightarrow> nat \<Rightarrow> memory \<Rightarrow> memory" where "set_foot_Magic f v m = wr32 m f v"
definition set_foot_Head :: "addr \<Rightarrow> addr \<Rightarrow> memory \<Rightarrow> memory" where "set_foot_Head f v m = wr32 m (f + 4) v"

text \<open>
  The globals: memory, the bounds of the heap, whether the mutex \<open>glHeap\<close> is held, the static
  recursion guard of \<open>Heap_ValidateDump\<close>, and the watchpoints: the static table of
  \<open>Heap_int_ApplyWatchpont\<close> and the processor's debug registers.
\<close>

record heap_state =
  mem :: memory
  gHeapStart :: addr
  gHeapEnd :: addr
  glHeap :: bool
  in_heap_dump :: bool
  active_wps :: "nat \<Rightarrow> addr"
  debug_reg :: "nat \<Rightarrow> addr"
  dr7 :: "32 word"

definition upd_mem :: "(memory \<Rightarrow> memory) \<Rightarrow> heap_state \<Rightarrow> heap_state" where
  "upd_mem f s = s\<lparr>mem := f (mem s)\<rparr>"

definition Heap_NextHead :: "memory \<Rightarrow> addr \<Rightarrow> addr" where
  "Heap_NextHead m h = u32 (h + head_Size m h)"

definition Heap_ThisFoot :: "memory \<Rightarrow> addr \<Rightarrow> addr" where
  "Heap_ThisFoot m h = sub32 (u32 (h + head_Size m h)) sizeof_tHeapFoot"

definition Heap_PrevFoot :: "addr \<Rightarrow> addr" where
  "Heap_PrevFoot h = sub32 h sizeof_tHeapFoot"

section \<open>Consistency walk\<close>

text \<open>The forward walk of \<open>Heap_ValidateDump\<close>: the header it stops at.\<close>

partial_function (option) validate_walk :: "memory \<Rightarrow> addr \<Rightarrow> addr \<Rightarrow> addr option" where
  "validate_walk m hend head =
     (if head < hend then
        (let foot = Heap_ThisFoot m head in
         if head_Size m head = 0 then Some head
         else if head_Size m head mod MIN_SIZE \<noteq> 0 then Some head
         else if head_Magic m head \<noteq> MAGIC_FREE \<and> head_Magic m head \<noteq> MAGIC_USED then Some head
         else if foot_Magic m foot \<noteq> MAGIC_FOOT then Some head
         else if head \<noteq> foot_Head m foot then Some head
         else validate_walk m hend (u32 (foot + sizeof_tHeapFoot)))
      else Some head)"

text \<open>The walk back from the end of the heap to the bad header, which logs the blocks it passes.\<close>

partial_function (option) backward_walk :: "memory \<Rightarrow> addr \<Rightarrow> addr \<Rightarrow> addr \<Rightarrow> unit option" where
  "backward_walk m badHead foot head =
     (if head \<ge> badHead then
        (if head_Size m head = 0 then Some ()
         else if head_Size m head mod MIN_SIZE \<noteq> 0 then Some ()
         else if head_Magic m head \<noteq> MAGIC_FREE \<and> head_Magic m head \<noteq> MAGIC_USED then Some ()
         else if foot_Magic m foot \<noteq> MAGIC_FOOT then Some ()
         else if head \<noteq> foot_Head m foot then Some ()
         else if head = badHead then Some ()
         else (let foot = Heap_PrevFoot head in backward_walk m badHead foot (foot_Head m foot)))
      else Some ())"

definition Heap_ValidateDump :: "heap_state \<Rightarrow> heap_state outcome option" where
  "Heap_ValidateDump s =
     (if in_heap_dump s then Some (Ret s)
      else case validate_walk (mem s) (gHeapEnd s) (gHeapStart s) of
        None \<Rightarrow> None
      | Some head \<Rightarrow>
          (if head = gHeapEnd s then Some (Ret (s\<lparr>in_heap_dump := False\<rparr>))
           else if head \<ge> gHeapEnd s then Some (Ret (s\<lparr>in_heap_dump := False\<rparr>))
           else
             (let foot = Heap_PrevFoot (gHeapEnd s) in
              case backward_walk (mem s) head foot (foot_Head (mem s) foot) of
                None \<Rightarrow> None
              | Some _ \<Rightarrow> Some Panicked)))"

definition Heap_Validate :: "heap_state \<Rightarrow> heap_state outcome option" where
  "Heap_Validate s = Heap_ValidateDump s"

definition Heap_Dump :: "heap_state \<Rightarrow> heap_state outcome option" where
  "Heap_Dump s = Heap_ValidateDump s"

section \<open>Merging and extending\<close>

definition merge_left :: "addr \<Rightarrow> heap_state \<Rightarrow> addr \<times> heap_state" where
  "merge_left Head s =
     (let m = mem s; thisFoot = Heap_ThisFoot m Head; foot = Heap_PrevFoot Head;
          fh = foot_Head m foot in
      if Head > gHeapStart s \<and> head_Magic m fh = MAGIC_FREE then
        (let m = set_Size fh (u32 (head_Size m fh + head_Size m Head)) m;
             m = set_foot_Head thisFoot (foot_Head m foot) m;
             m = set_Magic Head 0 m;
             m = set_Size Head 0 m;
             Head' = foot_Head m foot;
             m = set_foot_Head foot 0 m;
             m = set_foot_Magic foot 0 m
         in (Head', s\<lparr>mem := m\<rparr>))
      else (Head, s))"

definition merge_right :: "addr \<Rightarrow> addr \<Rightarrow> heap_state \<Rightarrow> heap_state" where
  "merge_right thisFoot Head s =
     (let m = mem s; nexthead = Heap_NextHead m Head in
      if nexthead < gHeapEnd s \<and> head_Magic m nexthead = MAGIC_FREE then
        (let m = set_Size Head (u32 (head_Size m Head + head_Size m nexthead)) m;
             foot = Heap_ThisFoot m Head;
             m = set_foot_Head foot Head m;
             m = set_foot_Head thisFoot 0 m;
             m = set_foot_Magic thisFoot 0 m;
             m = set_Size nexthead 0 m;
             m = set_Magic nexthead 0 m
         in s\<lparr>mem := m\<rparr>)
      else s)"

definition Heap_Merge :: "addr \<Rightarrow> heap_state \<Rightarrow> (addr \<times> heap_state) outcome" where
  "Heap_Merge Head s =
     (let thisFoot = Heap_ThisFoot (mem s) Head in
      if \<not> Heap_NextHead (mem s) Head \<le> gHeapEnd s then Panicked
      else (let (Head', s') = merge_left Head s in Ret (Head', merge_right thisFoot Head' s')))"

text \<open>Whether every page of the extension could be mapped.\<close>

definition pages_ok :: "(addr \<Rightarrow> bool) \<Rightarrow> addr \<Rightarrow> nat \<Rightarrow> bool" where
  "pages_ok mm base pages = list_all (\<lambda>i. mm (u32 (base + 4096 * i))) [0..<pages]"

definition Heap_Extend :: "(addr \<Rightarrow> bool) \<Rightarrow> nat \<Rightarrow> heap_state \<Rightarrow> (addr \<times> heap_state) outcome option" where
  "Heap_Extend mm Bytes s =
     (if gHeapEnd s = MM_KHEAP_MAX then Some (Ret (0, s))
      else if Bytes = 0 then Some (Ret (0, s))
      else
        (let pages = u32 (Bytes + 0xFFF) div 4096;
             new_end = u32 (gHeapEnd s + 4096 * pages) in
         if new_end > MM_KHEAP_MAX then Some (Ret (0, s))
         else if \<not> pages_ok mm (gHeapEnd s) pages then
           obind (Heap_Dump s) (\<lambda>s. Some (Ret (0, s)))
         else
           (let head = gHeapEnd s;
                s = s\<lparr>gHeapEnd := new_end\<rparr>;
                s = upd_mem (set_Size head (align_down 4096 (u32 (Bytes + 0xFFF)))) s;
                s = upd_mem (set_Magic head MAGIC_FREE) s;
                foot = Heap_ThisFoot (mem s) head;
                s = upd_mem (set_foot_Head foot head) s;
                s = upd_mem (set_foot_Magic foot MAGIC_FOOT) s
            in Some (Heap_Merge head s))))"

text \<open>\<open>Heap_Install\<close> ignores the result of \<open>Heap_Extend\<close>.\<close>

definition Heap_Install :: "(addr \<Rightarrow> bool) \<Rightarrow> heap_state \<Rightarrow> heap_state outcome option" where
  "Heap_Install mm s =
     obind (Heap_Extend mm HEAP_INIT_SIZE (s\<lparr>gHeapStart := MM_KHEAP_BASE, gHeapEnd := MM_KHEAP_BASE\<rparr>))
       (\<lambda>(_, s). Some (Ret s))"

section \<open>Allocation\<close>

definition Heap_int_GetBlockSize :: "nat \<Rightarrow> nat" where
  "Heap_int_GetBlockSize AllocSize =
     align_down MIN_SIZE (u32 (AllocSize + sizeof_tHeapHead + sizeof_tHeapFoot + MIN_SIZE - 1))"

text \<open>The traversal of \<open>Heap_Allocate\<close>: a bad header, a perfect fit, or the smallest fit (0: none).\<close>

datatype fit = BadHeader | PerfectFit addr | BestFit addr

partial_function (option) search_fit ::
  "memory \<Rightarrow> addr \<Rightarrow> nat \<Rightarrow> addr \<Rightarrow> addr \<Rightarrow> nat \<Rightarrow> fit option" where
  "search_fit m hend Bytes head best bestSize =
     (if head < hend then
        (if head_Size m head mod MIN_SIZE \<noteq> 0 then Some BadHeader
         else if head_Size m head < MIN_SIZE then Some BadHeader
         else if head_Size m head > 0x80000000 then Some BadHeader
         else if head_Magic m head = MAGIC_USED then
           search_fit m hend Bytes (Heap_NextHead m head) best bestSize
         else if head_Magic m head \<noteq> MAGIC_FREE then Some BadHeader
         else if head_Size m head < Bytes then
           search_fit m hend Bytes (Heap_NextHead m head) best bestSize
         else if head_Size m head = Bytes then Some (PerfectFit head)
         else if bestSize > head_Size m head then
           search_fit m hend Bytes (Heap_NextHead m head) head (head_Size m head)
         else search_fit m hend Bytes (Heap_NextHead m head) best bestSize)
      else Some (BestFit best))"

definition UINT_MAX :: nat where "UINT_MAX = 0xFFFFFFFF"

text \<open>The five stores that hand a block of exactly the right size out.\<close>

definition mark_used :: "nat \<Rightarrow> nat \<Rightarrow> nat \<Rightarrow> nat \<Rightarrow> addr \<Rightarrow> memory \<Rightarrow> memory" where
  "mark_used File Line valid tm h m =
     (let m = set_Magic h MAGIC_USED m;
          m = set_File h File m;
          m = set_Line h Line m;
          m = set_ValidSize h valid m
      in set_AllocateTime h tm m)"

definition split_block :: "nat \<Rightarrow> nat \<Rightarrow> nat \<Rightarrow> nat \<Rightarrow> nat \<Rightarrow> addr \<Rightarrow> memory \<Rightarrow> memory" where
  "split_block File Line valid tm Bytes best m =
     (let newsize = sub32 (head_Size m best) Bytes;
          m = set_Size best Bytes m;
          m = set_ValidSize best valid m;
          m = set_Magic best MAGIC_USED m;
          m = set_File best File m;
          m = set_Line best Line m;
          m = set_AllocateTime best tm m;
          newfoot = Heap_ThisFoot m best;
          m = set_foot_Head newfoot best m;
          m = set_foot_Magic newfoot MAGIC_FOOT m;
          newhead = Heap_NextHead m best;
          m = set_Size newhead newsize m;
          m = set_Magic newhead MAGIC_FREE m;
          m = set_ValidSize newhead 0 m;
          m = set_File newhead 0 m;
          m = set_Line newhead 0 m;
          foot = Heap_ThisFoot m newhead
      in set_foot_Head foot newhead m)"

definition Mutex_Acquire_glHeap :: "heap_state \<Rightarrow> heap_state" where
  "Mutex_Acquire_glHeap s = s\<lparr>glHeap := True\<rparr>"

definition Mutex_Release_glHeap :: "heap_state \<Rightarrow> heap_state" where
  "Mutex_Release_glHeap s = s\<lparr>glHeap := False\<rparr>"

definition alloc_perfect :: "nat \<Rightarrow> nat \<Rightarrow> nat \<Rightarrow> nat \<Rightarrow> addr \<Rightarrow> heap_state \<Rightarrow> (addr \<times> heap_state) outcome option" where
  "alloc_perfect File Line valid tm h s =
     Some (Ret (head_Data h, Mutex_Release_glHeap (upd_mem (mark_used File Line valid tm h) s)))"

definition alloc_split ::
  "nat \<Rightarrow> nat \<Rightarrow> nat \<Rightarrow> nat \<Rightarrow> nat \<Rightarrow> addr \<Rightarrow> heap_state \<Rightarrow> (addr \<times> heap_state) outcome option" where
  "alloc_split File Line valid tm Bytes h s =
     Some (Ret (head_Data h, Mutex_Release_glHeap (upd_mem (split_block File Line valid tm Bytes h) s)))"

definition Heap_Allocate ::
  "(addr \<Rightarrow> bool) \<Rightarrow> nat \<Rightarrow> nat \<Rightarrow> nat \<Rightarrow> nat \<Rightarrow> heap_state \<Rightarrow> (addr \<times> heap_state) outcome option" where
  "Heap_Allocate mm tm File Line nbytes s =
     (if nbytes = 0 then Some (Ret (0, s))
      else obind (Heap_Validate s) (\<lambda>s.
        let Bytes = Heap_int_GetBlockSize nbytes;
            s = Mutex_Acquire_glHeap s in
        case search_fit (mem s) (gHeapEnd s) Bytes (gHeapStart s) 0 UINT_MAX of
          None \<Rightarrow> None
        | Some BadHeader \<Rightarrow>
            obind (Heap_ValidateDump (Mutex_Release_glHeap s)) (\<lambda>s. Some (Ret (0, s)))
        | Some (PerfectFit h) \<Rightarrow> alloc_perfect File Line nbytes tm h s
        | Some (BestFit best) \<Rightarrow>
            (if best \<noteq> 0 then alloc_split File Line nbytes tm Bytes best s
             else obind (Heap_Extend mm Bytes s) (\<lambda>(best, s).
               if best = 0 then Some (Ret (0, Mutex_Release_glHeap s))
               else if head_Size (mem s) best = Bytes then alloc_perfect File Line nbytes tm best s
               else alloc_split File Line nbytes tm Bytes best s))))"

definition Heap_AllocateZero ::
  "(addr \<Rightarrow> bool) \<Rightarrow> nat \<Rightarrow> nat \<Rightarrow> nat \<Rightarrow> nat \<Rightarrow> heap_state \<Rightarrow> (addr \<times> heap_state) outcome option" where
  "Heap_AllocateZero mm tm File Line Bytes s =
     obind (Heap_Allocate mm tm File Line Bytes s) (\<lambda>(ret, s).
       if ret = 0 then Some (Ret (0, s))
       else Some (Ret (ret, upd_mem (\<lambda>m. memset m ret 0 Bytes) s)))"

section \<open>Watchpoints\<close>

definition dr7_flag :: "nat \<Rightarrow> bool \<Rightarrow> 32 word \<Rightarrow> 32 word" where
  "dr7_flag dr enabled flag =
     (let flag = and flag (not (push_bit (dr * 2) 0x2));
          flag = and flag (not (push_bit (dr * 4) 0xF000))
      in if enabled then or (or flag (push_bit (dr * 2) 0x2)) (push_bit (dr * 4) 0xD000) else flag)"

definition Heap_int_ApplyWatchpont :: "addr \<Rightarrow> bool \<Rightarrow> heap_state \<Rightarrow> nat \<times> heap_state" where
  "Heap_int_ApplyWatchpont Word enabled s =
     (let hit = (\<lambda>i. (enabled \<and> active_wps s i = 0) \<or> active_wps s i = Word);
          dr = (if hit 2 then 2 else if hit 3 then 3 else 4) in
      if dr = 4 then (1, s)
      else
        (let s = (if enabled
                  then s\<lparr>active_wps := (active_wps s)(dr := Word), debug_reg := (debug_reg s)(dr := Word)\<rparr>
                  else s\<lparr>active_wps := (active_wps s)(dr := 0)\<rparr>)
         in (0, s\<lparr>dr7 := dr7_flag dr enabled (dr7 s)\<rparr>)))"

lemma Heap_int_ApplyWatchpont_frame:
  "mem (snd (Heap_int_ApplyWatchpont w b s)) = mem s"
  "gHeapStart (snd (Heap_int_ApplyWatchpont w b s)) = gHeapStart s"
  "gHeapEnd (snd (Heap_int_ApplyWatchpont w b s)) = gHeapEnd s"
  "glHeap (snd (Heap_int_ApplyWatchpont w b s)) = glHeap s"
  "in_heap_dump (snd (Heap_int_ApplyWatchpont w b s)) = in_heap_dump s"
  by (simp_all add: Heap_int_ApplyWatchpont_def Let_def)

definition Heap_int_WatchBlock :: "addr \<Rightarrow> bool \<Rightarrow> heap_state \<Rightarrow> heap_state" where
  "Heap_int_WatchBlock Head Enabled s =
     (let (_, s) = Heap_int_ApplyWatchpont Head Enabled s;
          (_, s) = Heap_int_ApplyWatchpont (u32 (Heap_ThisFoot (mem s) Head + 4)) Enabled s
      in s)"

lemma Heap_int_WatchBlock_frame [simp]:
  "mem (Heap_int_WatchBlock h b s) = mem s" "gHeapStart (Heap_int_WatchBlock h b s) = gHeapStart s"
  "gHeapEnd (Heap_int_WatchBlock h b s) = gHeapEnd s" "glHeap (Heap_int_WatchBlock h b s) = glHeap s"
  "in_heap_dump (Heap_int_WatchBlock h b s) = in_heap_dump s"
  by (simp_all add: Heap_int_WatchBlock_def Heap_int_ApplyWatchpont_frame split_beta)

definition Heap_WatchBlock :: "addr \<Rightarrow> heap_state \<Rightarrow> heap_state" where
  "Heap_WatchBlock Ptr s =
     (if Ptr < gHeapStart s then s
      else if Ptr > gHeapEnd s then s
      else if Ptr mod 4 \<noteq> 0 then s
      else Heap_int_WatchBlock (sub32 Ptr sizeof_tHeapHead) True s)"

section \<open>Deallocation\<close>

definition Heap_Deallocate ::
  "nat \<Rightarrow> nat \<Rightarrow> addr \<Rightarrow> heap_state \<Rightarrow> heap_state outcome" where
  "Heap_Deallocate File Line Ptr s =
     (if Ptr = INVLPTR then Ret s
      else if Ptr = 0 then Ret s
      else if Ptr mod 4 \<noteq> 0 then Ret s
      else if Ptr < gHeapStart s \<or> Ptr > gHeapEnd s then Ret s
      else
        (let head = sub32 Ptr sizeof_tHeapHead in
         if head_Magic (mem s) head = MAGIC_FREE then Ret s
         else if head_Magic (mem s) head \<noteq> MAGIC_USED then Ret s
         else
           (let foot = Heap_ThisFoot (mem s) head in
            if foot_Head (mem s) foot \<noteq> head then Ret s
            else if foot_Magic (mem s) foot \<noteq> MAGIC_FOOT then Ret s
            else
              (let s = Mutex_Acquire_glHeap s;
                   s = Heap_int_WatchBlock head False s;
                   s = upd_mem (set_Magic head MAGIC_FREE) s;
                   s = upd_mem (set_File head File) s;
                   s = upd_mem (set_Line head Line) s;
                   s = upd_mem (set_ValidSize head 0) s
               in bind_outcome (Heap_Merge head s) (\<lambda>(_, s). Ret (Mutex_Release_glHeap s))))))"

definition Heap_IsHeapAddr :: "addr \<Rightarrow> heap_state \<Rightarrow> bool" where
  "Heap_IsHeapAddr Ptr s =
     (if Ptr < gHeapStart s then False
      else if Ptr > gHeapEnd s then False
      else if Ptr mod 4 \<noteq> 0 then False
      else (let head = sub32 Ptr sizeof_tHeapHead in
            \<not> (head_Magic (mem s) head \<noteq> MAGIC_USED \<and> head_Magic (mem s) head \<noteq> MAGIC_FREE)))"

section \<open>Reallocation\<close>

text \<open>Growing into the free block that follows, wholly or in part.\<close>

definition realloc_up :: "nat \<Rightarrow> nat \<Rightarrow> nat \<Rightarrow> nat \<Rightarrow> addr \<Rightarrow> addr \<Rightarrow> memory \<Rightarrow> memory" where
  "realloc_up File Line valid newSize head nextHead m =
     (let size = u32 (head_Size m nextHead + head_Size m head);
          foot = Heap_ThisFoot m nextHead in
      if size = newSize then
        (let m = set_Size head newSize m;
             m = set_ValidSize head valid m;
             m = set_File head File m;
             m = set_Line head Line m;
             m = set_foot_Head foot head m;
             m = set_Magic nextHead 0 m
         in set_Size nextHead 0 m)
      else
        (let m = set_Size head newSize m;
             m = set_File head File m;
             m = set_Line head Line m;
             m = set_ValidSize head valid m;
             foot = Heap_ThisFoot m head;
             m = set_foot_Head foot head m;
             m = set_foot_Magic foot MAGIC_FOOT m;
             nextHead = Heap_NextHead m head;
             m = set_Size nextHead (sub32 size newSize) m;
             m = set_Magic nextHead MAGIC_FREE m
         in set_foot_Head (Heap_ThisFoot m nextHead) nextHead m))"

text \<open>Growing into the free block before; a larger fit is handled like an exact one.\<close>

definition realloc_down :: "nat \<Rightarrow> nat \<Rightarrow> nat \<Rightarrow> nat \<Rightarrow> addr \<Rightarrow> addr \<Rightarrow> addr \<Rightarrow> memory \<Rightarrow> memory" where
  "realloc_down File Line valid newSize ptr head nextHead m =
     (let m = set_Magic nextHead MAGIC_USED m;
          m = set_Size nextHead newSize m;
          m = set_File nextHead File m;
          m = set_Line nextHead Line m;
          m = set_ValidSize nextHead valid m;
          foot = Heap_ThisFoot m nextHead;
          m = set_foot_Head foot nextHead m;
          oldDataSize = sub32 (sub32 (head_Size m head) sizeof_tHeapFoot) sizeof_tHeapHead;
          m = set_Size head 0 m;
          m = set_Magic head 0 m
      in memmove m (head_Data nextHead) ptr oldDataSize)"

text \<open>
  \<open>fFile\<close> is the file name constant that the \<open>free\<close> macro passes; the lock is not taken here.
\<close>

definition realloc_move ::
  "(addr \<Rightarrow> bool) \<Rightarrow> nat \<Rightarrow> nat \<Rightarrow> nat \<Rightarrow> nat \<Rightarrow> nat \<Rightarrow> addr \<Rightarrow> addr \<Rightarrow> heap_state \<Rightarrow>
   (addr \<times> heap_state) outcome option" where
  "realloc_move mm tm fFile File Line bytes ptr head s =
     obind (Heap_Allocate mm tm File Line bytes s) (\<lambda>(r, s).
       if r = 0 then Some (Ret (0, s))
       else
         (let nextHead = sub32 r sizeof_tHeapHead;
              s = upd_mem (set_File nextHead File) s;
              s = upd_mem (set_Line nextHead Line) s;
              s = upd_mem (set_ValidSize nextHead bytes) s in
          if \<not> head_Size (mem s) head < head_Size (mem s) nextHead then Some Panicked
          else if ptr \<noteq> head_Data head then Some Panicked
          else
            (let n = sub32 (sub32 (head_Size (mem s) head) sizeof_tHeapFoot) sizeof_tHeapHead;
                 s = upd_mem (\<lambda>m. memcpy_x86 m (head_Data nextHead) ptr n) s in
             case Heap_Deallocate fFile 562 ptr s of
               Panicked \<Rightarrow> Some Panicked
             | Ret s \<Rightarrow> obind (Heap_Validate s) (\<lambda>s. Some (Ret (head_Data nextHead, s))))))"

definition Heap_Reallocate ::
  "(addr \<Rightarrow> bool) \<Rightarrow> nat \<Rightarrow> nat \<Rightarrow> nat \<Rightarrow> nat \<Rightarrow> addr \<Rightarrow> nat \<Rightarrow> heap_state \<Rightarrow>
   (addr \<times> heap_state) outcome option" where
  "Heap_Reallocate mm tm fFile File Line ptr bytes s =
     (let head = sub32 ptr sizeof_tHeapHead;
          newSize = Heap_int_GetBlockSize bytes in
      if ptr = 0 then Heap_Allocate mm tm File Line bytes s
      else if \<not> Heap_IsHeapAddr ptr s then Some (Ret (0, s))
      else if newSize \<le> head_Size (mem s) head then Some (Ret (ptr, s))
      else obind (Heap_Validate s) (\<lambda>s.
        let s = Heap_int_WatchBlock head False s;
            m = mem s;
            nextHead = Heap_NextHead m head in
        if head_Magic m nextHead = MAGIC_FREE \<and> u32 (head_Size m nextHead + head_Size m head) \<ge> newSize
        then Some (Ret (ptr, upd_mem (realloc_up File Line bytes newSize head nextHead) s))
        else
          (let nextHead = foot_Head m (Heap_PrevFoot head) in
           if head_Magic m nextHead = MAGIC_FREE \<and> u32 (head_Size m nextHead + head_Size m head) \<ge> newSize
           then Some (Ret (head_Data nextHead,
                  upd_mem (realloc_down File Line bytes newSize ptr head nextHead) s))
           else realloc_move mm tm fFile File Line bytes ptr head s)))"

end
