(* ===== verification/Allocator.thy ===== *)
theory Allocator
  imports Prelude
begin

text \<open>
  The contract of a memory allocator, as the callers of \<open>malloc\<close> and \<open>free\<close> in the kernel rely on
  it. A state has a set of regions handed out, given by start address and capacity. \<open>Heap_Contract\<close>
  interprets the contract on the routines of \<open>heap.c\<close>; \<open>Libc_String\<close> and \<open>Messages\<close> are clients.
\<close>

text \<open>Two memories agree on the regions of a set.\<close>

definition keeps :: "memory \<Rightarrow> memory \<Rightarrow> (addr \<times> nat) set \<Rightarrow> bool" where
  "keeps m m' L \<longleftrightarrow> (\<forall>(p, n) \<in> L. \<forall>x. p \<le> x \<and> x < p + n \<longrightarrow> m' x = m x)"

lemma keeps_trans: "keeps m m' L \<Longrightarrow> keeps m' m'' L \<Longrightarrow> keeps m m'' L"
  by (fastforce simp: keeps_def)

lemma keeps_subset: "keeps m m' L \<Longrightarrow> L' \<subseteq> L \<Longrightarrow> keeps m m' L'"
  by (auto simp: keeps_def)

lemma keeps_refl [simp]: "keeps m m L"
  by (simp add: keeps_def)

lemma keepsD: "keeps m m' L \<Longrightarrow> (p, n) \<in> L \<Longrightarrow> p \<le> x \<Longrightarrow> x < p + n \<Longrightarrow> m' x = m x"
  by (auto simp: keeps_def)

locale allocator =
  fixes ok :: "'s \<Rightarrow> bool"
    and regions :: "'s \<Rightarrow> (addr \<times> nat) set"
    and memory_of :: "'s \<Rightarrow> memory"
    and put_memory :: "memory \<Rightarrow> 's \<Rightarrow> 's"
    and alloc :: "nat \<Rightarrow> 's \<Rightarrow> (addr \<times> 's) outcome option"
    and dealloc :: "addr \<Rightarrow> 's \<Rightarrow> 's outcome"
    and limit :: nat
  assumes alloc_returns: "ok s \<Longrightarrow> 0 < n \<Longrightarrow> n < limit \<Longrightarrow> \<exists>r s'. alloc n s = Some (Ret (r, s'))"
    and alloc_ok: "ok s \<Longrightarrow> 0 < n \<Longrightarrow> n < limit \<Longrightarrow> alloc n s = Some (Ret (r, s')) \<Longrightarrow>
      ok s' \<and> keeps (memory_of s) (memory_of s') (regions s)"
    and alloc_failed: "ok s \<Longrightarrow> 0 < n \<Longrightarrow> n < limit \<Longrightarrow> alloc n s = Some (Ret (0, s')) \<Longrightarrow>
      regions s' = regions s"
    and alloc_fresh: "ok s \<Longrightarrow> 0 < n \<Longrightarrow> n < limit \<Longrightarrow> alloc n s = Some (Ret (r, s')) \<Longrightarrow> r \<noteq> 0 \<Longrightarrow>
      \<exists>k \<ge> n. regions s' = insert (r, k) (regions s) \<and>
        (\<forall>(p, j) \<in> regions s. p + j \<le> r \<or> r + k \<le> p)"
    and dealloc_ok: "ok s \<Longrightarrow> (r, k) \<in> regions s \<Longrightarrow>
      \<exists>s'. dealloc r s = Ret s' \<and> ok s' \<and> regions s' = regions s - {(r, k)} \<and>
        keeps (memory_of s) (memory_of s') (regions s - {(r, k)})"
    and put_ok: "ok s \<Longrightarrow> (r, k) \<in> regions s \<Longrightarrow>
      (\<forall>x. x < r \<or> r + k \<le> x \<longrightarrow> m' x = memory_of s x) \<Longrightarrow>
      ok (put_memory m' s) \<and> regions (put_memory m' s) = regions s"
    and memory_put: "memory_of (put_memory m' s) = m'"
begin

text \<open>Filling a fresh region: what \<open>calloc\<close> and \<open>strdup\<close> do after the allocation.\<close>

definition alloc_fill :: "nat \<Rightarrow> (addr \<Rightarrow> memory \<Rightarrow> memory) \<Rightarrow> 's \<Rightarrow> (addr \<times> 's) outcome option" where
  "alloc_fill n fill s =
     (case alloc n s of
        Some (Ret (r, s')) \<Rightarrow>
          (if r = 0 then Some (Ret (0, s')) else Some (Ret (r, put_memory (fill r (memory_of s')) s')))
      | Some Panicked \<Rightarrow> Some Panicked
      | None \<Rightarrow> None)"

lemma alloc_fill_spec:
  assumes "ok s" "0 < n" "n < limit"
    and fill: "\<And>r m x. x < r \<or> r + n \<le> x \<Longrightarrow> fill r m x = m x"
  obtains (failed) s' where "alloc_fill n fill s = Some (Ret (0, s'))" "ok s'" "regions s' = regions s"
      "keeps (memory_of s) (memory_of s') (regions s)"
  | (filled) r s' k s1 where "alloc_fill n fill s = Some (Ret (r, s'))" "r \<noteq> 0" "ok s'" "n \<le> k"
      "regions s' = insert (r, k) (regions s)" "\<forall>(p, j) \<in> regions s. p + j \<le> r \<or> r + k \<le> p"
      "keeps (memory_of s) (memory_of s1) (regions s)"
      "memory_of s' = fill r (memory_of s1)" "keeps (memory_of s) (memory_of s') (regions s)"
proof -
  from alloc_returns [OF assms(1-3)] obtain r s1 where a: "alloc n s = Some (Ret (r, s1))" by blast
  note ok1 = alloc_ok [OF assms(1-3) a]
  show thesis
  proof (cases "r = 0")
    case True
    with a alloc_failed [OF assms(1-3)] ok1 show thesis by (intro failed [of s1]) (auto simp: alloc_fill_def)
  next
    case False
    from alloc_fresh [OF assms(1-3) a False] obtain k where
      k: "n \<le> k" "regions s1 = insert (r, k) (regions s)" "\<forall>(p, j) \<in> regions s. p + j \<le> r \<or> r + k \<le> p"
      by blast
    define m' where "m' = fill r (memory_of s1)"
    have put: "ok (put_memory m' s1) \<and> regions (put_memory m' s1) = regions s1"
      using put_ok [of s1 r k m'] ok1 k fill by (simp add: m'_def)
    have "keeps (memory_of s1) m' (regions s)"
      unfolding keeps_def m'_def using k(1,3) by (fastforce intro: fill)
    then have "keeps (memory_of s) m' (regions s)" using ok1 keeps_trans by blast
    then show thesis
      using a False put k ok1
      by (intro filled [of r "put_memory m' s1" k s1]) (auto simp: alloc_fill_def memory_put m'_def)
  qed
qed

text \<open>A region handed out keeps its contents through any number of calls by the other owners.\<close>

lemma others_keep:
  assumes "ok s" "(p, j) \<in> regions s" "p \<le> x" "x < p + j"
  shows "0 < n \<Longrightarrow> n < limit \<Longrightarrow> alloc n s = Some (Ret (r, s')) \<Longrightarrow> memory_of s' x = memory_of s x"
    and "(r, k) \<in> regions s \<Longrightarrow> (r, k) \<noteq> (p, j) \<Longrightarrow> dealloc r s = Ret s' \<Longrightarrow> memory_of s' x = memory_of s x"
proof -
  show "0 < n \<Longrightarrow> n < limit \<Longrightarrow> alloc n s = Some (Ret (r, s')) \<Longrightarrow> memory_of s' x = memory_of s x"
    using alloc_ok assms keepsD by blast
  show "(r, k) \<in> regions s \<Longrightarrow> (r, k) \<noteq> (p, j) \<Longrightarrow> dealloc r s = Ret s' \<Longrightarrow> memory_of s' x = memory_of s x"
    using dealloc_ok [OF assms(1), of r k] assms keepsD [of "memory_of s" "memory_of s'" "regions s - {(r, k)}" p j x]
    by auto
qed

text \<open>Allocating and freeing again restores the set of regions.\<close>

lemma alloc_dealloc:
  assumes "ok s" "0 < n" "n < limit" "alloc n s = Some (Ret (r, s1))" "r \<noteq> 0"
  shows "\<exists>s2. dealloc r s1 = Ret s2 \<and> ok s2 \<and> regions s2 = regions s \<and>
    keeps (memory_of s) (memory_of s2) (regions s)"
proof -
  note ok1 = alloc_ok [OF assms(1-4)]
  from alloc_fresh [OF assms] obtain k where k: "n \<le> k" "regions s1 = insert (r, k) (regions s)"
    "\<forall>(p, j) \<in> regions s. p + j \<le> r \<or> r + k \<le> p" by blast
  have new: "(r, k) \<notin> regions s" using k(1,3) assms(2) by force
  from dealloc_ok [of s1 r k] ok1 k obtain s2 where
    "dealloc r s1 = Ret s2" "ok s2" "regions s2 = regions s1 - {(r, k)}"
    "keeps (memory_of s1) (memory_of s2) (regions s1 - {(r, k)})" by auto
  moreover have "regions s1 - {(r, k)} = regions s" using k new by auto
  ultimately show ?thesis using ok1 keeps_trans by metis
qed

end

end
