(* ===== verification/Heap_Invariant.thy ===== *)
theory Heap_Invariant
  imports Kernel_Heap Allocator
begin

text \<open>
  The block structure of a well-formed heap: a list of (size, used) pairs that tiles the memory
  between \<open>gHeapStart\<close> and \<open>gHeapEnd\<close>, with the header and the footer of each block in
  place. The lemmas here are the frame rules (a change inside one run of blocks leaves the others
  alone) and what reading and merging blocks does; \<open>Heap_Correct\<close> puts the routines together.
\<close>

section \<open>Tiled memory\<close>

type_synonym block = "nat \<times> bool"

definition block_at :: "memory \<Rightarrow> addr \<Rightarrow> nat \<Rightarrow> bool \<Rightarrow> bool" where
  "block_at m a sz u \<longleftrightarrow>
     head_Size m a = sz \<and> head_Magic m a = (if u then MAGIC_USED else MAGIC_FREE) \<and>
     foot_Head m (a + sz - 8) = a \<and> foot_Magic m (a + sz - 8) = MAGIC_FOOT \<and>
     32 dvd sz \<and> (if u then 64 else 32) \<le> sz"

fun tiled :: "memory \<Rightarrow> addr \<Rightarrow> block list \<Rightarrow> addr \<Rightarrow> bool" where
  "tiled m a [] e = (a = e)"
| "tiled m a ((sz, u) # bs) e = (block_at m a sz u \<and> tiled m (a + sz) bs e)"

definition span :: "block list \<Rightarrow> nat" where
  "span bs = sum_list (map fst bs)"

text \<open>The blocks in use, by header address and size.\<close>

fun live :: "addr \<Rightarrow> block list \<Rightarrow> (addr \<times> nat) set" where
  "live a [] = {}"
| "live a ((sz, u) # bs) = (if u then {(a, sz)} else {}) \<union> live (a + sz) bs"

fun no_adjacent_free :: "block list \<Rightarrow> bool" where
  "no_adjacent_free (x # y # r) = ((snd x \<or> snd y) \<and> no_adjacent_free (y # r))"
| "no_adjacent_free _ = True"

definition heap_inv :: "heap_state \<Rightarrow> block list \<Rightarrow> bool" where
  "heap_inv s bs \<longleftrightarrow>
     gHeapStart s = MM_KHEAP_BASE \<and> tiled (mem s) (gHeapStart s) bs (gHeapEnd s) \<and>
     gHeapEnd s \<le> MM_KHEAP_MAX \<and> 4096 dvd gHeapEnd s \<and> no_adjacent_free bs \<and>
     \<not> in_heap_dump s"

lemma span_simps [simp]:
  "span [] = 0" "span (b # bs) = fst b + span bs" "span (xs @ ys) = span xs + span ys"
  by (simp_all add: span_def)

lemma tiled_append:
  "tiled m a (xs @ ys) e \<longleftrightarrow> tiled m a xs (a + span xs) \<and> tiled m (a + span xs) ys e"
  by (induction m a xs e rule: tiled.induct) (auto simp: add.assoc)

lemma tiled_end: "tiled m a bs e \<Longrightarrow> e = a + span bs"
  by (induction m a bs e rule: tiled.induct) auto

lemma live_append [simp]: "live a (xs @ ys) = live a xs \<union> live (a + span xs) ys"
  by (induction a xs rule: live.induct) (auto simp: add.assoc)

lemma live_bounds: "(p, n) \<in> live a bs \<Longrightarrow> a \<le> p \<and> p + n \<le> a + span bs"
  by (induction a bs rule: live.induct) (auto split: if_splits)

lemma live_block: "tiled m a bs e \<Longrightarrow> (p, n) \<in> live a bs \<Longrightarrow> block_at m p n True"
  by (induction m a bs e rule: tiled.induct) (auto split: if_splits)

lemma live_split:
  "(p, n) \<in> live a bs \<Longrightarrow> \<exists>xs ys. bs = xs @ (n, True) # ys \<and> p = a + span xs"
proof (induction a bs rule: live.induct)
  case (2 a sz u bs)
  show ?case
  proof (cases "u \<and> (p, n) = (a, sz)")
    case True
    then have "(sz, u) # bs = [] @ (n, True) # bs \<and> p = a + span []" by simp
    then show ?thesis by blast
  next
    case False
    with "2.prems" have "(p, n) \<in> live (a + sz) bs" by (auto split: if_splits)
    from "2.IH" [OF this] obtain xs ys where "bs = xs @ (n, True) # ys" "p = a + sz + span xs"
      by blast
    then have "(sz, u) # bs = ((sz, u) # xs) @ (n, True) # ys \<and> p = a + span ((sz, u) # xs)"
      by simp
    then show ?thesis by blast
  qed
qed simp

lemma live_disjoint:
  assumes "(p, n) \<in> live a bs" and "(q, k) \<in> live a bs" and "(p, n) \<noteq> (q, k)"
    and "tiled m a bs e"
  shows "p + n \<le> q \<or> q + k \<le> p"
  using assms
proof (induction m a bs e rule: tiled.induct)
  case (2 m a sz u bs e)
  then show ?case
    using live_bounds [of p n "a + sz" bs] live_bounds [of q k "a + sz" bs]
    by (auto split: if_splits)
qed simp

section \<open>Frames\<close>

definition same_outside :: "memory \<Rightarrow> memory \<Rightarrow> addr \<Rightarrow> addr \<Rightarrow> bool" where
  "same_outside m m' lo hi \<longleftrightarrow> (\<forall>x. x < lo \<or> hi \<le> x \<longrightarrow> m' x = m x)"

lemma same_outside_refl [simp]: "same_outside m m lo hi"
  by (simp add: same_outside_def)

lemma same_outside_trans:
  "same_outside m m' lo hi \<Longrightarrow> same_outside m' m'' lo hi \<Longrightarrow> same_outside m m'' lo hi"
  by (auto simp: same_outside_def)

lemma same_outside_mono:
  "same_outside m m' lo hi \<Longrightarrow> lo' \<le> lo \<Longrightarrow> hi \<le> hi' \<Longrightarrow> same_outside m m' lo' hi'"
  by (auto simp: same_outside_def)

lemma same_outside_wr32:
  "same_outside m m' lo hi \<Longrightarrow> lo \<le> a \<Longrightarrow> a + 4 \<le> hi \<Longrightarrow> same_outside m (wr32 m' a v) lo hi"
  by (auto simp: same_outside_def mem_simps)

lemma block_at_frame:
  assumes "same_outside m m' lo hi" and "a + sz \<le> lo \<or> hi \<le> a"
  shows "block_at m a sz u \<Longrightarrow> block_at m' a sz u"
proof -
  assume b: "block_at m a sz u"
  then have sz: "32 \<le> sz" by (auto simp: block_at_def split: if_splits)
  have "rd32 m' x = rd32 m x" if "a \<le> x" "x + 4 \<le> a + sz" for x
    using assms that by (intro rd32_cong) (auto simp: same_outside_def)
  from this [of a] this [of "a + 16"] this [of "a + sz - 8"] this [of "a + sz - 8 + 4"] sz b
  show ?thesis
    by (simp add: block_at_def head_Size_def head_Magic_def foot_Head_def foot_Magic_def)
qed

lemma tiled_frame:
  "same_outside m m' lo hi \<Longrightarrow> a + span bs \<le> lo \<or> hi \<le> a \<Longrightarrow> tiled m a bs e \<Longrightarrow> tiled m' a bs e"
  by (induction m a bs e rule: tiled.induct) (auto intro: block_at_frame)

text \<open>Replacing a run of blocks by another run of the same total size.\<close>

lemma tiled_replace:
  assumes t: "tiled m a (xs @ mid @ ys) e"
    and s: "same_outside m m' (a + span xs) (a + span xs + span mid)"
    and t': "tiled m' (a + span xs) mid' (a + span xs + span mid)"
  shows "tiled m' a (xs @ mid' @ ys) e"
proof -
  have eq: "span mid' = span mid"
    using tiled_end [OF t'] by simp
  have "tiled m' a xs (a + span xs)"
    by (rule tiled_frame [OF s]) (use t in \<open>auto simp: tiled_append\<close>)
  moreover have "tiled m' (a + span xs + span mid) ys e"
    by (rule tiled_frame [OF s]) (use t in \<open>auto simp: tiled_append\<close>)
  ultimately show ?thesis
    using t' by (simp add: tiled_append eq)
qed

section \<open>Reading blocks\<close>

lemmas field_defs = head_Size_def head_ValidSize_def head_File_def head_Line_def head_Magic_def
  foot_Magic_def foot_Head_def set_Size_def set_ValidSize_def set_File_def set_Line_def
  set_Magic_def set_AllocateTime_def set_foot_Magic_def set_foot_Head_def

lemma magic_facts [simp]:
  "MAGIC_FREE \<noteq> MAGIC_USED" "MAGIC_USED \<noteq> MAGIC_FREE" "MAGIC_FREE \<noteq> 0" "MAGIC_USED \<noteq> 0"
  "MAGIC_FOOT < two32" "MAGIC_FREE < two32" "MAGIC_USED < two32"
  by (simp_all add: MAGIC_FREE_def MAGIC_USED_def MAGIC_FOOT_def)

lemma block_at_size: "block_at m a sz u \<Longrightarrow> 32 \<le> sz \<and> 32 dvd sz \<and> head_Size m a = sz"
  by (auto simp: block_at_def split: if_splits)

lemma block_next:
  "block_at m a sz u \<Longrightarrow> a + sz < two32 \<Longrightarrow> Heap_NextHead m a = a + sz"
  by (simp add: Heap_NextHead_def block_at_def u32_id)

lemma block_foot:
  "block_at m a sz u \<Longrightarrow> a + sz < two32 \<Longrightarrow> Heap_ThisFoot m a = a + sz - 8"
  using block_at_size [of m a sz u]
  by (simp add: Heap_ThisFoot_def u32_id sub32_id sizeof_tHeapFoot_def)

text \<open>A block is in place once its four words are.\<close>

lemma block_atI:
  assumes "rd32 m a = sz" and "rd32 m (a + 16) = (if u then MAGIC_USED else MAGIC_FREE)"
    and "f + 8 = a + sz" and "rd32 m f = MAGIC_FOOT" and "rd32 m (f + 4) = a"
    and "32 dvd sz" and "(if u then 64 else 32) \<le> sz"
  shows "block_at m a sz u"
proof -
  from assms(3) have "a + sz - 8 = f" by linarith
  with assms show ?thesis by (simp add: block_at_def field_defs)
qed

lemma block_atD:
  assumes "block_at m a sz u"
  obtains f where "rd32 m a = sz" and "rd32 m (a + 16) = (if u then MAGIC_USED else MAGIC_FREE)"
    and "f + 8 = a + sz" and "rd32 m f = MAGIC_FOOT" and "rd32 m (f + 4) = a"
    and "32 dvd sz" and "(if u then 64 else 32) \<le> sz" and "a + sz - 8 = f" and "32 \<le> sz"
proof -
  have "32 \<le> sz" using block_at_size [OF assms] by simp
  then have "a + sz - 8 + 8 = a + sz" by linarith
  then show thesis
    using that [of "a + sz - 8"] assms \<open>32 \<le> sz\<close> by (auto simp: block_at_def field_defs)
qed

section \<open>The walks over a well-formed heap\<close>

lemma validate_walk_tiled:
  "tiled m a bs e \<Longrightarrow> e < two32 \<Longrightarrow> validate_walk m e a = Some e"
proof (induction m a bs e rule: tiled.induct)
  case (1 m a e)
  then show ?case by (subst validate_walk.simps) simp
next
  case (2 m a sz u bs e)
  from "2.prems" have b: "block_at m a sz u" and t: "tiled m (a + sz) bs e" by auto
  have e: "e = a + sz + span bs" using tiled_end [OF t] .
  have sz: "32 \<le> sz" "32 dvd sz" "head_Size m a = sz" using block_at_size [OF b] by auto
  have foot: "Heap_ThisFoot m a = a + sz - 8"
    using b e "2.prems"(2) by (intro block_foot) auto
  have "u32 (a + sz - 8 + 8) = a + sz"
    using sz e "2.prems"(2) by (simp add: u32_id)
  then have "validate_walk m e a = validate_walk m e (a + sz)"
    using b sz e "2.prems"(2)
    by (subst validate_walk.simps)
      (auto simp: foot Let_def MIN_SIZE_def block_at_def sizeof_tHeapFoot_def)
  with "2.IH" [OF t "2.prems"(2)] show ?case by simp
qed

text \<open>The traversal of \<open>Heap_Allocate\<close> on the list of blocks.\<close>

fun best_fit :: "nat \<Rightarrow> addr \<Rightarrow> block list \<Rightarrow> addr \<Rightarrow> nat \<Rightarrow> fit" where
  "best_fit B a [] best n = BestFit best"
| "best_fit B a ((sz, u) # bs) best n =
     (if u \<or> sz < B then best_fit B (a + sz) bs best n
      else if sz = B then PerfectFit a
      else if n > sz then best_fit B (a + sz) bs a sz
      else best_fit B (a + sz) bs best n)"

lemma search_fit_tiled:
  "tiled m a bs e \<Longrightarrow> e < two32 \<Longrightarrow> span bs \<le> 0x80000000 \<Longrightarrow>
   search_fit m e B a best n = Some (best_fit B a bs best n)"
proof (induction m a bs e arbitrary: best n rule: tiled.induct)
  case (1 m a e)
  then show ?case by (subst search_fit.simps) simp
next
  case (2 m a sz u bs e)
  from "2.prems" have b: "block_at m a sz u" and t: "tiled m (a + sz) bs e" by auto
  have e: "e = a + sz + span bs" using tiled_end [OF t] .
  have sz: "32 \<le> sz" "sz mod 32 = 0" "head_Size m a = sz" "sz \<le> 0x80000000" "a < e"
    using block_at_size [OF b] "2.prems"(3) e by auto
  have nxt: "Heap_NextHead m a = a + sz"
    using b e "2.prems"(2) by (intro block_next) auto
  have mg: "head_Magic m a = (if u then MAGIC_USED else MAGIC_FREE)"
    using b by (simp add: block_at_def)
  have IH: "search_fit m e B (a + sz) best n = Some (best_fit B (a + sz) bs best n)" for best n
    using "2.prems" t by (intro "2.IH") auto
  show ?case
    using sz mg by (subst search_fit.simps) (simp add: nxt IH MIN_SIZE_def)
qed

lemma best_fit_perfect:
  "best_fit B a bs best n = PerfectFit h \<Longrightarrow>
   \<exists>xs ys. bs = xs @ (B, False) # ys \<and> h = a + span xs"
proof (induction B a bs best n rule: best_fit.induct)
  case (2 B a sz u bs best n)
  show ?case
  proof (cases "\<not> u \<and> sz = B")
    case True
    with "2.prems" have "(sz, u) # bs = [] @ (B, False) # bs \<and> h = a + span []" by simp
    then show ?thesis by blast
  next
    case False
    with "2" have "\<exists>xs ys. bs = xs @ (B, False) # ys \<and> h = a + sz + span xs"
      by (auto split: if_splits)
    then obtain xs ys where "bs = xs @ (B, False) # ys" "h = a + sz + span xs" by blast
    then have "(sz, u) # bs = ((sz, u) # xs) @ (B, False) # ys \<and> h = a + span ((sz, u) # xs)"
      by simp
    then show ?thesis by blast
  qed
qed simp

text \<open>
  The block chosen otherwise is the smallest free block that is larger than the request; the
  candidate carried along is only replaced by a smaller one.
\<close>

definition picked :: "nat \<Rightarrow> addr \<Rightarrow> block list \<Rightarrow> nat \<Rightarrow> addr \<Rightarrow> bool" where
  "picked B a bs n h \<longleftrightarrow>
     (\<exists>xs sz ys. bs = xs @ (sz, False) # ys \<and> h = a + span xs \<and> B < sz \<and> sz < n \<and>
        (\<forall>k. (k, False) \<in> set bs \<and> B \<le> k \<longrightarrow> sz \<le> k))"

lemma picked_Cons:
  assumes "picked B (a + sz) bs n' h" and "u \<or> sz < B \<or> n' \<le> sz" and "n' \<le> n"
  shows "picked B a ((sz, u) # bs) n h"
proof -
  from assms(1) obtain xs k ys where k: "bs = xs @ (k, False) # ys" "h = a + sz + span xs" "B < k"
      "k < n'" "\<forall>j. (j, False) \<in> set bs \<and> B \<le> j \<longrightarrow> k \<le> j"
    unfolding picked_def by blast
  then have "(sz, u) # bs = ((sz, u) # xs) @ (k, False) # ys" "h = a + span ((sz, u) # xs)" "k < n"
    using assms(3) by simp_all
  moreover have "\<forall>j. (j, False) \<in> set ((sz, u) # bs) \<and> B \<le> j \<longrightarrow> k \<le> j"
    using k assms(2) by auto
  ultimately show ?thesis unfolding picked_def using k(3) by blast
qed

lemma best_fit_best:
  "best_fit B a bs best n = BestFit h \<Longrightarrow>
   (h = best \<and> (\<forall>k. (k, False) \<in> set bs \<and> B \<le> k \<longrightarrow> n \<le> k)) \<or> picked B a bs n h"
proof (induction B a bs best n rule: best_fit.induct)
  case (2 B a sz u bs best n)
  consider (skip) "u \<or> sz < B" | (keep) "\<not> u" "B < sz" "n \<le> sz" | (pick) "\<not> u" "B < sz" "sz < n"
    using "2.prems" by (auto split: if_splits)
  then show ?case
  proof cases
    case skip
    with "2.prems" have "best_fit B (a + sz) bs best n = BestFit h" by simp
    from "2.IH"(1) [OF skip this] skip show ?thesis
      by (auto intro: picked_Cons)
  next
    case keep
    with "2.prems" have "best_fit B (a + sz) bs best n = BestFit h" by simp
    with "2.IH"(3) keep show ?thesis
      by (auto intro: picked_Cons)
  next
    case pick
    with "2.prems" have "best_fit B (a + sz) bs a sz = BestFit h" by simp
    with "2.IH"(2) pick
    have "(h = a \<and> (\<forall>k. (k, False) \<in> set bs \<and> B \<le> k \<longrightarrow> sz \<le> k)) \<or> picked B (a + sz) bs sz h"
      by auto
    then show ?thesis
    proof
      assume "h = a \<and> (\<forall>k. (k, False) \<in> set bs \<and> B \<le> k \<longrightarrow> sz \<le> k)"
      with pick have "(sz, u) # bs = [] @ (sz, False) # bs \<and> h = a + span [] \<and> B < sz \<and> sz < n \<and>
        (\<forall>k. (k, False) \<in> set ((sz, u) # bs) \<and> B \<le> k \<longrightarrow> sz \<le> k)" by auto
      then show ?thesis unfolding picked_def by blast
    next
      assume "picked B (a + sz) bs sz h"
      with pick show ?thesis by (auto intro: picked_Cons)
    qed
  qed
qed simp

section \<open>Merging free neighbours\<close>

lemma merge_left_free:
  assumes p: "block_at (mem s) p psz False" and h: "block_at (mem s) (p + psz) sz False"
    and hi: "p + psz + sz < two32" and lo: "gHeapStart s < p + psz"
  shows "\<exists>m'. merge_left (p + psz) s = (p, s\<lparr>mem := m'\<rparr>) \<and> block_at m' p (psz + sz) False \<and>
     same_outside (mem s) m' p (p + psz + sz)"
proof -
  define m where "m = mem s"
  from p obtain f where f: "rd32 m p = psz" "rd32 m (p + 16) = MAGIC_FREE" "f + 8 = p + psz"
      "rd32 m (f + 4) = p" "32 dvd psz" "32 \<le> psz"
    unfolding m_def by (elim block_atD) simp
  from h obtain g where g: "rd32 m (p + psz) = sz" "g + 8 = p + psz + sz" "rd32 m g = MAGIC_FOOT"
      "32 dvd sz" "32 \<le> sz"
    unfolding m_def by (elim block_atD) simp
  define m1 where "m1 = wr32 m p (psz + sz)"
  define m2 where "m2 = wr32 m1 (g + 4) p"
  define m3 where "m3 = wr32 m2 (p + psz + 16) 0"
  define m4 where "m4 = wr32 m3 (p + psz) 0"
  define m5 where "m5 = wr32 m4 (f + 4) 0"
  define m6 where "m6 = wr32 m5 f 0"
  note ms = m1_def m2_def m3_def m4_def m5_def m6_def
  have foot: "Heap_ThisFoot m (p + psz) = g"
    using block_foot [OF h hi] g(2) unfolding m_def by linarith
  have prev: "Heap_PrevFoot (p + psz) = f"
    using f(3) hi by (simp add: Heap_PrevFoot_def sizeof_tHeapFoot_def sub32_id)
  have link: "rd32 m1 (f + 4) = p" "rd32 m4 (f + 4) = p"
    using f g by (simp_all add: ms mem_simps)
  have sz: "u32 (psz + sz) = psz + sz" using hi by (simp add: u32_id)
  have eq: "merge_left (p + psz) s = (p, s\<lparr>mem := m6\<rparr>)"
    using lo f(1,2,4) g(1) link unfolding merge_left_def m_def [symmetric]
    by (simp add: Let_def foot prev field_defs sz flip: ms)
  have "block_at m6 p (psz + sz) False"
  proof (rule block_atI [where f = g])
    show "rd32 m6 p = psz + sz" using f g hi by (simp add: ms mem_simps)
    show "rd32 m6 (p + 16) = (if False then MAGIC_USED else MAGIC_FREE)"
      using f g by (simp add: ms mem_simps)
    show "rd32 m6 g = MAGIC_FOOT" using f g by (simp add: ms mem_simps)
    show "rd32 m6 (g + 4) = p" using f g hi by (simp add: ms mem_simps)
  qed (use f g in auto)
  moreover have "same_outside m m6 p (p + psz + sz)"
    unfolding ms using f g by (intro same_outside_wr32 same_outside_refl) auto
  ultimately show ?thesis using eq unfolding m_def by blast
qed

lemma merge_right_free:
  assumes h: "block_at (mem s) h sz False" and n: "block_at (mem s) (h + sz) nsz False"
    and hi: "h + sz + nsz < two32" and lo: "h + sz < gHeapEnd s"
  shows "\<exists>m'. merge_right (h + sz - 8) h s = s\<lparr>mem := m'\<rparr> \<and> block_at m' h (sz + nsz) False \<and>
     same_outside (mem s) m' h (h + sz + nsz)"
proof -
  define m where "m = mem s"
  from h obtain f where f: "rd32 m h = sz" "rd32 m (h + 16) = MAGIC_FREE" "f + 8 = h + sz"
      "h + sz - 8 = f" "32 dvd sz" "32 \<le> sz"
    unfolding m_def by (elim block_atD) simp
  from n obtain g where g: "rd32 m (h + sz) = nsz" "rd32 m (h + sz + 16) = MAGIC_FREE"
      "g + 8 = h + sz + nsz" "rd32 m g = MAGIC_FOOT" "32 dvd nsz" "32 \<le> nsz"
    unfolding m_def by (elim block_atD) simp
  define m1 where "m1 = wr32 m h (sz + nsz)"
  define m2 where "m2 = wr32 m1 (g + 4) h"
  define m3 where "m3 = wr32 m2 (f + 4) 0"
  define m4 where "m4 = wr32 m3 f 0"
  define m5 where "m5 = wr32 m4 (h + sz) 0"
  define m6 where "m6 = wr32 m5 (h + sz + 16) 0"
  note ms = m1_def m2_def m3_def m4_def m5_def m6_def
  have nxt: "Heap_NextHead m h = h + sz"
    using block_next [OF h] hi unfolding m_def by simp
  have sz: "u32 (sz + nsz) = sz + nsz" using hi by (simp add: u32_id)
  have "rd32 m1 h = sz + nsz" using hi by (simp add: m1_def mem_simps)
  then have foot: "Heap_ThisFoot m1 h = g"
    using g(3) hi by (simp add: Heap_ThisFoot_def head_Size_def u32_id sub32_id sizeof_tHeapFoot_def)
  have eq: "merge_right (h + sz - 8) h s = s\<lparr>mem := m6\<rparr>"
    using lo f(1) g(1,2) foot unfolding merge_right_def m_def [symmetric] f(4)
    by (simp add: Let_def nxt field_defs sz flip: ms)
  have "block_at m6 h (sz + nsz) False"
  proof (rule block_atI [where f = g])
    show "rd32 m6 h = sz + nsz" using f g hi by (simp add: ms mem_simps)
    show "rd32 m6 (h + 16) = (if False then MAGIC_USED else MAGIC_FREE)"
      using f g by (simp add: ms mem_simps)
    show "rd32 m6 g = MAGIC_FOOT" using f g by (simp add: ms mem_simps)
    show "rd32 m6 (g + 4) = h" using f g hi by (simp add: ms mem_simps)
  qed (use f g in auto)
  moreover have "same_outside m m6 h (h + sz + nsz)"
    unfolding ms using f g by (intro same_outside_wr32 same_outside_refl) auto
  ultimately show ?thesis using eq unfolding m_def by blast
qed

lemma merge_left_used:
  assumes p: "block_at (mem s) p psz True" and hi: "p + psz < two32"
  shows "merge_left (p + psz) s = (p + psz, s)"
proof -
  from p obtain f where f: "rd32 (mem s) (p + 16) = MAGIC_USED" "f + 8 = p + psz"
      "rd32 (mem s) (f + 4) = p"
    by (elim block_atD) simp
  have "Heap_PrevFoot (p + psz) = f"
    using f(2) hi by (simp add: Heap_PrevFoot_def sizeof_tHeapFoot_def sub32_id)
  with f show ?thesis by (simp add: merge_left_def Let_def field_defs)
qed

lemma merge_right_used:
  assumes h: "block_at (mem s) h sz u" and hi: "h + sz < two32"
    and n: "h + sz < gHeapEnd s \<Longrightarrow> block_at (mem s) (h + sz) nsz True"
  shows "merge_right g h s = s"
  using block_next [OF h hi] n
  by (auto simp: merge_right_def Let_def block_at_def)

text \<open>What merging does to the list of blocks around a freed block of size \<open>sz\<close>.\<close>

fun coalesce_left :: "block list \<Rightarrow> nat \<Rightarrow> block list \<times> nat" where
  "coalesce_left xs sz =
     (if xs \<noteq> [] \<and> \<not> snd (last xs) then (butlast xs, fst (last xs) + sz) else (xs, sz))"

fun coalesce_right :: "nat \<Rightarrow> block list \<Rightarrow> nat \<times> block list" where
  "coalesce_right sz ((nsz, False) # ys) = (sz + nsz, ys)"
| "coalesce_right sz ys = (sz, ys)"

definition coalesce :: "block list \<Rightarrow> nat \<Rightarrow> block list \<Rightarrow> block list" where
  "coalesce xs sz ys =
     (let (xs', sz') = coalesce_left xs sz; (sz'', ys') = coalesce_right sz' ys
      in xs' @ (sz'', False) # ys')"

text \<open>A change inside the run \<open>mid\<close> keeps every block in use on either side.\<close>

lemma keeps_outside:
  assumes "same_outside m m' (a + span xs) (a + span xs + n)"
  shows "keeps m m' (live a xs \<union> live (a + span xs + n) ys)"
  unfolding keeps_def
proof (intro ballI, clarify)
  fix p k x
  assume "(p, k) \<in> live a xs \<union> live (a + span xs + n) ys" and x: "p \<le> x" "x < p + k"
  then have "p + k \<le> a + span xs \<or> a + span xs + n \<le> p"
    using live_bounds [of p k a xs] live_bounds [of p k "a + span xs + n" ys] by blast
  with x have "x < a + span xs \<or> a + span xs + n \<le> x" by linarith
  with assms show "m' x = m x" unfolding same_outside_def by blast
qed

lemma merge_left_tiled:
  assumes t: "tiled (mem s) (gHeapStart s) (xs @ (sz, False) # ys) (gHeapEnd s)"
    and hi: "gHeapEnd s < two32" and c: "coalesce_left xs sz = (xs', sz')"
  shows "\<exists>m'. merge_left (gHeapStart s + span xs) s = (gHeapStart s + span xs', s\<lparr>mem := m'\<rparr>) \<and>
     tiled m' (gHeapStart s) (xs' @ (sz', False) # ys) (gHeapEnd s) \<and>
     span xs + sz = span xs' + sz' \<and>
     keeps (mem s) m' (live (gHeapStart s) (xs @ (sz, False) # ys))"
proof (cases "xs \<noteq> [] \<and> \<not> snd (last xs)")
  case True
  then obtain psz where xs: "xs = xs' @ [(psz, False)]" and sz': "sz' = psz + sz"
    using c by (cases xs rule: rev_cases) auto
  define p where "p = gHeapStart s + span xs'"
  have e: "gHeapEnd s = p + psz + sz + span ys"
    using tiled_end [OF t] by (simp add: xs p_def)
  from t have p: "block_at (mem s) p psz False" and h: "block_at (mem s) (p + psz) sz False"
    by (simp_all add: xs tiled_append p_def add.assoc)
  have "gHeapStart s < p + psz" using block_at_size [OF p] by (simp add: p_def)
  with merge_left_free [OF p h] e hi obtain m' where
    m': "merge_left (p + psz) s = (p, s\<lparr>mem := m'\<rparr>)" "block_at m' p (psz + sz) False"
      "same_outside (mem s) m' p (p + psz + sz)" by auto
  have "tiled m' (gHeapStart s) (xs' @ [(psz + sz, False)] @ ys) (gHeapEnd s)"
    by (rule tiled_replace [where m = "mem s" and mid = "[(psz, False), (sz, False)]"])
      (use t m'(2,3) in \<open>simp_all add: xs p_def add.assoc\<close>)
  moreover have "keeps (mem s) m' (live (gHeapStart s) (xs @ (sz, False) # ys))"
    using keeps_outside [of "mem s" m' "gHeapStart s" xs' "psz + sz" ys] m'(3)
    by (simp add: xs p_def add.assoc)
  moreover have "merge_left (gHeapStart s + span xs) s = (gHeapStart s + span xs', s\<lparr>mem := m'\<rparr>)"
    using m'(1) by (simp add: xs p_def add.assoc)
  ultimately show ?thesis
    by (intro exI [of _ m']) (simp add: xs sz')
next
  case False
  with c have xs: "xs' = xs" "sz' = sz" by (auto split: if_splits)
  have "merge_left (gHeapStart s + span xs) s = (gHeapStart s + span xs, s)"
  proof (cases xs rule: rev_cases)
    case Nil
    then show ?thesis by (simp add: merge_left_def Let_def)
  next
    case (snoc xs0 b)
    with False obtain psz where b: "b = (psz, True)" by (cases b) auto
    from t have "block_at (mem s) (gHeapStart s + span xs0) psz True"
      by (simp add: snoc b tiled_append)
    moreover have "gHeapStart s + span xs0 + psz < two32"
      using tiled_end [OF t] hi by (simp add: snoc b)
    ultimately have "merge_left (gHeapStart s + span xs0 + psz) s = (gHeapStart s + span xs0 + psz, s)"
      by (rule merge_left_used)
    then show ?thesis by (simp add: snoc b add.assoc)
  qed
  with t show ?thesis by (intro exI [of _ "mem s"]) (simp add: xs)
qed

lemma merge_right_tiled:
  assumes t: "tiled (mem s) (gHeapStart s) (xs @ (sz, False) # ys) (gHeapEnd s)"
    and hi: "gHeapEnd s < two32" and c: "coalesce_right sz ys = (sz', ys')"
    and h: "h = gHeapStart s + span xs"
  shows "\<exists>m'. merge_right (h + sz - 8) h s = s\<lparr>mem := m'\<rparr> \<and>
     tiled m' (gHeapStart s) (xs @ (sz', False) # ys') (gHeapEnd s) \<and>
     keeps (mem s) m' (live (gHeapStart s) (xs @ (sz, False) # ys))"
proof -
  have e: "gHeapEnd s = h + sz + span ys"
    using tiled_end [OF t] by (simp add: h)
  from t have b: "block_at (mem s) h sz False" and ty: "tiled (mem s) (h + sz) ys (gHeapEnd s)"
    by (simp_all add: tiled_append h)
  show ?thesis
  proof (cases "ys \<noteq> [] \<and> \<not> snd (hd ys)")
    case True
    then obtain nsz where ys: "ys = (nsz, False) # ys'" and sz': "sz' = sz + nsz"
      using c by (cases ys) auto
    from ty have n: "block_at (mem s) (h + sz) nsz False" by (simp add: ys)
    have "h + sz + nsz < two32" "h + sz < gHeapEnd s"
      using e hi block_at_size [OF n] by (simp_all add: ys)
    from merge_right_free [OF b n this] obtain m' where
      m': "merge_right (h + sz - 8) h s = s\<lparr>mem := m'\<rparr>" "block_at m' h (sz + nsz) False"
        "same_outside (mem s) m' h (h + sz + nsz)" by blast
    have "tiled m' (gHeapStart s) (xs @ [(sz + nsz, False)] @ ys') (gHeapEnd s)"
      by (rule tiled_replace [where m = "mem s" and mid = "[(sz, False), (nsz, False)]"])
        (use t m'(2,3) in \<open>simp_all add: ys h add.assoc\<close>)
    moreover have "keeps (mem s) m' (live (gHeapStart s) (xs @ (sz, False) # ys))"
      using keeps_outside [of "mem s" m' "gHeapStart s" xs "sz + nsz" ys'] m'(3)
      by (simp add: ys h add.assoc)
    ultimately show ?thesis
      using m'(1) by (intro exI [of _ m']) (simp add: sz')
  next
    case False
    with c have eq: "sz' = sz" "ys' = ys" by (cases ys; force)+
    have "merge_right (h + sz - 8) h s = s"
    proof (cases ys)
      case Nil
      with b e hi show ?thesis by (intro merge_right_used [where nsz = 0]) auto
    next
      case (Cons y zs)
      with False obtain nsz where y: "y = (nsz, True)" by (cases y) auto
      with b e hi ty Cons show ?thesis by (intro merge_right_used [where nsz = nsz]) auto
    qed
    with t show ?thesis by (intro exI [of _ "mem s"]) (simp add: eq)
  qed
qed

lemma coalesce_eq:
  "coalesce_left xs sz = (xs', sz') \<Longrightarrow> coalesce_right sz' ys = (sz'', ys') \<Longrightarrow>
   coalesce xs sz ys = xs' @ (sz'', False) # ys'"
  by (simp only: coalesce_def Let_def prod.case)

lemma live_coalesce: "live a (coalesce xs sz ys) = live a (xs @ (sz, False) # ys)"
proof -
  obtain xs' sz' where l: "coalesce_left xs sz = (xs', sz')" by fastforce
  obtain sz'' ys' where r: "coalesce_right sz' ys = (sz'', ys')" by fastforce
  have "live a (xs' @ (sz', False) # ys) = live a (xs @ (sz, False) # ys)"
    using l by (cases xs rule: rev_cases) (auto simp: add.assoc split: if_splits)
  moreover have "live a (xs' @ (sz'', False) # ys') = live a (xs' @ (sz', False) # ys)"
    using r by (cases "(sz', ys)" rule: coalesce_right.cases) (auto simp: add.assoc)
  ultimately show ?thesis by (simp only: coalesce_eq [OF l r])
qed

lemma no_adjacent_free_append:
  "no_adjacent_free (xs @ ys) \<longleftrightarrow> no_adjacent_free xs \<and> no_adjacent_free ys \<and>
     (xs \<noteq> [] \<and> ys \<noteq> [] \<longrightarrow> snd (last xs) \<or> snd (hd ys))"
proof (induction xs)
  case (Cons x xs)
  then show ?case by (cases xs; cases ys) auto
qed simp

lemma no_adjacent_free_Cons:
  "no_adjacent_free (x # xs) \<longleftrightarrow> no_adjacent_free xs \<and> (xs \<noteq> [] \<longrightarrow> snd x \<or> snd (hd xs))"
  by (cases xs) auto

lemma no_adjacent_free_coalesce:
  assumes "no_adjacent_free xs" and "no_adjacent_free ys"
  shows "no_adjacent_free (coalesce xs sz ys)"
proof -
  obtain xs' sz' where l: "coalesce_left xs sz = (xs', sz')" by fastforce
  obtain sz'' ys' where r: "coalesce_right sz' ys = (sz'', ys')" by fastforce
  have "no_adjacent_free xs' \<and> (xs' \<noteq> [] \<longrightarrow> snd (last xs'))"
    using l assms(1)
    by (cases xs rule: rev_cases) (auto simp: no_adjacent_free_append split: if_splits)
  moreover have "no_adjacent_free ys' \<and> (ys' \<noteq> [] \<longrightarrow> snd (hd ys'))"
    using r assms(2)
    by (cases "(sz', ys)" rule: coalesce_right.cases) (auto simp: no_adjacent_free_Cons)
  ultimately show ?thesis
    unfolding coalesce_eq [OF l r] by (auto simp: no_adjacent_free_append no_adjacent_free_Cons)
qed

text \<open>\<open>Heap_Merge\<close> implements \<^const>\<open>coalesce\<close> and touches no block in use.\<close>

lemma Heap_Merge_tiled:
  assumes t: "tiled (mem s) (gHeapStart s) (xs @ (sz, False) # ys) (gHeapEnd s)"
    and hi: "gHeapEnd s < two32"
  shows "\<exists>m' xs' sz' ys'.
     Heap_Merge (gHeapStart s + span xs) s = Ret (gHeapStart s + span xs', s\<lparr>mem := m'\<rparr>) \<and>
     coalesce xs sz ys = xs' @ (sz', False) # ys' \<and> sz \<le> sz' \<and>
     tiled m' (gHeapStart s) (coalesce xs sz ys) (gHeapEnd s) \<and>
     keeps (mem s) m' (live (gHeapStart s) (xs @ (sz, False) # ys))"
proof -
  obtain xs' sz' where l: "coalesce_left xs sz = (xs', sz')" by fastforce
  obtain sz'' ys' where r: "coalesce_right sz' ys = (sz'', ys')" by fastforce
  let ?h = "gHeapStart s + span xs"
  from merge_left_tiled [OF t hi l] obtain m1 where
    m1: "merge_left ?h s = (gHeapStart s + span xs', s\<lparr>mem := m1\<rparr>)"
      "tiled m1 (gHeapStart s) (xs' @ (sz', False) # ys) (gHeapEnd s)" "span xs + sz = span xs' + sz'"
      "keeps (mem s) m1 (live (gHeapStart s) (xs @ (sz, False) # ys))" by blast
  have e: "gHeapEnd s = ?h + sz + span ys" using tiled_end [OF t] by simp
  from t have b: "block_at (mem s) ?h sz False" by (simp add: tiled_append)
  have foot: "Heap_ThisFoot (mem s) ?h = gHeapStart s + span xs' + sz' - 8"
    using block_foot [OF b] e hi m1(3) by (simp add: add.assoc)
  have nxt: "Heap_NextHead (mem s) ?h \<le> gHeapEnd s"
    using block_next [OF b] e hi by simp
  from merge_right_tiled [of "s\<lparr>mem := m1\<rparr>" xs' sz' ys sz'' ys', OF _ _ r refl] m1(2) hi obtain m2 where
    m2: "merge_right (gHeapStart s + span xs' + sz' - 8) (gHeapStart s + span xs') (s\<lparr>mem := m1\<rparr>) = s\<lparr>mem := m2\<rparr>"
      "tiled m2 (gHeapStart s) (xs' @ (sz'', False) # ys') (gHeapEnd s)"
      "keeps m1 m2 (live (gHeapStart s) (xs' @ (sz', False) # ys))" by auto
  note c = coalesce_eq [OF l r]
  have "live (gHeapStart s) (xs' @ (sz', False) # ys) = live (gHeapStart s) (xs @ (sz, False) # ys)"
    using l by (cases xs rule: rev_cases) (auto simp: add.assoc split: if_splits)
  then have "keeps (mem s) m2 (live (gHeapStart s) (xs @ (sz, False) # ys))"
    using keeps_trans [OF m1(4)] m2(3) by simp
  moreover have "Heap_Merge ?h s = Ret (gHeapStart s + span xs', s\<lparr>mem := m2\<rparr>)"
    using nxt by (simp add: Heap_Merge_def Let_def foot m1(1) m2(1))
  moreover have "sz \<le> sz''"
    using l r by (cases "(sz', ys)" rule: coalesce_right.cases) (auto split: if_splits)
  ultimately show ?thesis unfolding c using m2(2) by blast
qed

end
