(* ===== verification/Heap_Correct.thy ===== *)
theory Heap_Correct
  imports Heap_Invariant
begin

text \<open>
  Correctness of the routines of \<open>heap.c\<close> over the block structure of \<open>Heap_Invariant\<close>:
  installation, extension, allocation, deallocation and the consistency walk.
\<close>

section \<open>The block list of a heap\<close>

fun walk_blocks :: "nat \<Rightarrow> memory \<Rightarrow> addr \<Rightarrow> addr \<Rightarrow> block list" where
  "walk_blocks 0 m a e = []"
| "walk_blocks (Suc k) m a e =
     (if a < e \<and> head_Size m a \<noteq> 0
      then (head_Size m a, head_Magic m a = MAGIC_USED) # walk_blocks k m (a + head_Size m a) e
      else [])"

definition heap_blocks :: "heap_state \<Rightarrow> block list" where
  "heap_blocks s = walk_blocks ((gHeapEnd s - gHeapStart s) div 32) (mem s) (gHeapStart s) (gHeapEnd s)"

definition heap_ok :: "heap_state \<Rightarrow> bool" where
  "heap_ok s \<longleftrightarrow> heap_inv s (heap_blocks s)"

definition live_blocks :: "heap_state \<Rightarrow> (addr \<times> nat) set" where
  "live_blocks s = live (gHeapStart s) (heap_blocks s)"

lemma walk_blocks_tiled: "tiled m a bs e \<Longrightarrow> (e - a) div 32 \<le> k \<Longrightarrow> walk_blocks k m a e = bs"
proof (induction m a bs e arbitrary: k rule: tiled.induct)
  case (1 m a e)
  then show ?case by (cases k) auto
next
  case (2 m a sz u bs e)
  then have b: "block_at m a sz u" and t: "tiled m (a + sz) bs e" by auto
  have sz: "32 \<le> sz" "head_Size m a = sz" using block_at_size [OF b] by auto
  have e: "e = a + sz + span bs" using tiled_end [OF t] .
  then have "(e - a) div 32 \<ge> (e - (a + sz)) div 32 + 1"
    using sz(1) div_le_mono [of "span bs + 32" "sz + span bs" 32] by simp
  with "2.prems"(2) obtain j where k: "k = Suc j" and j: "(e - (a + sz)) div 32 \<le> j"
    by (cases k) auto
  from "2.IH" [OF t j] sz e b show ?case by (simp add: k block_at_def)
qed

lemma heap_inv_blocks: "heap_inv s bs \<Longrightarrow> heap_blocks s = bs"
  by (auto simp: heap_inv_def heap_blocks_def intro: walk_blocks_tiled)

lemma heap_inv_ok: "heap_inv s bs \<Longrightarrow> heap_ok s \<and> live_blocks s = live (gHeapStart s) bs"
  by (simp add: heap_ok_def live_blocks_def heap_inv_blocks)

lemma heap_inv_start: "heap_inv s bs \<Longrightarrow> gHeapStart s = MM_KHEAP_BASE"
  by (simp add: heap_inv_def)

lemma heap_inv_bounds:
  assumes "heap_inv s bs"
  shows "gHeapEnd s < two32" "gHeapEnd s = gHeapStart s + span bs" "span bs \<le> 0x80000000"
    "gHeapStart s = 3225419776" "gHeapEnd s \<le> 3472883712"
  using assms tiled_end [of "mem s" "gHeapStart s" bs "gHeapEnd s"]
  by (auto simp: heap_inv_def MM_KHEAP_MAX_def MM_KHEAP_BASE_def)

section \<open>The consistency walk never panics on a well-formed heap\<close>

lemma Heap_ValidateDump_tiled:
  assumes "tiled (mem s) (gHeapStart s) bs (gHeapEnd s)" and "gHeapEnd s < two32"
    and "\<not> in_heap_dump s"
  shows "Heap_ValidateDump s = Some (Ret s)"
  using validate_walk_tiled [OF assms(1,2)] assms(3) by (simp add: Heap_ValidateDump_def)

section \<open>Handing out a block\<close>

lemma same_outside_mark_used:
  "same_outside m (mark_used File Line v tm h m) h (h + 28)"
  unfolding mark_used_def Let_def field_defs
  by (intro same_outside_wr32 same_outside_refl) auto

lemma mark_used_block:
  assumes b: "block_at m h sz u" and "64 \<le> sz"
  shows "block_at (mark_used File Line v tm h m) h sz True"
proof -
  from b obtain f where f: "rd32 m h = sz" "f + 8 = h + sz" "rd32 m f = MAGIC_FOOT"
      "rd32 m (f + 4) = h" "32 dvd sz"
    by (elim block_atD) simp
  show ?thesis
    by (rule block_atI [OF _ _ f(2)])
      (use f assms(2) in \<open>simp_all add: mark_used_def Let_def field_defs mem_simps\<close>)
qed

lemma split_block_spec:
  assumes b: "block_at m h sz False" and B: "64 \<le> B" "32 dvd B" "B < sz" and hi: "h + sz < two32"
  shows "block_at (split_block File Line v tm B h m) h B True"
    and "block_at (split_block File Line v tm B h m) (h + B) (sz - B) False"
    and "same_outside m (split_block File Line v tm B h m) h (h + sz)"
    and "v < two32 \<Longrightarrow> head_ValidSize (split_block File Line v tm B h m) h = v"
proof -
  from b obtain g where g: "rd32 m h = sz" "g + 8 = h + sz" "rd32 m g = MAGIC_FOOT" "32 dvd sz"
    by (elim block_atD) simp
  have gap: "32 \<le> sz - B" "32 dvd (sz - B)"
    using B g(4) by (auto intro: dvd_imp_le dvd_diff_nat)
  then have room: "h + B + 32 \<le> g + 8" using g(2) B(3) by linarith
  obtain f where f: "f + 8 = h + B" using B(1) that [of "h + B - 8"] by simp
  define m1 where "m1 = wr32 m h B"
  define m2 where "m2 = wr32 m1 (h + 4) v"
  define m3 where "m3 = wr32 m2 (h + 16) MAGIC_USED"
  define m4 where "m4 = wr32 m3 (h + 8) File"
  define m5 where "m5 = wr32 m4 (h + 12) Line"
  define m6 where "m6 = wr32 (wr32 m5 (h + 20) tm) (h + 24) (tm div two32)"
  define m7 where "m7 = wr32 m6 (f + 4) h"
  define m8 where "m8 = wr32 m7 f MAGIC_FOOT"
  define m9 where "m9 = wr32 m8 (h + B) (sz - B)"
  define m10 where "m10 = wr32 m9 (h + B + 16) MAGIC_FREE"
  define m11 where "m11 = wr32 m10 (h + B + 4) 0"
  define m12 where "m12 = wr32 m11 (h + B + 8) 0"
  define m13 where "m13 = wr32 m12 (h + B + 12) 0"
  define m14 where "m14 = wr32 m13 (g + 4) (h + B)"
  note ms = m1_def m2_def m3_def m4_def m5_def m6_def m7_def m8_def m9_def m10_def m11_def m12_def
    m13_def m14_def
  have lt: "B < two32" "sz - B < two32" "h + B < two32" "sz < two32" "h < two32"
    using hi B(3) by auto
  have "rd32 m6 h = B" using lt by (simp add: ms mem_simps)
  then have foot: "Heap_ThisFoot m6 h = f"
    using f lt by (simp add: Heap_ThisFoot_def head_Size_def u32_id sub32_id sizeof_tHeapFoot_def)
  have "rd32 m8 h = B" using lt f B by (simp add: ms mem_simps)
  then have nxt: "Heap_NextHead m8 h = h + B"
    using lt by (simp add: Heap_NextHead_def head_Size_def u32_id)
  have "rd32 m13 (h + B) = sz - B" using lt f B by (simp add: ms mem_simps)
  then have foot': "Heap_ThisFoot m13 (h + B) = g"
    using g(2) B hi by (simp add: Heap_ThisFoot_def head_Size_def u32_id sub32_id sizeof_tHeapFoot_def)
  have eq: "split_block File Line v tm B h m = m14"
    using B(3) lt unfolding split_block_def Let_def field_defs g(1)
    by (simp add: sub32_id foot nxt foot' flip: ms)
  show "block_at (split_block File Line v tm B h m) h B True"
    unfolding eq
    by (rule block_atI [OF _ _ f]) (use f g B gap lt in \<open>simp_all add: ms mem_simps\<close>)
  have g2: "g + 8 = h + B + (sz - B)" using g B by simp
  show "block_at (split_block File Line v tm B h m) (h + B) (sz - B) False"
    unfolding eq
    by (rule block_atI [OF _ _ g2]) (use f g B gap lt room in \<open>simp_all add: ms mem_simps\<close>)
  show "same_outside m (split_block File Line v tm B h m) h (h + sz)"
    unfolding eq ms using f g B gap by (intro same_outside_wr32 same_outside_refl) auto
  show "head_ValidSize (split_block File Line v tm B h m) h = v" if "v < two32"
    unfolding eq using that f g B gap lt by (simp add: ms head_ValidSize_def mem_simps)
qed

section \<open>Extending the heap\<close>

lemma GetBlockSize_spec:
  assumes "0 < n" and "n < 0x30000000"
  shows "n + 36 \<le> Heap_int_GetBlockSize n" "Heap_int_GetBlockSize n \<le> n + 67"
    "32 dvd Heap_int_GetBlockSize n" "64 \<le> Heap_int_GetBlockSize n"
proof -
  have eq: "Heap_int_GetBlockSize n = align_down 32 (n + 67)"
    using assms by (simp add: Heap_int_GetBlockSize_def MIN_SIZE_def sizeof_tHeapHead_def
      sizeof_tHeapFoot_def u32_id add.commute)
  show lo: "n + 36 \<le> Heap_int_GetBlockSize n"
    using align_down_ge [of 32 "n + 67"] by (simp add: eq)
  show "Heap_int_GetBlockSize n \<le> n + 67" unfolding eq by (rule align_down_le)
  show d: "32 dvd Heap_int_GetBlockSize n" by (simp add: eq)
  from d obtain k where k: "Heap_int_GetBlockSize n = 32 * k" ..
  with lo assms(1) have "2 \<le> k" by simp
  with k show "64 \<le> Heap_int_GetBlockSize n" by simp
qed

lemma extend_arith:
  assumes "0 < B" and "B < 0x30000100" and "e \<le> 3472883712" and "(4096::nat) dvd e"
  defines "P \<equiv> u32 (B + 0xFFF) div 4096"
  shows "u32 (e + 4096 * P) = e + 4096 * P" "align_down 4096 (u32 (B + 0xFFF)) = 4096 * P"
    "0 < P" "B \<le> 4096 * P" "e + 4096 * P < two32"
proof -
  have u: "u32 (B + 0xFFF) = B + 0xFFF" using assms(2) by (simp add: u32_id)
  have split: "B + 0xFFF = (B + 0xFFF) mod 4096 + 4096 * P"
    by (simp only: P_def u div_mod_step)
  have "(B + 0xFFF) mod 4096 < 4096" by simp
  with split show "B \<le> 4096 * P" by linarith
  with assms(1) show "0 < P" by (cases P) auto
  show "align_down 4096 (u32 (B + 0xFFF)) = 4096 * P"
    using split unfolding align_down_def u by linarith
  show lt: "e + 4096 * P < two32" using split assms(2,3) by linarith
  then show "u32 (e + 4096 * P) = e + 4096 * P" by (rule u32_id)
qed

text \<open>A fresh free block at the end of the heap.\<close>

lemma extend_block:
  fixes m :: memory
  assumes "0 < P" and "e + 4096 * P < two32"
  defines "m1 \<equiv> set_Magic e MAGIC_FREE (set_Size e (4096 * P) m)"
  defines "m2 \<equiv> set_foot_Magic (Heap_ThisFoot m1 e) MAGIC_FOOT (set_foot_Head (Heap_ThisFoot m1 e) e m1)"
  shows "block_at m2 e (4096 * P) False" and "same_outside m m2 e (e + 4096 * P)"
proof -
  have P: "4096 \<le> 4096 * P" using assms(1) by simp
  obtain f where f: "f + 8 = e + 4096 * P" using P that [of "e + 4096 * P - 8"] by simp
  have "rd32 m1 e = 4096 * P"
    using assms(2) by (simp add: m1_def field_defs mem_simps)
  then have foot: "Heap_ThisFoot m1 e = f"
    using f assms(2) by (simp add: Heap_ThisFoot_def head_Size_def u32_id sub32_id sizeof_tHeapFoot_def)
  have eq: "m2 = wr32 (wr32 (wr32 (wr32 m e (4096 * P)) (e + 16) MAGIC_FREE) (f + 4) e) f MAGIC_FOOT"
    unfolding m2_def foot unfolding m1_def field_defs ..
  have lt: "4096 * P < two32" "e < two32" using assms(2) by auto
  show "block_at m2 e (4096 * P) False"
    unfolding eq by (rule block_atI [OF _ _ f]) (use f P lt in \<open>simp_all add: mem_simps\<close>)
  show "same_outside m m2 e (e + 4096 * P)"
    unfolding eq using f P by (intro same_outside_wr32 same_outside_refl) auto
qed

lemma Heap_Extend_spec:
  assumes t: "tiled (mem s) (gHeapStart s) bs (gHeapEnd s)" and e: "gHeapEnd s \<le> MM_KHEAP_MAX"
    and al: "4096 dvd gHeapEnd s" and adj: "no_adjacent_free bs" and d: "\<not> in_heap_dump s"
    and B: "0 < B" "B < 0x30000100" and st: "gHeapStart s = MM_KHEAP_BASE"
  shows "Heap_Extend mm B s = Some (Ret (0, s)) \<or>
    (\<exists>xs sz ys s'. Heap_Extend mm B s = Some (Ret (gHeapStart s + span xs, s')) \<and> B \<le> sz \<and>
       heap_inv s' (xs @ (sz, False) # ys) \<and> glHeap s' = glHeap s \<and>
       live (gHeapStart s) (xs @ (sz, False) # ys) = live (gHeapStart s) bs \<and>
       keeps (mem s) (mem s') (live (gHeapStart s) bs))"
proof -
  define P where "P = u32 (B + 0xFFF) div 4096"
  have mx: "gHeapEnd s \<le> 3472883712" using e by (simp add: MM_KHEAP_MAX_def)
  note ar = extend_arith [OF B mx al, folded P_def]
  have hi: "gHeapEnd s < two32" using mx by simp
  have dump: "Heap_Dump s = Some (Ret s)"
    using Heap_ValidateDump_tiled [OF t hi d] by (simp add: Heap_Dump_def)
  show ?thesis
  proof (cases "gHeapEnd s = MM_KHEAP_MAX \<or> gHeapEnd s + 4096 * P > MM_KHEAP_MAX \<or>
      \<not> pages_ok mm (gHeapEnd s) P")
    case True
    then have "Heap_Extend mm B s = Some (Ret (0, s))"
      using B(1) by (auto simp: Heap_Extend_def Let_def dump P_def [symmetric] ar(1))
    then show ?thesis ..
  next
    case False
    define e0 where "e0 = gHeapEnd s"
    define m1 where "m1 = set_Magic e0 MAGIC_FREE (set_Size e0 (4096 * P) (mem s))"
    define m2 where
      "m2 = set_foot_Magic (Heap_ThisFoot m1 e0) MAGIC_FOOT (set_foot_Head (Heap_ThisFoot m1 e0) e0 m1)"
    define s2 where "s2 = s\<lparr>gHeapEnd := e0 + 4096 * P, mem := m2\<rparr>"
    note blk = extend_block [of P e0 "mem s", folded m1_def, folded m2_def]
    have b: "block_at m2 e0 (4096 * P) False" "same_outside (mem s) m2 e0 (e0 + 4096 * P)"
      using blk ar(3,5) by (simp_all add: e0_def)
    have run: "Heap_Extend mm B s = Some (Heap_Merge e0 s2)"
      using False B(1)
      by (simp add: Heap_Extend_def Let_def P_def [symmetric] ar(1,2) upd_mem_def s2_def m2_def
        m1_def e0_def)
    have end0: "e0 = gHeapStart s + span bs" using tiled_end [OF t] by (simp add: e0_def)
    have "tiled m2 (gHeapStart s) bs e0"
      by (rule tiled_frame [OF b(2)]) (use t end0 in \<open>simp_all add: e0_def\<close>)
    then have t2: "tiled (mem s2) (gHeapStart s2) (bs @ (4096 * P, False) # []) (gHeapEnd s2)"
      using b(1) end0 by (simp add: s2_def tiled_append)
    have hi2: "gHeapEnd s2 < two32" using ar(5) by (simp add: s2_def e0_def)
    from Heap_Merge_tiled [OF t2 hi2] obtain m' xs sz ys where m':
      "Heap_Merge (gHeapStart s2 + span bs) s2 = Ret (gHeapStart s2 + span xs, s2\<lparr>mem := m'\<rparr>)"
      "coalesce bs (4096 * P) [] = xs @ (sz, False) # ys" "4096 * P \<le> sz"
      "tiled m' (gHeapStart s2) (coalesce bs (4096 * P) []) (gHeapEnd s2)"
      "keeps (mem s2) m' (live (gHeapStart s2) (bs @ [(4096 * P, False)]))" by blast
    have lv: "live (gHeapStart s) (xs @ (sz, False) # ys) = live (gHeapStart s) bs"
      using live_coalesce [of "gHeapStart s" bs "4096 * P" "[]"] by (simp add: m'(2))
    have "keeps (mem s) m2 (live (gHeapStart s) bs)"
      using keeps_outside [of "mem s" m2 "gHeapStart s" bs "4096 * P" "[]"] b(2) end0 by simp
    then have k: "keeps (mem s) m' (live (gHeapStart s) bs)"
      using keeps_trans m'(5) by (simp add: s2_def)
    have "no_adjacent_free (xs @ (sz, False) # ys)"
      using no_adjacent_free_coalesce [OF adj, of "[]" "4096 * P"] by (simp add: m'(2))
    then have "heap_inv (s2\<lparr>mem := m'\<rparr>) (xs @ (sz, False) # ys)"
      using m'(2,4) False st d al by (simp add: heap_inv_def s2_def e0_def)
    then show ?thesis
      using run m'(1,3) lv k ar(4) end0
      by (intro disjI2 exI [of _ xs] exI [of _ sz] exI [of _ ys] exI [of _ "s2\<lparr>mem := m'\<rparr>"])
        (simp add: s2_def)
  qed
qed

section \<open>Allocation\<close>

lemma heap_inv_tiled: "heap_inv s bs \<Longrightarrow> tiled (mem s) (gHeapStart s) bs (gHeapEnd s)"
  unfolding heap_inv_def by (elim conjE)

text \<open>
  What an allocation of \<open>n\<close> bytes promises: the heap stays well-formed, no block in use is
  touched, and on success exactly one block is added, large enough and apart from all the others.
\<close>

definition allocated :: "heap_state \<Rightarrow> nat \<Rightarrow> addr \<Rightarrow> heap_state \<Rightarrow> bool" where
  "allocated s n r s' \<longleftrightarrow>
     heap_ok s' \<and> \<not> glHeap s' \<and> keeps (mem s) (mem s') (live_blocks s) \<and>
     (if r = 0 then live_blocks s' = live_blocks s
      else \<exists>h B. r = h + 28 \<and> n + 36 \<le> B \<and> live_blocks s' = insert (h, B) (live_blocks s) \<and>
        head_ValidSize (mem s') h = n \<and>
        (\<forall>(p, k) \<in> live_blocks s. p + k \<le> h \<or> h + B \<le> p))"

text \<open>Turning the front of a free block into a block in use.\<close>

lemma hand_out:
  assumes inv: "heap_inv s (xs @ (sz, False) # ys)" and h: "h = gHeapStart s + span xs"
    and same: "same_outside (mem s) m' h (h + sz)"
    and t': "tiled m' h ((B, True) # rest) (h + sz)" and rest: "rest = [] \<or> rest = [(k, False)]"
    and n: "n + 36 \<le> B" and v: "head_ValidSize m' h = n"
  shows "allocated s n (head_Data h) (s\<lparr>mem := m', glHeap := False\<rparr>)"
proof -
  let ?s' = "s\<lparr>mem := m', glHeap := False\<rparr>" and ?bs = "xs @ (B, True) # rest @ ys"
  note bd = heap_inv_bounds [OF inv]
  have t: "tiled (mem s) (gHeapStart s) (xs @ [(sz, False)] @ ys) (gHeapEnd s)"
    using heap_inv_tiled [OF inv] by simp
  have "tiled m' (gHeapStart s) (xs @ ((B, True) # rest) @ ys) (gHeapEnd s)"
    by (rule tiled_replace [OF t]) (use same t' in \<open>simp_all add: h\<close>)
  moreover have "no_adjacent_free ?bs"
    using inv rest by (auto simp: heap_inv_def no_adjacent_free_append no_adjacent_free_Cons)
  ultimately have inv': "heap_inv ?s' ?bs"
    using inv by (simp add: heap_inv_def)
  have sz: "sz = B + span rest" using tiled_end [OF t'] by simp
  have lv: "live_blocks s = live (gHeapStart s) xs \<union> live (h + sz) ys"
    using heap_inv_ok [OF inv] by (simp add: h)
  have "live (gHeapStart s + span xs + B) (rest @ ys) = live (h + sz) ys"
    using rest by (auto simp: h sz add.assoc)
  then have lv': "live_blocks ?s' = insert (h, B) (live_blocks s)"
    using heap_inv_ok [OF inv'] by (simp add: lv h)
  have "keeps (mem s) m' (live_blocks s)"
    using keeps_outside [of "mem s" m' "gHeapStart s" xs sz ys] same by (simp add: lv h)
  moreover have "\<forall>(p, k) \<in> live_blocks s. p + k \<le> h \<or> h + B \<le> p"
    using live_bounds [of _ _ "gHeapStart s" xs] live_bounds [of _ _ "h + sz" ys]
    unfolding lv by (fastforce simp: h sz)
  moreover have "head_Data h = h + 28"
    using bd by (simp add: head_Data_def sizeof_tHeapHead_def u32_id h)
  ultimately show ?thesis
    using conjunct1 [OF heap_inv_ok [OF inv']] lv' n v unfolding allocated_def by (auto simp: h)
qed

lemma head_ValidSize_mark_used:
  "v < two32 \<Longrightarrow> head_ValidSize (mark_used File Line v tm h m) h = v"
  by (simp add: mark_used_def Let_def field_defs mem_simps)

lemma alloc_perfect_spec:
  assumes inv: "heap_inv s (xs @ (B, False) # ys)" and B: "64 \<le> B" "n + 36 \<le> B"
  shows "\<exists>r s'. alloc_perfect File Line n tm (gHeapStart s + span xs) s = Some (Ret (r, s')) \<and>
     allocated s n r s' \<and> r \<noteq> 0"
proof -
  define h where "h = gHeapStart s + span xs"
  define m' where "m' = mark_used File Line n tm h (mem s)"
  note bd = heap_inv_bounds [OF inv]
  have b: "block_at (mem s) h B False"
    using heap_inv_tiled [OF inv] by (simp add: tiled_append h_def)
  have "same_outside (mem s) m' h (h + 28)"
    unfolding m'_def by (rule same_outside_mark_used)
  then have same: "same_outside (mem s) m' h (h + B)"
    by (rule same_outside_mono) (use B in auto)
  have "block_at m' h B True"
    unfolding m'_def by (rule mark_used_block [OF b B(1)])
  moreover have "head_ValidSize m' h = n"
    unfolding m'_def by (rule head_ValidSize_mark_used) (use B bd in simp)
  ultimately have "allocated s n (head_Data h) (s\<lparr>mem := m', glHeap := False\<rparr>)"
    using hand_out [OF inv h_def same, of B "[]"] B by simp
  moreover have "head_Data h \<noteq> 0"
    using bd by (simp add: head_Data_def sizeof_tHeapHead_def u32_id h_def)
  ultimately show ?thesis
    by (simp add: alloc_perfect_def Mutex_Release_glHeap_def upd_mem_def m'_def h_def)
qed

lemma alloc_split_spec:
  assumes inv: "heap_inv s (xs @ (sz, False) # ys)" and B: "64 \<le> B" "32 dvd B" "B < sz" "n + 36 \<le> B"
  shows "\<exists>r s'. alloc_split File Line n tm B (gHeapStart s + span xs) s = Some (Ret (r, s')) \<and>
     allocated s n r s' \<and> r \<noteq> 0"
proof -
  define h where "h = gHeapStart s + span xs"
  define m' where "m' = split_block File Line n tm B h (mem s)"
  note bd = heap_inv_bounds [OF inv]
  have b: "block_at (mem s) h sz False"
    using heap_inv_tiled [OF inv] by (simp add: tiled_append h_def)
  have hi: "h + sz < two32" using bd by (simp add: h_def)
  note spec = split_block_spec [OF b B(1-3) hi, where v = n and File = File and Line = Line and tm = tm,
      folded m'_def]
  have "head_ValidSize m' h = n" using spec(4) B bd by simp
  moreover have "tiled m' h ((B, True) # [(sz - B, False)]) (h + sz)"
    using spec(1,2) B by simp
  ultimately have "allocated s n (head_Data h) (s\<lparr>mem := m', glHeap := False\<rparr>)"
    using hand_out [OF inv h_def spec(3), of B "[(sz - B, False)]" "sz - B" n] B by simp
  moreover have "head_Data h \<noteq> 0"
    using bd by (simp add: head_Data_def sizeof_tHeapHead_def u32_id h_def)
  ultimately show ?thesis
    by (simp add: alloc_split_def Mutex_Release_glHeap_def upd_mem_def m'_def h_def)
qed

text \<open>Handing a large enough free block out, whole or split.\<close>

lemma allocated_acquire [simp]: "allocated (s\<lparr>glHeap := b\<rparr>) n r s' = allocated s n r s'"
  by (simp add: allocated_def live_blocks_def heap_blocks_def)

lemma heap_inv_acquire [simp]: "heap_inv (s\<lparr>glHeap := b\<rparr>) bs = heap_inv s bs"
  by (simp add: heap_inv_def)

lemma allocated_via:
  assumes "allocated s1 n r s'" and "keeps (mem s) (mem s1) (live_blocks s)"
    and "live_blocks s1 = live_blocks s"
  shows "allocated s n r s'"
  using assms keeps_trans unfolding allocated_def by (metis (no_types, lifting))

lemma Heap_Validate_ok:
  assumes "heap_inv s bs"
  shows "Heap_Validate s = Some (Ret s)"
  using Heap_ValidateDump_tiled [OF heap_inv_tiled [OF assms]] heap_inv_bounds(1) [OF assms] assms
  by (simp add: Heap_Validate_def heap_inv_def)

lemma best_fit_not_bad: "best_fit B a bs best n \<noteq> BadHeader"
  by (induction B a bs best n rule: best_fit.induct) auto

text \<open>The end of the routine when no free block was large enough: extend, then hand out.\<close>

lemma alloc_extended:
  assumes inv: "heap_inv s bs" and B: "64 \<le> B" "32 dvd B" "B < 0x30000100" "n + 36 \<le> B"
  shows "\<exists>r s'. obind (Heap_Extend mm B s) (\<lambda>(best, s).
             if best = 0 then Some (Ret (0, Mutex_Release_glHeap s))
             else if head_Size (mem s) best = B then alloc_perfect File Line n tm best s
             else alloc_split File Line n tm B best s) = Some (Ret (r, s')) \<and> allocated s n r s'"
proof -
  have "0 < B" using B by simp
  with Heap_Extend_spec [of s bs B mm] inv B(3) consider
    (no) "Heap_Extend mm B s = Some (Ret (0, s))" |
    (yes) h xs sz ys s1 where "Heap_Extend mm B s = Some (Ret (h, s1))" "B \<le> sz"
       "heap_inv s1 (xs @ (sz, False) # ys)"
       "live (gHeapStart s) (xs @ (sz, False) # ys) = live (gHeapStart s) bs"
       "keeps (mem s) (mem s1) (live (gHeapStart s) bs)" "h = gHeapStart s + span xs"
    unfolding heap_inv_def by blast
  then show ?thesis
  proof cases
    case no
    have "heap_inv (s\<lparr>glHeap := False\<rparr>) bs" using inv by simp
    then have "allocated s n 0 (s\<lparr>glHeap := False\<rparr>)"
      using heap_inv_ok [OF inv] heap_inv_ok [of "s\<lparr>glHeap := False\<rparr>" bs] by (simp add: allocated_def)
    with no show ?thesis by (simp add: Mutex_Release_glHeap_def)
  next
    case yes
    have st: "gHeapStart s1 = gHeapStart s" using heap_inv_start inv yes(3) by simp
    have b: "head_Size (mem s1) h = sz"
      using heap_inv_tiled [OF yes(3)] by (simp add: tiled_append block_at_def st yes(6))
    have nz: "h \<noteq> 0" using heap_inv_bounds [OF inv] yes(6) by simp
    have lv: "live_blocks s1 = live_blocks s" "live_blocks s = live (gHeapStart s) bs"
      using heap_inv_ok [OF yes(3)] heap_inv_ok [OF inv] yes(4) by (simp_all add: st)
    have via: "allocated s n r s'" if "allocated s1 n r s'" for r s'
      using allocated_via [OF that] yes(5) lv by simp
    show ?thesis
    proof (cases "sz = B")
      case True
      with yes(3) have "heap_inv s1 (xs @ (B, False) # ys)" by simp
      from alloc_perfect_spec [OF this B(1,4), of File Line tm] obtain r s' where
        "alloc_perfect File Line n tm h s1 = Some (Ret (r, s'))" "allocated s1 n r s'"
        unfolding st yes(6) by blast
      with via yes(1) nz b True show ?thesis by auto
    next
      case False
      with yes(2) have "B < sz" by simp
      from alloc_split_spec [OF yes(3) B(1,2) this B(4), of File Line tm] obtain r s' where
        "alloc_split File Line n tm B h s1 = Some (Ret (r, s'))" "allocated s1 n r s'"
        unfolding st yes(6) by blast
      with via yes(1) nz b False show ?thesis by auto
    qed
  qed
qed

lemma Heap_Allocate_run:
  assumes inv: "heap_inv s bs" and n: "0 < n"
  defines "B \<equiv> Heap_int_GetBlockSize n" and "s1 \<equiv> s\<lparr>glHeap := True\<rparr>"
  shows "Heap_Allocate mm tm File Line n s =
     (case best_fit B (gHeapStart s1) bs 0 UINT_MAX of
        BadHeader \<Rightarrow> obind (Heap_ValidateDump (Mutex_Release_glHeap s1)) (\<lambda>s. Some (Ret (0, s)))
      | PerfectFit h \<Rightarrow> alloc_perfect File Line n tm h s1
      | BestFit best \<Rightarrow>
          (if best \<noteq> 0 then alloc_split File Line n tm B best s1
           else obind (Heap_Extend mm B s1) (\<lambda>(best, s).
             if best = 0 then Some (Ret (0, Mutex_Release_glHeap s))
             else if head_Size (mem s) best = B then alloc_perfect File Line n tm best s
             else alloc_split File Line n tm B best s)))"
proof -
  note bd = heap_inv_bounds [OF inv]
  have sf: "search_fit (mem s) (gHeapEnd s) k (gHeapStart s) 0 UINT_MAX =
      Some (best_fit k (gHeapStart s) bs 0 UINT_MAX)" for k
    using search_fit_tiled [OF heap_inv_tiled [OF inv]] bd by simp
  show ?thesis
    using n unfolding Heap_Allocate_def Heap_Validate_ok [OF inv] Let_def Mutex_Acquire_glHeap_def
      B_def s1_def by (simp add: sf)
qed

lemma Heap_Allocate_inv:
  assumes inv: "heap_inv s bs" and n: "0 < n" "n < 0x30000000"
  shows "\<exists>r s'. Heap_Allocate mm tm File Line n s = Some (Ret (r, s')) \<and> allocated s n r s' \<and>
    ((\<exists>k. (k, False) \<in> set bs \<and> Heap_int_GetBlockSize n \<le> k) \<longrightarrow> r \<noteq> 0)"
proof -
  define B where "B = Heap_int_GetBlockSize n"
  define s1 where "s1 = s\<lparr>glHeap := True\<rparr>"
  note B = GetBlockSize_spec [OF n, folded B_def] 
  have inv1: "heap_inv s1 bs" using inv by (simp add: s1_def)
  note bd = heap_inv_bounds [OF inv1]
  have al: "allocated s1 n r s' = allocated s n r s'" for r s' by (simp add: s1_def)
  note run = Heap_Allocate_run [OF inv n(1), of mm tm File Line, folded B_def s1_def]
  have B3: "B < 0x30000100" using B(2) n(2) by simp
  show ?thesis
  proof (cases "best_fit B (gHeapStart s1) bs 0 UINT_MAX")
    case BadHeader
    then show ?thesis using best_fit_not_bad by blast
  next
    case (PerfectFit h)
    from best_fit_perfect [OF this] obtain xs ys where
      bs: "bs = xs @ (B, False) # ys" "h = gHeapStart s1 + span xs" by blast
    from alloc_perfect_spec [OF inv1 [unfolded bs(1)] B(4,1)] show ?thesis
      unfolding run PerfectFit al fit.case bs(2) by blast
  next
    case (BestFit h)
    show ?thesis
    proof (cases "h = 0")
      case False
      with best_fit_best [OF BestFit] obtain xs sz ys where
        bs: "bs = xs @ (sz, False) # ys" "h = gHeapStart s1 + span xs" "B < sz"
        unfolding picked_def by blast
      from alloc_split_spec [OF inv1 [unfolded bs(1)] B(4,3) bs(3) B(1)] False show ?thesis
        unfolding run BestFit al fit.case bs(2) [symmetric] by (simp, blast)
    next
      case True
      have "\<not> picked B (gHeapStart s1) bs UINT_MAX h" using bd True by (auto simp: picked_def)
      with best_fit_best [OF BestFit] have "\<forall>k. (k, False) \<in> set bs \<and> B \<le> k \<longrightarrow> UINT_MAX \<le> k" by blast
      moreover have "k \<le> span bs" if "(k, False) \<in> set bs" for k
        using that by (induction bs) auto
      ultimately have "\<nexists>k. (k, False) \<in> set bs \<and> B \<le> k"
        using bd by (fastforce simp: UINT_MAX_def)
      with alloc_extended [OF inv1 B(4,3) B3 B(1)] True show ?thesis
        unfolding run BestFit al fit.case B_def [symmetric] by (simp, blast)
    qed
  qed
qed

section \<open>Deallocation\<close>

lemma tiled_dvd: "tiled m a bs e \<Longrightarrow> 32 dvd span bs"
  by (induction m a bs e rule: tiled.induct) (auto simp: block_at_def)

lemma live_remove:
  assumes "live a (xs @ (sz, True) # ys) = L" and "tiled m a (xs @ (sz, True) # ys) e"
  shows "live a (xs @ (sz, False) # ys) = L - {(a + span xs, sz)}"
proof -
  have "0 < sz" using assms(2) by (auto simp: tiled_append block_at_def)
  then have "(a + span xs, sz) \<notin> live a xs" "(a + span xs, sz) \<notin> live (a + span xs + sz) ys"
    using live_bounds [of "a + span xs" sz a xs] live_bounds [of "a + span xs" sz "a + span xs + sz" ys]
    by auto
  with assms(1) show ?thesis by auto
qed

definition freed :: "heap_state \<Rightarrow> addr \<Rightarrow> nat \<Rightarrow> heap_state \<Rightarrow> bool" where
  "freed s h B s' \<longleftrightarrow> heap_ok s' \<and> \<not> glHeap s' \<and> live_blocks s' = live_blocks s - {(h, B)} \<and>
     keeps (mem s) (mem s') (live_blocks s - {(h, B)}) \<and> gHeapEnd s' = gHeapEnd s"

text \<open>The four stores that mark a block free.\<close>

lemma mark_free_block:
  fixes File Line :: nat
  assumes b: "block_at m h sz True"
  defines "m' \<equiv> set_ValidSize h 0 (set_Line h Line (set_File h File (set_Magic h MAGIC_FREE m)))"
  shows "block_at m' h sz False" "same_outside m m' h (h + sz)"
proof -
  from b obtain f where f: "rd32 m h = sz" "f + 8 = h + sz" "rd32 m f = MAGIC_FOOT"
      "rd32 m (f + 4) = h" "32 dvd sz" "64 \<le> sz"
    by (elim block_atD) simp
  show "block_at m' h sz False"
    by (rule block_atI [OF _ _ f(2)]) (use f in \<open>simp_all add: m'_def field_defs mem_simps\<close>)
  show "same_outside m m' h (h + sz)"
    unfolding m'_def field_defs using f by (intro same_outside_wr32 same_outside_refl) auto
qed

lemma Heap_Deallocate_run:
  fixes File Line :: nat
  assumes inv: "heap_inv s (xs @ (sz, True) # ys)"
  defines "h \<equiv> gHeapStart s + span xs"
  defines "m' \<equiv> set_ValidSize h 0 (set_Line h Line (set_File h File (set_Magic h MAGIC_FREE (mem s))))"
  shows "Heap_Deallocate File Line (h + 28) s =
     bind_outcome (Heap_Merge h ((Heap_int_WatchBlock h False (s\<lparr>glHeap := True\<rparr>))\<lparr>mem := m'\<rparr>))
       (\<lambda>(_, s). Ret (Mutex_Release_glHeap s))"
proof -
  note bd = heap_inv_bounds [OF inv]
  have t: "tiled (mem s) (gHeapStart s) (xs @ (sz, True) # ys) (gHeapEnd s)"
    by (rule heap_inv_tiled [OF inv])
  then have b: "block_at (mem s) h sz True" by (simp add: tiled_append h_def)
  have sz: "64 \<le> sz" using b by (simp add: block_at_def)
  have "32 dvd span xs" using t tiled_dvd tiled_append by blast
  then have "4 dvd span xs" by (rule dvd_trans [rotated]) simp
  then have mod4: "(h + 28) mod 4 = 0" using bd(4) by (simp add: h_def mod_add_eq [symmetric] mod_0_imp_dvd)
  have hd: "sub32 (h + 28) sizeof_tHeapHead = h"
    using bd by (simp add: sub32_id sizeof_tHeapHead_def h_def)
  have ft: "Heap_ThisFoot (mem s) h = h + sz - 8"
    using block_foot [OF b] bd by (simp add: h_def)
  have rng: "gHeapStart s \<le> h + 28" "h + 28 \<le> gHeapEnd s" "h + 28 \<noteq> INVLPTR" "h \<noteq> 0"
    using bd sz by (simp_all add: h_def INVLPTR_def)
  show ?thesis
    using rng b unfolding Heap_Deallocate_def hd Let_def ft
    by (simp add: mod4 block_at_def upd_mem_def Mutex_Acquire_glHeap_def m'_def)
qed

lemma Heap_Deallocate_inv:
  assumes inv: "heap_inv s bs" and l: "(h, sz) \<in> live (gHeapStart s) bs"
  shows "\<exists>s'. Heap_Deallocate File Line (h + 28) s = Ret s' \<and> freed s h sz s'"
proof -
  from live_split [OF l] obtain xs ys where bs: "bs = xs @ (sz, True) # ys"
    and h: "h = gHeapStart s + span xs" by blast
  note inv = inv [unfolded bs]
  note bd = heap_inv_bounds [OF inv] and t = heap_inv_tiled [OF inv]
  define m' where "m' = set_ValidSize h 0 (set_Line h Line (set_File h File (set_Magic h MAGIC_FREE (mem s))))"
  define s1 where "s1 = (Heap_int_WatchBlock h False (s\<lparr>glHeap := True\<rparr>))\<lparr>mem := m'\<rparr>"
  have "block_at (mem s) h sz True" using t by (simp add: tiled_append h)
  note fr = mark_free_block [OF this, of Line File, folded m'_def]
  have "tiled m' (gHeapStart s) (xs @ [(sz, False)] @ ys) (gHeapEnd s)"
    by (rule tiled_replace [where mid = "[(sz, True)]"]) (use t fr h in simp_all)
  then have t1: "tiled (mem s1) (gHeapStart s1) (xs @ (sz, False) # ys) (gHeapEnd s1)"
    by (simp add: s1_def)
  have hi: "gHeapEnd s1 < two32" using bd by (simp add: s1_def)
  from Heap_Merge_tiled [OF t1 hi] obtain m2 xs' sz' ys' where m2:
    "Heap_Merge h s1 = Ret (gHeapStart s1 + span xs', s1\<lparr>mem := m2\<rparr>)"
    "tiled m2 (gHeapStart s1) (coalesce xs sz ys) (gHeapEnd s1)"
    "keeps m' m2 (live (gHeapStart s1) (xs @ (sz, False) # ys))"
    by (auto simp: s1_def h)
  define s' where "s' = s1\<lparr>glHeap := False, mem := m2\<rparr>"
  have lv: "live (gHeapStart s) (xs @ (sz, False) # ys) = live_blocks s - {(h, sz)}"
    unfolding h by (rule live_remove) (use heap_inv_ok [OF inv] t in auto)
  have "no_adjacent_free (coalesce xs sz ys)"
    using inv by (intro no_adjacent_free_coalesce)
      (auto simp: heap_inv_def no_adjacent_free_append no_adjacent_free_Cons)
  then have inv': "heap_inv s' (coalesce xs sz ys)"
    using inv m2(2) by (simp add: heap_inv_def s'_def s1_def)
  have "live_blocks s' = live_blocks s - {(h, sz)}"
    using heap_inv_ok [OF inv'] live_coalesce lv by (simp add: s'_def s1_def)
  moreover have "keeps (mem s) m' (live_blocks s - {(h, sz)})"
    using keeps_outside [of "mem s" m' "gHeapStart s" xs sz ys] fr(2)
    unfolding lv [symmetric] by (simp add: h)
  then have "keeps (mem s) m2 (live_blocks s - {(h, sz)})"
    using m2(3) keeps_trans by (simp add: s1_def flip: lv)
  moreover have "Heap_Deallocate File Line (h + 28) s = Ret s'"
    using Heap_Deallocate_run [OF inv, of File Line, folded h, folded m'_def s1_def] m2(1)
    by (simp add: Mutex_Release_glHeap_def s'_def)
  ultimately show ?thesis
    using heap_inv_ok [OF inv'] by (auto simp: freed_def s'_def s1_def)
qed

section \<open>Installation, zeroed allocation and the address test\<close>

lemma Heap_Install_inv:
  assumes "\<not> in_heap_dump s"
  shows "\<exists>s' bs. Heap_Install mm s = Some (Ret s') \<and> heap_inv s' bs \<and> glHeap s' = glHeap s \<and>
     live_blocks s' = {}"
proof -
  define s0 where "s0 = s\<lparr>gHeapStart := MM_KHEAP_BASE, gHeapEnd := MM_KHEAP_BASE\<rparr>"
  have inv0: "heap_inv s0 []"
    using assms by (simp add: heap_inv_def s0_def MM_KHEAP_BASE_def MM_KHEAP_MAX_def)
  have gl: "glHeap s0 = glHeap s" by (simp add: s0_def)
  have "0 < HEAP_INIT_SIZE" "HEAP_INIT_SIZE < 0x30000100" by (simp_all add: HEAP_INIT_SIZE_def)
  with Heap_Extend_spec [of s0 "[]" HEAP_INIT_SIZE mm] inv0 consider
    (no) "Heap_Extend mm HEAP_INIT_SIZE s0 = Some (Ret (0, s0))" |
    (yes) h bs s1 where "Heap_Extend mm HEAP_INIT_SIZE s0 = Some (Ret (h, s1))"
       "heap_inv s1 bs" "live (gHeapStart s0) bs = {}" "glHeap s1 = glHeap s0"
    unfolding heap_inv_def by force
  then show ?thesis
  proof cases
    case no
    with inv0 heap_inv_ok [OF inv0] show ?thesis
      by (auto simp: Heap_Install_def gl simp flip: s0_def)
  next
    case yes
    moreover have "gHeapStart s1 = gHeapStart s0" using heap_inv_start inv0 yes(2) by simp
    ultimately show ?thesis
      using heap_inv_ok [OF yes(2)] by (auto simp: Heap_Install_def gl simp flip: s0_def)
  qed
qed

lemma block_at_payload:
  assumes "block_at m h B True" and "same_outside m m' (h + 28) (h + B - 8)"
  shows "block_at m' h B True"
proof -
  from assms(1) obtain f where f: "f + 8 = h + B" "64 \<le> B" "h + B - 8 = f"
    by (elim block_atD) simp
  have "rd32 m' x = rd32 m x" if "x + 4 \<le> h + 28 \<or> f \<le> x" for x
    using assms(2) that f by (intro rd32_cong) (auto simp: same_outside_def)
  with assms(1) f show ?thesis
    by (simp add: block_at_def field_defs)
qed

text \<open>Changing a block in use while it stays a block in use.\<close>

lemma heap_inv_block:
  assumes inv: "heap_inv s bs" and l: "(h, B) \<in> live (gHeapStart s) bs"
    and b: "block_at m' h B True" and same: "same_outside (mem s) m' h (h + B)"
  shows "heap_inv (s\<lparr>mem := m'\<rparr>) bs"
proof -
  from live_split [OF l] obtain xs ys where bs: "bs = xs @ (B, True) # ys"
    and h: "h = gHeapStart s + span xs" by blast
  have t: "tiled (mem s) (gHeapStart s) (xs @ [(B, True)] @ ys) (gHeapEnd s)"
    using heap_inv_tiled [OF inv] by (simp add: bs)
  have "tiled m' (gHeapStart s) (xs @ [(B, True)] @ ys) (gHeapEnd s)"
    by (rule tiled_replace [OF t]) (use b same in \<open>simp_all add: h\<close>)
  with inv show ?thesis by (simp add: heap_inv_def bs)
qed

text \<open>The owner of a block may write its payload: the heap stays well-formed.\<close>

lemma heap_inv_payload:
  assumes inv: "heap_inv s bs" and l: "(h, B) \<in> live (gHeapStart s) bs"
    and same: "same_outside (mem s) m' (h + 28) (h + B - 8)"
  shows "heap_inv (s\<lparr>mem := m'\<rparr>) bs"
proof (rule heap_inv_block [OF inv l])
  show "block_at m' h B True"
    by (rule block_at_payload [OF live_block [OF heap_inv_tiled [OF inv] l] same])
  show "same_outside (mem s) m' h (h + B)" by (rule same_outside_mono [OF same]) auto
qed

end
