(* ===== verification/Heap_Contract.thy ===== *)
theory Heap_Contract
  imports Heap_Correct
begin

text \<open>
  The kernel heap meets the contract of \<open>Allocator\<close>: the regions are the payloads of the blocks in
  use. The theorems about \<open>malloc\<close>, \<open>calloc\<close> and \<open>free\<close> are stated here over the routines of
  \<open>heap.c\<close>.
\<close>

definition payloads :: "heap_state \<Rightarrow> (addr \<times> nat) set" where
  "payloads s = (\<lambda>(h, B). (h + 28, B - 36)) ` live_blocks s"

lemma live_block_size: "heap_ok s \<Longrightarrow> (h, B) \<in> live_blocks s \<Longrightarrow> 64 \<le> B"
  using live_block [of "mem s" "gHeapStart s" "heap_blocks s" "gHeapEnd s" h B] heap_inv_tiled
  by (auto simp: heap_ok_def live_blocks_def block_at_def)

lemma payloadE:
  assumes "heap_ok s" "(r, k) \<in> payloads s"
  obtains h B where "(h, B) \<in> live_blocks s" "r = h + 28" "B = k + 36" "28 \<le> k"
proof -
  from assms(2) obtain h B where hB: "(h, B) \<in> live_blocks s" "r = h + 28" "k = B - 36"
    by (auto simp: payloads_def)
  with live_block_size [OF assms(1)] have "64 \<le> B" by blast
  with hB show thesis by (intro that) auto
qed

lemma keeps_payloads:
  assumes "heap_ok s" "keeps m m' L" "L \<subseteq> live_blocks s"
  shows "keeps m m' ((\<lambda>(h, B). (h + 28, B - 36)) ` L)"
  unfolding keeps_def
proof clarsimp
  fix h B x
  assume "(h, B) \<in> L" and x: "h + 28 \<le> x" "x < h + 28 + (B - 36)"
  then show "m' x = m x"
    using live_block_size [OF assms(1), of h B] assms(2,3) by (intro keepsD [of m m' L h B]) auto
qed

lemma payloads_remove:
  assumes "heap_ok s" "(h, B) \<in> live_blocks s"
  shows "(\<lambda>(h, B). (h + 28, B - 36)) ` (live_blocks s - {(h, B)}) = payloads s - {(h + 28, B - 36)}"
proof -
  have "inj_on (\<lambda>(h, B). (h + 28, B - 36 :: nat)) (live_blocks s)"
    using live_block_size [OF assms(1)] by (fastforce simp: inj_on_def)
  from inj_on_image_set_diff [OF this, of "live_blocks s" "{(h, B)}"] assms(2) show ?thesis
    by (simp add: payloads_def)
qed

lemma Heap_Allocate_ok:
  assumes "heap_ok s" "0 < n" "n < 0x30000000"
  shows "\<exists>r s'. Heap_Allocate mm tm File Line n s = Some (Ret (r, s')) \<and> allocated s n r s'"
  using Heap_Allocate_inv [OF assms(1) [unfolded heap_ok_def] assms(2,3)] by blast

lemma Heap_Allocate_allocated:
  assumes "heap_ok s" "0 < n" "n < 0x30000000" "Heap_Allocate mm tm File Line n s = Some (Ret (r, s'))"
  shows "allocated s n r s'"
  using Heap_Allocate_ok [OF assms(1-3), of mm tm File Line] assms(4) by auto

lemma allocated_payload:
  assumes ok: "heap_ok s" and a: "allocated s n r s'" and r: "r \<noteq> 0"
  shows "\<exists>k \<ge> n. payloads s' = insert (r, k) (payloads s) \<and>
    (\<forall>(p, j) \<in> payloads s. p + j \<le> r \<or> r + k \<le> p)"
proof -
  from a r obtain h B where h: "r = h + 28" "n + 36 \<le> B" "live_blocks s' = insert (h, B) (live_blocks s)"
    "\<forall>(p, k) \<in> live_blocks s. p + k \<le> h \<or> h + B \<le> p"
    by (auto simp: allocated_def)
  have "\<forall>(p, j) \<in> payloads s. p + j \<le> r \<or> r + (B - 36) \<le> p"
  proof clarify
    fix p j assume "(p, j) \<in> payloads s" "\<not> r + (B - 36) \<le> p"
    with ok h show "p + j \<le> r" by (elim payloadE) force+
  qed
  moreover have "payloads s' = insert (r, B - 36) (payloads s)" using h by (simp add: payloads_def)
  ultimately show ?thesis using h(2) by (intro exI [of _ "B - 36"]) auto
qed

lemma Heap_Deallocate_payload:
  assumes ok: "heap_ok s" and rk: "(r, k) \<in> payloads s"
  shows "\<exists>s'. Heap_Deallocate File Line r s = Ret s' \<and> heap_ok s' \<and>
      payloads s' = payloads s - {(r, k)} \<and> keeps (mem s) (mem s') (payloads s - {(r, k)})"
proof -
  from ok rk obtain h B where h: "(h, B) \<in> live_blocks s" "r = h + 28" "B = k + 36" by (rule payloadE)
  then have "(h, B) \<in> live (gHeapStart s) (heap_blocks s)" by (simp add: live_blocks_def)
  with ok obtain s' where s': "Heap_Deallocate File Line (h + 28) s = Ret s'" "freed s h B s'"
    using Heap_Deallocate_inv unfolding heap_ok_def by blast
  then show ?thesis
    using h payloads_remove [OF ok h(1)] keeps_payloads [OF ok, of _ _ "live_blocks s - {(h, B)}"]
    by (auto simp: freed_def payloads_def)
qed

lemma heap_ok_write:
  assumes ok: "heap_ok s" and rk: "(r, k) \<in> payloads s"
    and m': "\<forall>x. x < r \<or> r + k \<le> x \<longrightarrow> m' x = mem s x"
  shows "heap_ok (s\<lparr>mem := m'\<rparr>) \<and> payloads (s\<lparr>mem := m'\<rparr>) = payloads s"
proof -
  from ok rk obtain h B where h: "(h, B) \<in> live_blocks s" "r = h + 28" "B = k + 36" by (rule payloadE)
  with m' have "same_outside (mem s) m' (h + 28) (h + B - 8)" by (auto simp: same_outside_def)
  then have "heap_inv (s\<lparr>mem := m'\<rparr>) (heap_blocks s)"
    using ok h heap_inv_payload unfolding heap_ok_def live_blocks_def by blast
  then show ?thesis
    using heap_inv_ok by (fastforce simp: payloads_def live_blocks_def)
qed

lemma Heap_Allocate_laws:
  assumes ok: "heap_ok s" and n: "0 < n" "n < 0x30000000"
    and r: "Heap_Allocate mm tm File Line n s = Some (Ret (r, s'))"
  shows "heap_ok s' \<and> keeps (mem s) (mem s') (payloads s)"
    and "r = 0 \<Longrightarrow> payloads s' = payloads s"
    and "r \<noteq> 0 \<Longrightarrow> \<exists>k \<ge> n. payloads s' = insert (r, k) (payloads s) \<and>
      (\<forall>(p, j) \<in> payloads s. p + j \<le> r \<or> r + k \<le> p)"
proof -
  have a: "allocated s n r s'" by (rule Heap_Allocate_allocated [OF ok n r])
  then show "heap_ok s' \<and> keeps (mem s) (mem s') (payloads s)" "r = 0 \<Longrightarrow> payloads s' = payloads s"
    using keeps_payloads [OF ok, of _ _ "live_blocks s"] by (auto simp: allocated_def payloads_def)
  show "r \<noteq> 0 \<Longrightarrow> \<exists>k \<ge> n. payloads s' = insert (r, k) (payloads s) \<and>
      (\<forall>(p, j) \<in> payloads s. p + j \<le> r \<or> r + k \<le> p)"
    by (rule allocated_payload [OF ok a])
qed

interpretation kheap: allocator heap_ok payloads mem "\<lambda>m s. s\<lparr>mem := m\<rparr>"
  "Heap_Allocate mm tm File Line" "Heap_Deallocate File' Line'" "0x30000000"
  for mm tm File Line File' Line'
proof (unfold_locales, goal_cases)
  case (1 s n)
  then show ?case using Heap_Allocate_ok by blast
next
  case (2 s n r s')
  then show ?case by (rule Heap_Allocate_laws(1))
next
  case (3 s n s')
  then show ?case by (rule Heap_Allocate_laws(2)) simp
next
  case (4 s n r s')
  then show ?case by (rule Heap_Allocate_laws(3))
next
  case (5 s r k)
  then show ?case by (rule Heap_Deallocate_payload)
next
  case (6 s r k m')
  then show ?case by (rule heap_ok_write)
next
  case (7 m' s)
  show ?case by simp
qed

end
