(* ===== verification/Heap_Realloc.thy ===== *)
theory Heap_Realloc
  imports Heap_Contract
begin

text \<open>
  \<open>Heap_Reallocate\<close>: growing a block in place into the free block behind it, moving it when there
  is no room, and the path that grows downwards, which is right for an exact fit only.
\<close>

section \<open>Growing into the following block\<close>

definition same_inside :: "memory \<Rightarrow> memory \<Rightarrow> addr \<Rightarrow> addr \<Rightarrow> bool" where
  "same_inside m m' lo hi \<longleftrightarrow> (\<forall>x. lo \<le> x \<and> x < hi \<longrightarrow> m' x = m x)"

lemma same_inside_refl: "same_inside m m lo hi"
  by (simp add: same_inside_def)

lemma same_inside_wr32:
  "same_inside m m' lo hi \<Longrightarrow> a + 4 \<le> lo \<or> hi \<le> a \<Longrightarrow> same_inside m (wr32 m' a v) lo hi"
  by (auto simp: same_inside_def mem_simps)

lemma realloc_up_exact:
  fixes File Line v :: nat
  assumes b: "block_at m h B True" "block_at m (h + B) k False" and hi: "h + B + k < two32"
  defines "m' \<equiv> realloc_up File Line v (B + k) h (h + B) m"
  shows "block_at m' h (B + k) True" "same_outside m m' h (h + B + k)"
    "same_inside m m' (h + 28) (h + B - 8)"
proof -
  from b(1) obtain f where f: "rd32 m h = B" "rd32 m (h + 16) = MAGIC_USED" "f + 8 = h + B" "32 dvd B" "64 \<le> B"
    "h + B - 8 = f"
    by (elim block_atD) simp
  from b(2) obtain g where g: "rd32 m (h + B) = k" "g + 8 = h + B + k" "rd32 m g = MAGIC_FOOT" "32 dvd k"
    "32 \<le> k"
    by (elim block_atD) simp
  have foot: "Heap_ThisFoot m (h + B) = g"
    using g hi by (simp add: Heap_ThisFoot_def head_Size_def u32_id sub32_id sizeof_tHeapFoot_def)
  have lt: "B + k < two32" "h < two32" using hi by auto
  have sz: "u32 (k + B) = B + k" using lt by (simp add: u32_id add.commute)
  have eq: "m' = wr32 (wr32 (wr32 (wr32 (wr32 (wr32 (wr32 m h (B + k)) (h + 4) v) (h + 8) File)
      (h + 12) Line) (g + 4) h) (h + B + 16) 0) (h + B) 0"
    unfolding m'_def realloc_up_def Let_def field_defs f(1) g(1) foot sz by simp
  have g2: "g + 8 = h + (B + k)" using g by simp
  show "block_at m' h (B + k) True"
    unfolding eq
    by (rule block_atI [OF _ _ g2]) (use f g lt in \<open>simp_all add: mem_simps\<close>)
  show "same_outside m m' h (h + B + k)"
    unfolding eq using f g by (intro same_outside_wr32 same_outside_refl) auto
  show "same_inside m m' (h + 28) (h + B - 8)"
    unfolding eq f(6) using f(3,5) g by (intro same_inside_wr32 same_inside_refl) auto
qed

lemma realloc_up_split:
  fixes File Line v :: nat
  assumes b: "block_at m h B True" "block_at m (h + B) k False" and hi: "h + B + k < two32"
    and N: "B < N" "N < B + k" "32 dvd N"
  defines "m' \<equiv> realloc_up File Line v N h (h + B) m"
  shows "block_at m' h N True" "block_at m' (h + N) (B + k - N) False"
    "same_outside m m' h (h + B + k)" "same_inside m m' (h + 28) (h + B - 8)"
proof -
  from b(1) obtain f where f: "rd32 m h = B" "rd32 m (h + 16) = MAGIC_USED" "f + 8 = h + B" "32 dvd B" "64 \<le> B"
    "h + B - 8 = f"
    by (elim block_atD) simp
  from b(2) obtain g where g: "rd32 m (h + B) = k" "g + 8 = h + B + k" "rd32 m g = MAGIC_FOOT" "32 dvd k"
    by (elim block_atD) simp
  define R where "R = B + k - N"
  have "32 dvd N - B" using N f by (auto intro: dvd_diff_nat)
  then have "32 \<le> N - B" using N(1) by (auto dest: dvd_imp_le)
  then have NB: "B + 32 \<le> N" using N(1) by simp
  have R: "32 dvd R" "N + R = B + k" "0 < R" using N f(4) g(4) unfolding R_def by (auto intro: dvd_diff_nat)
  then have R32: "32 \<le> R" by (auto dest: dvd_imp_le)
  obtain e where e: "e + 8 = h + N" using NB that [of "h + N - 8"] by simp
  have lt: "N < two32" "R < two32" "h + N < two32" "B + k < two32" "h < two32" using hi R N by auto
  define m1 where "m1 = wr32 (wr32 (wr32 (wr32 m h N) (h + 8) File) (h + 12) Line) (h + 4) v"
  have "rd32 m1 h = N" using lt by (simp add: m1_def mem_simps)
  then have foot: "Heap_ThisFoot m1 h = e"
    using e lt by (simp add: Heap_ThisFoot_def head_Size_def u32_id sub32_id sizeof_tHeapFoot_def)
  define m2 where "m2 = wr32 (wr32 m1 (e + 4) h) e MAGIC_FOOT"
  have "rd32 m2 h = N" using lt e NB by (simp add: m2_def m1_def mem_simps)
  then have nxt: "Heap_NextHead m2 h = h + N"
    using lt by (simp add: Heap_NextHead_def head_Size_def u32_id)
  define m3 where "m3 = wr32 (wr32 m2 (h + N) R) (h + N + 16) MAGIC_FREE"
  have "rd32 m3 (h + N) = R" using lt by (simp add: m3_def mem_simps)
  then have foot': "Heap_ThisFoot m3 (h + N) = g"
    using g(2) R hi by (simp add: Heap_ThisFoot_def head_Size_def u32_id sub32_id sizeof_tHeapFoot_def)
  have sz: "sub32 (u32 (k + B)) N = R"
    using lt N by (simp add: u32_id sub32_id R_def add.commute)
  have "u32 (k + B) \<noteq> N" using lt N by (simp add: u32_id add.commute)
  then have eq: "m' = wr32 m3 (g + 4) (h + N)"
    unfolding m'_def realloc_up_def Let_def field_defs f(1) g(1)
    by (simp add: foot nxt foot' sz flip: m1_def m2_def m3_def)
  note ms = m1_def m2_def m3_def
  have room: "h + N + 32 \<le> g + 8" using g(2) R R32 by linarith
  show "block_at m' h N True"
    unfolding eq by (rule block_atI [OF _ _ e]) (use e f g N NB lt room in \<open>simp_all add: ms mem_simps\<close>)
  have g2: "g + 8 = h + N + R" using g R by simp
  show "block_at m' (h + N) (B + k - N) False"
    unfolding eq R_def [symmetric]
    by (rule block_atI [OF _ _ g2]) (use e f g R R32 lt room in \<open>simp_all add: ms mem_simps\<close>)
  show "same_outside m m' h (h + B + k)"
    unfolding eq ms using e f g room NB by (intro same_outside_wr32 same_outside_refl) auto
  show "same_inside m m' (h + 28) (h + B - 8)"
    unfolding eq ms f(6) using e f(3,5) g room NB by (intro same_inside_wr32 same_inside_refl) auto
qed

section \<open>Reallocation in place\<close>

lemma live_pointer:
  assumes inv: "heap_inv s bs" and l: "(h, B) \<in> live_blocks s"
  shows "Heap_IsHeapAddr (h + 28) s" "sub32 (h + 28) sizeof_tHeapHead = h" "block_at (mem s) h B True"
    "gHeapStart s \<le> h" "h + B \<le> gHeapEnd s" "64 \<le> B" "head_Data h = h + 28"
proof -
  note bd = heap_inv_bounds [OF inv] and t = heap_inv_tiled [OF inv]
  have l': "(h, B) \<in> live (gHeapStart s) bs" using l heap_inv_ok [OF inv] by simp
  then show b: "block_at (mem s) h B True" by (rule live_block [OF t])
  from live_split [OF l'] obtain xs ys where bs: "bs = xs @ (B, True) # ys" "h = gHeapStart s + span xs"
    by blast
  have "32 dvd span xs" using t tiled_dvd [of "mem s" "gHeapStart s" xs "gHeapStart s + span xs"]
    by (simp add: bs tiled_append)
  then have "4 dvd span xs" by (rule dvd_trans [rotated]) simp
  then have "(h + 28) mod 4 = 0" using bd(4) by (simp add: bs mod_add_eq [symmetric] mod_0_imp_dvd)
  moreover show sub: "sub32 (h + 28) sizeof_tHeapHead = h"
    using bd by (simp add: sub32_id sizeof_tHeapHead_def bs)
  moreover show B: "64 \<le> B" using b by (simp add: block_at_def)
  moreover show rng: "gHeapStart s \<le> h" "h + B \<le> gHeapEnd s" using bd bs by auto
  ultimately show "Heap_IsHeapAddr (h + 28) s"
    using b by (auto simp: Heap_IsHeapAddr_def block_at_def)
  show "head_Data h = h + 28"
    using bd rng B by (simp add: head_Data_def sizeof_tHeapHead_def u32_id)
qed

lemma realloc_up_spec:
  fixes File Line v :: nat
  assumes b: "block_at m h B True" "block_at m (h + B) k False" and hi: "h + B + k < two32"
    and N: "B < N" "N \<le> B + k" "32 dvd N"
  defines "m' \<equiv> realloc_up File Line v N h (h + B) m"
  shows "\<exists>rest. (rest = [] \<or> rest = [(B + k - N, False)]) \<and> tiled m' h ((N, True) # rest) (h + B + k) \<and>
    same_outside m m' h (h + B + k) \<and> same_inside m m' (h + 28) (h + B - 8)"
proof (cases "N = B + k")
  case True
  with realloc_up_exact [OF b hi, of File Line v] show ?thesis
    by (intro exI [of _ "[]"]) (simp add: m'_def)
next
  case False
  with N have "B < N" "N < B + k" by auto
  with realloc_up_split [OF b hi this N(3), of File Line v] show ?thesis
    by (intro exI [of _ "[(B + k - N, False)]"]) (simp add: m'_def)
qed

text \<open>The pieces of the block structure that growing in place changes.\<close>

lemma grown_inv:
  assumes inv: "heap_inv s (xs @ (B, True) # (k, False) # ys)" and h: "h = gHeapStart s + span xs"
    and rest: "rest = [] \<or> rest = [(j, False)]" "tiled m' h ((N, True) # rest) (h + B + k)"
    and same: "same_outside (mem s) m' h (h + B + k)"
  shows "heap_inv (s\<lparr>mem := m'\<rparr>) (xs @ (N, True) # rest @ ys)"
    and "live_blocks (s\<lparr>mem := m'\<rparr>) = insert (h, N) (live_blocks s - {(h, B)})"
    and "keeps (mem s) m' (live_blocks s - {(h, B)})"
proof -
  note t = heap_inv_tiled [OF inv]
  have "tiled m' (gHeapStart s) (xs @ ((N, True) # rest) @ ys) (gHeapEnd s)"
    by (rule tiled_replace [where mid = "[(B, True), (k, False)]" and m = "mem s"])
      (use t same rest(2) in \<open>simp_all add: h add.assoc\<close>)
  moreover have "no_adjacent_free (xs @ (N, True) # rest @ ys)"
    using inv rest(1) by (auto simp: heap_inv_def no_adjacent_free_append no_adjacent_free_Cons)
  ultimately show inv': "heap_inv (s\<lparr>mem := m'\<rparr>) (xs @ (N, True) # rest @ ys)"
    using inv by (simp add: heap_inv_def)
  have sp: "N + span rest = B + k" using tiled_end [OF rest(2)] by simp
  have un: "live_blocks s - {(h, B)} = live (gHeapStart s) xs \<union> live (h + B + k) ys"
    using live_remove [of "gHeapStart s" xs B "(k, False) # ys", OF refl t] heap_inv_ok [OF inv]
    by (simp add: h add.assoc)
  have "live (gHeapStart s + span xs + N) (rest @ ys) = live (h + B + k) ys"
    using rest(1) sp by (auto simp: h add.assoc)
  then show "live_blocks (s\<lparr>mem := m'\<rparr>) = insert (h, N) (live_blocks s - {(h, B)})"
    using heap_inv_ok [OF inv'] un by (simp add: h)
  show "keeps (mem s) m' (live_blocks s - {(h, B)})"
    using keeps_outside [of "mem s" m' "gHeapStart s" xs "B + k" ys] same un by (simp add: h add.assoc)
qed

lemma heap_inv_watch [simp]: "heap_inv (Heap_int_WatchBlock h b s) bs = heap_inv s bs"
  by (simp only: heap_inv_def Heap_int_WatchBlock_frame)

lemma Heap_Reallocate_up:
  assumes inv: "heap_inv s (xs @ (B, True) # (k, False) # ys)" and h: "h = gHeapStart s + span xs"
    and n: "0 < n" "n < 0x30000000" and N: "B < Heap_int_GetBlockSize n" "Heap_int_GetBlockSize n \<le> B + k"
  shows "\<exists>s'. Heap_Reallocate mm tm fFile File Line (h + 28) n s = Some (Ret (h + 28, s')) \<and> heap_ok s' \<and>
     live_blocks s' = insert (h, Heap_int_GetBlockSize n) (live_blocks s - {(h, B)}) \<and>
     keeps (mem s) (mem s') (live_blocks s - {(h, B)}) \<and>
     same_inside (mem s) (mem s') (h + 28) (h + B - 8)"
proof -
  define N where "N = Heap_int_GetBlockSize n"
  define s1 where "s1 = Heap_int_WatchBlock h False s"
  define m' where "m' = realloc_up File Line n N h (h + B) (mem s)"
  note bd = heap_inv_bounds [OF inv] and t = heap_inv_tiled [OF inv]
  have "(h, B) \<in> live_blocks s" using heap_inv_ok [OF inv] by (simp add: h)
  note ptr = live_pointer [OF inv this]
  have b: "block_at (mem s) h B True" "block_at (mem s) (h + B) k False"
    using t by (simp_all add: tiled_append h add.assoc)
  have hi: "h + B + k < two32" using bd by (simp add: h)
  from realloc_up_spec [OF b hi N GetBlockSize_spec(3) [OF n], of File Line n, folded N_def, folded m'_def]
  obtain rest where rest: "rest = [] \<or> rest = [(B + k - N, False)]"
    "tiled m' h ((N, True) # rest) (h + B + k)" "same_outside (mem s) m' h (h + B + k)"
    "same_inside (mem s) m' (h + 28) (h + B - 8)" by blast
  have inv1: "heap_inv s1 (xs @ (B, True) # (k, False) # ys)" using inv by (simp add: s1_def)
  have lv: "live_blocks s1 = live_blocks s" using heap_inv_ok [OF inv1] heap_inv_ok [OF inv] by (simp add: s1_def)
  have "h = gHeapStart s1 + span xs" "same_outside (mem s1) m' h (h + B + k)"
    using h rest(3) by (simp_all add: s1_def)
  note gr = grown_inv [OF inv1 this(1) rest(1,2) this(2), unfolded lv]
  have f: "Heap_NextHead (mem s) h = h + B" "head_Size (mem s) h = B" "head_Magic (mem s) (h + B) = MAGIC_FREE"
    "head_Size (mem s) (h + B) = k" "u32 (k + B) = k + B" "\<not> N \<le> B" "N \<le> k + B"
    using b hi N block_next [OF b(1)] by (simp_all add: block_at_def u32_id N_def)
  have "Heap_Reallocate mm tm fFile File Line (h + 28) n s = Some (Ret (h + 28, s1\<lparr>mem := m'\<rparr>))"
    unfolding Heap_Reallocate_def Let_def ptr(2) Heap_Validate_ok [OF inv] obind_simps N_def [symmetric]
      s1_def [symmetric]
    using ptr(1) f by (simp add: s1_def upd_mem_def m'_def)
  then show ?thesis
    using heap_inv_ok [OF gr(1)] gr(2,3) rest(4) unfolding N_def [symmetric] by (auto simp: s1_def)
qed

section \<open>Moving a block\<close>

lemma heap_inv_header:
  assumes inv: "heap_inv s bs" and l: "(h, B) \<in> live_blocks s"
  shows "heap_inv (upd_mem (set_File h v) s) bs" "heap_inv (upd_mem (set_Line h v) s) bs"
    "heap_inv (upd_mem (set_ValidSize h v) s) bs"
proof -
  note b = live_pointer(3,6) [OF inv l]
  have l': "(h, B) \<in> live (gHeapStart s) bs" using l heap_inv_ok [OF inv] by simp
  have w: "heap_inv (s\<lparr>mem := wr32 (mem s) (h + i) v\<rparr>) bs" if "4 \<le> i" "i \<le> 12" for i
  proof (rule heap_inv_block [OF inv l'])
    from b obtain f where f: "rd32 (mem s) h = B" "rd32 (mem s) (h + 16) = MAGIC_USED" "f + 8 = h + B"
      "rd32 (mem s) f = MAGIC_FOOT" "rd32 (mem s) (f + 4) = h" "32 dvd B"
      by (elim block_atD) simp
    show "block_at (wr32 (mem s) (h + i) v) h B True"
      by (rule block_atI [OF _ _ f(3)]) (use f b(2) that in \<open>simp_all add: mem_simps\<close>)
    show "same_outside (mem s) (wr32 (mem s) (h + i) v) h (h + B)"
      using that b(2) by (intro same_outside_wr32 same_outside_refl) auto
  qed
  show "heap_inv (upd_mem (set_File h v) s) bs" "heap_inv (upd_mem (set_Line h v) s) bs"
    "heap_inv (upd_mem (set_ValidSize h v) s) bs"
    using w [of 8] w [of 12] w [of 4] by (simp_all add: set_File_def set_Line_def set_ValidSize_def upd_mem_def)
qed

text \<open>The three stores into the header of the new block, and the copy of the old contents.\<close>

lemma relabel_inv:
  fixes File Line v :: nat
  assumes inv: "heap_inv s bs" and l: "(h, B) \<in> live_blocks s"
  defines "s' \<equiv> upd_mem (set_ValidSize h v) (upd_mem (set_Line h Line) (upd_mem (set_File h File) s))"
  shows "heap_inv s' bs" "live_blocks s' = live_blocks s" "same_outside (mem s) (mem s') h (h + 28)"
proof -
  have eq: "gHeapStart (upd_mem f s) = gHeapStart s" for f s by (simp add: upd_mem_def)
  have i1: "heap_inv (upd_mem (set_File h File) s) bs" by (rule heap_inv_header [OF inv l])
  have l1: "(h, B) \<in> live_blocks (upd_mem (set_File h File) s)"
    using l heap_inv_ok [OF i1] heap_inv_ok [OF inv] by (simp add: eq)
  have i2: "heap_inv (upd_mem (set_Line h Line) (upd_mem (set_File h File) s)) bs"
    by (rule heap_inv_header [OF i1 l1])
  have l2: "(h, B) \<in> live_blocks (upd_mem (set_Line h Line) (upd_mem (set_File h File) s))"
    using l heap_inv_ok [OF i2] heap_inv_ok [OF inv] by (simp add: eq)
  show i3: "heap_inv s' bs" unfolding s'_def by (rule heap_inv_header [OF i2 l2])
  show "live_blocks s' = live_blocks s"
    using heap_inv_ok [OF i3] heap_inv_ok [OF inv] by (simp add: eq s'_def)
  show "same_outside (mem s) (mem s') h (h + 28)"
    unfolding s'_def upd_mem_def set_ValidSize_def set_Line_def set_File_def
    by (simp, intro same_outside_wr32 same_outside_refl) auto
qed

lemma keeps_disjoint:
  assumes "same_outside m m' lo hi" "\<forall>(p, k) \<in> L. p + k \<le> lo \<or> hi \<le> p"
  shows "keeps m m' L"
  using assms by (fastforce simp: keeps_def same_outside_def)

lemma Heap_Allocate_size:
  assumes "0 < n" "n < 0x30000000" "n + 36 \<le> B" "32 dvd B"
  shows "Heap_int_GetBlockSize n \<le> B"
proof -
  note g = GetBlockSize_spec [OF assms(1,2)]
  from g(3) assms(4) obtain i j where ij: "Heap_int_GetBlockSize n = 32 * i" "B = 32 * j" by (auto elim!: dvdE)
  with g(2) assms(3) have "32 * i \<le> 32 * j + 31" by linarith
  then have "i \<le> j" by linarith
  with ij show ?thesis by simp
qed

definition moved :: "heap_state \<Rightarrow> nat \<Rightarrow> addr \<Rightarrow> nat \<Rightarrow> addr \<Rightarrow> heap_state \<Rightarrow> bool" where
  "moved s n h B r s' \<longleftrightarrow> heap_ok s' \<and>
     (if r = 0 then live_blocks s' = live_blocks s \<and> keeps (mem s) (mem s') (live_blocks s)
      else \<exists>h' B'. r = h' + 28 \<and> n + 36 \<le> B' \<and>
        live_blocks s' = insert (h', B') (live_blocks s - {(h, B)}) \<and>
        keeps (mem s) (mem s') (live_blocks s - {(h, B)}) \<and>
        (\<forall>i < B - 36. mem s' (r + i) = mem s (h + 28 + i)))"

text \<open>Copying the old block into the new one and freeing the old one.\<close>

lemma copy_free:
  assumes inv: "heap_inv s bs" and l: "(h, B) \<in> live_blocks s" "(h', B') \<in> live_blocks s"
    and d: "h + B \<le> h' \<or> h' + B' \<le> h" and B: "B < B'"
  shows "\<exists>s'. Heap_Deallocate fFile L (h + 28)
       (upd_mem (\<lambda>m. memcpy_x86 m (h' + 28) (h + 28) (B - 36)) s) = Ret s' \<and> heap_ok s' \<and>
     live_blocks s' = live_blocks s - {(h, B)} \<and>
     keeps (mem s) (mem s') (live_blocks s - {(h, B), (h', B')}) \<and>
     (\<forall>i < B - 36. mem s' (h' + 28 + i) = mem s (h + 28 + i))"
proof -
  define m' where "m' = memcpy (mem s) (h' + 28) (h + 28) (B - 36)"
  define s1 where "s1 = s\<lparr>mem := m'\<rparr>"
  note p = live_pointer [OF inv l(1)] and p' = live_pointer [OF inv l(2)]
  have lv: "live_blocks s = live (gHeapStart s) bs" using heap_inv_ok [OF inv] by simp
  have so: "same_outside (mem s) m' (h' + 28) (h' + B' - 8)"
    unfolding same_outside_def m'_def using B p(6) by (auto intro!: memcpy_outside)
  then have inv1: "heap_inv s1 bs"
    unfolding s1_def using heap_inv_payload [OF inv] l(2) lv by blast
  then have lv1: "live_blocks s1 = live_blocks s" using heap_inv_ok [OF inv1] lv by (simp add: s1_def)
  have "(h, B) \<in> live (gHeapStart s1) bs" using l(1) lv by (simp add: s1_def)
  from Heap_Deallocate_inv [OF inv1 this] obtain s' where
    s': "Heap_Deallocate fFile L (h + 28) s1 = Ret s'" "freed s1 h B s'" by blast
  have ks: "keeps m' (mem s') (live_blocks s - {(h, B)})" using s'(2) lv1 by (simp add: freed_def s1_def)
  have "\<forall>(q, k) \<in> live_blocks s - {(h', B')}. q + k \<le> h' \<or> h' + B' \<le> q"
    using live_disjoint [OF _ _ _ heap_inv_tiled [OF inv], folded lv] l(2) by blast
  moreover have "same_outside (mem s) m' h' (h' + B')" by (rule same_outside_mono [OF so]) auto
  ultimately have "keeps (mem s) m' (live_blocks s - {(h', B')})" by (intro keeps_disjoint) auto
  then have k1: "keeps (mem s) (mem s') (live_blocks s - {(h, B), (h', B')})"
    using ks by (auto intro: keeps_trans [OF keeps_subset keeps_subset])
  have "mem s' (h' + 28 + i) = mem s (h + 28 + i)" if i: "i < B - 36" for i
  proof -
    have "mem s' (h' + 28 + i) = m' (h' + 28 + i)"
      using keepsD [OF ks, of h' B'] l(2) d i B p(6) p'(6) by auto
    also have "\<dots> = mem s (h + 28 + i)"
      unfolding m'_def using d i B by (intro memcpy_apply) auto
    finally show ?thesis .
  qed
  with s' k1 lv1 show ?thesis
    by (auto simp: freed_def s1_def upd_mem_def memcpy_x86_bytes m'_def)
qed

lemma realloc_move_spec:
  assumes inv: "heap_inv s bs" and l: "(h, B) \<in> live_blocks s" and n: "0 < n" "n < 0x30000000"
    and N: "B < Heap_int_GetBlockSize n"
  shows "\<exists>r s'. realloc_move mm tm fFile File Line n (h + 28) h s = Some (Ret (r, s')) \<and> moved s n h B r s'"
proof -
  have ok: "heap_ok s" using heap_inv_ok [OF inv] by simp
  from Heap_Allocate_ok [OF ok n] obtain r s1 where
    a: "Heap_Allocate mm tm File Line n s = Some (Ret (r, s1))" "allocated s n r s1" by blast
  show ?thesis
  proof (cases "r = 0")
    case True
    with a show ?thesis by (auto simp: realloc_move_def allocated_def moved_def)
  next
    case False
    with a(2) obtain h' B' where h': "r = h' + 28" "n + 36 \<le> B'" "live_blocks s1 = insert (h', B') (live_blocks s)"
        "\<forall>(p, k) \<in> live_blocks s. p + k \<le> h' \<or> h' + B' \<le> p" "heap_ok s1"
        "keeps (mem s) (mem s1) (live_blocks s)"
      by (auto simp: allocated_def)
    define s2 where "s2 = upd_mem (set_ValidSize h' n) (upd_mem (set_Line h' Line) (upd_mem (set_File h' File) s1))"
    have inv1: "heap_inv s1 (heap_blocks s1)" using h'(5) by (simp add: heap_ok_def)
    have l1: "(h', B') \<in> live_blocks s1" using h' by simp
    note rl = relabel_inv [OF inv1 l1, where File = File and Line = Line and v = n, folded s2_def]
    have l2: "(h, B) \<in> live_blocks s2" "(h', B') \<in> live_blocks s2" using rl(2) h'(3) l by auto
    note p = live_pointer [OF rl(1) l2(1)] and p' = live_pointer [OF rl(1) l2(2)]
    have d: "h + B \<le> h' \<or> h' + B' \<le> h" using h'(4) l by auto
    have BB: "B < B'" using Heap_Allocate_size [OF n h'(2)] N p'(3) by (simp add: block_at_def)
    from copy_free [OF rl(1) l2 d BB, of fFile 562] obtain s3 where s3:
      "Heap_Deallocate fFile 562 (h + 28) (upd_mem (\<lambda>m. memcpy_x86 m (h' + 28) (h + 28) (B - 36)) s2) = Ret s3"
      "heap_ok s3" "live_blocks s3 = live_blocks s2 - {(h, B)}"
      "keeps (mem s2) (mem s3) (live_blocks s2 - {(h, B), (h', B')})"
      "\<forall>i < B - 36. mem s3 (h' + 28 + i) = mem s2 (h + 28 + i)" by blast
    have "same_outside (mem s1) (mem s2) h' (h' + B')" by (rule same_outside_mono [OF rl(3)]) (use p'(6) in auto)
    then have "keeps (mem s1) (mem s2) (live_blocks s)" using h'(4) by (rule keeps_disjoint)
    with h'(6) have k2: "keeps (mem s) (mem s2) (live_blocks s)" by (rule keeps_trans)
    have ne: "(h', B') \<noteq> (h, B)" "(h', B') \<notin> live_blocks s" using h'(4) l p'(6) by fastforce+
    then have lv: "live_blocks s2 - {(h, B), (h', B')} = live_blocks s - {(h, B)}" using rl(2) h'(3) by auto
    have "keeps (mem s) (mem s3) (live_blocks s - {(h, B)})"
      using keeps_trans [OF keeps_subset [OF k2]] s3(4) unfolding lv by blast
    moreover have "mem s3 (r + i) = mem s (h + 28 + i)" if "i < B - 36" for i
      using s3(5) that keepsD [OF k2 l, of "h + 28 + i"] by (simp add: h'(1))
    ultimately have mv: "moved s n h B r s3"
      using s3(2,3) h' rl(2) ne False by (auto simp: moved_def)
    have sub: "sub32 (sub32 B sizeof_tHeapFoot) sizeof_tHeapHead = B - 36"
      using p(5,6) heap_inv_bounds(1) [OF rl(1)] by (simp add: sub32_id sizeof_tHeapFoot_def sizeof_tHeapHead_def)
    have hs: "head_Size (mem s2) h = B" "head_Size (mem s2) h' = B'" using p(3) p'(3) by (simp_all add: block_at_def)
    have val: "Heap_Validate s3 = Some (Ret s3)" using s3(2) Heap_Validate_ok by (auto simp: heap_ok_def)
    have "realloc_move mm tm fFile File Line n (h + 28) h s = Some (Ret (r, s3))"
      using a(1) False BB s3(1) unfolding realloc_move_def Let_def h'(1)
      by (simp add: p'(2,7) p(7) hs sub val flip: s2_def)
    with mv show ?thesis by blast
  qed
qed

text \<open>Whether the block at \<open>nb\<close> is free and large enough to grow a block of size \<open>B\<close> to \<open>N\<close>.\<close>

definition grows_into :: "memory \<Rightarrow> addr \<Rightarrow> nat \<Rightarrow> nat \<Rightarrow> bool" where
  "grows_into m nb B N \<longleftrightarrow> head_Magic m nb = MAGIC_FREE \<and> u32 (head_Size m nb + B) \<ge> N"

lemma Heap_Reallocate_run:
  assumes inv: "heap_inv s bs" and l: "(h, B) \<in> live_blocks s" and N: "B < Heap_int_GetBlockSize n"
    and up: "\<not> grows_into (mem s) (h + B) B (Heap_int_GetBlockSize n)"
  shows "Heap_Reallocate mm tm fFile File Line (h + 28) n s =
    (let s = Heap_int_WatchBlock h False s; p = foot_Head (mem s) (h - 8) in
     if grows_into (mem s) p B (Heap_int_GetBlockSize n)
     then Some (Ret (head_Data p, upd_mem (realloc_down File Line n (Heap_int_GetBlockSize n) (h + 28) h p) s))
     else realloc_move mm tm fFile File Line n (h + 28) h s)"
proof -
  define N where "N = Heap_int_GetBlockSize n"
  note ptr = live_pointer [OF inv l] and bd = heap_inv_bounds [OF inv]
  have hi: "h + B < two32" using ptr(5) bd by simp
  have f: "Heap_NextHead (mem s) h = h + B" "head_Size (mem s) h = B" "Heap_PrevFoot h = h - 8" "\<not> N \<le> B"
    using ptr(3,4) hi bd assms(3) block_next [OF ptr(3) hi]
    by (simp_all add: block_at_def Heap_PrevFoot_def sub32_id sizeof_tHeapFoot_def N_def)
  show ?thesis
    using up unfolding Heap_Reallocate_def Let_def ptr(2) Heap_Validate_ok [OF inv] obind_simps
      grows_into_def N_def [symmetric]
    using ptr(1) f by auto
qed

lemma Heap_Reallocate_moves:
  assumes inv: "heap_inv s bs" and l: "(h, B) \<in> live_blocks s" and n: "0 < n" "n < 0x30000000"
    and N: "B < Heap_int_GetBlockSize n" and up: "\<not> grows_into (mem s) (h + B) B (Heap_int_GetBlockSize n)"
    and down: "\<not> grows_into (mem s) (foot_Head (mem s) (h - 8)) B (Heap_int_GetBlockSize n)"
  shows "\<exists>r s'. Heap_Reallocate mm tm fFile File Line (h + 28) n s = Some (Ret (r, s')) \<and> moved s n h B r s'"
proof -
  define s1 where "s1 = Heap_int_WatchBlock h False s"
  have inv1: "heap_inv s1 bs" using inv by (simp add: s1_def)
  have lv: "live_blocks s1 = live_blocks s" "mem s1 = mem s"
    using heap_inv_ok [OF inv1] heap_inv_ok [OF inv] by (simp_all add: s1_def)
  have l1: "(h, B) \<in> live_blocks s1" using l lv by simp
  from realloc_move_spec [OF inv1 l1 n N] obtain r s' where
    "realloc_move mm tm fFile File Line n (h + 28) h s1 = Some (Ret (r, s'))" "moved s1 n h B r s'" by blast
  moreover have "moved s1 n h B r s' = moved s n h B r s'" unfolding moved_def lv ..
  moreover have "Heap_Reallocate mm tm fFile File Line (h + 28) n s =
      realloc_move mm tm fFile File Line n (h + 28) h s1"
    unfolding Heap_Reallocate_run [OF inv l N up] Let_def s1_def [symmetric] lv if_not_P [OF down] ..
  ultimately show ?thesis by auto
qed

section \<open>Growing downwards\<close>

lemma validate_walk_prefix:
  "tiled m a xs b \<Longrightarrow> b \<le> e \<Longrightarrow> e < two32 \<Longrightarrow> validate_walk m e a = validate_walk m e b"
proof (induction m a xs b rule: tiled.induct)
  case (2 m a sz u bs b)
  then have bl: "block_at m a sz u" and t: "tiled m (a + sz) bs b" by auto
  note sz = block_at_size [OF bl]
  have le: "a + sz \<le> b" using tiled_end [OF t] by simp
  then have "a + sz < two32" "a < e" using 2 sz by auto
  with block_foot [OF bl] bl sz have "validate_walk m e a = validate_walk m e (a + sz)"
    by (subst validate_walk.simps)
      (auto simp: block_at_def Let_def MIN_SIZE_def sizeof_tHeapFoot_def u32_id dvd_eq_mod_eq_0)
  with 2 t show ?case by simp
qed simp

lemma dvd_gap: "d dvd (a :: nat) \<Longrightarrow> d dvd b \<Longrightarrow> a < b \<Longrightarrow> a + d \<le> b"
  using dvd_imp_le [of d "b - a"] by (simp add: dvd_diff_nat)

text \<open>
  With room to spare the block before is resized to exactly the new size, and what lies between its
  new end and its old one is lost. Of the footer at the new end only the link is written, its magic
  number is whatever the memory holds there. It is the right one when the new end is the old end of
  the block before, but then the old header follows, whose size was set to zero.
\<close>

lemma realloc_down_loses:
  fixes File Line v :: nat
  assumes b: "block_at m q p False" "block_at m (q + p) B True" and hi: "q + p + B < two32"
    and N: "B < N" "N < p + B" "32 dvd N"
  defines "m' \<equiv> realloc_down File Line v N (q + p + 28) (q + p) q m"
  shows "head_Size m' q = N" "head_Magic m' q = MAGIC_USED"
    "foot_Magic m' (q + N - 8) = foot_Magic m (q + N - 8)" "foot_Head m' (q + N - 8) = q"
    "N = p \<Longrightarrow> head_Size m' (q + p) = 0" "same_outside m m' q (q + p + B)"
proof -
  from b(1) have "32 dvd p" by (elim block_atD) simp
  from b(2) have sz: "rd32 m (q + p) = B" "64 \<le> B" "32 dvd B" by (elim block_atD, simp)+
  have BN: "B + 32 \<le> N" by (rule dvd_gap [OF sz(3) N(3,1)])
  have gap: "N + 32 \<le> p \<or> N = p \<or> p + 32 \<le> N"
    using dvd_gap [OF \<open>32 dvd p\<close> N(3)] dvd_gap [OF N(3) \<open>32 dvd p\<close>] by linarith
  have lt: "p < two32" "q + p < two32" "q < two32" "N < two32" "q + N < two32" using hi N by auto
  obtain f where f: "f + 8 = q + N" "q + N - 8 = f" using BN that [of "q + N - 8"] by simp
  define m1 where "m1 = wr32 (wr32 (wr32 (wr32 (wr32 m (q + 16) MAGIC_USED) q N) (q + 8) File) (q + 12) Line)
      (q + 4) v"
  have "rd32 m1 q = N" using lt by (simp add: m1_def mem_simps)
  then have foot: "Heap_ThisFoot m1 q = f"
    using f lt by (simp add: Heap_ThisFoot_def head_Size_def u32_id sub32_id sizeof_tHeapFoot_def)
  define m2 where "m2 = wr32 m1 (f + 4) q"
  have "32 \<le> p" using b(1) by (auto simp: block_at_def)
  have sep: "f + 8 \<le> q + p \<or> q + p + 24 \<le> f" using gap f(1) by auto
  then have "rd32 m2 (q + p) = B"
    using \<open>32 \<le> p\<close> sz f(1) BN by (elim disjE) (simp_all add: m2_def m1_def mem_simps)
  then have old: "sub32 (sub32 (rd32 m2 (q + p)) 8) 28 = B - 36"
    using sz hi by (simp add: sub32_id)
  define m3 where "m3 = wr32 (wr32 m2 (q + p) 0) (q + p + 16) 0"
  have dat: "head_Data q = q + 28" using hi sz N by (simp add: head_Data_def sizeof_tHeapHead_def u32_id)
  have eq: "m' = memmove m3 (q + 28) (q + p + 28) (B - 36)"
    unfolding m'_def realloc_down_def Let_def field_defs m1_def [symmetric] foot dat
      m2_def [symmetric] sizeof_tHeapFoot_def sizeof_tHeapHead_def old m3_def [symmetric] ..
  have mv: "m' x = m3 x" if "x < q + 28 \<or> q + B \<le> x" for x
    unfolding eq using that hi sz by (subst memmove_apply) auto
  have rd: "rd32 m' x = rd32 m3 x" if "x + 4 \<le> q + 28 \<or> q + B \<le> x" for x
    using that by (intro rd32_cong mv) auto
  note ms = rd m3_def m2_def m1_def mem_simps
  show "head_Size m' q = N" "head_Magic m' q = MAGIC_USED"
    using \<open>32 \<le> p\<close> BN f sz lt by (simp_all add: head_Size_def head_Magic_def ms)
  show "foot_Magic m' (q + N - 8) = foot_Magic m (q + N - 8)" "foot_Head m' (q + N - 8) = q"
    unfolding f(2) using sep \<open>32 \<le> p\<close> BN f(1) sz lt
    by (elim disjE; simp add: foot_Magic_def foot_Head_def ms)+
  show "N = p \<Longrightarrow> head_Size m' (q + p) = 0"
    using BN by (simp add: head_Size_def rd m3_def mem_simps)
  have "same_outside m m3 q (q + p + B)"
    unfolding m3_def m2_def m1_def using f sz BN N \<open>32 \<le> p\<close> by (intro same_outside_wr32 same_outside_refl) auto
  then show "same_outside m m' q (q + p + B)"
    using mv \<open>32 \<le> p\<close> by (auto simp: same_outside_def)
qed

text \<open>The walk of the consistency check stops at the resized block or right behind it.\<close>

lemma realloc_down_stuck:
  fixes File Line v :: nat
  assumes b: "block_at m q p False" "block_at m (q + p) B True"
    and hi: "q + p + B \<le> e" "e < two32" and N: "B < N" "N < p + B" "32 dvd N"
    and foot: "N = p \<or> foot_Magic m (q + N - 8) \<noteq> MAGIC_FOOT"
  defines "m' \<equiv> realloc_down File Line v N (q + p + 28) (q + p) q m"
  shows "\<exists>x < e. validate_walk m' e q = Some x"
proof -
  have hi': "q + p + B < two32" using hi by simp
  note lo = realloc_down_loses [OF b hi' N, of File Line v, folded m'_def]
  have sz: "32 \<le> p" "64 \<le> B" using b by (auto simp: block_at_def)
  have tf: "Heap_ThisFoot m' q = q + N - 8"
    using N hi' sz lo(1) by (simp add: Heap_ThisFoot_def u32_id sub32_id sizeof_tHeapFoot_def)
  show ?thesis
  proof (cases "N = p")
    case True
    have "foot_Magic m (q + p - 8) = MAGIC_FOOT" using b(1) by (simp add: block_at_def)
    with lo(1-4) True N sz have bl: "block_at m' q p True" by (simp add: block_at_def)
    have "validate_walk m' e q = validate_walk m' e (q + p)"
      by (rule validate_walk_prefix [of _ _ "[(p, True)]"]) (use bl hi in simp_all)
    also have "\<dots> = Some (q + p)"
      using lo(5) [OF True] hi sz by (subst validate_walk.simps) simp
    finally show ?thesis using hi sz by auto
  next
    case False
    with foot lo(3) have "foot_Magic m' (q + N - 8) \<noteq> MAGIC_FOOT" by simp
    then have "validate_walk m' e q = Some q"
      using hi sz tf by (subst validate_walk.simps) (simp add: Let_def)
    then show ?thesis using hi sz by auto
  qed
qed

lemma Heap_Reallocate_down_breaks:
  assumes inv: "heap_inv s (xs @ (p, False) # (B, True) # ys)" and h: "h = gHeapStart s + span xs + p"
    and N: "N = Heap_int_GetBlockSize n" "B < N" "N < p + B"
    and foot: "N = p \<or> foot_Magic (mem s) (gHeapStart s + span xs + N - 8) \<noteq> MAGIC_FOOT"
    and up: "\<not> grows_into (mem s) (h + B) B N"
  shows "\<exists>r s'. Heap_Reallocate mm tm fFile File Line (h + 28) n s = Some (Ret (r, s')) \<and>
    \<not> heap_ok s' \<and> (\<forall>s''. Heap_Validate s' \<noteq> Some (Ret s''))"
proof -
  define q where "q = gHeapStart s + span xs"
  define m' where "m' = realloc_down File Line n N (q + p + 28) (q + p) q (mem s)"
  define s1 where "s1 = Heap_int_WatchBlock h False s"
  note bd = heap_inv_bounds [OF inv] and t = heap_inv_tiled [OF inv]
  have hq: "h = q + p" by (simp add: h q_def)
  have b: "block_at (mem s) q p False" "block_at (mem s) (q + p) B True"
    using t by (simp_all add: tiled_append q_def add.assoc)
  have hi: "q + p + B \<le> gHeapEnd s" "gHeapEnd s < two32" using bd by (auto simp: q_def)
  have N32: "32 dvd N" unfolding N(1) Heap_int_GetBlockSize_def MIN_SIZE_def by (rule align_down_dvd)
  have hi': "q + p + B < two32" using hi by simp
  note lo = realloc_down_loses(6) [OF b hi' N(2,3) N32, of File Line n, folded m'_def]
  have l: "(h, B) \<in> live_blocks s" using heap_inv_ok [OF inv] by (simp add: h add.assoc)
  have prev: "foot_Head (mem s) (h - 8) = q" "grows_into (mem s) q B N"
    using b(1) hi' N(3) by (simp_all add: block_at_def hq grows_into_def u32_id)
  have run: "Heap_Reallocate mm tm fFile File Line (h + 28) n s = Some (Ret (head_Data q, s1\<lparr>mem := m'\<rparr>))"
    unfolding Heap_Reallocate_run [OF inv l N(2) [unfolded N(1)] up [unfolded N(1)]] Let_def N(1) [symmetric]
      s1_def [symmetric]
    using prev by (simp add: s1_def upd_mem_def m'_def hq)
  have "tiled m' (gHeapStart s) xs q"
    by (rule tiled_frame [OF lo]) (use t in \<open>simp_all add: tiled_append q_def\<close>)
  from validate_walk_prefix [OF this _ hi(2)] hi(1) have
    "validate_walk m' (gHeapEnd s) (gHeapStart s) = validate_walk m' (gHeapEnd s) q" by simp
  with realloc_down_stuck [OF b hi N(2,3) N32 foot [folded q_def], of File Line n, folded m'_def] obtain x where
    vw: "x < gHeapEnd s" "validate_walk m' (gHeapEnd s) (gHeapStart s) = Some x" by auto
  then have val: "Heap_Validate (s1\<lparr>mem := m'\<rparr>) \<noteq> Some (Ret s'')" for s''
    using inv by (auto simp: Heap_Validate_def Heap_ValidateDump_def heap_inv_def Let_def s1_def
      split: option.splits)
  then have "\<not> heap_ok (s1\<lparr>mem := m'\<rparr>)" using Heap_Validate_ok unfolding heap_ok_def by blast
  with run val show ?thesis by blast
qed

end
