(* ===== verification/Heap_Theorems.thy ===== *)
theory Heap_Theorems
  imports Heap_Realloc
begin

text \<open>
  What the kernel heap guarantees its callers, stated over the routines of \<open>heap.c\<close>, and the two
  places where it does not keep the promise. The sample heaps at the start are built block by block
  and serve as concrete instances.
\<close>

section \<open>Concrete heaps\<close>

definition put_block :: "addr \<Rightarrow> nat \<Rightarrow> bool \<Rightarrow> memory \<Rightarrow> memory" where
  "put_block a sz u m =
     (let m = set_Size a sz m;
          m = set_Magic a (if u then MAGIC_USED else MAGIC_FREE) m;
          m = set_foot_Magic (a + sz - 8) MAGIC_FOOT m
      in set_foot_Head (a + sz - 8) a m)"

fun build :: "addr \<Rightarrow> block list \<Rightarrow> memory" where
  "build a [] = (\<lambda>_. 0)"
| "build a ((sz, u) # bs) = put_block a sz u (build (a + sz) bs)"

definition sample :: "block list \<Rightarrow> heap_state" where
  "sample bs = \<lparr>mem = build MM_KHEAP_BASE bs, gHeapStart = MM_KHEAP_BASE,
     gHeapEnd = MM_KHEAP_BASE + span bs, glHeap = False, in_heap_dump = False,
     active_wps = (\<lambda>_. 0), debug_reg = (\<lambda>_. 0), dr7 = 0\<rparr>"

lemma put_block_spec:
  assumes "32 dvd sz" "(if u then 64 else 32) \<le> sz" "a + sz < two32"
  shows "block_at (put_block a sz u m) a sz u" "same_outside m (put_block a sz u m) a (a + sz)"
proof -
  have sz: "32 \<le> sz" using assms(2) by (auto split: if_splits)
  obtain f where f: "f + 8 = a + sz" "a + sz - 8 = f" using sz that [of "a + sz - 8"] by simp
  have eq: "put_block a sz u m =
    wr32 (wr32 (wr32 (wr32 m a sz) (a + 16) (if u then MAGIC_USED else MAGIC_FREE)) f MAGIC_FOOT) (f + 4) a"
    by (simp add: put_block_def Let_def field_defs f(2))
  show "block_at (put_block a sz u m) a sz u"
    unfolding eq by (rule block_atI [OF _ _ f(1)]) (use f sz assms in \<open>simp_all add: mem_simps\<close>)
  show "same_outside m (put_block a sz u m) a (a + sz)"
    unfolding eq using f sz by (intro same_outside_wr32 same_outside_refl) auto
qed

lemma tiled_build:
  "\<forall>(sz, u) \<in> set bs. 32 dvd sz \<and> (if u then 64 else 32) \<le> sz \<Longrightarrow> a + span bs < two32 \<Longrightarrow>
   tiled (build a bs) a bs (a + span bs)"
proof (induction a bs rule: build.induct)
  case (2 a sz u bs)
  then have t: "tiled (build (a + sz) bs) (a + sz) bs (a + sz + span bs)" by (auto simp: add.assoc)
  have p: "32 dvd sz" "(if u then 64 else 32) \<le> sz" "a + sz < two32" using "2.prems" by auto
  have "tiled (put_block a sz u (build (a + sz) bs)) (a + sz) bs (a + sz + span bs)"
    by (rule tiled_frame [OF put_block_spec(2) [OF p]]) (use t in auto)
  with put_block_spec(1) [OF p] show ?case by (simp add: add.assoc)
qed simp

lemma sample_inv:
  assumes "\<forall>(sz, u) \<in> set bs. 32 dvd sz \<and> (if u then 64 else 32) \<le> sz" "no_adjacent_free bs"
    "4096 dvd span bs" "span bs \<le> 0xEC00000"
  shows "heap_inv (sample bs) bs"
proof -
  have "4096 dvd MM_KHEAP_BASE + span bs"
    by (rule dvd_add [OF _ assms(3)]) (simp add: MM_KHEAP_BASE_def)
  moreover have "MM_KHEAP_BASE + span bs \<le> MM_KHEAP_MAX" "MM_KHEAP_BASE + span bs < two32"
    using assms(4) by (simp_all add: MM_KHEAP_BASE_def MM_KHEAP_MAX_def)
  ultimately show ?thesis
    using tiled_build [OF assms(1), of MM_KHEAP_BASE] assms(2) by (simp add: heap_inv_def sample_def)
qed

lemma sample_ok: "heap_inv (sample bs) bs \<Longrightarrow> heap_ok (sample bs) \<and> live_blocks (sample bs) = live MM_KHEAP_BASE bs"
  using heap_inv_ok [of "sample bs" bs] by (simp add: sample_def)

abbreviation heap_a :: heap_state where "heap_a \<equiv> sample [(64, True), (4032, False)]"
abbreviation heap_b :: heap_state where "heap_b \<equiv> sample [(64, True), (64, True), (3968, False)]"
abbreviation heap_c :: heap_state where
  "heap_c \<equiv> sample [(128, False), (64, True), (64, True), (3840, False)]"

lemma heap_a_inv: "heap_inv heap_a [(64, True), (4032, False)]"
  by (rule sample_inv) auto

lemma heap_b_inv: "heap_inv heap_b [(64, True), (64, True), (3968, False)]"
  by (rule sample_inv) auto

lemma heap_c_inv: "heap_inv heap_c [(128, False), (64, True), (64, True), (3840, False)]"
  by (rule sample_inv) auto

lemma heap_a_ok: "heap_ok heap_a" "payloads heap_a = {(3225419804, 28)}"
  using sample_ok [OF heap_a_inv] by (simp_all add: payloads_def MM_KHEAP_BASE_def)

section \<open>Allocation and deallocation\<close>

text \<open>
  C1: on a well-formed heap, \<open>malloc\<close> of any size from 1 byte up to 768 MiB returns; the heap is well-formed
  again, the heap lock is released, no byte of a region in use has changed, a null result leaves the
  set of regions alone and any other result is a new region of at least the size asked for that
  overlaps no region in use.
\<close>

theorem Heap_Allocate_correct:
  assumes "heap_ok s" and "0 < n" and "n < 0x30000000"
  shows "\<exists>r s'. Heap_Allocate mm tm File Line n s = Some (Ret (r, s')) \<and> heap_ok s' \<and> \<not> glHeap s' \<and>
    keeps (mem s) (mem s') (payloads s) \<and> (r = 0 \<longrightarrow> payloads s' = payloads s) \<and>
    (r \<noteq> 0 \<longrightarrow> (\<exists>k \<ge> n. payloads s' = insert (r, k) (payloads s) \<and>
      (\<forall>(p, j) \<in> payloads s. p + j \<le> r \<or> r + k \<le> p)))"
proof -
  from Heap_Allocate_ok [OF assms] obtain r s' where
    r: "Heap_Allocate mm tm File Line n s = Some (Ret (r, s'))" "allocated s n r s'" by blast
  then have "\<not> glHeap s'" by (simp add: allocated_def)
  then show ?thesis
    using r(1) Heap_Allocate_laws(1) [OF assms r(1)]
    by (intro exI [of _ r] exI [of _ s'] conjI impI Heap_Allocate_laws(2,3) [OF assms r(1)]) simp_all
qed

theorem Heap_Allocate_correct_witness:
  "heap_ok heap_a \<and>
   (\<exists>r s'. Heap_Allocate (\<lambda>_. True) 0 0 0 100 heap_a = Some (Ret (r, s')) \<and> heap_ok s' \<and> \<not> glHeap s' \<and>
    keeps (mem heap_a) (mem s') (payloads heap_a) \<and> (r = 0 \<longrightarrow> payloads s' = payloads heap_a) \<and>
    (r \<noteq> 0 \<longrightarrow> (\<exists>k \<ge> 100. payloads s' = insert (r, k) (payloads heap_a) \<and>
      (\<forall>(p, j) \<in> payloads heap_a. p + j \<le> r \<or> r + k \<le> p))))"
  using Heap_Allocate_correct [OF heap_a_ok(1), of 100 "\<lambda>_. True" 0 0 0] heap_a_ok(1) by simp

text \<open>
  C2: \<open>free\<close> of a pointer handed out returns, removes exactly that region, changes no byte of any
  other region in use, releases the heap lock and leaves the heap well-formed, with no two free
  blocks side by side.
\<close>

theorem Heap_Deallocate_correct:
  assumes "heap_ok s" and "(r, k) \<in> payloads s"
  shows "\<exists>s'. Heap_Deallocate File Line r s = Ret s' \<and> heap_ok s' \<and> \<not> glHeap s' \<and>
    payloads s' = payloads s - {(r, k)} \<and> keeps (mem s) (mem s') (payloads s - {(r, k)}) \<and>
    no_adjacent_free (heap_blocks s')"
proof -
  from assms obtain h B where h: "(h, B) \<in> live_blocks s" "r = h + 28" by (rule payloadE)
  with assms(1) obtain s' where s': "Heap_Deallocate File Line r s = Ret s'" "freed s h B s'"
    using Heap_Deallocate_inv unfolding heap_ok_def live_blocks_def by blast
  then have "\<not> glHeap s'" "no_adjacent_free (heap_blocks s')"
    by (simp_all add: freed_def heap_ok_def heap_inv_def)
  with Heap_Deallocate_payload [OF assms, of File Line] s'(1) show ?thesis by auto
qed

theorem Heap_Deallocate_correct_witness:
  "(3225419804, 28) \<in> payloads heap_a \<and>
   (\<exists>s'. Heap_Deallocate 0 0 3225419804 heap_a = Ret s' \<and> heap_ok s' \<and> \<not> glHeap s' \<and>
     payloads s' = {} \<and> keeps (mem heap_a) (mem s') {} \<and> no_adjacent_free (heap_blocks s'))"
  using Heap_Deallocate_correct [OF heap_a_ok(1), of 3225419804 28 0 0] heap_a_ok(2) by simp

text \<open>
  C3: \<open>malloc\<close> of 1 to \<open>0x2FFFFFFF\<close> bytes never fails while some free block is large enough for the request
  and its header and footer.
\<close>

theorem Heap_Allocate_succeeds:
  assumes "heap_ok s" and "0 < n" and "n < 0x30000000"
    and "(k, False) \<in> set (heap_blocks s)" and "Heap_int_GetBlockSize n \<le> k"
  shows "\<exists>r s'. Heap_Allocate mm tm File Line n s = Some (Ret (r, s')) \<and> r \<noteq> 0"
  using Heap_Allocate_inv [OF assms(1) [unfolded heap_ok_def] assms(2,3)] assms(4,5) by blast

theorem Heap_Allocate_succeeds_witness:
  "(4032, False) \<in> set (heap_blocks heap_a) \<and> Heap_int_GetBlockSize 100 \<le> 4032 \<and>
   (\<exists>r s'. Heap_Allocate (\<lambda>_. False) 0 0 0 100 heap_a = Some (Ret (r, s')) \<and> r \<noteq> 0)"
proof -
  have "Heap_int_GetBlockSize 100 \<le> 4032"
    using GetBlockSize_spec(2) [of 100] by simp
  then show ?thesis
    using Heap_Allocate_succeeds [OF heap_a_ok(1), of 100 4032 "\<lambda>_. False" 0 0 0] heap_inv_blocks [OF heap_a_inv]
    by simp
qed

text \<open>
  C4: allocating (1 to \<open>0x2FFFFFFF\<close> bytes) and freeing again gives back the same set of regions, and every
  region in use has kept its contents.
\<close>

theorem Heap_alloc_free:
  assumes "heap_ok s" and "0 < n" and "n < 0x30000000"
    and "Heap_Allocate mm tm File Line n s = Some (Ret (r, s1))" and "r \<noteq> 0"
  shows "\<exists>s2. Heap_Deallocate File' Line' r s1 = Ret s2 \<and> heap_ok s2 \<and> payloads s2 = payloads s \<and>
    keeps (mem s) (mem s2) (payloads s)"
  by (rule kheap.alloc_dealloc [OF assms])

theorem Heap_alloc_free_witness:
  "\<exists>r s1 s2. Heap_Allocate (\<lambda>_. True) 0 0 0 100 heap_a = Some (Ret (r, s1)) \<and> r \<noteq> 0 \<and>
     Heap_Deallocate 0 0 r s1 = Ret s2 \<and> payloads s2 = payloads heap_a"
proof -
  have "Heap_int_GetBlockSize 100 \<le> 4032" using GetBlockSize_spec(2) [of 100] by simp
  with Heap_Allocate_inv [OF heap_a_inv, of 100 "\<lambda>_. True" 0 0 0] obtain r s1 where
    "Heap_Allocate (\<lambda>_. True) 0 0 0 100 heap_a = Some (Ret (r, s1))" "r \<noteq> 0" by auto
  with Heap_alloc_free [OF heap_a_ok(1) _ _ this, of 0 0] show ?thesis by auto
qed

lemma Heap_AllocateZero_fill:
  "Heap_AllocateZero mm tm File Line n s =
    allocator.alloc_fill mem (\<lambda>m s. s\<lparr>mem := m\<rparr>) (Heap_Allocate mm tm File Line) n (\<lambda>r m. memset m r 0 n) s"
  unfolding Heap_AllocateZero_def kheap.alloc_fill_def obind_def upd_mem_def
  by (auto split: option.split outcome.split)

text \<open>
  \<open>calloc\<close> returns; a non-null result is a new region apart from all others whose first \<open>n\<close> bytes
  are zero, and no other region changes.
\<close>

theorem Heap_AllocateZero_correct:
  assumes "heap_ok s" and "0 < n" and "n < 0x30000000"
  shows "\<exists>r s'. Heap_AllocateZero mm tm File Line n s = Some (Ret (r, s')) \<and> heap_ok s' \<and>
    keeps (mem s) (mem s') (payloads s) \<and> (r = 0 \<longrightarrow> payloads s' = payloads s) \<and>
    (r \<noteq> 0 \<longrightarrow> (\<exists>k \<ge> n. payloads s' = insert (r, k) (payloads s) \<and>
      (\<forall>(p, j) \<in> payloads s. p + j \<le> r \<or> r + k \<le> p)) \<and> (\<forall>i < n. mem s' (r + i) = 0))"
  unfolding Heap_AllocateZero_fill
  by (rule kheap.alloc_fill_spec [OF assms, of "\<lambda>r m. memset m r 0 n"])
    (auto simp: memset_apply)

theorem Heap_AllocateZero_correct_witness:
  "heap_ok heap_a \<and> (\<exists>r s'. Heap_AllocateZero (\<lambda>_. True) 0 0 0 9 heap_a = Some (Ret (r, s')) \<and> heap_ok s' \<and>
    (r \<noteq> 0 \<longrightarrow> (\<forall>i < 9. mem s' (r + i) = 0)))"
  using Heap_AllocateZero_correct [OF heap_a_ok(1), of 9 "\<lambda>_. True" 0 0 0] heap_a_ok(1) by auto

section \<open>Histories\<close>

text \<open>
  What the rest of the kernel does to the heap, \<open>realloc\<close> apart: allocate or allocate zeroed fewer
  than \<open>0x30000000\<close> bytes, free what it was given, pass a null pointer to \<open>free\<close>, and write inside its
  own regions. The heap ends at \<open>MM_KHEAP_MAX\<close> at most, and the bound keeps the end of an extended heap
  below 4 GiB: no request above it can be met, but \<open>Heap_Extend\<close> computes the new end modulo $2^{32}$
  before it compares it with the limit, and \<open>Heap_Extend_limit_wraps\<close> below shows what follows.
\<close>

inductive heap_step :: "heap_state \<Rightarrow> heap_state \<Rightarrow> bool" where
  malloc: "n < 0x30000000 \<Longrightarrow> Heap_Allocate mm tm File Line n s = Some (Ret (r, s')) \<Longrightarrow> heap_step s s'"
| calloc: "n < 0x30000000 \<Longrightarrow> Heap_AllocateZero mm tm File Line n s = Some (Ret (r, s')) \<Longrightarrow> heap_step s s'"
| free: "(r, k) \<in> payloads s \<Longrightarrow> Heap_Deallocate File Line r s = Ret s' \<Longrightarrow> heap_step s s'"
| free_null: "Heap_Deallocate File Line 0 s = Ret s' \<Longrightarrow> heap_step s s'"
| store: "(r, k) \<in> payloads s \<Longrightarrow> (\<forall>x. x < r \<or> r + k \<le> x \<longrightarrow> m' x = mem s x) \<Longrightarrow>
    heap_step s (s\<lparr>mem := m'\<rparr>)"

inductive_cases heap_stepE: "heap_step s s'"

lemma heap_step_ok:
  assumes "heap_step s s'" and ok: "heap_ok s"
  shows "heap_ok s'"
  using assms(1)
proof cases
  case (malloc n mm tm File Line r)
  show ?thesis
  proof (cases "n = 0")
    case True
    with malloc(2) ok show ?thesis by (simp add: Heap_Allocate_def)
  next
    case False
    with Heap_Allocate_laws(1) [OF ok _ malloc] show ?thesis by simp
  qed
next
  case (calloc n mm tm File Line r)
  have f: "x < r \<or> r + n \<le> x \<Longrightarrow> memset m r 0 n x = m x" for r m x by (auto simp: memset_apply)
  show ?thesis
  proof (cases "n = 0")
    case True
    with calloc(2) ok show ?thesis by (simp add: Heap_AllocateZero_def Heap_Allocate_def)
  next
    case False
    then have "0 < n" by simp
    show ?thesis
      by (rule kheap.alloc_fill_spec [OF ok \<open>0 < n\<close> calloc(1), of "\<lambda>r m. memset m r 0 n" mm tm File Line])
        (use calloc(2) f in \<open>auto simp: Heap_AllocateZero_fill\<close>)
  qed
next
  case (free r k File Line)
  then show ?thesis using Heap_Deallocate_payload [OF ok, of r k File Line] by auto
next
  case (free_null File Line)
  then show ?thesis using ok by (auto simp: Heap_Deallocate_def split: if_splits)
next
  case (store r k m')
  then show ?thesis using heap_ok_write [OF ok] by blast
qed

text \<open>
  C5: from the installation of the heap on, after any sequence of allocations of fewer than
  \<open>0x30000000\<close> bytes each (768 MiB; the whole heap is smaller), frees of regions handed out or of null,
  and writes inside regions handed out, the heap is well-formed, so its consistency check returns and
  does not panic. Larger requests and \<open>realloc\<close> are not among the steps.
\<close>

theorem heap_history_valid:
  assumes "\<not> in_heap_dump s0" and "Heap_Install mm s0 = Some (Ret s1)" and "heap_step\<^sup>*\<^sup>* s1 s"
  shows "heap_ok s \<and> Heap_Validate s = Some (Ret s)"
proof -
  from Heap_Install_inv [OF assms(1), of mm] assms(2) have "heap_ok s1"
    using heap_inv_ok by auto
  from assms(3) this have "heap_ok s"
    by (induction rule: rtranclp_induct) (auto intro: heap_step_ok)
  then show ?thesis using Heap_Validate_ok by (auto simp: heap_ok_def)
qed

definition raw_heap :: heap_state where
  "raw_heap = \<lparr>mem = (\<lambda>_. 0), gHeapStart = 0, gHeapEnd = 0, glHeap = False, in_heap_dump = False,
     active_wps = (\<lambda>_. 0), debug_reg = (\<lambda>_. 0), dr7 = 0\<rparr>"

theorem heap_history_valid_witness:
  "\<exists>s1 s. Heap_Install (\<lambda>_. True) raw_heap = Some (Ret s1) \<and> heap_step\<^sup>*\<^sup>* s1 s \<and> s1 \<noteq> raw_heap \<and>
     heap_ok s \<and> Heap_Validate s = Some (Ret s)"
proof -
  have d: "\<not> in_heap_dump raw_heap" by (simp add: raw_heap_def)
  from Heap_Install_inv [OF d, of "\<lambda>_. True"] obtain s1 bs where
    s1: "Heap_Install (\<lambda>_. True) raw_heap = Some (Ret s1)" "heap_inv s1 bs" by blast
  from Heap_Allocate_ok [of s1 5 "\<lambda>_. True" 0 0 0] heap_inv_ok [OF s1(2)] obtain r s where
    "Heap_Allocate (\<lambda>_. True) 0 0 0 5 s1 = Some (Ret (r, s))" by auto
  then have "heap_step s1 s" by (intro heap_step.malloc [of 5]) auto
  then have st: "heap_step\<^sup>*\<^sup>* s1 s" by blast
  have "gHeapStart s1 \<noteq> gHeapStart raw_heap"
    using heap_inv_start [OF s1(2)] by (simp add: raw_heap_def MM_KHEAP_BASE_def)
  with heap_history_valid [OF d s1(1) st] s1(1) st show ?thesis by auto
qed

text \<open>
  The limit of the heap is compared with a new end that has wrapped around: an extension that runs
  past 4 GiB is not refused, and when its pages can be mapped the heap then ends before it starts.
\<close>

lemma Heap_Extend_limit_wraps:
  assumes "gHeapStart s = MM_KHEAP_BASE" and "MM_KHEAP_BASE \<le> gHeapEnd s" and "gHeapEnd s < MM_KHEAP_MAX"
    and "4096 dvd Bytes" and "two32 + 4096 \<le> gHeapEnd s + Bytes" and "Bytes \<le> 0x40000000" and "\<forall>p. mm p"
  shows "\<exists>r s'. Heap_Extend mm Bytes s = Some (Ret (r, s')) \<and> gHeapEnd s' < gHeapStart s'"
proof -
  define e where "e = gHeapEnd s"
  obtain b where b: "Bytes = 4096 * b" using assms(4) by (elim dvdE)
  have e: "0xC0400000 \<le> e" "e < 0xCF000000" "two32 + 4096 \<le> e + Bytes"
    using assms(2,3,5) by (simp_all add: e_def MM_KHEAP_BASE_def MM_KHEAP_MAX_def)
  obtain x where x: "e + Bytes = two32 + x" "4096 \<le> x" using e(3) that [of "e + Bytes - two32"] by simp
  have xx: "x < 0xC0400000" "x < two32" using x(1) e(2) assms(6) by simp_all
  have up: "u32 (Bytes + 4095) div 4096 = b" "align_down 4096 (u32 (Bytes + 4095)) = Bytes"
    using assms(6) by (simp_all add: b u32_id align_down_def)
  have ne: "u32 (e + Bytes) = x" using x xx by (simp add: u32_def)
  have B: "Bytes \<noteq> 0" "Bytes < two32" using e assms(6) by simp_all
  define m1 where "m1 = wr32 (wr32 (mem s) e Bytes) (e + 16) MAGIC_FREE"
  obtain f where f: "f + 8 = x" using x(2) that [of "x - 8"] by simp
  have foot: "Heap_ThisFoot m1 e = f" if "rd32 m1 e = Bytes" for m1
    using that ne f xx by (simp add: Heap_ThisFoot_def head_Size_def sub32_id sizeof_tHeapFoot_def)
  define m3 where "m3 = wr32 (wr32 m1 (f + 4) e) f MAGIC_FOOT"
  have rd: "rd32 m1 e = Bytes" "rd32 m3 e = Bytes"
    using B f xx e(1) by (simp_all add: m3_def m1_def mem_simps)
  then have nh: "Heap_NextHead m3 e = x" using ne by (simp add: Heap_NextHead_def head_Size_def)
  have "Heap_Extend mm Bytes s = Some (Heap_Merge e (s\<lparr>gHeapEnd := x, mem := m3\<rparr>))"
    unfolding Heap_Extend_def Let_def e_def [symmetric] upd_mem_def field_defs
    using assms(7) e up ne B rd foot xx
    by (simp add: MM_KHEAP_MAX_def pages_ok_def b m3_def m1_def list_all_iff)
  moreover have "\<exists>r s'. Heap_Merge e (s\<lparr>gHeapEnd := x, mem := m3\<rparr>) = Ret (r, s') \<and> gHeapEnd s' = x \<and>
      gHeapStart s' = gHeapStart s"
    using nh by (simp add: Heap_Merge_def merge_left_def merge_right_def Let_def)
  ultimately show ?thesis using assms(1) xx by (auto simp: MM_KHEAP_BASE_def)
qed

section \<open>Reallocation\<close>

text \<open>
  C6: when the block behind is free and large enough, \<open>realloc\<close> to a larger block size (for 1 to
  \<open>0x2FFFFFFF\<close> bytes) grows the block in place: the pointer
  is unchanged, the block has the size needed, its contents and every other region are untouched,
  and the heap stays well-formed.
\<close>

theorem Heap_Reallocate_in_place:
  assumes "heap_ok s" and "heap_blocks s = xs @ (B, True) # (k, False) # ys"
    and "0 < n" and "n < 0x30000000"
    and "B < Heap_int_GetBlockSize n" and "Heap_int_GetBlockSize n \<le> B + k"
  defines "h \<equiv> gHeapStart s + span xs"
  shows "\<exists>s'. Heap_Reallocate mm tm fFile File Line (h + 28) n s = Some (Ret (h + 28, s')) \<and> heap_ok s' \<and>
    live_blocks s' = insert (h, Heap_int_GetBlockSize n) (live_blocks s - {(h, B)}) \<and>
    keeps (mem s) (mem s') (live_blocks s - {(h, B)}) \<and>
    (\<forall>i < B - 36. mem s' (h + 28 + i) = mem s (h + 28 + i))"
proof -
  from assms(1,2) have inv: "heap_inv s (xs @ (B, True) # (k, False) # ys)" by (simp add: heap_ok_def)
  then have "64 \<le> B" using heap_inv_tiled [OF inv] by (simp add: tiled_append block_at_def)
  then have "same_inside m m' (h + 28) (h + B - 8) \<Longrightarrow> \<forall>i < B - 36. m' (h + 28 + i) = m (h + 28 + i)" for m m'
    by (auto simp: same_inside_def)
  with Heap_Reallocate_up [OF inv h_def [THEN meta_eq_to_obj_eq] assms(3-6), of mm tm fFile File Line]
  show ?thesis by blast
qed

lemma block_sizes: "Heap_int_GetBlockSize 100 = 160" "Heap_int_GetBlockSize 80 = 128"
  by (simp_all add: Heap_int_GetBlockSize_def MIN_SIZE_def sizeof_tHeapHead_def sizeof_tHeapFoot_def
    align_down_def u32_def)

theorem Heap_Reallocate_in_place_witness:
  "\<exists>s'. Heap_Reallocate (\<lambda>_. False) 0 0 0 0 3225419804 100 heap_a = Some (Ret (3225419804, s')) \<and>
     heap_ok s' \<and> live_blocks s' = {(3225419776, 160)}"
proof -
  have "heap_blocks heap_a = [] @ (64, True) # (4032, False) # []" using heap_inv_blocks [OF heap_a_inv] by simp
  from Heap_Reallocate_in_place [OF heap_a_ok(1) this, of 100 "\<lambda>_. False" 0 0 0 0]
  show ?thesis using sample_ok [OF heap_a_inv]
    by (auto simp: block_sizes) (simp add: sample_def MM_KHEAP_BASE_def)
qed

text \<open>
  C7: when neither neighbour is free and large enough, \<open>realloc\<close> to a larger block size (for 1 to
  \<open>0x2FFFFFFF\<close> bytes) moves the block: it returns null with
  all regions as before, or a new block whose contents begin with those of the old one, which is
  freed; every other region is untouched and the heap stays well-formed.
\<close>

theorem Heap_Reallocate_relocates:
  assumes "heap_ok s" and "(h, B) \<in> live_blocks s" and "0 < n" and "n < 0x30000000"
    and "B < Heap_int_GetBlockSize n"
    and "\<not> grows_into (mem s) (h + B) B (Heap_int_GetBlockSize n)"
    and "\<not> grows_into (mem s) (foot_Head (mem s) (h - 8)) B (Heap_int_GetBlockSize n)"
  shows "\<exists>r s'. Heap_Reallocate mm tm fFile File Line (h + 28) n s = Some (Ret (r, s')) \<and> heap_ok s' \<and>
    (if r = 0 then live_blocks s' = live_blocks s \<and> keeps (mem s) (mem s') (live_blocks s)
     else \<exists>h' B'. r = h' + 28 \<and> n + 36 \<le> B' \<and>
       live_blocks s' = insert (h', B') (live_blocks s - {(h, B)}) \<and>
       keeps (mem s) (mem s') (live_blocks s - {(h, B)}) \<and>
       (\<forall>i < B - 36. mem s' (r + i) = mem s (h + 28 + i)))"
  using Heap_Reallocate_moves [OF assms(1) [unfolded heap_ok_def] assms(2-7)] unfolding moved_def by blast

lemma heap_b_neighbours:
  "\<not> grows_into (mem heap_b) (3225419776 + 64) 64 N"
  "\<not> grows_into (mem heap_b) (foot_Head (mem heap_b) (3225419776 - 8)) 64 N"
proof -
  have "block_at (mem heap_b) (3225419776 + 64) 64 True"
    using heap_inv_tiled [OF heap_b_inv] heap_inv_start [OF heap_b_inv] by (simp add: MM_KHEAP_BASE_def)
  then show "\<not> grows_into (mem heap_b) (3225419776 + 64) 64 N" by (simp add: grows_into_def block_at_def)
  have z: "mem heap_b x = 0" if "x < 3225419776" for x
    using that by (simp add: sample_def MM_KHEAP_BASE_def put_block_def Let_def field_defs wr32_outside)
  have "foot_Head (mem heap_b) (3225419776 - 8) = 0" "head_Magic (mem heap_b) 0 = 0"
    by (simp_all add: foot_Head_def head_Magic_def rd32_def z)
  then show "\<not> grows_into (mem heap_b) (foot_Head (mem heap_b) (3225419776 - 8)) 64 N"
    by (simp add: grows_into_def MAGIC_FREE_def)
qed

theorem Heap_Reallocate_relocates_witness:
  "(3225419776, 64) \<in> live_blocks heap_b \<and>
   (\<exists>r s'. Heap_Reallocate (\<lambda>_. False) 0 0 0 0 3225419804 100 heap_b = Some (Ret (r, s')) \<and> heap_ok s' \<and>
     (r \<noteq> 0 \<longrightarrow> (\<forall>i < 28. mem s' (r + i) = mem heap_b (3225419804 + i))))"
proof -
  have ok: "heap_ok heap_b" and l: "(3225419776, 64) \<in> live_blocks heap_b"
    using sample_ok [OF heap_b_inv] by (simp_all add: MM_KHEAP_BASE_def)
  have "\<exists>r s'. Heap_Reallocate (\<lambda>_. False) 0 0 0 0 (3225419776 + 28) 100 heap_b = Some (Ret (r, s')) \<and>
     heap_ok s' \<and> (r \<noteq> 0 \<longrightarrow> (\<forall>i < 64 - 36. mem s' (r + i) = mem heap_b (3225419776 + 28 + i)))"
    using Heap_Reallocate_relocates [OF ok l, of 100 "\<lambda>_. False" 0 0 0 0] heap_b_neighbours
    by (auto simp: block_sizes)
  with l show ?thesis by simp
qed

text \<open>
  C8: \<open>realloc\<close> of a block that cannot grow upwards, when the block before is free and the two
  together are larger than the new block size: the rest is lost. Only the link of the footer at the
  new end is written. Unless the memory there holds a footer's magic number by accident (which at the
  old end of the block before it does, and no exception is made for that end), the heap is no longer
  well-formed, and the next consistency check, which every \<open>malloc\<close> starts with, does not return.
\<close>

theorem Heap_Reallocate_down_corrupts:
  assumes "heap_ok s" and "heap_blocks s = xs @ (p, False) # (B, True) # ys"
  defines "q \<equiv> gHeapStart s + span xs"
  defines "h \<equiv> q + p"
  assumes "N = Heap_int_GetBlockSize n" and "B < N" and "N < p + B" and "\<not> grows_into (mem s) (h + B) B N"
    and "N = p \<or> foot_Magic (mem s) (q + N - 8) \<noteq> MAGIC_FOOT"
  shows "\<exists>r s'. Heap_Reallocate mm tm fFile File Line (h + 28) n s = Some (Ret (r, s')) \<and> \<not> heap_ok s' \<and>
    (\<forall>s''. Heap_Validate s' \<noteq> Some (Ret s''))"
  using Heap_Reallocate_down_breaks [OF _ _ assms(5-7), of s xs ys h] assms(1,2,8,9)
  by (simp add: heap_ok_def h_def q_def)

lemma heap_c_blocks:
  "heap_ok heap_c" "gHeapStart heap_c = 3225419776"
  "heap_blocks heap_c = [] @ (128, False) # (64, True) # [(64, True), (3840, False)]"
  "\<not> grows_into (mem heap_c) (3225419968) 64 N"
proof -
  show "heap_ok heap_c" using sample_ok [OF heap_c_inv] by simp
  show st: "gHeapStart heap_c = 3225419776" by (simp add: sample_def MM_KHEAP_BASE_def)
  show "heap_blocks heap_c = [] @ (128, False) # (64, True) # [(64, True), (3840, False)]"
    using heap_inv_blocks [OF heap_c_inv] by simp
  have "block_at (mem heap_c) 3225419968 64 True"
    using heap_inv_tiled [OF heap_c_inv] by (simp add: st)
  then show "\<not> grows_into (mem heap_c) (3225419968) 64 N"
    by (simp add: grows_into_def block_at_def)
qed

lemma heap_c_no_foot: "foot_Magic (mem heap_c) 3225419928 = 0"
proof -
  have "mem heap_c x = 0" if "3225419928 \<le> x" "x < 3225419932" for x
    using that by (simp add: sample_def MM_KHEAP_BASE_def put_block_def Let_def field_defs wr32_outside)
  then show ?thesis by (simp add: foot_Magic_def rd32_def)
qed

theorem Heap_Reallocate_down_corrupts_witness:
  "heap_ok heap_c \<and>
   (\<exists>r s'. Heap_Reallocate (\<lambda>_. False) 0 0 0 0 3225419932 100 heap_c = Some (Ret (r, s')) \<and> \<not> heap_ok s' \<and>
     (\<forall>s''. Heap_Validate s' \<noteq> Some (Ret s''))) \<and>
   (\<exists>r s'. Heap_Reallocate (\<lambda>_. False) 0 0 0 0 3225419932 80 heap_c = Some (Ret (r, s')) \<and> \<not> heap_ok s' \<and>
     (\<forall>s''. Heap_Validate s' \<noteq> Some (Ret s'')))"
  using Heap_Reallocate_down_corrupts [OF heap_c_blocks(1,3) block_sizes(1) [symmetric], of "\<lambda>_. False" 0 0 0 0]
    Heap_Reallocate_down_corrupts [OF heap_c_blocks(1,3) block_sizes(2) [symmetric], of "\<lambda>_. False" 0 0 0 0]
    heap_c_blocks(1,4) heap_c_no_foot
  by (simp add: heap_c_blocks(2) MAGIC_FOOT_def)

text \<open>
  The block size of a request wraps at 32 bits: each of the 67 largest requests gets a block of
  at most 64 bytes, far smaller than the request.
\<close>

theorem Heap_int_GetBlockSize_wraps:
  assumes "0xFFFFFFBD \<le> n" and "n < two32"
  shows "Heap_int_GetBlockSize n \<le> 64 \<and> Heap_int_GetBlockSize n < n"
proof -
  obtain k where k: "n + 67 = two32 + k"
    using assms that [of "n + 67 - two32"] by simp
  then have k67: "k < 67" using assms(2) by linarith
  have "u32 (n + 67) = k" unfolding k using k67 by (simp add: u32_def)
  then have eq: "Heap_int_GetBlockSize n = align_down 32 k"
    by (simp add: Heap_int_GetBlockSize_def MIN_SIZE_def sizeof_tHeapHead_def sizeof_tHeapFoot_def add.commute)
  obtain j where j: "align_down 32 k = 32 * j" using align_down_dvd [of 32 k] by (elim dvdE)
  with align_down_le [of 32 k] k67 have "32 * j < 67" by linarith
  then have "32 * j \<le> 64" by presburger
  with eq j assms(1) show ?thesis by linarith
qed

theorem Heap_int_GetBlockSize_wraps_witness:
  "Heap_int_GetBlockSize 0xFFFFFFFF \<le> 64 \<and> Heap_int_GetBlockSize 0xFFFFFFFF < 0xFFFFFFFF"
  using Heap_int_GetBlockSize_wraps [of "0xFFFFFFFF"] by simp

end
