(* ===== verification/Linked_Queue.thy ===== *)
theory Linked_Queue
  imports Prelude
begin

text \<open>
  Queues of threads as the kernel keeps them: a head and a tail pointer, linked through a \<open>Next\<close>
  field of the members, with 0 for \<open>NULL\<close>. A family of such queues shares the one field, so an
  element may be on one queue only. The locale \<open>queue_family\<close> is the interface the scheduler and
  the locks rely on; \<open>Thread_Queues\<close> interprets it.
\<close>

type_synonym ptr = nat

section \<open>Linked segments\<close>

text \<open>\<open>path nxt p xs q\<close>: following \<open>nxt\<close> from \<open>p\<close> visits \<open>xs\<close> and ends at \<open>q\<close>.\<close>

fun path :: "(ptr \<Rightarrow> ptr) \<Rightarrow> ptr \<Rightarrow> ptr list \<Rightarrow> ptr \<Rightarrow> bool" where
  "path nxt p [] q = (p = q)"
| "path nxt p (x # xs) q = (p = x \<and> x \<noteq> 0 \<and> path nxt (nxt x) xs q)"

lemma path_append: "path nxt p (xs @ ys) q \<longleftrightarrow> (\<exists>r. path nxt p xs r \<and> path nxt r ys q)"
  by (induction xs arbitrary: p) auto

lemma path_snoc: "path nxt p (xs @ [x]) q \<longleftrightarrow> path nxt p xs x \<and> x \<noteq> 0 \<and> nxt x = q"
  by (auto simp: path_append)

lemma path_not_null: "path nxt p xs q \<Longrightarrow> 0 \<notin> set xs"
  by (induction xs arbitrary: p) auto

lemma path_null: "path nxt 0 xs 0 \<longleftrightarrow> xs = []"
  by (cases xs) auto

lemma path_cong: "(\<And>x. x \<in> set xs \<Longrightarrow> nxt' x = nxt x) \<Longrightarrow> path nxt' p xs q = path nxt p xs q"
  by (induction xs arbitrary: p) auto

lemma path_upd [simp]: "x \<notin> set xs \<Longrightarrow> path (nxt(x := v)) p xs q = path nxt p xs q"
  by (rule path_cong) auto

lemma path_redirect:
  assumes "path nxt p xs q" "xs \<noteq> []" "distinct xs"
  shows "path (nxt(last xs := v)) p xs v"
proof -
  from assms(2) obtain ys y where xs: "xs = ys @ [y]" by (cases xs rule: rev_cases) auto
  with assms(1,3) show ?thesis by (simp add: path_snoc)
qed

abbreviation lseg :: "(ptr \<Rightarrow> ptr) \<Rightarrow> ptr \<Rightarrow> ptr list \<Rightarrow> bool" where
  "lseg nxt p xs \<equiv> path nxt p xs 0"

lemma lseg_snoc:
  assumes "lseg nxt p xs" "xs \<noteq> []" "distinct xs" "t \<notin> set xs" "t \<noteq> 0"
  shows "lseg (nxt(last xs := t, t := 0)) p (xs @ [t])"
  using path_redirect [OF assms(1-3), of t] assms(4,5) by (simp add: path_snoc)

lemma lseg_remove:
  assumes "lseg nxt p (xs @ t # ys)" "distinct (xs @ t # ys)"
  shows "lseg (if xs = [] then nxt else nxt(last xs := nxt t)) (if xs = [] then nxt t else p) (xs @ ys)"
proof (cases "xs = []")
  case False
  from assms have "path nxt p xs t" "lseg nxt (nxt t) ys" by (auto simp: path_append)
  moreover have "last xs \<notin> set ys" using False assms(2) by (auto dest: last_in_set)
  ultimately have
    "path (nxt(last xs := nxt t)) p xs (nxt t)" "lseg (nxt(last xs := nxt t)) (nxt t) ys"
    using path_redirect [of nxt p xs t "nxt t"] False assms(2) by auto
  with False show ?thesis by (auto simp: path_append)
qed (use assms in simp)

text \<open>Walking to an element, keeping the one before it.\<close>

partial_function (option) find_link :: "(ptr \<Rightarrow> ptr) \<Rightarrow> ptr \<Rightarrow> ptr \<Rightarrow> ptr \<Rightarrow> (ptr \<times> ptr) option" where
  "find_link nxt t prev ret =
     (if ret \<noteq> 0 \<and> ret \<noteq> t then find_link nxt t ret (nxt ret) else Some (prev, ret))"

lemma find_link_absent: "lseg nxt p xs \<Longrightarrow> t \<notin> set xs \<Longrightarrow> \<exists>pr. find_link nxt t prev p = Some (pr, 0)"
proof (induction xs arbitrary: p prev)
  case Nil
  then show ?case by (subst find_link.simps) simp
next
  case (Cons x xs)
  then show ?case by (subst find_link.simps) auto
qed

lemma find_link_present:
  "lseg nxt p (xs @ t # ys) \<Longrightarrow> t \<notin> set xs \<Longrightarrow>
   find_link nxt t prev p = Some (if xs = [] then prev else last xs, t)"
proof (induction xs arbitrary: p prev)
  case Nil
  then show ?case by (subst find_link.simps) simp
next
  case (Cons x xs)
  then show ?case by (subst find_link.simps) auto
qed

text \<open>The other way the code looks for the element in front of \<open>t\<close>, used when \<open>t\<close> is not the first.\<close>

partial_function (option) find_before :: "(ptr \<Rightarrow> ptr) \<Rightarrow> ptr \<Rightarrow> ptr \<Rightarrow> ptr option" where
  "find_before nxt t prev = (if prev \<noteq> 0 \<and> nxt prev \<noteq> t then find_before nxt t (nxt prev) else Some prev)"

lemma find_before_present:
  "lseg nxt p (x # xs @ t # ys) \<Longrightarrow> distinct (x # xs @ t # ys) \<Longrightarrow> find_before nxt t p = Some (last (x # xs))"
proof (induction xs arbitrary: p x)
  case Nil
  then show ?case by (subst find_before.simps) auto
next
  case (Cons y xs)
  then show ?case by (subst find_before.simps) auto
qed

lemma find_before_absent:
  "lseg nxt p xs \<Longrightarrow> t \<notin> set xs \<Longrightarrow> t \<noteq> 0 \<Longrightarrow> find_before nxt t p = Some 0"
proof (induction xs arbitrary: p)
  case Nil
  then show ?case by (subst find_before.simps) simp
next
  case (Cons x xs)
  then show ?case by (cases xs; subst find_before.simps) auto
qed

section \<open>Queue headers\<close>

record tThreadList =
  Head :: ptr
  Tail :: ptr

definition queue_rep :: "(ptr \<Rightarrow> ptr) \<Rightarrow> ptr \<Rightarrow> ptr \<Rightarrow> ptr list \<Rightarrow> bool" where
  "queue_rep nxt h l xs \<longleftrightarrow> lseg nxt h xs \<and> distinct xs \<and> l = (if xs = [] then 0 else last xs)"

lemma queue_rep_empty: "queue_rep nxt 0 0 xs \<longleftrightarrow> xs = []"
  by (cases xs) (auto simp: queue_rep_def path_null)

lemma queue_rep_tail: "queue_rep nxt h l xs \<Longrightarrow> l = 0 \<longleftrightarrow> xs = []"
  unfolding queue_rep_def using path_not_null [of nxt h xs 0] last_in_set [of xs] by metis

lemma queue_rep_head: "queue_rep nxt h l xs \<Longrightarrow> h = 0 \<longleftrightarrow> xs = []"
  by (cases xs) (auto simp: queue_rep_def path_null)

lemma queue_rep_upd [simp]: "x \<notin> set xs \<Longrightarrow> queue_rep (nxt(x := v)) h l xs = queue_rep nxt h l xs"
  by (simp add: queue_rep_def)

lemma queue_rep_push:
  assumes "queue_rep nxt h l xs" "t \<notin> set xs" "t \<noteq> 0"
  shows "queue_rep (if xs = [] then nxt(t := 0) else nxt(l := t, t := 0)) (if xs = [] then t else h) t (xs @ [t])"
proof (cases "xs = []")
  case False
  with assms lseg_snoc [of nxt h xs t] show ?thesis by (auto simp: queue_rep_def)
qed (use assms in \<open>auto simp: queue_rep_def\<close>)

lemma queue_rep_pop:
  assumes "queue_rep nxt h l (x # xs)"
  shows "h = x" "queue_rep nxt (nxt x) (if xs = [] then 0 else l) xs"
  using assms by (auto simp: queue_rep_def)

lemma queue_rep_next: "queue_rep nxt h l (x # xs) \<Longrightarrow> nxt x = 0 \<longleftrightarrow> xs = []"
  by (cases xs) (auto simp: queue_rep_def)

lemma queue_rep_last: "queue_rep nxt h l (x # xs) \<Longrightarrow> l = x \<longleftrightarrow> xs = []"
  using last_in_set [of xs] by (auto simp: queue_rep_def split: if_splits)

lemma lseg_suffix: "lseg nxt p (xs @ t # ys) \<Longrightarrow> lseg nxt (nxt t) ys"
  by (induction xs arbitrary: p) auto

lemma queue_rep_remove:
  assumes "queue_rep nxt h l (xs @ t # ys)"
  shows "queue_rep (if xs = [] then nxt else nxt(last xs := nxt t)) (if xs = [] then nxt t else h)
     (if nxt t = 0 then (if xs = [] then 0 else last xs) else l) (xs @ ys)"
proof -
  have p: "lseg nxt h (xs @ t # ys)" and d: "distinct (xs @ t # ys)" and t: "l = last (xs @ t # ys)"
    using assms by (auto simp: queue_rep_def)
  have "nxt t = 0 \<longleftrightarrow> ys = []"
    using lseg_suffix [OF p] by (cases ys) (auto simp: path_null)
  with lseg_remove [OF p d] d t show ?thesis by (auto simp: queue_rep_def)
qed

section \<open>A family of queues\<close>

text \<open>
  The interface: \<open>holds s Q\<close> says that in state \<open>s\<close> the queues have the contents \<open>Q\<close>. An element
  that is on no queue may be appended to one; the first element may be taken off; any element may
  be removed.
\<close>

definition free_of :: "('q \<Rightarrow> 'a list) \<Rightarrow> 'a \<Rightarrow> bool" where
  "free_of Q t \<longleftrightarrow> (\<forall>q. t \<notin> set (Q q))"

locale queue_family =
  fixes holds :: "'s \<Rightarrow> ('q \<Rightarrow> 'a list) \<Rightarrow> bool"
    and valid :: "'a \<Rightarrow> bool"
    and push :: "'q \<Rightarrow> 'a \<Rightarrow> 's \<Rightarrow> 's"
    and pop :: "'q \<Rightarrow> 's \<Rightarrow> ('a \<times> 's) option"
  assumes disjoint: "holds s Q \<Longrightarrow> x \<in> set (Q q) \<Longrightarrow> x \<in> set (Q q') \<Longrightarrow> q = q'"
    and distinct_q: "holds s Q \<Longrightarrow> distinct (Q q)"
    and members: "holds s Q \<Longrightarrow> x \<in> set (Q q) \<Longrightarrow> valid x"
    and push_ok: "holds s Q \<Longrightarrow> valid t \<Longrightarrow> free_of Q t \<Longrightarrow> holds (push q t s) (Q(q := Q q @ [t]))"
    and pop_none: "holds s Q \<Longrightarrow> Q q = [] \<Longrightarrow> pop q s = None"
    and pop_some: "holds s Q \<Longrightarrow> Q q = x # xs \<Longrightarrow> \<exists>s'. pop q s = Some (x, s') \<and> holds s' (Q(q := xs))"
begin

fun push_all :: "'q \<Rightarrow> 'a list \<Rightarrow> 's \<Rightarrow> 's" where
  "push_all q [] s = s"
| "push_all q (t # ts) s = push_all q ts (push q t s)"

fun pop_n :: "nat \<Rightarrow> 'q \<Rightarrow> 's \<Rightarrow> ('a list \<times> 's) option" where
  "pop_n 0 q s = Some ([], s)"
| "pop_n (Suc n) q s =
     (case pop q s of None \<Rightarrow> None
      | Some (x, s) \<Rightarrow> (case pop_n n q s of None \<Rightarrow> None | Some (xs, s) \<Rightarrow> Some (x # xs, s)))"

lemma push_all_holds:
  "holds s Q \<Longrightarrow> distinct ts \<Longrightarrow> \<forall>t \<in> set ts. valid t \<and> free_of Q t \<Longrightarrow>
   holds (push_all q ts s) (Q(q := Q q @ ts))"
proof (induction ts arbitrary: s Q)
  case (Cons t ts)
  then have h: "holds (push q t s) (Q(q := Q q @ [t]))" by (auto intro: push_ok)
  have "\<forall>u \<in> set ts. valid u \<and> free_of (Q(q := Q q @ [t])) u"
    using Cons.prems by (auto simp: free_of_def)
  with Cons.IH [OF h] Cons.prems(2) show ?case by (simp add: fun_upd_def [symmetric])
qed simp

text \<open>First in, first out: what is taken off comes in the order it was put on.\<close>

lemma pop_n_holds:
  "holds s Q \<Longrightarrow> n \<le> length (Q q) \<Longrightarrow>
   \<exists>s'. pop_n n q s = Some (take n (Q q), s') \<and> holds s' (Q(q := drop n (Q q)))"
proof (induction n arbitrary: s Q)
  case (Suc n)
  then obtain x xs where x: "Q q = x # xs" by (cases "Q q") auto
  from pop_some [OF Suc.prems(1) x] obtain s1 where s1: "pop q s = Some (x, s1)" "holds s1 (Q(q := xs))"
    by blast
  from Suc.IH [OF s1(2)] Suc.prems(2) x obtain s2 where
    "pop_n n q s1 = Some (take n xs, s2)" "holds s2 (Q(q := drop n xs))"
    by (auto simp del: fun_upd_apply simp: fun_upd_same)
  with s1(1) x show ?case by (simp del: fun_upd_apply)
qed auto

lemma fifo:
  assumes "holds s Q" "Q q = []" "distinct ts" "\<forall>t \<in> set ts. valid t \<and> free_of Q t"
  shows "\<exists>s'. pop_n (length ts) q (push_all q ts s) = Some (ts, s') \<and> holds s' Q"
  using pop_n_holds [OF push_all_holds [OF assms(1,3,4)], of "length ts" q q] assms(2)
  by (auto simp: fun_upd_idem)

end

end
