(* ===== verification/Errno.thy ===== *)
theory Errno
  imports Prelude
begin

text \<open>
  The error numbers of \<open>errno.enum.h\<close> in the order of the enumeration. Kernel routines return them
  negated or store the negated number in the \<open>errno\<close> of the running thread.
\<close>

datatype libc_eErrorNumbers =
    EOK | EDOM | EILSEQ | ERANGE | ENOSYS | EINVAL | EBADF | ENOMEM | EACCES | EBUSY | ENOTFOUND
    | EROFS | ENOTIMPL | ENOENT | EEXIST | ENFILE | ENOTDIR | EISDIR | EIO | EINTR | EWOULDBLOCK
    | ENODEV | EADDRNOTAVAIL | EINPROGRESS | EPERM | ENOTTY | EAGAIN | EALREADY | ENOSPC | EFBIG
    | E2BIG | EAFNOSUPPORT | EADDRINUSE | ETIMEDOUT | EOPNOTSUPP | EINTERNAL

primrec errno_value :: "libc_eErrorNumbers \<Rightarrow> int" where
  "errno_value EOK = 0"
| "errno_value EDOM = 1"
| "errno_value EILSEQ = 2"
| "errno_value ERANGE = 3"
| "errno_value ENOSYS = 4"
| "errno_value EINVAL = 5"
| "errno_value EBADF = 6"
| "errno_value ENOMEM = 7"
| "errno_value EACCES = 8"
| "errno_value EBUSY = 9"
| "errno_value ENOTFOUND = 10"
| "errno_value EROFS = 11"
| "errno_value ENOTIMPL = 12"
| "errno_value ENOENT = 13"
| "errno_value EEXIST = 14"
| "errno_value ENFILE = 15"
| "errno_value ENOTDIR = 16"
| "errno_value EISDIR = 17"
| "errno_value EIO = 18"
| "errno_value EINTR = 19"
| "errno_value EWOULDBLOCK = 20"
| "errno_value ENODEV = 21"
| "errno_value EADDRNOTAVAIL = 22"
| "errno_value EINPROGRESS = 23"
| "errno_value EPERM = 24"
| "errno_value ENOTTY = 25"
| "errno_value EAGAIN = 26"
| "errno_value EALREADY = 27"
| "errno_value ENOSPC = 28"
| "errno_value EFBIG = 29"
| "errno_value E2BIG = 30"
| "errno_value EAFNOSUPPORT = 31"
| "errno_value EADDRINUSE = 32"
| "errno_value ETIMEDOUT = 33"
| "errno_value EOPNOTSUPP = 34"
| "errno_value EINTERNAL = 35"

lemma errno_value_inject [simp]: "errno_value a = errno_value b \<longleftrightarrow> a = b"
  by (cases a; cases b; simp)

lemma errno_value_bounds: "0 \<le> errno_value a" "errno_value a < 36"
  by (cases a; simp)+

end
