(* ===== verification/Thread_State.thy ===== *)
theory Thread_State
  imports Linked_Queue Errno
begin

text \<open>
  The state of the thread code: the structures of \<open>threads_int.h\<close>, \<open>mutex.h\<close>, \<open>semaphore.h\<close>,
  \<open>rwlock.h\<close> and \<open>workqueue.h\<close> in stores indexed by their address, and the globals of
  \<open>threads.c\<close>. A spinlock is held over each handler below, so a handler runs as one atomic step and
  the spinlocks themselves are not part of the state. One processor is modelled; \<open>cur\<close> is what
  \<open>Proc_GetCurThread\<close> returns and \<open>gThreadZero\<close> the address of the first thread.
\<close>

section \<open>Structures\<close>

datatype eThreadStatus =
    THREAD_STAT_NULL | THREAD_STAT_ACTIVE | THREAD_STAT_SLEEPING | THREAD_STAT_MUTEXSLEEP
  | THREAD_STAT_RWLOCKSLEEP | THREAD_STAT_SEMAPHORESLEEP | THREAD_STAT_QUEUESLEEP
  | THREAD_STAT_EVENTSLEEP | THREAD_STAT_WAITING | THREAD_STAT_PREINIT | THREAD_STAT_ZOMBIE
  | THREAD_STAT_DEAD | THREAD_STAT_BURIED

text \<open>A mutex is a variable at some address, or the \<open>DeadChildLock\<close> inside a thread structure.\<close>

datatype mref = MutexAt ptr | DeadChildLock ptr

text \<open>What a \<open>WaitPointer\<close> may point to.\<close>

datatype wait_ref = WNone | WMutex mref | WSem ptr | WRWLock ptr | WQueue ptr

record tThread =
  Next :: ptr
  GlobalNext :: ptr
  GlobalPrev :: ptr
  ProcessNext :: ptr
  Status :: eThreadStatus
  WaitPointer :: wait_ref
  RetStatus :: int
  TID :: nat
  Process :: ptr
  Parent :: ptr
  LastDeadChild :: ptr
  CurFaultNum :: int
  FaultHandler :: nat
  PendingSignal :: int
  Messages :: ptr
  LastMessage :: ptr
  Quantum :: int
  Remaining :: int
  Priority :: nat
  errno :: int
  CurCPU :: int
  bInstrTrace :: bool
  EventState :: "32 word"

record tProcess =
  PNext :: ptr
  PPrev :: ptr
  PGID :: nat
  PID :: nat
  nThreads :: int
  FirstThread :: ptr
  UID :: nat
  GID :: nat
  MaxFD :: int
  SignalHandlers :: "nat \<Rightarrow> ptr"

record tMutex =
  Owner :: ptr
  Waiting :: ptr
  LastWaiting :: ptr

record tSemaphore =
  Value :: int
  MaxValue :: int
  SWaiting :: ptr
  SLastWaiting :: ptr
  Signaling :: ptr
  LastSignaling :: ptr

record tRWLock =
  Level :: int
  RWOwner :: ptr
  ReaderWaiting :: ptr
  ReaderWaitingLast :: ptr
  WriterWaiting :: ptr
  WriterWaitingLast :: ptr

record tWorkqueue =
  QHead :: ptr
  QTail :: ptr
  Sleeper :: ptr
  SleepTail :: ptr

record tMsg =
  MNext :: ptr
  MSource :: nat
  MLength :: nat

record kstate =
  thr :: "ptr \<Rightarrow> tThread"
  prc :: "ptr \<Rightarrow> tProcess"
  cur :: ptr
  giNumActiveThreads :: int
  giNextTID :: nat
  gThreadZero :: ptr
  gAllThreads :: ptr
  gAllProcesses :: ptr
  gSleepingThreads :: tThreadList
  gaActiveThreads :: "nat \<Rightarrow> tThreadList"
  gaThreads_NoTaskSwitch :: bool
  mtx :: "mref \<Rightarrow> tMutex"
  sem :: "ptr \<Rightarrow> tSemaphore"
  rwl :: "ptr \<Rightarrow> tRWLock"
  wq :: "ptr \<Rightarrow> tWorkqueue"
  wnext :: "ptr \<Rightarrow> ptr"
  msg :: "ptr \<Rightarrow> tMsg"
  kmem :: memory

definition upd_thr :: "ptr \<Rightarrow> (tThread \<Rightarrow> tThread) \<Rightarrow> kstate \<Rightarrow> kstate" where
  "upd_thr t f s = s\<lparr>thr := (thr s)(t := f (thr s t))\<rparr>"

definition set_Next :: "ptr \<Rightarrow> ptr \<Rightarrow> kstate \<Rightarrow> kstate" where
  "set_Next t v = upd_thr t (\<lambda>x. x\<lparr>Next := v\<rparr>)"

definition set_Status :: "ptr \<Rightarrow> eThreadStatus \<Rightarrow> kstate \<Rightarrow> kstate" where
  "set_Status t v = upd_thr t (\<lambda>x. x\<lparr>Status := v\<rparr>)"

definition set_WaitPointer :: "ptr \<Rightarrow> wait_ref \<Rightarrow> kstate \<Rightarrow> kstate" where
  "set_WaitPointer t v = upd_thr t (\<lambda>x. x\<lparr>WaitPointer := v\<rparr>)"

definition set_RetStatus :: "ptr \<Rightarrow> int \<Rightarrow> kstate \<Rightarrow> kstate" where
  "set_RetStatus t v = upd_thr t (\<lambda>x. x\<lparr>RetStatus := v\<rparr>)"

definition set_Priority :: "ptr \<Rightarrow> nat \<Rightarrow> kstate \<Rightarrow> kstate" where
  "set_Priority t v = upd_thr t (\<lambda>x. x\<lparr>Priority := v\<rparr>)"

section \<open>The queues of the kernel\<close>

text \<open>Every place that keeps a head and a tail pointer to threads linked through \<open>Next\<close>.\<close>

datatype qid = QActive nat | QSleeping | QMutex mref | QSemWait ptr | QSemSignal ptr
  | QReader ptr | QWriter ptr | QWork ptr

fun q_head :: "kstate \<Rightarrow> qid \<Rightarrow> ptr" where
  "q_head s (QActive p) = Head (gaActiveThreads s p)"
| "q_head s QSleeping = Head (gSleepingThreads s)"
| "q_head s (QMutex m) = Waiting (mtx s m)"
| "q_head s (QSemWait a) = SWaiting (sem s a)"
| "q_head s (QSemSignal a) = Signaling (sem s a)"
| "q_head s (QReader a) = ReaderWaiting (rwl s a)"
| "q_head s (QWriter a) = WriterWaiting (rwl s a)"
| "q_head s (QWork a) = Sleeper (wq s a)"

fun q_tail :: "kstate \<Rightarrow> qid \<Rightarrow> ptr" where
  "q_tail s (QActive p) = Tail (gaActiveThreads s p)"
| "q_tail s QSleeping = Tail (gSleepingThreads s)"
| "q_tail s (QMutex m) = LastWaiting (mtx s m)"
| "q_tail s (QSemWait a) = SLastWaiting (sem s a)"
| "q_tail s (QSemSignal a) = LastSignaling (sem s a)"
| "q_tail s (QReader a) = ReaderWaitingLast (rwl s a)"
| "q_tail s (QWriter a) = WriterWaitingLast (rwl s a)"
| "q_tail s (QWork a) = SleepTail (wq s a)"

fun set_head :: "qid \<Rightarrow> ptr \<Rightarrow> kstate \<Rightarrow> kstate" where
  "set_head (QActive p) v s = s\<lparr>gaActiveThreads := (gaActiveThreads s)(p := (gaActiveThreads s p)\<lparr>Head := v\<rparr>)\<rparr>"
| "set_head QSleeping v s = s\<lparr>gSleepingThreads := (gSleepingThreads s)\<lparr>Head := v\<rparr>\<rparr>"
| "set_head (QMutex m) v s = s\<lparr>mtx := (mtx s)(m := (mtx s m)\<lparr>Waiting := v\<rparr>)\<rparr>"
| "set_head (QSemWait a) v s = s\<lparr>sem := (sem s)(a := (sem s a)\<lparr>SWaiting := v\<rparr>)\<rparr>"
| "set_head (QSemSignal a) v s = s\<lparr>sem := (sem s)(a := (sem s a)\<lparr>Signaling := v\<rparr>)\<rparr>"
| "set_head (QReader a) v s = s\<lparr>rwl := (rwl s)(a := (rwl s a)\<lparr>ReaderWaiting := v\<rparr>)\<rparr>"
| "set_head (QWriter a) v s = s\<lparr>rwl := (rwl s)(a := (rwl s a)\<lparr>WriterWaiting := v\<rparr>)\<rparr>"
| "set_head (QWork a) v s = s\<lparr>wq := (wq s)(a := (wq s a)\<lparr>Sleeper := v\<rparr>)\<rparr>"

fun set_tail :: "qid \<Rightarrow> ptr \<Rightarrow> kstate \<Rightarrow> kstate" where
  "set_tail (QActive p) v s = s\<lparr>gaActiveThreads := (gaActiveThreads s)(p := (gaActiveThreads s p)\<lparr>Tail := v\<rparr>)\<rparr>"
| "set_tail QSleeping v s = s\<lparr>gSleepingThreads := (gSleepingThreads s)\<lparr>Tail := v\<rparr>\<rparr>"
| "set_tail (QMutex m) v s = s\<lparr>mtx := (mtx s)(m := (mtx s m)\<lparr>LastWaiting := v\<rparr>)\<rparr>"
| "set_tail (QSemWait a) v s = s\<lparr>sem := (sem s)(a := (sem s a)\<lparr>SLastWaiting := v\<rparr>)\<rparr>"
| "set_tail (QSemSignal a) v s = s\<lparr>sem := (sem s)(a := (sem s a)\<lparr>LastSignaling := v\<rparr>)\<rparr>"
| "set_tail (QReader a) v s = s\<lparr>rwl := (rwl s)(a := (rwl s a)\<lparr>ReaderWaitingLast := v\<rparr>)\<rparr>"
| "set_tail (QWriter a) v s = s\<lparr>rwl := (rwl s)(a := (rwl s a)\<lparr>WriterWaitingLast := v\<rparr>)\<rparr>"
| "set_tail (QWork a) v s = s\<lparr>wq := (wq s)(a := (wq s a)\<lparr>SleepTail := v\<rparr>)\<rparr>"

section \<open>List primitives\<close>

text \<open>\<open>Threads_int_DelFromQueue\<close>: 0 when the thread is not on the list.\<close>

definition Threads_int_DelFromQueue :: "qid \<Rightarrow> ptr \<Rightarrow> kstate \<Rightarrow> (ptr \<times> kstate) outcome option" where
  "Threads_int_DelFromQueue q Thread s =
     (case find_link (\<lambda>t. Next (thr s t)) Thread 0 (q_head s q) of
        None \<Rightarrow> None
      | Some (prev, ret) \<Rightarrow>
          (if ret = 0 then Some (Ret (0, s))
           else
             (let nx = Next (thr s Thread);
                  s = (if prev = 0 then set_head q nx s else set_Next prev nx s);
                  s = (if Next (thr s Thread) = 0 then set_tail q prev s else s)
              in Some (Ret (Thread, s)))))"

definition Threads_int_AddToList :: "qid \<Rightarrow> ptr \<Rightarrow> kstate \<Rightarrow> kstate" where
  "Threads_int_AddToList q Thread s =
     (let s = (if q_head s q \<noteq> 0 then set_Next (q_tail s q) Thread s else set_head q Thread s);
          s = set_tail q Thread s
      in set_Next Thread 0 s)"

text \<open>
  The part of \<open>Threads_int_Sleep\<close> that appends the sleeper to a list, which tests the tail where
  \<open>Threads_int_AddToList\<close> tests the head; and the removal of the first thread that each lock does
  itself when it wakes somebody.
\<close>

definition enqueue_sleeper :: "qid \<Rightarrow> ptr \<Rightarrow> kstate \<Rightarrow> kstate" where
  "enqueue_sleeper q us s =
     (let s = (if q_tail s q \<noteq> 0 then set_Next (q_tail s q) us s else set_head q us s)
      in set_tail q us s)"

end
