(* ===== verification/Thread_Queues.thy ===== *)
theory Thread_Queues
  imports Thread_State
begin

text \<open>
  The thread queues refine lists: what the list primitives of \<open>threads.c\<close> do to the contents of all
  queues at once. A thread structure has one \<open>Next\<close> field, so the statement about one queue is only
  true because no thread is on two of them.
\<close>

section \<open>Frame rules\<close>

lemma q_head_set_head [simp]: "q_head (set_head q v s) q' = (if q' = q then v else q_head s q')"
  by (cases q; cases q') auto

lemma q_tail_set_tail [simp]: "q_tail (set_tail q v s) q' = (if q' = q then v else q_tail s q')"
  by (cases q; cases q') auto

lemma q_tail_set_head [simp]: "q_tail (set_head q v s) q' = q_tail s q'"
  by (cases q; cases q') auto

lemma q_head_set_tail [simp]: "q_head (set_tail q v s) q' = q_head s q'"
  by (cases q; cases q') auto

lemma thr_set_head [simp]: "thr (set_head q v s) = thr s"
  by (cases q) auto

lemma thr_set_tail [simp]: "thr (set_tail q v s) = thr s"
  by (cases q) auto

lemma upd_thr_ends [simp]: "q_head (upd_thr t f s) q = q_head s q" "q_tail (upd_thr t f s) q = q_tail s q"
  by (cases q; simp add: upd_thr_def)+

lemma set_Next_ends [simp]: "q_head (set_Next t v s) q = q_head s q" "q_tail (set_Next t v s) q = q_tail s q"
  by (simp_all add: set_Next_def)

lemma thr_upd_thr: "thr (upd_thr t f s) = (thr s)(t := f (thr s t))"
  by (simp add: upd_thr_def)

lemma Next_set_Next: "(\<lambda>x. Next (thr (set_Next t v s) x)) = (\<lambda>x. Next (thr s x))(t := v)"
  by (auto simp: set_Next_def upd_thr_def)

text \<open>
  What the list primitives and the choice of the next thread leave alone: everything but queue ends
  and the \<open>Next\<close>, \<open>CurCPU\<close> and \<open>Remaining\<close> fields.
\<close>

definition thread_core :: "tThread \<Rightarrow> tThread" where
  "thread_core x = x\<lparr>Next := 0, CurCPU := 0, Remaining := 0\<rparr>"

definition same_but_queues :: "kstate \<Rightarrow> kstate \<Rightarrow> bool" where
  "same_but_queues s s' \<longleftrightarrow>
     (\<forall>x. thread_core (thr s' x) = thread_core (thr s x)) \<and> prc s' = prc s \<and> cur s' = cur s \<and>
     giNumActiveThreads s' = giNumActiveThreads s \<and> giNextTID s' = giNextTID s \<and>
     gThreadZero s' = gThreadZero s \<and> gAllThreads s' = gAllThreads s \<and> gAllProcesses s' = gAllProcesses s \<and>
     gaThreads_NoTaskSwitch s' = gaThreads_NoTaskSwitch s \<and> wnext s' = wnext s \<and> msg s' = msg s \<and>
     kmem s' = kmem s \<and> (\<forall>m. Owner (mtx s' m) = Owner (mtx s m)) \<and>
     (\<forall>a. Value (sem s' a) = Value (sem s a) \<and> MaxValue (sem s' a) = MaxValue (sem s a)) \<and>
     (\<forall>a. Level (rwl s' a) = Level (rwl s a) \<and> RWOwner (rwl s' a) = RWOwner (rwl s a)) \<and>
     (\<forall>a. QHead (wq s' a) = QHead (wq s a) \<and> QTail (wq s' a) = QTail (wq s a))"

lemma same_but_queues_refl [simp]: "same_but_queues s s"
  by (simp add: same_but_queues_def)

lemma same_but_queues_trans: "same_but_queues s s' \<Longrightarrow> same_but_queues s' s'' \<Longrightarrow> same_but_queues s s''"
  by (simp add: same_but_queues_def)

lemma same_but_queues_set:
  "same_but_queues s (set_head q v s)" "same_but_queues s (set_tail q v s)" "same_but_queues s (set_Next t v s)"
  by (cases q; simp add: same_but_queues_def set_Next_def upd_thr_def thread_core_def)+

lemma same_but_queues_upd: "(\<And>x. thread_core (f x) = thread_core x) \<Longrightarrow> same_but_queues s (upd_thr t f s)"
  by (simp add: same_but_queues_def upd_thr_def)

lemma thread_core_upd:
  "thread_core (x\<lparr>Status := v\<rparr>) = (thread_core x)\<lparr>Status := v\<rparr>"
  "thread_core (x\<lparr>RetStatus := r\<rparr>) = (thread_core x)\<lparr>RetStatus := r\<rparr>"
  "thread_core (x\<lparr>WaitPointer := w\<rparr>) = (thread_core x)\<lparr>WaitPointer := w\<rparr>"
  by (simp_all add: thread_core_def)

lemma same_but_queues_upd2:
  assumes "same_but_queues s s'" and "thread_core (f (thr s' t)) = thread_core (f (thr s t))"
  shows "same_but_queues (upd_thr t f s) (upd_thr t f s')"
  using assms by (simp add: same_but_queues_def upd_thr_def)

lemma same_but_queues_core: "same_but_queues s s' \<Longrightarrow> thread_core (thr s' t) = thread_core (thr s t)"
  by (simp add: same_but_queues_def)

lemma same_but_queues_field:
  assumes "same_but_queues s s'" and "\<And>x. f (thread_core x) = f x"
  shows "f (thr s' x) = f (thr s x)"
  using assms by (metis same_but_queues_def)

lemma same_but_queues_thr:
  assumes "same_but_queues s s'"
  shows "Status (thr s' x) = Status (thr s x)" "Priority (thr s' x) = Priority (thr s x)"
    "RetStatus (thr s' x) = RetStatus (thr s x)" "WaitPointer (thr s' x) = WaitPointer (thr s x)"
    "EventState (thr s' x) = EventState (thr s x)" "TID (thr s' x) = TID (thr s x)"
    "Process (thr s' x) = Process (thr s x)" "Quantum (thr s' x) = Quantum (thr s x)"
    "GlobalNext (thr s' x) = GlobalNext (thr s x)" "Parent (thr s' x) = Parent (thr s x)"
    "LastDeadChild (thr s' x) = LastDeadChild (thr s x)" "Messages (thr s' x) = Messages (thr s x)"
    "LastMessage (thr s' x) = LastMessage (thr s x)" "ProcessNext (thr s' x) = ProcessNext (thr s x)"
    "PendingSignal (thr s' x) = PendingSignal (thr s x)"
  by (auto intro!: same_but_queues_field [OF assms] simp: thread_core_def)

lemma same_but_queues_glob:
  assumes "same_but_queues s s'"
  shows "cur s' = cur s" "giNumActiveThreads s' = giNumActiveThreads s"
    "gaThreads_NoTaskSwitch s' = gaThreads_NoTaskSwitch s" "Owner (mtx s' m) = Owner (mtx s m)"
    "Value (sem s' a) = Value (sem s a)" "MaxValue (sem s' a) = MaxValue (sem s a)"
    "Level (rwl s' a) = Level (rwl s a)" "RWOwner (rwl s' a) = RWOwner (rwl s a)"
    "QHead (wq s' a) = QHead (wq s a)" "QTail (wq s' a) = QTail (wq s a)" "wnext s' = wnext s"
    "prc s' = prc s" "msg s' = msg s" "kmem s' = kmem s" "gThreadZero s' = gThreadZero s"
    "gAllThreads s' = gAllThreads s" "giNextTID s' = giNextTID s"
  using assms by (auto simp: same_but_queues_def)

section \<open>Contents of the queues\<close>

definition queues :: "kstate \<Rightarrow> (qid \<Rightarrow> ptr list) \<Rightarrow> bool" where
  "queues s Q \<longleftrightarrow>
     (\<forall>q. queue_rep (\<lambda>t. Next (thr s t)) (q_head s q) (q_tail s q) (Q q)) \<and>
     (\<forall>q q' x. x \<in> set (Q q) \<longrightarrow> x \<in> set (Q q') \<longrightarrow> q = q')"

lemma queuesD: "queues s Q \<Longrightarrow> queue_rep (\<lambda>t. Next (thr s t)) (q_head s q) (q_tail s q) (Q q)"
  by (simp add: queues_def)

lemma queues_disjoint: "queues s Q \<Longrightarrow> x \<in> set (Q q) \<Longrightarrow> x \<in> set (Q q') \<Longrightarrow> q = q'"
  by (auto simp: queues_def)

lemma queues_not_null: "queues s Q \<Longrightarrow> x \<in> set (Q q) \<Longrightarrow> x \<noteq> 0"
  by (metis queuesD queue_rep_def path_not_null)

lemma queues_distinct: "queues s Q \<Longrightarrow> distinct (Q q)"
  by (simp add: queues_def queue_rep_def)

lemma queues_head: "queues s Q \<Longrightarrow> q_head s q = (case Q q of [] \<Rightarrow> 0 | x # _ \<Rightarrow> x)"
  using queuesD [of s Q q] by (auto simp: queue_rep_def split: list.split)

lemma queues_tail: "queues s Q \<Longrightarrow> q_tail s q = (if Q q = [] then 0 else last (Q q))"
  using queuesD [of s Q q] by (auto simp: queue_rep_def)

text \<open>Only the ends and the \<open>Next\<close> fields matter.\<close>

lemma queues_cong:
  assumes "\<And>q. q_head s' q = q_head s q" "\<And>q. q_tail s' q = q_tail s q"
    and "\<And>x q. x \<in> set (Q q) \<Longrightarrow> Next (thr s' x) = Next (thr s x)"
  shows "queues s' Q = queues s Q"
proof -
  have "queue_rep (\<lambda>t. Next (thr s' t)) (q_head s' q) (q_tail s' q) (Q q) =
      queue_rep (\<lambda>t. Next (thr s t)) (q_head s q) (q_tail s q) (Q q)" for q
    using assms path_cong [of "Q q" "\<lambda>t. Next (thr s' t)" "\<lambda>t. Next (thr s t)"] by (simp add: queue_rep_def)
  then show ?thesis by (simp add: queues_def)
qed

lemma queues_upd_thr: "(\<And>x. Next (f x) = Next x) \<Longrightarrow> queues (upd_thr t f s) Q = queues s Q"
  by (rule queues_cong) (auto simp: thr_upd_thr)

lemma queues_update_one:
  assumes q: "queues s Q"
    and rep: "queue_rep (\<lambda>x. Next (thr s' x)) (q_head s' q) (q_tail s' q) xs"
    and ends: "\<And>q'. q' \<noteq> q \<Longrightarrow> q_head s' q' = q_head s q'" "\<And>q'. q' \<noteq> q \<Longrightarrow> q_tail s' q' = q_tail s q'"
    and nx: "\<And>q' x. q' \<noteq> q \<Longrightarrow> x \<in> set (Q q') \<Longrightarrow> Next (thr s' x) = Next (thr s x)"
    and sub: "\<And>q' x. q' \<noteq> q \<Longrightarrow> x \<in> set xs \<Longrightarrow> x \<notin> set (Q q')"
  shows "queues s' (Q(q := xs))"
proof -
  have "queue_rep (\<lambda>t. Next (thr s' t)) (q_head s' q') (q_tail s' q') (Q q')" if "q' \<noteq> q" for q'
    using queuesD [OF q, of q'] ends [OF that] nx [OF that]
      path_cong [of "Q q'" "\<lambda>t. Next (thr s' t)" "\<lambda>t. Next (thr s t)"] by (simp add: queue_rep_def)
  with rep have "\<forall>q'. queue_rep (\<lambda>t. Next (thr s' t)) (q_head s' q') (q_tail s' q') ((Q(q := xs)) q')" by auto
  moreover have "q1 = q2" if "x \<in> set ((Q(q := xs)) q1)" "x \<in> set ((Q(q := xs)) q2)" for x q1 q2
    using that sub queues_disjoint [OF q] by (auto split: if_splits)
  ultimately show ?thesis unfolding queues_def by blast
qed

section \<open>Appending\<close>

lemma AddToList_queues:
  assumes q: "queues s Q" and t: "t \<noteq> 0" "free_of Q t"
  shows "queues (Threads_int_AddToList q t s) (Q(q := Q q @ [t]))"
proof (rule queues_update_one [OF q])
  note rep = queuesD [OF q, of q]
  have e: "q_head s q = 0 \<longleftrightarrow> Q q = []" by (rule queue_rep_head [OF rep])
  have l: "Q q \<noteq> [] \<Longrightarrow> q_tail s q \<in> set (Q q)" using queues_tail [OF q] by simp
  show "queue_rep (\<lambda>x. Next (thr (Threads_int_AddToList q t s) x)) (q_head (Threads_int_AddToList q t s) q)
      (q_tail (Threads_int_AddToList q t s) q) (Q q @ [t])"
    using queue_rep_push [OF rep _ t(1)] t(2) e
    by (auto simp: Threads_int_AddToList_def Let_def Next_set_Next free_of_def)
  show "Next (thr (Threads_int_AddToList q t s) x) = Next (thr s x)" if "q' \<noteq> q" "x \<in> set (Q q')" for q' x
    using that t l e queues_disjoint [OF q, of x q' q]
    by (auto simp: Threads_int_AddToList_def Let_def set_Next_def upd_thr_def free_of_def)
qed (use t queues_disjoint [OF q] in \<open>auto simp: Threads_int_AddToList_def Let_def free_of_def\<close>)

lemma AddToList_head: "q_head (Threads_int_AddToList q t s) q' = (if q' = q \<and> q_head s q = 0 then t else q_head s q')"
  by (simp add: Threads_int_AddToList_def Let_def)

lemma AddToList_Next:
  assumes "queues s Q" "x \<noteq> t" "x \<notin> set (Q q)"
  shows "Next (thr (Threads_int_AddToList q t s) x) = Next (thr s x)"
proof -
  have "q_head s q \<noteq> 0 \<Longrightarrow> x \<noteq> q_tail s q"
    using queues_tail [OF assms(1), of q] queues_head [OF assms(1), of q] assms(3) by (auto split: list.splits)
  with assms(2) show ?thesis by (simp add: Threads_int_AddToList_def Let_def set_Next_def upd_thr_def)
qed

lemma AddToList_same: "same_but_queues s (Threads_int_AddToList q t s)"
  unfolding Threads_int_AddToList_def Let_def
  by (auto intro!: same_but_queues_trans [OF _ same_but_queues_set(3)] same_but_queues_trans [OF _ same_but_queues_set(2)]
    same_but_queues_set)

lemma enqueue_sleeper_queues:
  assumes q: "queues s Q" and t: "t \<noteq> 0" "free_of Q t" "Next (thr s t) = 0"
  shows "queues (enqueue_sleeper q t s) (Q(q := Q q @ [t]))"
proof (rule queues_update_one [OF q])
  note rep = queuesD [OF q, of q]
  have e: "q_tail s q = 0 \<longleftrightarrow> Q q = []" by (rule queue_rep_tail [OF rep])
  have l: "Q q \<noteq> [] \<Longrightarrow> q_tail s q \<in> set (Q q)" using queues_tail [OF q] by simp
  have id: "(\<lambda>x. Next (thr s x))(t := 0) = (\<lambda>x. Next (thr s x))" using t(3) by auto
  have id': "(\<lambda>x. Next (thr s x))(q_tail s q := t, t := 0) = (\<lambda>x. Next (thr s x))(q_tail s q := t)" if "Q q \<noteq> []"
    using t l [OF that] by (auto simp: free_of_def fun_eq_iff)
  show "queue_rep (\<lambda>x. Next (thr (enqueue_sleeper q t s) x)) (q_head (enqueue_sleeper q t s) q)
      (q_tail (enqueue_sleeper q t s) q) (Q q @ [t])"
    using queue_rep_push [OF rep _ t(1)] t(2) e
    by (auto simp: enqueue_sleeper_def Let_def Next_set_Next free_of_def id id')
  show "Next (thr (enqueue_sleeper q t s) x) = Next (thr s x)" if "q' \<noteq> q" "x \<in> set (Q q')" for q' x
    using that l e queues_disjoint [OF q, of x q' q]
    by (auto simp: enqueue_sleeper_def Let_def set_Next_def upd_thr_def)
qed (use t queues_disjoint [OF q] in \<open>auto simp: enqueue_sleeper_def Let_def free_of_def\<close>)

lemma enqueue_sleeper_same: "same_but_queues s (enqueue_sleeper q t s)"
  unfolding enqueue_sleeper_def Let_def
  by (auto intro!: same_but_queues_trans [OF _ same_but_queues_set(2)] same_but_queues_set)

section \<open>Removing\<close>

lemma DelFromQueue_absent:
  assumes "queues s Q" "t \<notin> set (Q q)"
  shows "Threads_int_DelFromQueue q t s = Some (Ret (0, s))"
proof -
  have "lseg (\<lambda>t. Next (thr s t)) (q_head s q) (Q q)" using queuesD [OF assms(1)] by (simp add: queue_rep_def)
  from find_link_absent [OF this assms(2)] obtain pr where
    "find_link (\<lambda>t. Next (thr s t)) t 0 (q_head s q) = Some (pr, 0)" by blast
  then show ?thesis by (simp add: Threads_int_DelFromQueue_def)
qed

lemma DelFromQueue_present:
  assumes q: "queues s Q" and eq: "Q q = xs @ t # ys"
  shows "\<exists>s'. Threads_int_DelFromQueue q t s = Some (Ret (t, s')) \<and> queues s' (Q(q := xs @ ys)) \<and>
    same_but_queues s s'"
proof -
  note rep = queuesD [OF q, of q, unfolded eq]
  have d: "distinct (xs @ t # ys)" using rep by (simp add: queue_rep_def)
  have nz: "0 \<notin> set (xs @ t # ys)" using rep path_not_null unfolding queue_rep_def by blast
  define pr where "pr = (if xs = [] then 0 else last xs)"
  have "last xs \<noteq> 0" if "xs \<noteq> []" using that nz by (metis UnCI last_in_set set_append)
  then have pr0: "pr = 0 \<longleftrightarrow> xs = []" by (simp add: pr_def)
  have prt: "pr \<noteq> t" "pr = 0 \<or> pr \<in> set (Q q)"
    using d nz last_in_set [of xs] by (auto simp: pr_def eq)
  have f: "find_link (\<lambda>t. Next (thr s t)) t 0 (q_head s q) = Some (pr, t)"
    using find_link_present [of "\<lambda>t. Next (thr s t)" "q_head s q" xs t ys 0] rep d
    by (simp add: queue_rep_def pr_def)
  define s1 where "s1 = (if pr = 0 then set_head q (Next (thr s t)) s else set_Next pr (Next (thr s t)) s)"
  define s' where "s' = (if Next (thr s t) = 0 then set_tail q pr s1 else s1)"
  have nt: "Next (thr s1 t) = Next (thr s t)" using prt by (simp add: s1_def set_Next_def upd_thr_def)
  have run: "Threads_int_DelFromQueue q t s = Some (Ret (t, s'))"
    using f nz nt by (simp add: Threads_int_DelFromQueue_def Let_def s'_def s1_def)
  have "queues s' (Q(q := xs @ ys))"
  proof (rule queues_update_one [OF q])
    show "queue_rep (\<lambda>x. Next (thr s' x)) (q_head s' q) (q_tail s' q) (xs @ ys)"
      using queue_rep_remove [OF rep] pr0
      by (auto simp: s'_def s1_def Next_set_Next pr_def split: if_splits)
    show "Next (thr s' x) = Next (thr s x)" if "q' \<noteq> q" "x \<in> set (Q q')" for q' x
      using that prt(2) queues_disjoint [OF q, of x q' q] queues_not_null [OF q]
      by (auto simp: s'_def s1_def set_Next_def upd_thr_def)
    show "x \<notin> set (Q q')" if "q' \<noteq> q" "x \<in> set (xs @ ys)" for q' x
      using that queues_disjoint [OF q, of x q' q] eq by auto
  qed (auto simp: s'_def s1_def)
  moreover have "same_but_queues s s'"
    by (auto simp: s'_def s1_def intro: same_but_queues_set same_but_queues_trans)
  ultimately show ?thesis using run by blast
qed

text \<open>Taking the first thread off, as the locks do; the tail is reset when the queue becomes empty.\<close>

lemma pop_queues:
  assumes q: "queues s Q" and eq: "Q q = x # xs"
    and s': "s' = (if Next (thr s x) = 0 then set_tail q 0 (set_head q (Next (thr s x)) s)
      else set_head q (Next (thr s x)) s)"
  shows "q_head s q = x" "queues s' (Q(q := xs))" "same_but_queues s s'" "free_of (Q(q := xs)) x"
proof -
  note rep = queuesD [OF q, of q, unfolded eq]
  note pop = queue_rep_pop [OF rep] and nx = queue_rep_next [OF rep]
  show "q_head s q = x" by (rule pop(1))
  show "queues s' (Q(q := xs))"
  proof (rule queues_update_one [OF q])
    show "queue_rep (\<lambda>x. Next (thr s' x)) (q_head s' q) (q_tail s' q) xs"
      using pop(2) nx by (auto simp: s' split: if_splits)
    show "y \<notin> set (Q q')" if "q' \<noteq> q" "y \<in> set xs" for q' y
      using that queues_disjoint [OF q, of y q' q] eq by auto
  qed (auto simp: s')
  show "same_but_queues s s'" unfolding s' by (auto intro: same_but_queues_set same_but_queues_trans)
  show "free_of (Q(q := xs)) x"
    using queues_disjoint [OF q, of x _ q] queues_distinct [OF q, of q] eq by (auto simp: free_of_def)
qed

section \<open>The kernel's queues are a family of first-in first-out queues\<close>

definition take_first :: "qid \<Rightarrow> kstate \<Rightarrow> (ptr \<times> kstate) option" where
  "take_first q s =
     (if q_head s q = 0 then None
      else
        (let t = q_head s q; nx = Next (thr s t); s = set_head q nx s
         in Some (t, if nx = 0 then set_tail q 0 s else s)))"

interpretation kq: queue_family queues "\<lambda>t. t \<noteq> 0" Threads_int_AddToList take_first
proof (unfold_locales, goal_cases)
  case (1 s Q x q q')
  then show ?case using queues_disjoint by blast
next
  case (2 s Q q)
  then show ?case by (rule queues_distinct)
next
  case (3 s Q x q)
  then show ?case by (rule queues_not_null)
next
  case (4 s Q t q)
  then show ?case by (intro AddToList_queues) auto
next
  case (5 s Q q)
  then show ?case using queues_head [of s Q q] by (simp add: take_first_def)
next
  case (6 s Q q x xs)
  note p = pop_queues [OF 6 refl]
  have "x \<noteq> 0" using queues_not_null [OF 6(1), of x q] 6(2) by simp
  with p(1,2) show ?case by (auto simp: take_first_def Let_def)
qed

end
