(* ===== verification/Scheduler.thy ===== *)
theory Scheduler
  imports Thread_Queues
begin

text \<open>
  The scheduler of \<open>threads.c\<close> (the priority round-robin one, which the build selects), sleeping and
  waking, and \<open>Proc_Reschedule\<close> of \<open>arch/x86/proc.c\<close> as far as it changes the current thread.
\<close>

section \<open>Model\<close>

definition MIN_PRIORITY :: nat where "MIN_PRIORITY = 10"

definition Threads_AddActive :: "ptr \<Rightarrow> kstate \<Rightarrow> kstate outcome" where
  "Threads_AddActive Thread s =
     (if Status (thr s Thread) = THREAD_STAT_ACTIVE then Panicked
      else
        (let s = set_Status Thread THREAD_STAT_ACTIVE s;
             s = (if Thread \<noteq> cur s
                  then Threads_int_AddToList (QActive (Priority (thr s Thread))) Thread s else s)
         in Ret (s\<lparr>giNumActiveThreads := giNumActiveThreads s + 1\<rparr>)))"

definition Threads_RemActive :: "kstate \<Rightarrow> ptr \<times> kstate" where
  "Threads_RemActive s = (cur s, s\<lparr>giNumActiveThreads := giNumActiveThreads s - 1\<rparr>)"

text \<open>
  Where \<open>Threads_int_Sleep\<close> puts the sleeper: at the end of a queue, in front of the value its
  \<open>ListHead\<close> argument points to, or nowhere.
\<close>

datatype sleep_on = OnQueue qid | HeadOnly ptr | NoList

definition Threads_int_Sleep :: "eThreadStatus \<Rightarrow> wait_ref \<Rightarrow> int \<Rightarrow> sleep_on \<Rightarrow> kstate \<Rightarrow> kstate" where
  "Threads_int_Sleep st Ptr Num l s =
     (let (us, s) = Threads_RemActive s;
          s = set_Next us 0 s;
          s = set_Status us st s;
          s = set_WaitPointer us Ptr s;
          s = set_RetStatus us Num s
      in case l of
           OnQueue q \<Rightarrow> enqueue_sleeper q us s
         | HeadOnly v \<Rightarrow> set_Next us v s
         | NoList \<Rightarrow> s)"

text \<open>What \<open>Threads_int_Sleep\<close> does once the thread runs again with another status.\<close>

definition Threads_int_Sleep_return :: "ptr \<Rightarrow> kstate \<Rightarrow> int \<times> kstate" where
  "Threads_int_Sleep_return us s =
     (let s = set_WaitPointer us WNone s in (RetStatus (thr s us), s))"

text \<open>\<open>Threads_Sleep\<close>: the flag says whether the thread went to sleep.\<close>

definition Threads_Sleep :: "kstate \<Rightarrow> bool \<times> kstate" where
  "Threads_Sleep s =
     (if Messages (thr s (cur s)) \<noteq> 0 then (False, s)
      else
        (let (us, s) = Threads_RemActive s;
             s = set_Status us THREAD_STAT_SLEEPING s
         in (True, Threads_int_AddToList QSleeping us s)))"

text \<open>The loop of the scheduler over the priority levels.\<close>

fun get_runnable :: "nat list \<Rightarrow> kstate \<Rightarrow> (ptr \<times> kstate) outcome" where
  "get_runnable [] s = Ret (0, s)"
| "get_runnable (i # is) s =
     (let thread = Head (gaActiveThreads s i) in
      if thread = 0 then get_runnable is s
      else if Status (thr s thread) \<noteq> THREAD_STAT_ACTIVE then Panicked
      else
        (let nx = Next (thr s thread);
             s = set_head (QActive i) nx s;
             s = (if nx = 0 then set_tail (QActive i) 0 s else s)
         in Ret (thread, set_Next thread 0 s)))"

definition Threads_int_GetRunnable :: "kstate \<Rightarrow> (ptr \<times> kstate) outcome" where
  "Threads_int_GetRunnable s = get_runnable [0..<MIN_PRIORITY + 1] s"

definition set_CurCPU :: "ptr \<Rightarrow> int \<Rightarrow> kstate \<Rightarrow> kstate" where
  "set_CurCPU t v = upd_thr t (\<lambda>x. x\<lparr>CurCPU := v\<rparr>)"

definition Threads_GetNextToRun :: "int \<Rightarrow> ptr \<Rightarrow> kstate \<Rightarrow> (ptr \<times> kstate) outcome" where
  "Threads_GetNextToRun CPU Last s =
     (if gaThreads_NoTaskSwitch s then Ret (Last, s)
      else
        (let s = (if Last \<noteq> 0 then set_CurCPU Last (- 1) s else s) in
         if giNumActiveThreads s = 0 then Ret (0, s)
         else
           (let s = (if Last \<noteq> 0 then
                       (let s = (if Status (thr s Last) = THREAD_STAT_ACTIVE
                                 then Threads_int_AddToList (QActive (Priority (thr s Last))) Last s else s)
                        in set_CurCPU Last (- 1) s)
                     else s)
            in bind_outcome (Threads_int_GetRunnable s) (\<lambda>(thread, s).
                 if thread \<noteq> 0
                 then (let s = set_CurCPU thread CPU s
                       in Ret (thread, upd_thr thread (\<lambda>x. x\<lparr>Remaining := Quantum x\<rparr>) s))
                 else Ret (thread, s)))))"

definition Proc_Reschedule :: "int \<Rightarrow> kstate \<Rightarrow> kstate outcome" where
  "Proc_Reschedule CPU s =
     bind_outcome (Threads_GetNextToRun CPU (cur s) s) (\<lambda>(nextthread, s).
       if nextthread \<noteq> 0 \<and> nextthread \<noteq> cur s then Ret (s\<lparr>cur := nextthread\<rparr>) else Ret s)"

definition Threads_SetPriority :: "ptr \<Rightarrow> int \<Rightarrow> kstate \<Rightarrow> kstate outcome option" where
  "Threads_SetPriority Thread Pri s =
     (let Thread = (if Thread = 0 then cur s else Thread);
          Pri = (if Pri < 0 then int MIN_PRIORITY else Pri);
          Pri = nat (if Pri > int MIN_PRIORITY then int MIN_PRIORITY else Pri) in
      if Pri = Priority (thr s Thread) then Some (Ret s)
      else if Thread \<noteq> cur s then
        obind (Threads_int_DelFromQueue (QActive (Priority (thr s Thread))) Thread s) (\<lambda>(_, s).
          let s = Threads_int_AddToList (QActive Pri) Thread s
          in Some (Ret (set_Priority Thread Pri s)))
      else Some (Ret (set_Priority Thread Pri s)))"

section \<open>The scheduler invariant\<close>

fun status_of :: "qid \<Rightarrow> eThreadStatus" where
  "status_of (QActive p) = THREAD_STAT_ACTIVE"
| "status_of QSleeping = THREAD_STAT_SLEEPING"
| "status_of (QMutex m) = THREAD_STAT_MUTEXSLEEP"
| "status_of (QSemWait a) = THREAD_STAT_SEMAPHORESLEEP"
| "status_of (QSemSignal a) = THREAD_STAT_SEMAPHORESLEEP"
| "status_of (QReader a) = THREAD_STAT_RWLOCKSLEEP"
| "status_of (QWriter a) = THREAD_STAT_RWLOCKSLEEP"
| "status_of (QWork a) = THREAD_STAT_QUEUESLEEP"

text \<open>
  Every thread on a queue has the status and priority of that queue; the active queues hold exactly
  the threads that are ready to run and are not running; the counter is their number plus the
  running thread.
\<close>

definition sched_inv :: "kstate \<Rightarrow> (qid \<Rightarrow> ptr list) \<Rightarrow> bool" where
  "sched_inv s Q \<longleftrightarrow> queues s Q \<and> cur s \<noteq> 0 \<and>
     (\<forall>t. Priority (thr s t) \<le> MIN_PRIORITY) \<and>
     (\<forall>q t. t \<in> set (Q q) \<longrightarrow> Status (thr s t) = status_of q) \<and>
     (\<forall>p t. t \<in> set (Q (QActive p)) \<longrightarrow> Priority (thr s t) = p \<and> t \<noteq> cur s) \<and>
     (\<forall>t. Status (thr s t) = THREAD_STAT_ACTIVE \<and> t \<noteq> cur s \<longrightarrow>
        t \<in> set (Q (QActive (Priority (thr s t))))) \<and>
     giNumActiveThreads s =
       (\<Sum>p \<le> MIN_PRIORITY. int (length (Q (QActive p)))) +
       (if Status (thr s (cur s)) = THREAD_STAT_ACTIVE then 1 else 0)"

lemma sched_queues: "sched_inv s Q \<Longrightarrow> queues s Q"
  by (simp add: sched_inv_def)

lemma sched_status: "sched_inv s Q \<Longrightarrow> t \<in> set (Q q) \<Longrightarrow> Status (thr s t) = status_of q"
  by (auto simp: sched_inv_def)

lemma sched_active: "sched_inv s Q \<Longrightarrow> t \<in> set (Q (QActive p)) \<Longrightarrow> Priority (thr s t) = p \<and> t \<noteq> cur s"
  by (auto simp: sched_inv_def)

lemma sched_ready: "sched_inv s Q \<Longrightarrow> Status (thr s t) = THREAD_STAT_ACTIVE \<Longrightarrow> t \<noteq> cur s \<Longrightarrow>
    t \<in> set (Q (QActive (Priority (thr s t))))"
  by (auto simp: sched_inv_def)

lemma sched_basic: "sched_inv s Q \<Longrightarrow> cur s \<noteq> 0 \<and> Priority (thr s t) \<le> MIN_PRIORITY"
  by (auto simp: sched_inv_def)

lemma sched_count: "sched_inv s Q \<Longrightarrow> giNumActiveThreads s =
    (\<Sum>p \<le> MIN_PRIORITY. int (length (Q (QActive p)))) +
    (if Status (thr s (cur s)) = THREAD_STAT_ACTIVE then 1 else 0)"
  by (simp add: sched_inv_def)

lemma sched_invI:
  assumes "queues s Q" "cur s \<noteq> 0" "\<And>t. Priority (thr s t) \<le> MIN_PRIORITY"
    "\<And>q t. t \<in> set (Q q) \<Longrightarrow> Status (thr s t) = status_of q"
    "\<And>p t. t \<in> set (Q (QActive p)) \<Longrightarrow> Priority (thr s t) = p \<and> t \<noteq> cur s"
    "\<And>t. Status (thr s t) = THREAD_STAT_ACTIVE \<Longrightarrow> t \<noteq> cur s \<Longrightarrow> t \<in> set (Q (QActive (Priority (thr s t))))"
    "giNumActiveThreads s = (\<Sum>p \<le> MIN_PRIORITY. int (length (Q (QActive p)))) +
      (if Status (thr s (cur s)) = THREAD_STAT_ACTIVE then 1 else 0)"
  shows "sched_inv s Q"
  using assms unfolding sched_inv_def by blast

lemma sched_inv_upd_thr:
  assumes "\<And>x. Next (f x) = Next x" "\<And>x. Status (f x) = Status x" "\<And>x. Priority (f x) = Priority x"
  shows "sched_inv (upd_thr t f s) Q = sched_inv s Q"
proof -
  have "Status (thr (upd_thr t f s) x) = Status (thr s x)" "Priority (thr (upd_thr t f s) x) = Priority (thr s x)" for x
    using assms by (simp_all add: upd_thr_def)
  moreover have "cur (upd_thr t f s) = cur s" "giNumActiveThreads (upd_thr t f s) = giNumActiveThreads s"
    by (simp_all add: upd_thr_def)
  moreover have "queues (upd_thr t f s) Q = queues s Q" using assms(1) by (rule queues_upd_thr)
  ultimately show ?thesis unfolding sched_inv_def by simp
qed

lemma set_WaitPointer_inv [simp]: "sched_inv (set_WaitPointer t v s) Q = sched_inv s Q"
  by (simp add: set_WaitPointer_def sched_inv_upd_thr)

lemma sched_cur_free:
  "sched_inv s Q \<Longrightarrow> Status (thr s (cur s)) = THREAD_STAT_ACTIVE \<Longrightarrow> free_of Q (cur s)"
  unfolding free_of_def
proof
  fix q
  assume inv: "sched_inv s Q" and a: "Status (thr s (cur s)) = THREAD_STAT_ACTIVE"
  then show "cur s \<notin> set (Q q)"
    using sched_status [OF inv, of "cur s" q] sched_active [OF inv, of "cur s"] by (cases q) auto
qed

lemma sum_active_upd:
  assumes "p \<le> MIN_PRIORITY"
  shows "(\<Sum>i \<le> MIN_PRIORITY. int (length ((Q(QActive p := xs)) (QActive i)))) =
    (\<Sum>i \<le> MIN_PRIORITY. int (length (Q (QActive i)))) - int (length (Q (QActive p))) + int (length xs)"
proof -
  let ?f = "\<lambda>i. int (length (Q (QActive i)))" and ?g = "\<lambda>i. int (length ((Q(QActive p := xs)) (QActive i)))"
  have "sum ?g {..MIN_PRIORITY} = ?g p + sum ?g ({..MIN_PRIORITY} - {p})"
    using assms by (subst sum.remove [of _ p]) auto
  also have "sum ?g ({..MIN_PRIORITY} - {p}) = sum ?f ({..MIN_PRIORITY} - {p})" by (rule sum.cong) auto
  also have "\<dots> = sum ?f {..MIN_PRIORITY} - ?f p" using assms by (subst sum.remove [of _ p]) auto
  finally show ?thesis by simp
qed

lemma sum_other_upd:
  "(\<And>p. q \<noteq> QActive p) \<Longrightarrow> (\<Sum>i \<le> MIN_PRIORITY. int (length ((Q(q := xs)) (QActive i)))) =
    (\<Sum>i \<le> MIN_PRIORITY. int (length (Q (QActive i))))"
  by (rule sum.cong) auto

lemma not_active_queue: "status_of q \<noteq> THREAD_STAT_ACTIVE \<Longrightarrow> q \<noteq> QActive p"
  by auto

text \<open>Rearranging the queues of sleepers keeps the invariant.\<close>

lemma sched_inv_sleepers:
  assumes inv: "sched_inv s Q" and same: "same_but_queues s s'" and q: "queues s' Q'"
    and act: "\<And>p. Q' (QActive p) = Q (QActive p)" and sub: "\<And>q. set (Q' q) \<subseteq> set (Q q)"
  shows "sched_inv s' Q'"
proof (rule sched_invI)
  show "Status (thr s' t) = status_of k" if "t \<in> set (Q' k)" for k t
    using that sub [of k] sched_status [OF inv, of t k] same_but_queues_thr(1) [OF same] by auto
  show "giNumActiveThreads s' = (\<Sum>p \<le> MIN_PRIORITY. int (length (Q' (QActive p)))) +
      (if Status (thr s' (cur s')) = THREAD_STAT_ACTIVE then 1 else 0)"
    using sched_count [OF inv] same_but_queues_glob(1,2) [OF same] same_but_queues_thr(1) [OF same] by (simp add: act)
qed (use q sched_basic [OF inv] sched_active [OF inv] sched_ready [OF inv] same_but_queues_glob(1) [OF same]
  same_but_queues_thr(1,2) [OF same] in \<open>simp_all add: act\<close>)

lemma sched_del:
  assumes inv: "sched_inv s Q" and eq: "Q q = xs @ t # ys" and na: "status_of q \<noteq> THREAD_STAT_ACTIVE"
  shows "\<exists>s'. Threads_int_DelFromQueue q t s = Some (Ret (t, s')) \<and> same_but_queues s s' \<and>
    sched_inv s' (Q(q := xs @ ys)) \<and> free_of (Q(q := xs @ ys)) t \<and> t \<noteq> 0"
proof -
  note qs = sched_queues [OF inv]
  from DelFromQueue_present [OF qs eq] obtain s' where s': "Threads_int_DelFromQueue q t s = Some (Ret (t, s'))"
    "queues s' (Q(q := xs @ ys))" "same_but_queues s s'" by blast
  have "sched_inv s' (Q(q := xs @ ys))"
    using na eq by (intro sched_inv_sleepers [OF inv s'(3,2)]) auto
  moreover have "free_of (Q(q := xs @ ys)) t"
    using queues_disjoint [OF qs, of t _ q] queues_distinct [OF qs, of q] eq by (auto simp: free_of_def)
  moreover have "t \<noteq> 0" using queues_not_null [OF qs, of t q] eq by simp
  ultimately show ?thesis using s'(1,3) by blast
qed

section \<open>Waking\<close>

text \<open>The state after a thread was marked active and counted, before it is queued.\<close>

definition activated :: "ptr \<Rightarrow> kstate \<Rightarrow> kstate" where
  "activated t s = (set_Status t THREAD_STAT_ACTIVE s)\<lparr>giNumActiveThreads := giNumActiveThreads s + 1\<rparr>"

definition woken :: "ptr \<Rightarrow> kstate \<Rightarrow> (qid \<Rightarrow> ptr list) \<Rightarrow> qid \<Rightarrow> ptr list" where
  "woken t s Q = (if t = cur s then Q
     else Q(QActive (Priority (thr s t)) := Q (QActive (Priority (thr s t))) @ [t]))"

lemma activated_simps [simp]:
  "thr (activated t s) = (thr s)(t := (thr s t)\<lparr>Status := THREAD_STAT_ACTIVE\<rparr>)" "cur (activated t s) = cur s"
  "giNumActiveThreads (activated t s) = giNumActiveThreads s + 1" "mtx (activated t s) = mtx s"
  "sem (activated t s) = sem s" "rwl (activated t s) = rwl s" "wq (activated t s) = wq s"
  "q_head (activated t s) q = q_head s q" "q_tail (activated t s) q = q_tail s q"
  by (cases q; simp add: activated_def set_Status_def upd_thr_def)+

lemma same_but_queues_num:
  "same_but_queues s s' \<Longrightarrow> same_but_queues (s\<lparr>giNumActiveThreads := n\<rparr>) (s'\<lparr>giNumActiveThreads := n\<rparr>)"
  by (simp add: same_but_queues_def)

lemma ends_num [simp]:
  "q_head (s\<lparr>giNumActiveThreads := n\<rparr>) q = q_head s q" "q_tail (s\<lparr>giNumActiveThreads := n\<rparr>) q = q_tail s q"
  by (cases q; simp)+

lemma queues_num [simp]: "queues (s\<lparr>giNumActiveThreads := n\<rparr>) Q = queues s Q"
  by (rule queues_cong) auto

lemmas AddToList_thr = same_but_queues_thr [OF AddToList_same]
lemmas AddToList_glob = same_but_queues_glob [OF AddToList_same]

lemma AddActive_spec:
  assumes inv: "sched_inv s Q" and t: "t \<noteq> 0" "Status (thr s t) \<noteq> THREAD_STAT_ACTIVE" "free_of Q t"
  shows "\<exists>s'. Threads_AddActive t s = Ret s' \<and> same_but_queues (activated t s) s' \<and> sched_inv s' (woken t s Q)"
proof -
  define p where "p = Priority (thr s t)"
  define s1 where "s1 = set_Status t THREAD_STAT_ACTIVE s"
  define s2 where "s2 = (if t \<noteq> cur s then Threads_int_AddToList (QActive p) t s1 else s1)"
  define s' where "s' = s2\<lparr>giNumActiveThreads := giNumActiveThreads s + 1\<rparr>"
  have q1: "queues s1 Q"
    using sched_queues [OF inv] by (simp add: s1_def set_Status_def queues_upd_thr)
  have th1: "thr s1 = (thr s)(t := (thr s t)\<lparr>Status := THREAD_STAT_ACTIVE\<rparr>)" "cur s1 = cur s"
      "giNumActiveThreads s1 = giNumActiveThreads s"
    by (simp_all add: s1_def set_Status_def upd_thr_def)
  have same2: "same_but_queues s1 s2" by (simp add: s2_def AddToList_same)
  have same: "same_but_queues (activated t s) s'"
    using same_but_queues_num [OF same2] by (simp add: activated_def s'_def s1_def)
  have run: "Threads_AddActive t s = Ret s'"
    using t(2) th1
    by (simp add: Threads_AddActive_def Let_def s'_def s2_def p_def AddToList_glob s1_def [symmetric])
  have "queues s2 (woken t s Q)"
    using AddToList_queues [OF q1 t(1,3), of "QActive p"] q1 by (simp add: s2_def woken_def p_def)
  then have q: "queues s' (woken t s Q)" by (simp add: s'_def)
  have pr: "Priority (thr s x) \<le> MIN_PRIORITY" for x using sched_basic [OF inv] by simp
  have nt: "t \<notin> set (Q q)" for q using t(3) by (simp add: free_of_def)
  note [simp] = same_but_queues_thr [OF same] same_but_queues_glob [OF same]
  have "sched_inv s' (woken t s Q)"
  proof (rule sched_invI)
    show "Status (thr s' x) = status_of q" if "x \<in> set (woken t s Q q)" for q x
      using that sched_status [OF inv, of x q] nt by (auto simp: woken_def split: if_splits)
    show "Priority (thr s' x) = p' \<and> x \<noteq> cur s'" if "x \<in> set (woken t s Q (QActive p'))" for p' x
      using that sched_active [OF inv, of x p'] nt by (auto simp: woken_def split: if_splits)
    show "x \<in> set (woken t s Q (QActive (Priority (thr s' x))))"
      if "Status (thr s' x) = THREAD_STAT_ACTIVE" "x \<noteq> cur s'" for x
      using that sched_ready [OF inv, of x] by (auto simp: woken_def split: if_splits)
    show "giNumActiveThreads s' = (\<Sum>p \<le> MIN_PRIORITY. int (length (woken t s Q (QActive p)))) +
        (if Status (thr s' (cur s')) = THREAD_STAT_ACTIVE then 1 else 0)"
      using sched_count [OF inv] t(2) sum_active_upd [OF pr [of t], of Q]
      by (auto simp: woken_def simp del: fun_upd_apply simp: fun_upd_same fun_upd_other)
  qed (use q sched_basic [OF inv] in auto)
  with run same show ?thesis by blast
qed

lemma AddActive_Next_frame:
  assumes q: "queues s Q" and x: "x \<noteq> t" "free_of Q x" and run: "Threads_AddActive t s = Ret s'"
  shows "Next (thr s' x) = Next (thr s x)"
proof -
  let ?s = "set_Status t THREAD_STAT_ACTIVE s"
  have "queues ?s Q" using q by (simp add: set_Status_def queues_upd_thr)
  then have "Next (thr (Threads_int_AddToList k t ?s) x) = Next (thr ?s x)" for k
    using x by (intro AddToList_Next) (auto simp: free_of_def)
  moreover have "Next (thr ?s x) = Next (thr s x)" using x(1) by (simp add: set_Status_def upd_thr_def)
  ultimately show ?thesis using run by (auto simp: Threads_AddActive_def Let_def split: if_splits)
qed

lemma same_but_queues_activated: "same_but_queues s s' \<Longrightarrow> same_but_queues (activated t s) (activated t s')"
  using same_but_queues_num [OF same_but_queues_upd2 [of s s' "\<lambda>x. x\<lparr>Status := THREAD_STAT_ACTIVE\<rparr>" t]]
  by (simp add: activated_def set_Status_def thread_core_upd same_but_queues_glob same_but_queues_core)

text \<open>Taking the first sleeper off the queue of a lock.\<close>

lemma sched_pop:
  assumes inv: "sched_inv s Q" and x: "Q q = x # xs" and na: "status_of q \<noteq> THREAD_STAT_ACTIVE"
    and s1: "s1 = (if Next (thr s x) = 0 then set_tail q 0 (set_head q (Next (thr s x)) s)
      else set_head q (Next (thr s x)) s)"
  shows "q_head s q = x" "x \<noteq> 0" "q_tail s q = x \<longleftrightarrow> Next (thr s x) = 0" "same_but_queues s s1"
    "thr s1 = thr s" "sched_inv s1 (Q(q := xs))" "free_of (Q(q := xs)) x" "Status (thr s x) = status_of q"
proof -
  note qs = sched_queues [OF inv]
  note rep = queuesD [OF qs, of q, unfolded x]
  note pop = pop_queues [OF qs x s1]
  show "q_head s q = x" "same_but_queues s s1" "free_of (Q(q := xs)) x" by (rule pop)+
  show "x \<noteq> 0" using queues_not_null [OF qs, of x q] x by simp
  show "q_tail s q = x \<longleftrightarrow> Next (thr s x) = 0"
    using queue_rep_last [OF rep] queue_rep_next [OF rep] by simp
  show "Status (thr s x) = status_of q" using sched_status [OF inv, of x q] x by simp
  show th: "thr s1 = thr s" by (simp add: s1)
  note gl = same_but_queues_glob [OF pop(3)]
  have act: "(Q(q := xs)) (QActive p) = Q (QActive p)" for p using na by auto
  show "sched_inv s1 (Q(q := xs))"
  proof (rule sched_invI)
    show "Status (thr s1 t) = status_of k" if "t \<in> set ((Q(q := xs)) k)" for k t
      using that sched_status [OF inv, of t k] x th by (auto split: if_splits)
    show "giNumActiveThreads s1 = (\<Sum>p \<le> MIN_PRIORITY. int (length ((Q(q := xs)) (QActive p)))) +
        (if Status (thr s1 (cur s1)) = THREAD_STAT_ACTIVE then 1 else 0)"
      unfolding act th gl by (rule sched_count [OF inv])
  qed (use pop(2) sched_basic [OF inv] sched_active [OF inv] sched_ready [OF inv] th gl act in \<open>simp_all del: fun_upd_apply\<close>)
qed

text \<open>Popping the first sleeper and making it ready, as every lock does when it wakes somebody.\<close>

lemma sched_pop_wake:
  assumes inv: "sched_inv s Q" and x: "Q q = x # xs" and na: "status_of q \<noteq> THREAD_STAT_ACTIVE"
    and s1: "s1 = (if Next (thr s x) = 0 then set_tail q 0 (set_head q (Next (thr s x)) s)
      else set_head q (Next (thr s x)) s)"
  shows "\<exists>s'. Threads_AddActive x s1 = Ret s' \<and> same_but_queues (activated x s) s' \<and>
    sched_inv s' (woken x s (Q(q := xs)))"
proof -
  note pop = sched_pop [OF inv x na s1]
  have "Status (thr s1 x) \<noteq> THREAD_STAT_ACTIVE" using na pop(5,8) by simp
  from AddActive_spec [OF pop(6,2) this pop(7)] obtain s' where s': "Threads_AddActive x s1 = Ret s'"
    "same_but_queues (activated x s1) s'" "sched_inv s' (woken x s1 (Q(q := xs)))" by blast
  have "same_but_queues (activated x s) s'"
    by (rule same_but_queues_trans [OF same_but_queues_activated [OF pop(4)] s'(2)])
  moreover have "woken x s1 (Q(q := xs)) = woken x s (Q(q := xs))"
    using pop(5) same_but_queues_glob(1) [OF pop(4)] by (simp add: woken_def)
  ultimately show ?thesis using s'(1,3) by simp
qed

section \<open>Sleeping\<close>

definition sleeping :: "eThreadStatus \<Rightarrow> wait_ref \<Rightarrow> int \<Rightarrow> kstate \<Rightarrow> kstate" where
  "sleeping st Ptr Num s =
     upd_thr (cur s) (\<lambda>x. x\<lparr>Next := 0, Status := st, WaitPointer := Ptr, RetStatus := Num\<rparr>)
       (s\<lparr>giNumActiveThreads := giNumActiveThreads s - 1\<rparr>)"

lemma sleeping_simps [simp]:
  "thr (sleeping st Ptr Num s) =
     (thr s)(cur s := (thr s (cur s))\<lparr>Next := 0, Status := st, WaitPointer := Ptr, RetStatus := Num\<rparr>)"
  "cur (sleeping st Ptr Num s) = cur s" "giNumActiveThreads (sleeping st Ptr Num s) = giNumActiveThreads s - 1"
  "mtx (sleeping st Ptr Num s) = mtx s" "sem (sleeping st Ptr Num s) = sem s"
  "rwl (sleeping st Ptr Num s) = rwl s" "wq (sleeping st Ptr Num s) = wq s"
  "q_head (sleeping st Ptr Num s) q = q_head s q" "q_tail (sleeping st Ptr Num s) q = q_tail s q"
  by (cases q; simp add: sleeping_def upd_thr_def)+

lemma Threads_int_Sleep_eq:
  "Threads_int_Sleep st Ptr Num (OnQueue q) s = enqueue_sleeper q (cur s) (sleeping st Ptr Num s)"
  "Threads_int_Sleep st Ptr Num (HeadOnly v) s = set_Next (cur s) v (sleeping st Ptr Num s)"
  by (simp_all add: Threads_int_Sleep_def Threads_RemActive_def Let_def sleeping_def set_Next_def set_Status_def
    set_WaitPointer_def set_RetStatus_def upd_thr_def)

lemma Sleep_inv:
  assumes inv: "sched_inv s Q" and a: "Status (thr s (cur s)) = THREAD_STAT_ACTIVE"
    and st: "st \<noteq> THREAD_STAT_ACTIVE"
    and same: "same_but_queues (sleeping st Ptr Num s) s'" and q: "queues s' Q'"
    and Q': "Q' = Q \<or> (\<exists>k. status_of k = st \<and> Q' = Q(k := Q k @ [cur s]))"
  shows "sched_inv s' Q'"
proof (rule sched_invI)
  note [simp] = same_but_queues_thr [OF same] same_but_queues_glob [OF same]
  have fr: "cur s \<notin> set (Q k)" for k using sched_cur_free [OF inv a] by (simp add: free_of_def)
  have act: "Q' (QActive p) = Q (QActive p)" for p using Q' st by auto
  show "Status (thr s' x) = status_of k" if "x \<in> set (Q' k)" for k x
    using that sched_status [OF inv, of x k] Q' fr by (auto split: if_splits)
  show "Priority (thr s' x) = p \<and> x \<noteq> cur s'" if "x \<in> set (Q' (QActive p))" for p x
    using that sched_active [OF inv, of x p] act by auto
  show "x \<in> set (Q' (QActive (Priority (thr s' x))))"
    if "Status (thr s' x) = THREAD_STAT_ACTIVE" "x \<noteq> cur s'" for x
    using that sched_ready [OF inv, of x] act by auto
  show "giNumActiveThreads s' = (\<Sum>p \<le> MIN_PRIORITY. int (length (Q' (QActive p)))) +
      (if Status (thr s' (cur s')) = THREAD_STAT_ACTIVE then 1 else 0)"
    using sched_count [OF inv] a st act by simp
qed (use q sched_basic [OF inv] same_but_queues_thr(2) [OF same] same_but_queues_glob(1) [OF same] in auto)

lemma sleeping_queues:
  assumes "sched_inv s Q" "Status (thr s (cur s)) = THREAD_STAT_ACTIVE"
  shows "queues (sleeping st Ptr Num s) Q"
proof -
  have "cur s \<notin> set (Q k)" for k using sched_cur_free [OF assms] by (simp add: free_of_def)
  then have "queues (sleeping st Ptr Num s) Q = queues s Q" by (intro queues_cong) auto
  with sched_queues [OF assms(1)] show ?thesis by simp
qed

lemma Threads_int_Sleep_spec:
  fixes Ptr :: wait_ref and Num :: int
  assumes inv: "sched_inv s Q" and a: "Status (thr s (cur s)) = THREAD_STAT_ACTIVE"
    and q: "status_of q \<noteq> THREAD_STAT_ACTIVE"
  defines "s' \<equiv> Threads_int_Sleep (status_of q) Ptr Num (OnQueue q) s"
  shows "same_but_queues (sleeping (status_of q) Ptr Num s) s'" "sched_inv s' (Q(q := Q q @ [cur s]))"
proof -
  show same: "same_but_queues (sleeping (status_of q) Ptr Num s) s'"
    by (simp add: s'_def Threads_int_Sleep_eq enqueue_sleeper_same)
  have "queues s' (Q(q := Q q @ [cur s]))"
    unfolding s'_def Threads_int_Sleep_eq
    using sched_basic [OF inv] sched_cur_free [OF inv a]
    by (intro enqueue_sleeper_queues sleeping_queues [OF inv a]) auto
  then show "sched_inv s' (Q(q := Q q @ [cur s]))"
    by (intro Sleep_inv [OF inv a q same]) auto
qed

section \<open>Choosing the next thread\<close>

lemma get_runnable_none:
  "queues s Q \<Longrightarrow> \<forall>i \<in> set is. Q (QActive i) = [] \<Longrightarrow> get_runnable is s = Ret (0, s)"
proof (induction "is")
  case (Cons i "is")
  then show ?case using queues_head [of s Q "QActive i"] by (simp add: Let_def)
qed simp

lemma get_runnable_some:
  assumes q: "queues s Q" and a: "\<And>i t. t \<in> set (Q (QActive i)) \<Longrightarrow> Status (thr s t) = THREAD_STAT_ACTIVE"
    and i: "Q (QActive i) = x # xs"
  shows "\<forall>j \<in> set is. Q (QActive j) = [] \<Longrightarrow>
    \<exists>s'. get_runnable (is @ i # js) s = Ret (x, s') \<and> queues s' (Q(QActive i := xs)) \<and> same_but_queues s s' \<and>
      (\<forall>t. t \<noteq> x \<longrightarrow> Next (thr s' t) = Next (thr s t))"
proof (induction "is")
  case Nil
  define s1 where "s1 = (if Next (thr s x) = 0 then set_tail (QActive i) 0 (set_head (QActive i) (Next (thr s x)) s)
      else set_head (QActive i) (Next (thr s x)) s)"
  note pop = pop_queues [OF q i s1_def]
  have x: "x \<noteq> 0" using queues_not_null [OF q, of x "QActive i"] i by simp
  have "x \<notin> set ((Q(QActive i := xs)) k)" for k using pop(4) unfolding free_of_def by blast
  then have "queues (set_Next x 0 s1) (Q(QActive i := xs)) = queues s1 (Q(QActive i := xs))"
    by (intro queues_cong) (auto simp: set_Next_def thr_upd_thr)
  moreover have "get_runnable ([] @ i # js) s = Ret (x, set_Next x 0 s1)"
    using pop(1) x a [of x i] i by (simp add: Let_def s1_def)
  moreover have "Next (thr (set_Next x 0 s1) t) = Next (thr s t)" if "t \<noteq> x" for t
    using that by (simp add: s1_def set_Next_def thr_upd_thr)
  ultimately show ?case
    using pop(2) same_but_queues_trans [OF pop(3) same_but_queues_set(3), of x 0] by (auto simp del: fun_upd_apply)
next
  case (Cons j "is")
  then show ?case using queues_head [OF q, of "QActive j"] by (simp add: Let_def)
qed

text \<open>The queues once the running thread has been put back, and the first level with a ready thread.\<close>

definition requeued :: "kstate \<Rightarrow> (qid \<Rightarrow> ptr list) \<Rightarrow> qid \<Rightarrow> ptr list" where
  "requeued s Q =
     (let p = Priority (thr s (cur s)) in
      if Status (thr s (cur s)) = THREAD_STAT_ACTIVE then Q(QActive p := Q (QActive p) @ [cur s]) else Q)"

lemma requeued_queues:
  assumes "sched_inv s Q"
  shows "\<exists>s'. queues s' (requeued s Q)"
proof (cases "Status (thr s (cur s)) = THREAD_STAT_ACTIVE")
  case True
  with AddToList_queues [OF sched_queues [OF assms], of "cur s" "QActive (Priority (thr s (cur s)))"]
    sched_cur_free [OF assms] sched_basic [OF assms] show ?thesis
    by (auto simp: requeued_def Let_def simp del: fun_upd_apply)
next
  case False
  with sched_queues [OF assms] show ?thesis by (auto simp: requeued_def Let_def)
qed

lemma requeued_count:
  assumes inv: "sched_inv s Q"
  shows "giNumActiveThreads s = (\<Sum>p \<le> MIN_PRIORITY. int (length (requeued s Q (QActive p))))"
  using sched_count [OF inv] sum_active_upd [of "Priority (thr s (cur s))" Q] sched_basic [OF inv, of "cur s"]
  by (simp add: requeued_def Let_def del: fun_upd_apply)

lemma requeued_status: "sched_inv s Q \<Longrightarrow> t \<in> set (requeued s Q k) \<Longrightarrow> Status (thr s t) = status_of k"
  using sched_status [of s Q t k] by (auto simp: requeued_def Let_def split: if_splits)

lemma requeued_member:
  assumes inv: "sched_inv s Q" and "t \<in> set (requeued s Q (QActive i))"
  shows "Status (thr s t) = THREAD_STAT_ACTIVE" "Priority (thr s t) = i" "i \<le> MIN_PRIORITY"
proof -
  show "Status (thr s t) = THREAD_STAT_ACTIVE" "Priority (thr s t) = i"
    using assms(2) sched_status [OF inv, of t "QActive i"] sched_active [OF inv, of t i]
    by (auto simp: requeued_def Let_def split: if_splits)
  with sched_basic [OF inv, of t] show "i \<le> MIN_PRIORITY" by simp
qed

lemma set_CurCPU_queues [simp]: "queues (set_CurCPU t v s) Q = queues s Q"
  by (simp add: set_CurCPU_def queues_upd_thr)

lemma set_CurCPU_same: "same_but_queues s (set_CurCPU t v s)"
  by (simp add: set_CurCPU_def same_but_queues_upd thread_core_def)

lemma GetNextToRun_idle:
  assumes inv: "sched_inv s Q" and nt: "\<not> gaThreads_NoTaskSwitch s"
    and none: "\<And>i. i \<le> MIN_PRIORITY \<Longrightarrow> requeued s Q (QActive i) = []"
  shows "Threads_GetNextToRun CPU (cur s) s = Ret (0, set_CurCPU (cur s) (- 1) s)"
proof -
  have "giNumActiveThreads s = 0" using requeued_count [OF inv] none by simp
  then show ?thesis
    using nt sched_basic [OF inv]
    by (simp add: Threads_GetNextToRun_def Let_def same_but_queues_glob [OF set_CurCPU_same])
qed

lemma GetNextToRun_run:
  assumes inv: "sched_inv s Q" and nt: "\<not> gaThreads_NoTaskSwitch s"
    and x: "requeued s Q (QActive i) = x # xs" and first: "\<And>j. j < i \<Longrightarrow> requeued s Q (QActive j) = []"
  shows "\<exists>s'. Threads_GetNextToRun CPU (cur s) s = Ret (x, s') \<and> same_but_queues s s' \<and>
    queues s' ((requeued s Q)(QActive i := xs)) \<and> CurCPU (thr s' x) = CPU \<and>
    (Status (thr s (cur s)) \<noteq> THREAD_STAT_ACTIVE \<longrightarrow> (\<forall>t. t \<noteq> x \<longrightarrow> Next (thr s' t) = Next (thr s t)))"
proof -
  define s1 where "s1 = set_CurCPU (cur s) (- 1) s"
  define s2 where "s2 = (if Status (thr s1 (cur s)) = THREAD_STAT_ACTIVE
      then Threads_int_AddToList (QActive (Priority (thr s1 (cur s)))) (cur s) s1 else s1)"
  define s3 where "s3 = set_CurCPU (cur s) (- 1) s2"
  have i: "i \<le> MIN_PRIORITY" using requeued_member [OF inv, of x i] x by simp
  have "1 \<le> (\<Sum>p \<le> MIN_PRIORITY. int (length (requeued s Q (QActive p))))"
    using i x by (subst sum.remove [of _ i]) (auto intro!: add_nonneg_nonneg sum_nonneg)
  then have num: "giNumActiveThreads s1 \<noteq> 0"
    using requeued_count [OF inv] by (simp add: s1_def same_but_queues_glob [OF set_CurCPU_same])
  have same1: "same_but_queues s s1" by (simp add: s1_def set_CurCPU_same)
  have same2: "same_but_queues s1 s2" by (simp add: s2_def AddToList_same)
  have same3: "same_but_queues s s3"
    unfolding s3_def by (rule same_but_queues_trans [OF same_but_queues_trans [OF same1 same2] set_CurCPU_same])
  have q1: "queues s1 Q" using sched_queues [OF inv] by (simp add: s1_def)
  have "queues s2 (requeued s Q)"
    using q1 AddToList_queues [OF q1, of "cur s" "QActive (Priority (thr s (cur s)))"]
      sched_basic [OF inv] sched_cur_free [OF inv]
    by (simp add: s2_def requeued_def Let_def same_but_queues_thr [OF same1])
  then have q3: "queues s3 (requeued s Q)" by (simp add: s3_def)
  have split: "[0..<MIN_PRIORITY + 1] = [0..<i] @ i # [Suc i..<MIN_PRIORITY + 1]"
    using i upt_add_eq_append [of 0 i "MIN_PRIORITY + 1 - i"] by (simp add: upt_conv_Cons)
  have "\<exists>s'. Threads_int_GetRunnable s3 = Ret (x, s') \<and> queues s' ((requeued s Q)(QActive i := xs)) \<and>
      same_but_queues s3 s' \<and> (\<forall>t. t \<noteq> x \<longrightarrow> Next (thr s' t) = Next (thr s3 t))"
    unfolding Threads_int_GetRunnable_def split
    by (rule get_runnable_some [OF q3 _ x])
      (use requeued_member [OF inv] first in \<open>auto simp: same_but_queues_thr [OF same3]\<close>)
  then obtain s4 where s4: "Threads_int_GetRunnable s3 = Ret (x, s4)"
    "queues s4 ((requeued s Q)(QActive i := xs))" "same_but_queues s3 s4"
    "\<And>t. t \<noteq> x \<Longrightarrow> Next (thr s4 t) = Next (thr s3 t)" by blast
  define s' where "s' = upd_thr x (\<lambda>y. y\<lparr>Remaining := Quantum y\<rparr>) (set_CurCPU x CPU s4)"
  have x0: "x \<noteq> 0" using queues_not_null [OF q3, of x "QActive i"] x by simp
  have "Threads_GetNextToRun CPU (cur s) s = Ret (x, s')"
    using nt num x0 s4(1) sched_basic [OF inv]
    by (simp add: Threads_GetNextToRun_def Let_def s1_def [symmetric] s2_def [symmetric] s3_def [symmetric] s'_def)
  moreover have "same_but_queues (set_CurCPU x CPU s4) s'"
    unfolding s'_def by (rule same_but_queues_upd) (simp add: thread_core_def)
  then have "same_but_queues s s'"
    by (rule same_but_queues_trans [OF same_but_queues_trans [OF same_but_queues_trans [OF same3 s4(3)]
      set_CurCPU_same]])
  moreover have "queues s' ((requeued s Q)(QActive i := xs))"
    using s4(2) by (simp add: s'_def queues_upd_thr del: fun_upd_apply)
  moreover have "CurCPU (thr s' x) = CPU" by (simp add: s'_def set_CurCPU_def upd_thr_def)
  moreover have "Next (thr s' t) = Next (thr s t)" if "Status (thr s (cur s)) \<noteq> THREAD_STAT_ACTIVE" "t \<noteq> x" for t
    using that s4(4) [of t] same_but_queues_thr(1) [OF same1]
    by (simp add: s'_def s3_def s2_def s1_def set_CurCPU_def thr_upd_thr)
  ultimately show ?thesis by blast
qed

lemma ends_cur [simp]: "q_head (s\<lparr>cur := c\<rparr>) q = q_head s q" "q_tail (s\<lparr>cur := c\<rparr>) q = q_tail s q"
  by (cases q; simp)+

lemma queues_cur [simp]: "queues (s\<lparr>cur := c\<rparr>) Q = queues s Q"
  by (rule queues_cong) auto

lemma same_but_queues_cur: "same_but_queues s s' \<Longrightarrow> same_but_queues (s\<lparr>cur := c\<rparr>) (s'\<lparr>cur := c\<rparr>)"
  by (simp add: same_but_queues_def)

lemma Reschedule_idle:
  assumes inv: "sched_inv s Q" and nt: "\<not> gaThreads_NoTaskSwitch s"
    and none: "\<And>i. i \<le> MIN_PRIORITY \<Longrightarrow> requeued s Q (QActive i) = []"
  shows "\<exists>s'. Proc_Reschedule CPU s = Ret s' \<and> same_but_queues s s' \<and> sched_inv s' Q \<and>
    (\<forall>t. Next (thr s' t) = Next (thr s t))"
proof -
  define s' where "s' = set_CurCPU (cur s) (- 1) s"
  have same: "same_but_queues s s'" by (simp add: s'_def set_CurCPU_same)
  have "queues s' Q" using sched_queues [OF inv] by (simp add: s'_def)
  then have "sched_inv s' Q"
    using inv by (simp add: sched_inv_def same_but_queues_thr [OF same] same_but_queues_glob [OF same])
  moreover have "Next (thr s' t) = Next (thr s t)" for t by (simp add: s'_def set_CurCPU_def upd_thr_def)
  ultimately show ?thesis using same GetNextToRun_idle [OF inv nt none] by (simp add: Proc_Reschedule_def s'_def)
qed

lemma Reschedule_run:
  assumes inv: "sched_inv s Q" and nt: "\<not> gaThreads_NoTaskSwitch s"
    and x: "requeued s Q (QActive i) = x # xs" and first: "\<And>j. j < i \<Longrightarrow> requeued s Q (QActive j) = []"
  shows "\<exists>s'. Proc_Reschedule CPU s = Ret s' \<and> same_but_queues (s\<lparr>cur := x\<rparr>) s' \<and>
    sched_inv s' ((requeued s Q)(QActive i := xs)) \<and>
    (Status (thr s (cur s)) \<noteq> THREAD_STAT_ACTIVE \<longrightarrow> (\<forall>t. t \<noteq> x \<longrightarrow> Next (thr s' t) = Next (thr s t)))"
proof -
  let ?Q = "(requeued s Q)(QActive i := xs)"
  from GetNextToRun_run [OF inv nt x first, of CPU] obtain s1 where
    s1: "Threads_GetNextToRun CPU (cur s) s = Ret (x, s1)" "same_but_queues s s1" "queues s1 ?Q"
      "Status (thr s (cur s)) \<noteq> THREAD_STAT_ACTIVE \<longrightarrow> (\<forall>t. t \<noteq> x \<longrightarrow> Next (thr s1 t) = Next (thr s t))" by blast
  define s' where "s' = s1\<lparr>cur := x\<rparr>"
  note mem = requeued_member [OF inv]
  have xi: "x \<in> set (requeued s Q (QActive i))" using x by simp
  have x0: "x \<noteq> 0"
    using xi sched_queues [OF inv] queues_not_null sched_basic [OF inv]
    by (fastforce simp: requeued_def Let_def split: if_splits)
  have run: "Proc_Reschedule CPU s = Ret s'"
    using s1(1) x0 same_but_queues_glob(1) [OF s1(2)] by (auto simp: Proc_Reschedule_def s'_def)
  have same: "same_but_queues (s\<lparr>cur := x\<rparr>) s'" unfolding s'_def by (rule same_but_queues_cur [OF s1(2)])
  note [simp] = same_but_queues_thr [OF same] same_but_queues_glob [OF same]
  have q: "queues s' ?Q" using s1(3) by (simp add: s'_def del: fun_upd_apply)
  from requeued_queues [OF inv] obtain s2 where q2: "queues s2 (requeued s Q)" by blast
  have dj: "x \<notin> set (?Q k)" for k
  proof (cases "k = QActive i")
    case True
    with queues_distinct [OF q2, of "QActive i"] x show ?thesis by simp
  next
    case False
    with queues_disjoint [OF q2 xi, of k] show ?thesis by auto
  qed
  have "sched_inv s' ?Q"
  proof (rule sched_invI)
    show "Status (thr s' t) = status_of k" if "t \<in> set (?Q k)" for k t
      using that requeued_status [OF inv, of t k] x by (auto split: if_splits)
    show "Priority (thr s' t) = p \<and> t \<noteq> cur s'" if t: "t \<in> set (?Q (QActive p))" for p t
    proof -
      have "t \<in> set (requeued s Q (QActive p))" using t x by (auto split: if_splits)
      moreover have "t \<noteq> x" using t dj by metis
      ultimately show ?thesis using mem(2) [of t p] by simp
    qed
    show "t \<in> set (?Q (QActive (Priority (thr s' t))))"
      if "Status (thr s' t) = THREAD_STAT_ACTIVE" "t \<noteq> cur s'" for t
    proof -
      have "t \<in> set (requeued s Q (QActive (Priority (thr s t))))"
        using that sched_ready [OF inv, of t] by (cases "t = cur s") (auto simp: requeued_def Let_def)
      with that x show ?thesis by (auto split: if_splits)
    qed
    show "giNumActiveThreads s' = (\<Sum>p \<le> MIN_PRIORITY. int (length (?Q (QActive p)))) +
        (if Status (thr s' (cur s')) = THREAD_STAT_ACTIVE then 1 else 0)"
      using requeued_count [OF inv] sum_active_upd [OF mem(3) [OF xi], of "requeued s Q" xs] mem(1) [OF xi] x
      by (simp del: fun_upd_apply)
  qed (use q x0 sched_basic [OF inv] in auto)
  moreover have "thr s' = thr s1" by (simp add: s'_def)
  ultimately show ?thesis using run same s1(4) by auto
qed

lemma Reschedule_inv:
  assumes inv: "sched_inv s Q"
  shows "\<exists>s' Q'. Proc_Reschedule CPU s = Ret s' \<and> sched_inv s' Q' \<and> same_but_queues (s\<lparr>cur := cur s'\<rparr>) s' \<and>
    (\<forall>q. status_of q \<noteq> THREAD_STAT_ACTIVE \<longrightarrow> Q' q = Q q) \<and>
    (Status (thr s (cur s)) \<noteq> THREAD_STAT_ACTIVE \<longrightarrow> (\<forall>t. t \<noteq> cur s' \<longrightarrow> Next (thr s' t) = Next (thr s t)))"
proof -
  consider (off) "gaThreads_NoTaskSwitch s"
    | (idle) "\<not> gaThreads_NoTaskSwitch s" "\<And>i. i \<le> MIN_PRIORITY \<Longrightarrow> requeued s Q (QActive i) = []"
    | (run) "\<not> gaThreads_NoTaskSwitch s" "\<exists>i. requeued s Q (QActive i) \<noteq> []" by blast
  then show ?thesis
  proof cases
    case off
    then show ?thesis using inv
      by (intro exI [of _ s] exI [of _ Q]) (simp add: Proc_Reschedule_def Threads_GetNextToRun_def)
  next
    case idle
    from Reschedule_idle [OF inv idle, of CPU] obtain s' where
      s': "Proc_Reschedule CPU s = Ret s'" "same_but_queues s s'" "sched_inv s' Q"
      "\<And>t. Next (thr s' t) = Next (thr s t)" by blast
    then have "same_but_queues (s\<lparr>cur := cur s'\<rparr>) s'"
      using same_but_queues_glob(1) [OF s'(2)] by simp
    with s' show ?thesis by blast
  next
    case run
    define i where "i = (LEAST i. requeued s Q (QActive i) \<noteq> [])"
    have "requeued s Q (QActive i) \<noteq> []" unfolding i_def using run(2) by (rule LeastI_ex)
    then obtain x xs where x: "requeued s Q (QActive i) = x # xs" by (cases "requeued s Q (QActive i)") auto
    have first: "\<And>j. j < i \<Longrightarrow> requeued s Q (QActive j) = []" unfolding i_def using not_less_Least by blast
    from Reschedule_run [OF inv run(1) x first, of CPU] obtain s' where
      s': "Proc_Reschedule CPU s = Ret s'" "same_but_queues (s\<lparr>cur := x\<rparr>) s'"
      "sched_inv s' ((requeued s Q)(QActive i := xs))"
      "Status (thr s (cur s)) \<noteq> THREAD_STAT_ACTIVE \<longrightarrow> (\<forall>t. t \<noteq> x \<longrightarrow> Next (thr s' t) = Next (thr s t))" by blast
    moreover have "cur s' = x" using same_but_queues_glob(1) [OF s'(2)] by simp
    moreover have "((requeued s Q)(QActive i := xs)) q = Q q" if "status_of q \<noteq> THREAD_STAT_ACTIVE" for q
      using that by (auto simp: requeued_def Let_def)
    ultimately show ?thesis by blast
  qed
qed

end
