(* ===== verification/Mutex.thy ===== *)
theory Mutex
  imports Scheduler
begin

text \<open>
  Mutexes, \<open>mutex.c\<close>. \<open>Mutex_Acquire\<close> either takes the lock at once or puts the caller to sleep on
  the mutex; \<open>Mutex_Release\<close> hands the lock to the thread that has waited longest. The step relation
  at the end runs any number of threads over any number of mutexes with preemption at any point
  between the handlers.
\<close>

section \<open>Model\<close>

text \<open>The flag of \<open>Mutex_Acquire\<close> is false when the caller went to sleep.\<close>

definition Mutex_Acquire :: "mref \<Rightarrow> kstate \<Rightarrow> bool \<times> kstate" where
  "Mutex_Acquire m s =
     (let us = cur s in
      if Owner (mtx s m) \<noteq> 0
      then (False, Threads_int_Sleep THREAD_STAT_MUTEXSLEEP (WMutex m) 0 (OnQueue (QMutex m)) s)
      else (True, s\<lparr>mtx := (mtx s)(m := (mtx s m)\<lparr>Owner := us\<rparr>)\<rparr>))"

definition Mutex_Release :: "mref \<Rightarrow> kstate \<Rightarrow> kstate outcome" where
  "Mutex_Release m s =
     (if Waiting (mtx s m) \<noteq> 0 then
        (let s = s\<lparr>mtx := (mtx s)(m := (mtx s m)\<lparr>Owner := Waiting (mtx s m)\<rparr>)\<rparr>;
             s = s\<lparr>mtx := (mtx s)(m := (mtx s m)\<lparr>Waiting := Next (thr s (Waiting (mtx s m)))\<rparr>)\<rparr>;
             s = (if LastWaiting (mtx s m) = Owner (mtx s m)
                  then s\<lparr>mtx := (mtx s)(m := (mtx s m)\<lparr>LastWaiting := 0\<rparr>)\<rparr> else s) in
         if Status (thr s (Owner (mtx s m))) \<noteq> THREAD_STAT_ACTIVE
         then Threads_AddActive (Owner (mtx s m)) s else Ret s)
      else Ret (s\<lparr>mtx := (mtx s)(m := (mtx s m)\<lparr>Owner := 0\<rparr>)\<rparr>))"

definition Mutex_IsLocked :: "mref \<Rightarrow> kstate \<Rightarrow> bool" where
  "Mutex_IsLocked m s = (Owner (mtx s m) \<noteq> 0)"

section \<open>What the operations do\<close>

definition set_Owner :: "mref \<Rightarrow> ptr \<Rightarrow> kstate \<Rightarrow> kstate" where
  "set_Owner m t s = s\<lparr>mtx := (mtx s)(m := (mtx s m)\<lparr>Owner := t\<rparr>)\<rparr>"

lemma set_Owner_simps [simp]:
  "thr (set_Owner m t s) = thr s" "cur (set_Owner m t s) = cur s"
  "giNumActiveThreads (set_Owner m t s) = giNumActiveThreads s"
  "Owner (mtx (set_Owner m t s) m') = (if m' = m then t else Owner (mtx s m'))"
  "q_head (set_Owner m t s) q = q_head s q" "q_tail (set_Owner m t s) q = q_tail s q"
  by (simp_all add: set_Owner_def) (cases q; simp)+

lemma set_Owner_inv [simp]: "sched_inv (set_Owner m t s) Q = sched_inv s Q"
proof -
  have "queues (set_Owner m t s) Q = queues s Q" by (rule queues_cong) simp_all
  then show ?thesis by (simp add: sched_inv_def)
qed

lemma Mutex_Acquire_free:
  "Owner (mtx s m) = 0 \<Longrightarrow> Mutex_Acquire m s = (True, set_Owner m (cur s) s)"
  by (simp add: Mutex_Acquire_def set_Owner_def)

lemma Mutex_Acquire_held:
  assumes "sched_inv s Q" "Status (thr s (cur s)) = THREAD_STAT_ACTIVE" "Owner (mtx s m) \<noteq> 0"
  shows "\<exists>s'. Mutex_Acquire m s = (False, s') \<and>
    same_but_queues (sleeping THREAD_STAT_MUTEXSLEEP (WMutex m) 0 s) s' \<and>
    sched_inv s' (Q(QMutex m := Q (QMutex m) @ [cur s]))"
  using Threads_int_Sleep_spec [OF assms(1,2), of "QMutex m" "WMutex m" 0] assms(3)
  by (simp add: Mutex_Acquire_def)

lemma Mutex_Release_empty:
  assumes "sched_inv s Q" "Q (QMutex m) = []"
  shows "Mutex_Release m s = Ret (set_Owner m 0 s)"
  using queues_head [OF sched_queues [OF assms(1)], of "QMutex m"] assms(2)
  by (simp add: Mutex_Release_def set_Owner_def)

text \<open>Handing over: the first waiter becomes the owner and is made ready to run.\<close>

lemma Mutex_Release_handover:
  assumes inv: "sched_inv s Q" and x: "Q (QMutex m) = x # xs"
  shows "\<exists>s'. Mutex_Release m s = Ret s' \<and> same_but_queues (activated x (set_Owner m x s)) s' \<and>
    sched_inv s' (woken x s (Q(QMutex m := xs)))"
proof -
  define s0 where "s0 = set_Owner m x s"
  define s1 where "s1 = (if Next (thr s0 x) = 0 then set_tail (QMutex m) 0 (set_head (QMutex m) (Next (thr s0 x)) s0)
      else set_head (QMutex m) (Next (thr s0 x)) s0)"
  have inv0: "sched_inv s0 Q" using inv by (simp add: s0_def)
  have na: "status_of (QMutex m) \<noteq> THREAD_STAT_ACTIVE" by simp
  note pop = sched_pop [OF inv0 x na s1_def]
  have "Mutex_Release m s = Threads_AddActive x s1"
    using pop(1-3,8) by (simp add: Mutex_Release_def Let_def s1_def s0_def set_Owner_def)
  moreover have "woken x s0 R = woken x s R" for R by (simp add: woken_def s0_def)
  ultimately show ?thesis using sched_pop_wake [OF inv0 x na s1_def] by (simp add: s0_def del: fun_upd_apply)
qed

section \<open>Threads competing for mutexes\<close>

text \<open>
  A run of the kernel restricted to mutexes. \<open>inside w m\<close> are the threads that have returned from
  acquiring \<open>m\<close> and have not begun to release it; \<open>pend w t\<close> is the mutex whose \<open>Mutex_Acquire\<close>
  the thread \<open>t\<close> has entered and not yet returned from. A thread returns from a blocking acquire
  when it is running and no longer marked asleep, as \<open>Threads_int_WaitForStatusEnd\<close> does.
\<close>

record mworld =
  ks :: kstate
  inside :: "mref \<Rightarrow> ptr set"
  pend :: "ptr \<Rightarrow> mref option"

definition can_act :: "mworld \<Rightarrow> bool" where
  "can_act w \<longleftrightarrow> Status (thr (ks w) (cur (ks w))) = THREAD_STAT_ACTIVE \<and> pend w (cur (ks w)) = None"

inductive mutex_step :: "mworld \<Rightarrow> mworld \<Rightarrow> bool" where
  acquire: "can_act w \<Longrightarrow> Mutex_Acquire m (ks w) = (True, s') \<Longrightarrow>
    mutex_step w (w\<lparr>ks := s', inside := (inside w)(m := insert (cur (ks w)) (inside w m))\<rparr>)"
| block: "can_act w \<Longrightarrow> Mutex_Acquire m (ks w) = (False, s') \<Longrightarrow>
    mutex_step w (w\<lparr>ks := s', pend := (pend w)(cur (ks w) \<mapsto> m)\<rparr>)"
| resume: "pend w (cur (ks w)) = Some m \<Longrightarrow> Status (thr (ks w) (cur (ks w))) \<noteq> THREAD_STAT_MUTEXSLEEP \<Longrightarrow>
    mutex_step w (w\<lparr>ks := snd (Threads_int_Sleep_return (cur (ks w)) (ks w)),
      inside := (inside w)(m := insert (cur (ks w)) (inside w m)), pend := (pend w)(cur (ks w) := None)\<rparr>)"
| release: "can_act w \<Longrightarrow> cur (ks w) \<in> inside w m \<Longrightarrow> Mutex_Release m (ks w) = Ret s' \<Longrightarrow>
    mutex_step w (w\<lparr>ks := s', inside := (inside w)(m := inside w m - {cur (ks w)})\<rparr>)"
| reschedule: "Proc_Reschedule CPU (ks w) = Ret s' \<Longrightarrow> mutex_step w (w\<lparr>ks := s'\<rparr>)"

inductive_cases mutex_stepE: "mutex_step w w'"

definition mutex_inv :: "mworld \<Rightarrow> (qid \<Rightarrow> ptr list) \<Rightarrow> bool" where
  "mutex_inv w Q \<longleftrightarrow> sched_inv (ks w) Q \<and>
     (\<forall>m t. t \<in> inside w m \<longrightarrow> Owner (mtx (ks w) m) = t \<and> t \<noteq> 0) \<and>
     (\<forall>m t. t \<in> set (Q (QMutex m)) \<longrightarrow> pend w t = Some m) \<and>
     (\<forall>m t. pend w t = Some m \<longrightarrow> t \<noteq> 0 \<and> (t \<in> set (Q (QMutex m)) \<or> Owner (mtx (ks w) m) = t)) \<and>
     (\<forall>m. Owner (mtx (ks w) m) \<noteq> 0 \<longrightarrow> Owner (mtx (ks w) m) \<in> inside w m \<or>
        pend w (Owner (mtx (ks w) m)) = Some m) \<and>
     (\<forall>m. Owner (mtx (ks w) m) = 0 \<longrightarrow> Q (QMutex m) = [])"

lemma mutex_invI:
  assumes "sched_inv (ks w) Q" "\<And>m t. t \<in> inside w m \<Longrightarrow> Owner (mtx (ks w) m) = t \<and> t \<noteq> 0"
    "\<And>m t. t \<in> set (Q (QMutex m)) \<Longrightarrow> pend w t = Some m"
    "\<And>m t. pend w t = Some m \<Longrightarrow> t \<noteq> 0 \<and> (t \<in> set (Q (QMutex m)) \<or> Owner (mtx (ks w) m) = t)"
    "\<And>m. Owner (mtx (ks w) m) \<noteq> 0 \<Longrightarrow> Owner (mtx (ks w) m) \<in> inside w m \<or> pend w (Owner (mtx (ks w) m)) = Some m"
    "\<And>m. Owner (mtx (ks w) m) = 0 \<Longrightarrow> Q (QMutex m) = []"
  shows "mutex_inv w Q"
  using assms unfolding mutex_inv_def by blast

lemma mutex_inv_parts:
  assumes "mutex_inv w Q"
  shows "sched_inv (ks w) Q" "t \<in> inside w m \<Longrightarrow> Owner (mtx (ks w) m) = t \<and> t \<noteq> 0"
    "t \<in> set (Q (QMutex m)) \<Longrightarrow> pend w t = Some m"
    "pend w t = Some m \<Longrightarrow> t \<noteq> 0 \<and> (t \<in> set (Q (QMutex m)) \<or> Owner (mtx (ks w) m) = t)"
    "Owner (mtx (ks w) m) \<noteq> 0 \<Longrightarrow> Owner (mtx (ks w) m) \<in> inside w m \<or> pend w (Owner (mtx (ks w) m)) = Some m"
    "Owner (mtx (ks w) m) = 0 \<Longrightarrow> Q (QMutex m) = []"
  using assms unfolding mutex_inv_def by blast+

lemma woken_mutex [simp]: "woken x s Q (QMutex m) = Q (QMutex m)"
  by (simp add: woken_def)

lemma acquire_inv:
  assumes i: "mutex_inv w Q" and "can_act w" "Mutex_Acquire m (ks w) = (True, s')"
  shows "mutex_inv (w\<lparr>ks := s', inside := (inside w)(m := insert (cur (ks w)) (inside w m))\<rparr>) Q"
proof -
  note p = mutex_inv_parts [OF i]
  have o: "Owner (mtx (ks w) m) = 0" using assms(3) by (auto simp: Mutex_Acquire_def Let_def split: if_splits)
  then have s': "s' = set_Owner m (cur (ks w)) (ks w)" using assms(3) by (simp add: Mutex_Acquire_free)
  have out: "t \<notin> inside w m" "pend w t \<noteq> Some m" for t
    using p(2) [of t m] p(4) [of t m] p(6) [of m] o by auto
  show ?thesis
  proof (rule mutex_invI)
    show "t \<noteq> 0 \<and> (t \<in> set (Q (QMutex k)) \<or>
        Owner (mtx (ks (w\<lparr>ks := s', inside := (inside w)(m := insert (cur (ks w)) (inside w m))\<rparr>)) k) = t)"
      if "pend (w\<lparr>ks := s', inside := (inside w)(m := insert (cur (ks w)) (inside w m))\<rparr>) t = Some k" for k t
      using that p(4) [of t k] out by (auto simp: s')
  qed (use p(1-3) p(5,6) out sched_basic [OF p(1)] in \<open>auto simp: s' split: if_splits\<close>)
qed

lemma block_inv:
  assumes i: "mutex_inv w Q" and a: "can_act w" and "Mutex_Acquire m (ks w) = (False, s')"
  shows "mutex_inv (w\<lparr>ks := s', pend := (pend w)(cur (ks w) \<mapsto> m)\<rparr>) (Q(QMutex m := Q (QMutex m) @ [cur (ks w)]))"
proof -
  note p = mutex_inv_parts [OF i]
  have o: "Owner (mtx (ks w) m) \<noteq> 0" using assms(3) by (auto simp: Mutex_Acquire_def Let_def split: if_splits)
  from Mutex_Acquire_held [OF p(1) _ o] assms(3) a have s': "same_but_queues (sleeping THREAD_STAT_MUTEXSLEEP (WMutex m) 0 (ks w)) s'"
    "sched_inv s' (Q(QMutex m := Q (QMutex m) @ [cur (ks w)]))" by (auto simp: can_act_def)
  have own: "Owner (mtx s' k) = Owner (mtx (ks w) k)" for k using same_but_queues_glob(4) [OF s'(1)] by simp
  have idle: "pend w (cur (ks w)) = None" using a by (simp add: can_act_def)
  show ?thesis
  proof (rule mutex_invI)
    let ?w = "w\<lparr>ks := s', pend := (pend w)(cur (ks w) \<mapsto> m)\<rparr>"
    show "Owner (mtx (ks ?w) k) \<in> inside ?w k \<or> pend ?w (Owner (mtx (ks ?w) k)) = Some k"
      if "Owner (mtx (ks ?w) k) \<noteq> 0" for k
      using that p(5) [of k] idle by (auto simp: own)
    show "t \<noteq> 0 \<and> (t \<in> set ((Q(QMutex m := Q (QMutex m) @ [cur (ks w)])) (QMutex k)) \<or> Owner (mtx (ks ?w) k) = t)"
      if "pend ?w t = Some k" for k t
      using that p(4) [of t k] sched_basic [OF p(1)] by (auto simp: own split: if_splits)
    show "pend ?w t = Some k" if "t \<in> set ((Q(QMutex m := Q (QMutex m) @ [cur (ks w)])) (QMutex k))" for k t
      using that p(3) [of t k] idle by (auto split: if_splits)
  qed (use s'(2) p(2) p(6) o in \<open>auto simp: own split: if_splits\<close>)
qed

lemma resume_inv:
  assumes i: "mutex_inv w Q" and m: "pend w (cur (ks w)) = Some m"
    and awake: "Status (thr (ks w) (cur (ks w))) \<noteq> THREAD_STAT_MUTEXSLEEP"
  shows "mutex_inv (w\<lparr>ks := snd (Threads_int_Sleep_return (cur (ks w)) (ks w)),
      inside := (inside w)(m := insert (cur (ks w)) (inside w m)), pend := (pend w)(cur (ks w) := None)\<rparr>) Q"
    (is "mutex_inv ?w Q")
proof -
  note p = mutex_inv_parts [OF i]
  have nq: "cur (ks w) \<notin> set (Q (QMutex k))" for k
    using sched_status [OF p(1), of "cur (ks w)" "QMutex k"] awake by auto
  then have own: "Owner (mtx (ks w) m) = cur (ks w)" using p(4) [OF m] by blast
  have inv: "sched_inv (snd (Threads_int_Sleep_return (cur (ks w)) (ks w))) Q"
    using p(1) by (simp add: Threads_int_Sleep_return_def Let_def)
  have mt: "mtx (snd (Threads_int_Sleep_return (cur (ks w)) (ks w))) = mtx (ks w)"
    by (simp add: Threads_int_Sleep_return_def Let_def set_WaitPointer_def upd_thr_def)
  show ?thesis
  proof (rule mutex_invI)
    show "Owner (mtx (ks ?w) k) \<in> inside ?w k \<or> pend ?w (Owner (mtx (ks ?w) k)) = Some k"
      if "Owner (mtx (ks ?w) k) \<noteq> 0" for k
      using that p(5) [of k] own m by (auto simp: mt)
    show "pend ?w t = Some k" if "t \<in> set (Q (QMutex k))" for k t
      using that p(3) [of t k] nq by auto
  qed (use inv p(2) p(4) p(6) own sched_basic [OF p(1)] in \<open>auto simp: mt split: if_splits\<close>)
qed

lemma release_inv:
  assumes i: "mutex_inv w Q" and a: "can_act w" and "cur (ks w) \<in> inside w m" "Mutex_Release m (ks w) = Ret s'"
  shows "\<exists>Q'. mutex_inv (w\<lparr>ks := s', inside := (inside w)(m := inside w m - {cur (ks w)})\<rparr>) Q'"
proof -
  let ?w = "w\<lparr>ks := s', inside := (inside w)(m := inside w m - {cur (ks w)})\<rparr>"
  note p = mutex_inv_parts [OF i]
  have own: "Owner (mtx (ks w) m) = cur (ks w)" using p(2) assms(3) by blast
  have sole: "inside w m - {cur (ks w)} = {}" using p(2) own by blast
  have idle: "pend w (cur (ks w)) = None" using a by (simp add: can_act_def)
  show ?thesis
  proof (cases "Q (QMutex m)")
    case Nil
    then have s': "s' = set_Owner m 0 (ks w)" using Mutex_Release_empty [OF p(1) Nil] assms(4) by simp
    have none: "pend w t \<noteq> Some m" for t using p(4) [of t m] own Nil idle by auto
    have "mutex_inv ?w Q"
    proof (rule mutex_invI)
      show "t \<noteq> 0 \<and> (t \<in> set (Q (QMutex k)) \<or> Owner (mtx (ks ?w) k) = t)" if "pend ?w t = Some k" for k t
        using that p(4) [of t k] none by (auto simp: s')
    qed (use p(1-3) p(5,6) Nil sole in \<open>auto simp: s' split: if_splits\<close>)
    then show ?thesis by blast
  next
    case (Cons x xs)
    from Mutex_Release_handover [OF p(1) Cons] assms(4) have s': "same_but_queues (activated x (set_Owner m x (ks w))) s'"
      "sched_inv s' (woken x (ks w) (Q(QMutex m := xs)))" by auto
    have o': "Owner (mtx s' k) = (if k = m then x else Owner (mtx (ks w) k))" for k
      using same_but_queues_glob(4) [OF s'(1)] by simp
    have x: "x \<noteq> 0" "pend w x = Some m" using p(3) [of x m] p(4) [of x m] Cons by auto
    have "mutex_inv ?w (woken x (ks w) (Q(QMutex m := xs)))"
    proof (rule mutex_invI)
      show "t \<noteq> 0 \<and> (t \<in> set (woken x (ks w) (Q(QMutex m := xs)) (QMutex k)) \<or> Owner (mtx (ks ?w) k) = t)"
        if "pend ?w t = Some k" for k t
        using that p(4) [of t k] Cons own idle by (auto simp: o')
      show "pend ?w t = Some k" if "t \<in> set (woken x (ks w) (Q(QMutex m := xs)) (QMutex k))" for k t
        using that p(3) [of t k] Cons by (auto split: if_splits)
      show "Owner (mtx (ks ?w) k) \<in> inside ?w k \<or> pend ?w (Owner (mtx (ks ?w) k)) = Some k"
        if "Owner (mtx (ks ?w) k) \<noteq> 0" for k
        using that p(5) [of k] x(2) by (auto simp: o')
    qed (use s'(2) p(2) p(6) sole x(1) in \<open>auto simp: o' split: if_splits\<close>)
    then show ?thesis by blast
  qed
qed

lemma reschedule_inv:
  assumes i: "mutex_inv w Q" and "Proc_Reschedule CPU (ks w) = Ret s'"
  shows "\<exists>Q'. mutex_inv (w\<lparr>ks := s'\<rparr>) Q'"
proof -
  note p = mutex_inv_parts [OF i]
  from Reschedule_inv [OF p(1), of CPU] obtain r Q' where r: "Proc_Reschedule CPU (ks w) = Ret r" "sched_inv r Q'"
    "same_but_queues ((ks w)\<lparr>cur := cur r\<rparr>) r" "\<forall>q. status_of q \<noteq> THREAD_STAT_ACTIVE \<longrightarrow> Q' q = Q q" by blast
  with assms(2) have Q': "sched_inv s' Q'" "same_but_queues ((ks w)\<lparr>cur := cur s'\<rparr>) s'"
    "\<And>m. Q' (QMutex m) = Q (QMutex m)" by auto
  have "Owner (mtx s' k) = Owner (mtx (ks w) k)" for k using same_but_queues_glob(4) [OF Q'(2)] by simp
  then have "mutex_inv (w\<lparr>ks := s'\<rparr>) Q'"
    using i Q'(1) unfolding mutex_inv_def by (simp add: Q'(3))
  then show ?thesis by blast
qed

lemma mutex_step_inv:
  assumes "mutex_step w w'" "mutex_inv w Q"
  shows "\<exists>Q'. mutex_inv w' Q'"
  using assms(1)
proof (cases rule: mutex_step.cases)
  case (acquire m s')
  then show ?thesis using acquire_inv [OF assms(2)] by blast
next
  case (block m s')
  then show ?thesis using block_inv [OF assms(2)] by blast
next
  case (resume m)
  then show ?thesis using resume_inv [OF assms(2)] by blast
next
  case (release m s')
  then show ?thesis using release_inv [OF assms(2)] by blast
next
  case (reschedule CPU s')
  then show ?thesis using reschedule_inv [OF assms(2)] by blast
qed

lemma mutex_steps_inv:
  assumes "mutex_step\<^sup>*\<^sup>* w w'" "mutex_inv w Q"
  shows "\<exists>Q'. mutex_inv w' Q'"
  using assms by (induction rule: rtranclp_induct) (auto dest: mutex_step_inv)

end
