(* ===== verification/Semaphore.thy ===== *)
theory Semaphore
  imports Scheduler
begin

text \<open>
  Counting semaphores, \<open>semaphore.c\<close>. A call that may block is modelled in two parts: the call up to
  \<open>Threads_int_Sleep\<close>, which returns \<open>None\<close> as its value when the caller went to sleep, and the
  \<open>_resume\<close> part that runs when the caller is scheduled again. The values of a semaphore are C
  integers; each sum and difference wraps around at 32 bits (\<open>s32\<close>).
\<close>

section \<open>Model\<close>

definition Semaphore_Init :: "ptr \<Rightarrow> int \<Rightarrow> int \<Rightarrow> kstate \<Rightarrow> kstate" where
  "Semaphore_Init Sem V M s =
     s\<lparr>sem := (sem s)(Sem := \<lparr>Value = V, MaxValue = M, SWaiting = 0, SLastWaiting = 0,
                              Signaling = 0, LastSignaling = 0\<rparr>)\<rparr>"

definition set_Value :: "ptr \<Rightarrow> int \<Rightarrow> kstate \<Rightarrow> kstate" where
  "set_Value Sem v s = s\<lparr>sem := (sem s)(Sem := (sem s Sem)\<lparr>Value := v\<rparr>)\<rparr>"

definition wake_if_asleep :: "ptr \<Rightarrow> kstate \<Rightarrow> kstate outcome" where
  "wake_if_asleep t s = (if Status (thr s t) \<noteq> THREAD_STAT_ACTIVE then Threads_AddActive t s else Ret s)"

text \<open>The loop at the end of \<open>Semaphore_Wait\<close>, which lets blocked signallers go on.\<close>

partial_function (option) wait_loop :: "ptr \<Rightarrow> kstate \<Rightarrow> kstate outcome option" where
  "wait_loop Sem s =
     (if (MaxValue (sem s Sem) = 0 \<or> Value (sem s Sem) < MaxValue (sem s Sem)) \<and> Signaling (sem s Sem) \<noteq> 0 then
        (let toWake = Signaling (sem s Sem);
             s = set_head (QSemSignal Sem) (Next (thr s toWake)) s;
             s = (if Signaling (sem s Sem) = 0 then set_tail (QSemSignal Sem) 0 s else s);
             given = (if RetStatus (thr s toWake) \<noteq> 0 \<and>
                         s32 (Value (sem s Sem) + RetStatus (thr s toWake)) < MaxValue (sem s Sem)
                      then RetStatus (thr s toWake) else s32 (MaxValue (sem s Sem) - Value (sem s Sem)));
             s = set_Value Sem (s32 (Value (sem s Sem) - given)) s;
             s = set_RetStatus toWake given s
         in case wake_if_asleep toWake s of Panicked \<Rightarrow> Some Panicked | Ret s \<Rightarrow> wait_loop Sem s)
      else Some (Ret s))"

definition Semaphore_Wait :: "ptr \<Rightarrow> int \<Rightarrow> kstate \<Rightarrow> (int option \<times> kstate) outcome option" where
  "Semaphore_Wait Sem MaxToTake s =
     (let MaxToTake = (if MaxToTake < 0 then 0 else MaxToTake) in
      if Value (sem s Sem) > 0 then
        (let taken = (if MaxToTake \<noteq> 0 \<and> Value (sem s Sem) > MaxToTake then MaxToTake else Value (sem s Sem));
             s = set_Value Sem (s32 (Value (sem s Sem) - taken)) s
         in obind (wait_loop Sem s) (\<lambda>s. Some (Ret (Some taken, s))))
      else Some (Ret (None, Threads_int_Sleep THREAD_STAT_SEMAPHORESLEEP (WSem Sem) MaxToTake
                              (OnQueue (QSemWait Sem)) s)))"

definition Semaphore_Wait_resume :: "ptr \<Rightarrow> kstate \<Rightarrow> (int \<times> kstate) outcome option" where
  "Semaphore_Wait_resume Sem s =
     (let (taken, s) = Threads_int_Sleep_return (cur s) s
      in obind (wait_loop Sem s) (\<lambda>s. Some (Ret (taken, s))))"

text \<open>The loop at the end of \<open>Semaphore_Signal\<close>, which hands items to waiting threads.\<close>

partial_function (option) signal_loop :: "ptr \<Rightarrow> kstate \<Rightarrow> kstate outcome option" where
  "signal_loop Sem s =
     (if Value (sem s Sem) \<noteq> 0 \<and> SWaiting (sem s Sem) \<noteq> 0 then
        (let toWake = SWaiting (sem s Sem);
             s = set_head (QSemWait Sem) (Next (thr s toWake)) s;
             s = (if SWaiting (sem s Sem) = 0 then set_tail (QSemWait Sem) 0 s else s);
             given = (if RetStatus (thr s toWake) \<noteq> 0 \<and> Value (sem s Sem) > RetStatus (thr s toWake)
                      then RetStatus (thr s toWake) else Value (sem s Sem));
             s = set_Value Sem (s32 (Value (sem s Sem) - given)) s;
             s = set_RetStatus toWake given s
         in case wake_if_asleep toWake s of Panicked \<Rightarrow> Some Panicked | Ret s \<Rightarrow> signal_loop Sem s)
      else Some (Ret s))"

definition Semaphore_Signal :: "ptr \<Rightarrow> int \<Rightarrow> kstate \<Rightarrow> (int option \<times> kstate) outcome option" where
  "Semaphore_Signal Sem AmmountToAdd s =
     (if MaxValue (sem s Sem) \<noteq> 0 \<and> Value (sem s Sem) = MaxValue (sem s Sem) then
        Some (Ret (None, Threads_int_Sleep THREAD_STAT_SEMAPHORESLEEP (WSem Sem) AmmountToAdd
                           (OnQueue (QSemSignal Sem)) s))
      else
        (let added = (if MaxValue (sem s Sem) \<noteq> 0 \<and> s32 (Value (sem s Sem) + AmmountToAdd) > MaxValue (sem s Sem)
                      then s32 (MaxValue (sem s Sem) - Value (sem s Sem)) else AmmountToAdd);
             s = set_Value Sem (s32 (Value (sem s Sem) + added)) s
         in obind (signal_loop Sem s) (\<lambda>s. Some (Ret (Some added, s)))))"

definition Semaphore_Signal_resume :: "ptr \<Rightarrow> kstate \<Rightarrow> (int \<times> kstate) outcome option" where
  "Semaphore_Signal_resume Sem s =
     (let (added, s) = Threads_int_Sleep_return (cur s) s
      in obind (signal_loop Sem s) (\<lambda>s. Some (Ret (added, s))))"

text \<open>
  \<open>Semaphore_ForceWake\<close>, called with the lock of the thread held. The loop looks for the thread in
  front of \<open>Thread\<close>; it returns 0 when there is none. A thread in semaphore sleep always waits on a
  semaphore; the last case stands for the undefined behaviour of treating anything else as one.
\<close>

definition Semaphore_ForceWake :: "ptr \<Rightarrow> kstate \<Rightarrow> kstate outcome option" where
  "Semaphore_ForceWake Thread s =
     (if Status (thr s Thread) \<noteq> THREAD_STAT_SEMAPHORESLEEP then Some (Ret s)
      else case WaitPointer (thr s Thread) of
        WSem Sem \<Rightarrow>
          (let found = (if SWaiting (sem s Sem) = Thread
                        then Some (0, set_head (QSemWait Sem) (Next (thr s (SWaiting (sem s Sem)))) s)
                        else (case find_before (\<lambda>t. Next (thr s t)) Thread (SWaiting (sem s Sem)) of
                                None \<Rightarrow> None
                              | Some prev \<Rightarrow>
                                  Some (prev, if prev \<noteq> 0 then set_Next prev (Next (thr s Thread)) s else s)))
           in case found of
                None \<Rightarrow> None
              | Some (prev, s) \<Rightarrow>
                  (let s = (if SLastWaiting (sem s Sem) = Thread then set_tail (QSemWait Sem) prev s else s);
                       s = set_RetStatus Thread 0 s
                   in Some (Threads_AddActive Thread s)))
      | _ \<Rightarrow> Some Panicked)"

definition Semaphore_GetValue :: "ptr \<Rightarrow> kstate \<Rightarrow> int" where
  "Semaphore_GetValue Sem s = Value (sem s Sem)"

section \<open>Frames\<close>

lemma set_Value_simps [simp]:
  "thr (set_Value a v s) = thr s" "cur (set_Value a v s) = cur s"
  "giNumActiveThreads (set_Value a v s) = giNumActiveThreads s"
  "Value (sem (set_Value a v s) b) = (if b = a then v else Value (sem s b))"
  "MaxValue (sem (set_Value a v s) b) = MaxValue (sem s b)"
  "q_head (set_Value a v s) q = q_head s q" "q_tail (set_Value a v s) q = q_tail s q"
  by (simp_all add: set_Value_def) (cases q; simp)+

lemma set_Value_inv [simp]: "sched_inv (set_Value a v s) Q = sched_inv s Q"
proof -
  have "queues (set_Value a v s) Q = queues s Q" by (rule queues_cong) simp_all
  then show ?thesis by (simp add: sched_inv_def)
qed

lemma set_RetStatus_inv [simp]: "sched_inv (set_RetStatus t r s) Q = sched_inv s Q"
  by (simp add: set_RetStatus_def sched_inv_upd_thr)

text \<open>The two bookkeeping updates of a hand-over, made before the sleeper is woken.\<close>

definition handed :: "ptr \<Rightarrow> int \<Rightarrow> ptr \<Rightarrow> int \<Rightarrow> kstate \<Rightarrow> kstate" where
  "handed a v x g s = set_RetStatus x g (set_Value a v s)"

lemma handed_simps [simp]:
  "thr (handed a v x g s) = (thr s)(x := (thr s x)\<lparr>RetStatus := g\<rparr>)" "cur (handed a v x g s) = cur s"
  "Value (sem (handed a v x g s) b) = (if b = a then v else Value (sem s b))"
  "MaxValue (sem (handed a v x g s) b) = MaxValue (sem s b)"
  "sched_inv (handed a v x g s) Q = sched_inv s Q"
  by (simp_all add: handed_def) (simp_all add: set_RetStatus_def upd_thr_def)

lemma same_but_queues_handed:
  assumes "same_but_queues s s'"
  shows "same_but_queues (handed a v x g s) (handed a v x g s')"
proof -
  have "same_but_queues (set_Value a v s) (set_Value a v s')"
    using assms by (simp add: same_but_queues_def set_Value_def)
  then show ?thesis
    using same_but_queues_core [OF assms, of x] unfolding handed_def set_RetStatus_def
    by (intro same_but_queues_upd2) (simp_all add: thread_core_upd)
qed

text \<open>
  One round of either loop: the first thread of the queue is taken off, told what it got, and made
  ready to run.
\<close>

lemma pop_hand_wake:
  assumes inv: "sched_inv s Q" and x: "Q q = x # xs" and na: "status_of q \<noteq> THREAD_STAT_ACTIVE"
    and s1: "s1 = (if Next (thr s x) = 0 then set_tail q 0 (set_head q (Next (thr s x)) s)
      else set_head q (Next (thr s x)) s)"
  shows "\<exists>s'. wake_if_asleep x (handed a v x g s1) = Ret s' \<and>
    same_but_queues (activated x (handed a v x g s)) s' \<and> sched_inv s' (woken x s (Q(q := xs)))"
proof -
  note pop = sched_pop [OF inv x na s1]
  let ?s = "handed a v x g s1"
  have st: "Status (thr ?s x) \<noteq> THREAD_STAT_ACTIVE" using na pop(5,8) by simp
  from AddActive_spec [OF _ pop(2) st pop(7)] pop(6) obtain s' where s': "Threads_AddActive x ?s = Ret s'"
    "same_but_queues (activated x ?s) s'" "sched_inv s' (woken x ?s (Q(q := xs)))" by auto
  have "same_but_queues (activated x (handed a v x g s)) s'"
    by (rule same_but_queues_trans [OF same_but_queues_activated [OF same_but_queues_handed [OF pop(4)]] s'(2)])
  moreover have "woken x ?s (Q(q := xs)) = woken x s (Q(q := xs))"
    using pop(5) same_but_queues_glob(1) [OF pop(4)] by (simp add: woken_def)
  ultimately show ?thesis using s'(1,3) st by (simp add: wake_if_asleep_def)
qed

section \<open>Handing out items\<close>

text \<open>What a signal hands out, on the list of requests alone; 0 asks for everything there is.\<close>

fun grants :: "int \<Rightarrow> int list \<Rightarrow> int list" where
  "grants v [] = []"
| "grants v (r # rs) =
     (if v = 0 then [] else (let g = (if r \<noteq> 0 \<and> v > r then r else v) in g # grants (v - g) rs))"

lemma grants_bounds:
  "0 \<le> v \<Longrightarrow> \<forall>r \<in> set rs. 0 \<le> r \<Longrightarrow> sum_list (grants v rs) \<le> v \<and> length (grants v rs) \<le> length rs \<and>
     (length (grants v rs) = length rs \<or> sum_list (grants v rs) = v) \<and>
     (\<forall>i < length (grants v rs). 0 < grants v rs ! i \<and> (rs ! i \<noteq> 0 \<longrightarrow> grants v rs ! i \<le> rs ! i))"
proof (induction rs arbitrary: v)
  case (Cons r rs)
  define g where "g = (if r \<noteq> 0 \<and> v > r then r else v)"
  have g: "0 \<le> v - g" "r \<noteq> 0 \<Longrightarrow> g \<le> r" "v \<noteq> 0 \<Longrightarrow> 0 < g" using Cons.prems by (auto simp: g_def)
  note IH = Cons.IH [OF g(1)]
  show ?case
  proof (cases "v = 0")
    case False
    then have eq: "grants v (r # rs) = g # grants (v - g) rs" by (simp add: g_def Let_def)
    show ?thesis unfolding eq using IH Cons.prems g False by (auto simp: nth_Cons split: nat.splits)
  qed simp
qed simp

lemma signal_round:
  assumes inv: "sched_inv s Q" and x: "Q (QSemWait a) = x # xs" and v: "Value (sem s a) \<noteq> 0"
    and rg: "0 \<le> Value (sem s a)" "Value (sem s a) < 0x80000000" "0 \<le> RetStatus (thr s x)"
  defines "g \<equiv> (if RetStatus (thr s x) \<noteq> 0 \<and> Value (sem s a) > RetStatus (thr s x)
    then RetStatus (thr s x) else Value (sem s a))"
  shows "\<exists>s'. signal_loop a s = signal_loop a s' \<and>
    same_but_queues (activated x (handed a (Value (sem s a) - g) x g s)) s' \<and>
    sched_inv s' (woken x s (Q(QSemWait a := xs)))"
proof -
  define s1 where "s1 = (if Next (thr s x) = 0 then set_tail (QSemWait a) 0 (set_head (QSemWait a) (Next (thr s x)) s)
      else set_head (QSemWait a) (Next (thr s x)) s)"
  have na: "status_of (QSemWait a) \<noteq> THREAD_STAT_ACTIVE" by simp
  note pop = sched_pop [OF inv x na s1_def]
  from pop_hand_wake [OF inv x na s1_def, of a "Value (sem s a) - g" g] obtain s' where
    s': "wake_if_asleep x (handed a (Value (sem s a) - g) x g s1) = Ret s'"
    "same_but_queues (activated x (handed a (Value (sem s a) - g) x g s)) s'"
    "sched_inv s' (woken x s (Q(QSemWait a := xs)))" by blast
  have "Value (sem s1 a) = Value (sem s a)" using same_but_queues_glob(5) [OF pop(4)] .
  moreover have "s32 (Value (sem s a) - g) = Value (sem s a) - g" using rg by (intro s32_id) (auto simp: g_def)
  ultimately have "signal_loop a s = signal_loop a s'"
    using pop(1,2,5) v s'(1)
    by (subst signal_loop.simps) (auto simp: Let_def s1_def handed_def g_def)
  with s'(2,3) show ?thesis by blast
qed

text \<open>
  \<open>signalled a ts gs s Q s' Q'\<close>: between \<open>s\<close> and \<open>s'\<close> the threads \<open>ts\<close> at the front of the waiters of
  \<open>a\<close> were woken in order, each was told the matching amount of \<open>gs\<close>, the amounts were taken off the
  value, and nothing else changed.
\<close>

definition signalled ::
  "ptr \<Rightarrow> ptr list \<Rightarrow> int list \<Rightarrow> kstate \<Rightarrow> (qid \<Rightarrow> ptr list) \<Rightarrow> kstate \<Rightarrow> (qid \<Rightarrow> ptr list) \<Rightarrow> bool" where
  "signalled a ts gs s Q s' Q' \<longleftrightarrow>
     Q (QSemWait a) = ts @ Q' (QSemWait a) \<and>
     (\<forall>q. status_of q \<noteq> THREAD_STAT_ACTIVE \<and> q \<noteq> QSemWait a \<longrightarrow> Q' q = Q q) \<and>
     (\<forall>p. Q' (QActive p) = Q (QActive p) @ filter (\<lambda>t. Priority (thr s t) = p \<and> t \<noteq> cur s) ts) \<and>
     cur s' = cur s \<and> length gs = length ts \<and>
     (\<forall>b. Value (sem s' b) = Value (sem s b) - (if b = a then sum_list gs else 0)) \<and>
     (\<forall>b. MaxValue (sem s' b) = MaxValue (sem s b)) \<and>
     (\<forall>(t, g) \<in> set (zip ts gs). Status (thr s' t) = THREAD_STAT_ACTIVE \<and> RetStatus (thr s' t) = g) \<and>
     (\<forall>t. t \<notin> set ts \<longrightarrow> thread_core (thr s' t) = thread_core (thr s t))"

lemma signalled_refl [simp]: "signalled a [] [] s Q s Q"
  by (simp add: signalled_def)

lemma thread_core_fields:
  assumes "thread_core x = thread_core y"
  shows "Status x = Status y" "RetStatus x = RetStatus y" "Priority x = Priority y"
  using assms by (auto simp: thread_core_def dest: arg_cong [where f = Status] arg_cong [where f = RetStatus]
    arg_cong [where f = Priority])

lemma signalled_Cons:
  assumes inv: "sched_inv s Q" and x: "Q (QSemWait a) = x # xs"
    and s1: "same_but_queues (activated x (handed a (Value (sem s a) - g) x g s)) s1"
    and r: "signalled a ts gs s1 (woken x s (Q(QSemWait a := xs))) s' Q'"
  shows "signalled a (x # ts) (g # gs) s Q s' Q'"
proof -
  note th = same_but_queues_thr [OF s1] and gl = same_but_queues_glob [OF s1]
  have xs: "xs = ts @ Q' (QSemWait a)" using r by (simp add: signalled_def woken_def split: if_splits)
  have "distinct (x # xs)" using queues_distinct [OF sched_queues [OF inv], of "QSemWait a"] x by simp
  then have nx: "x \<notin> set ts" using xs by auto
  have pr: "Priority (thr s1 t) = Priority (thr s t)" for t using th(2) by simp
  have act: "woken x s (Q(QSemWait a := xs)) (QActive p) =
      Q (QActive p) @ (if Priority (thr s x) = p \<and> x \<noteq> cur s then [x] else [])" for p
    by (auto simp: woken_def)
  have fx: "thread_core (thr s' x) = thread_core (thr s1 x)" using r nx by (simp add: signalled_def)
  have gx: "Status (thr s' x) = THREAD_STAT_ACTIVE" "RetStatus (thr s' x) = g"
    using thread_core_fields [OF fx] th(1,3) [of x] by simp_all
  have other: "thread_core (thr s' t) = thread_core (thr s t)" if "t \<notin> set (x # ts)" for t
    using that r same_but_queues_core [OF s1, of t] by (simp add: signalled_def)
  have val: "Value (sem s' b) = Value (sem s b) - (if b = a then sum_list (g # gs) else 0)" for b
    using r gl(5) [of b] by (simp add: signalled_def)
  show ?thesis
    unfolding signalled_def
  proof (intro conjI allI impI)
    show "Q' (QActive p) = Q (QActive p) @ filter (\<lambda>t. Priority (thr s t) = p \<and> t \<noteq> cur s) (x # ts)" for p
      using r act [of p] pr gl(1) by (simp add: signalled_def)
    show "\<forall>(t, h) \<in> set (zip (x # ts) (g # gs)). Status (thr s' t) = THREAD_STAT_ACTIVE \<and> RetStatus (thr s' t) = h"
      using r gx by (simp add: signalled_def)
    show "Q' q = Q q" if "status_of q \<noteq> THREAD_STAT_ACTIVE \<and> q \<noteq> QSemWait a" for q
      using r that by (auto simp: signalled_def woken_def)
    show "MaxValue (sem s' b) = MaxValue (sem s b)" for b using r gl(6) [of b] by (simp add: signalled_def)
  qed (use r x xs gl(1) val other in \<open>auto simp: signalled_def\<close>)
qed

lemma signal_loop_spec:
  assumes "sched_inv s Q" "Q (QSemWait a) = ws" "0 \<le> Value (sem s a)" "Value (sem s a) < 0x80000000"
    "\<forall>t \<in> set ws. 0 \<le> RetStatus (thr s t)"
  shows "\<exists>s' Q' ts. signal_loop a s = Some (Ret s') \<and> sched_inv s' Q' \<and>
    signalled a ts (grants (Value (sem s a)) (map (\<lambda>t. RetStatus (thr s t)) ws)) s Q s' Q'"
  using assms
proof (induction ws arbitrary: s Q)
  case Nil
  then have "signal_loop a s = Some (Ret s)"
    using queues_head [OF sched_queues [OF Nil(1)], of "QSemWait a"] by (subst signal_loop.simps) simp
  with Nil(1) show ?case by (intro exI [of _ s] exI [of _ Q] exI [of _ "[]"]) simp
next
  case (Cons x xs)
  show ?case
  proof (cases "Value (sem s a) = 0")
    case True
    then have "signal_loop a s = Some (Ret s)" by (subst signal_loop.simps) simp
    with Cons(2) True show ?thesis by (intro exI [of _ s] exI [of _ Q] exI [of _ "[]"]) simp
  next
    case False
    define g where "g = (if RetStatus (thr s x) \<noteq> 0 \<and> Value (sem s a) > RetStatus (thr s x)
      then RetStatus (thr s x) else Value (sem s a))"
    have g: "0 \<le> Value (sem s a) - g" "Value (sem s a) - g < 0x80000000" using Cons(4-6) by (auto simp: g_def)
    from signal_round [OF Cons(2,3) False Cons(4,5), folded g_def] Cons(6) obtain s1 where
      s1: "signal_loop a s = signal_loop a s1"
      "same_but_queues (activated x (handed a (Value (sem s a) - g) x g s)) s1"
      "sched_inv s1 (woken x s (Q(QSemWait a := xs)))" by auto
    note th = same_but_queues_thr [OF s1(2)]
    have "x \<notin> set xs" using queues_distinct [OF sched_queues [OF Cons(2)], of "QSemWait a"] Cons(3) by simp
    then have rs: "map (\<lambda>t. RetStatus (thr s1 t)) xs = map (\<lambda>t. RetStatus (thr s t)) xs"
      using th(3) by auto
    have req: "\<forall>t \<in> set xs. 0 \<le> RetStatus (thr s1 t)" using rs Cons(6) by (metis list.set_intros(2) map_eq_conv)
    have v: "Value (sem s1 a) = Value (sem s a) - g" using same_but_queues_glob(5) [OF s1(2), of a] by simp
    have "woken x s (Q(QSemWait a := xs)) (QSemWait a) = xs" by (simp add: woken_def)
    from Cons.IH [OF s1(3) this g [folded v] req] obtain s' Q' ts where r: "signal_loop a s1 = Some (Ret s')" "sched_inv s' Q'"
      "signalled a ts (grants (Value (sem s a) - g) (map (\<lambda>t. RetStatus (thr s t)) xs)) s1
        (woken x s (Q(QSemWait a := xs))) s' Q'" unfolding rs v by blast
    have "grants (Value (sem s a)) (map (\<lambda>t. RetStatus (thr s t)) (x # xs)) =
        g # grants (Value (sem s a) - g) (map (\<lambda>t. RetStatus (thr s t)) xs)"
      using False by (simp add: g_def Let_def)
    with signalled_Cons [OF Cons(2,3) s1(2) r(3)] s1(1) r(1,2) show ?thesis by metis
  qed
qed

lemma Signal_one:
  assumes inv: "sched_inv s Q" and w: "Q (QSemWait a) = [c]" "RetStatus (thr s c) = k" "0 < k"
    and v: "Value (sem s a) = 0" "MaxValue (sem s a) = 0" "0 < n" "n < 0x80000000"
  shows "\<exists>s'. Semaphore_Signal a n s = Some (Ret (Some n, s')) \<and> Status (thr s' c) = THREAD_STAT_ACTIVE \<and>
    RetStatus (thr s' c) = min n k \<and> Value (sem s' a) = n - min n k \<and> cur s' = cur s \<and>
    (\<exists>Q'. sched_inv s' Q' \<and> Q' (QSemSignal a) = Q (QSemSignal a))"
proof -
  have inv': "sched_inv (set_Value a n s) Q" using inv by simp
  have gr: "grants n [k] = [min n k]" using w(3) v(3) by (auto simp: min_def Let_def)
  from signal_loop_spec [OF inv' w(1)] obtain s' Q' ts where l: "signal_loop a (set_Value a n s) = Some (Ret s')"
    "sched_inv s' Q'" "signalled a ts [min n k] (set_Value a n s) Q s' Q'" using w(2,3) v(3,4) gr by auto
  have "ts = [c]" using l(3) w(1) by (cases ts) (auto simp: signalled_def)
  with l v show ?thesis by (auto simp: Semaphore_Signal_def Let_def signalled_def s32_id)
qed

lemma Wait_resume_returns:
  assumes "sched_inv s Q" "Q (QSemSignal a) = []"
  shows "\<exists>s'. Semaphore_Wait_resume a s = Some (Ret (RetStatus (thr s (cur s)), s'))"
proof -
  let ?s = "set_WaitPointer (cur s) WNone s"
  have "Signaling (sem ?s a) = 0"
    using queues_head [OF sched_queues [OF assms(1)], of "QSemSignal a"] assms(2) by (simp add: set_WaitPointer_def upd_thr_def)
  then have "wait_loop a ?s = Some (Ret ?s)" by (subst wait_loop.simps) simp
  moreover have "RetStatus (thr ?s (cur s)) = RetStatus (thr s (cur s))" by (simp add: set_WaitPointer_def upd_thr_def)
  ultimately show ?thesis by (simp add: Semaphore_Wait_resume_def Threads_int_Sleep_return_def Let_def)
qed

text \<open>
  A thread that finds the semaphore empty sleeps; this is what the state looks like from then on,
  whoever runs.
\<close>

lemma Wait_blocks:
  assumes inv: "sched_inv s Q" and act: "Status (thr s (cur s)) = THREAD_STAT_ACTIVE"
    and v: "Value (sem s a) = 0" "0 \<le> k"
  shows "\<exists>s'. Semaphore_Wait a k s = Some (Ret (None, s')) \<and> sched_inv s' (Q(QSemWait a := Q (QSemWait a) @ [cur s])) \<and>
    same_but_queues (sleeping THREAD_STAT_SEMAPHORESLEEP (WSem a) k s) s'"
  using Threads_int_Sleep_spec [OF inv act, of "QSemWait a" "WSem a" k] v by (simp add: Semaphore_Wait_def Let_def)

text \<open>
  A signaller sleeps because the semaphore is full. When somebody takes \<open>k\<close> items it is let go, but
  what it brings is subtracted.
\<close>

lemma Wait_with_signaller:
  assumes inv: "sched_inv s Q" and x: "Q (QSemSignal a) = [x]" and full: "Value (sem s a) = MaxValue (sem s a)" "0 < MaxValue (sem s a)"
    and k: "0 < k" "k \<le> MaxValue (sem s a)" and r: "RetStatus (thr s x) = r" "k \<le> r"
    and rg: "MaxValue (sem s a) - k + r < 0x80000000"
  shows "\<exists>s'. Semaphore_Wait a k s = Some (Ret (Some k, s')) \<and> Value (sem s' a) = MaxValue (sem s a) - 2 * k \<and>
    RetStatus (thr s' x) = k \<and> Status (thr s' x) = THREAD_STAT_ACTIVE"
proof -
  let ?M = "MaxValue (sem s a)"
  define s0 where "s0 = set_Value a (?M - k) s"
  have inv0: "sched_inv s0 Q" using inv by (simp add: s0_def)
  define s1 where "s1 = (if Next (thr s0 x) = 0 then set_tail (QSemSignal a) 0 (set_head (QSemSignal a) (Next (thr s0 x)) s0)
      else set_head (QSemSignal a) (Next (thr s0 x)) s0)"
  have na: "status_of (QSemSignal a) \<noteq> THREAD_STAT_ACTIVE" by simp
  note pop = sched_pop [OF inv0 x na s1_def]
  from pop_hand_wake [OF inv0 x na s1_def, of a "?M - 2 * k" k] obtain s' where
    s': "wake_if_asleep x (handed a (?M - 2 * k) x k s1) = Ret s'"
    "same_but_queues (activated x (handed a (?M - 2 * k) x k s0)) s'" "sched_inv s' (woken x s0 (Q(QSemSignal a := [])))" by blast
  have v1: "Value (sem s1 a) = ?M - k" "MaxValue (sem s1 a) = ?M" "RetStatus (thr s1 x) = r"
    using same_but_queues_glob(5,6) [OF pop(4), of a] pop(5) r(1) by (simp_all add: s0_def)
  have h: "Value (sem s0 a) = ?M - k" "MaxValue (sem s0 a) = ?M" "Signaling (sem s0 a) = x" "x \<noteq> 0"
    using pop(1,2) by (simp_all add: s0_def)
  have g: "s32 (?M - k + r) = ?M - k + r" "s32 (?M - (?M - k)) = k" "s32 (?M - k - k) = ?M - 2 * k"
    "s32 (?M - k) = ?M - k" "\<not> ?M - k + r < ?M"
    using r(2) k rg by (simp_all add: s32_id)
  have "Signaling (sem s' a) = 0"
    using queues_head [OF sched_queues [OF s'(3)], of "QSemSignal a"] by (simp add: woken_def split: if_splits)
  then have "wait_loop a s' = Some (Ret s')" by (subst wait_loop.simps) simp
  moreover have "wait_loop a s0 = wait_loop a s'"
    using h k s'(1) pop(5) v1 g
    by (subst wait_loop.simps) (auto simp: Let_def s1_def handed_def split: if_splits)
  moreover have "Semaphore_Wait a k s = obind (wait_loop a s0) (\<lambda>s. Some (Ret (Some k, s)))"
    using full k g(4) by (auto simp: Semaphore_Wait_def Let_def s0_def)
  ultimately have "Semaphore_Wait a k s = Some (Ret (Some k, s'))" by simp
  then show ?thesis
    using same_but_queues_glob(5) [OF s'(2), of a] same_but_queues_thr(1,3) [OF s'(2), of x] by simp
qed

section \<open>Waking a waiter by force\<close>

lemma ForceWake_unlinks:
  assumes q: "queues s Q" and eq: "Q (QSemWait a) = xs @ t # ys" and w: "WaitPointer (thr s t) = WSem a"
    and st: "Status (thr s t) = THREAD_STAT_SEMAPHORESLEEP"
    and del: "Threads_int_DelFromQueue (QSemWait a) t s = Some (Ret (t, s'))"
  shows "Semaphore_ForceWake t s = Some (Threads_AddActive t (set_RetStatus t 0 s'))"
proof -
  note rep = queuesD [OF q, of "QSemWait a", unfolded eq]
  have seg: "lseg (\<lambda>t. Next (thr s t)) (q_head s (QSemWait a)) (xs @ t # ys)" and d: "distinct (xs @ t # ys)"
    and l: "SLastWaiting (sem s a) = last (xs @ t # ys)" using rep by (auto simp: queue_rep_def)
  have nz: "0 \<notin> set (xs @ t # ys)" using queues_not_null [OF q, of 0 "QSemWait a"] unfolding eq by blast
  have nt: "Next (thr s t) = 0 \<longleftrightarrow> ys = []"
    using lseg_suffix [OF seg] nz by (cases ys) auto
  have tl: "SLastWaiting (sem s a) = t \<longleftrightarrow> ys = []" using l d by (cases ys rule: rev_cases) auto
  show ?thesis
  proof (cases xs)
    case Nil
    then have h: "SWaiting (sem s a) = t" using queues_head [OF q, of "QSemWait a"] eq by simp
    have "find_link (\<lambda>t. Next (thr s t)) t 0 (q_head s (QSemWait a)) = Some (0, t)"
      using find_link_present [of _ _ "[]", OF seg [unfolded Nil]] by simp
    then have "s' = (if ys = [] then set_tail (QSemWait a) 0 (set_head (QSemWait a) (Next (thr s t)) s)
        else set_head (QSemWait a) (Next (thr s t)) s)"
      using del nz nt by (auto simp: Threads_int_DelFromQueue_def Let_def split: if_splits)
    then show ?thesis using st w h tl by (simp add: Semaphore_ForceWake_def Let_def)
  next
    case (Cons x xs')
    then have h: "SWaiting (sem s a) \<noteq> t" using queues_head [OF q, of "QSemWait a"] eq d by auto
    have pr: "last xs \<noteq> 0" "last xs \<noteq> t" using nz d last_in_set [of xs] Cons by auto
    have "find_link (\<lambda>t. Next (thr s t)) t 0 (q_head s (QSemWait a)) = Some (last xs, t)"
      using find_link_present [OF seg] d Cons by simp
    then have "s' = (if ys = [] then set_tail (QSemWait a) (last xs) (set_Next (last xs) (Next (thr s t)) s)
        else set_Next (last xs) (Next (thr s t)) s)"
      using del nz nt pr by (auto simp: Threads_int_DelFromQueue_def Let_def set_Next_def upd_thr_def split: if_splits)
    moreover have "find_before (\<lambda>t. Next (thr s t)) t (SWaiting (sem s a)) = Some (last xs)"
      using find_before_present [of _ _ x xs' t ys] seg d Cons by simp
    moreover have "SLastWaiting (sem (set_Next (last xs) (Next (thr s t)) s) a) = SLastWaiting (sem s a)"
      by (simp add: set_Next_def upd_thr_def)
    ultimately show ?thesis using st w h tl pr by (simp add: Semaphore_ForceWake_def Let_def)
  qed
qed

lemma ForceWake_waiting:
  assumes inv: "sched_inv s Q" and eq: "Q (QSemWait a) = xs @ t # ys" and w: "WaitPointer (thr s t) = WSem a"
  shows "\<exists>s'. Semaphore_ForceWake t s = Some (Ret s') \<and> same_but_queues (activated t (set_RetStatus t 0 s)) s' \<and>
    sched_inv s' (woken t s (Q(QSemWait a := xs @ ys)))"
proof -
  have st: "Status (thr s t) = THREAD_STAT_SEMAPHORESLEEP" using sched_status [OF inv, of t "QSemWait a"] eq by simp
  from sched_del [OF inv eq] obtain s1 where s1: "Threads_int_DelFromQueue (QSemWait a) t s = Some (Ret (t, s1))"
    "same_but_queues s s1" "sched_inv s1 (Q(QSemWait a := xs @ ys))" "free_of (Q(QSemWait a := xs @ ys)) t" "t \<noteq> 0"
    by auto
  let ?s = "set_RetStatus t 0 s1"
  have same: "same_but_queues (set_RetStatus t 0 s) ?s"
    using same_but_queues_core [OF s1(2), of t] s1(2) unfolding set_RetStatus_def
    by (intro same_but_queues_upd2) (simp_all add: thread_core_upd)
  have "Status (thr ?s t) \<noteq> THREAD_STAT_ACTIVE"
    using st same_but_queues_thr(1) [OF s1(2)] by (simp add: set_RetStatus_def upd_thr_def)
  from AddActive_spec [OF _ s1(5) this s1(4)] s1(3) obtain s' where s': "Threads_AddActive t ?s = Ret s'"
    "same_but_queues (activated t ?s) s'" "sched_inv s' (woken t ?s (Q(QSemWait a := xs @ ys)))" by auto
  have "woken t ?s R = woken t s R" for R
    using same_but_queues_glob(1) [OF s1(2)] same_but_queues_thr(2) [OF s1(2)]
    by (simp add: woken_def set_RetStatus_def upd_thr_def)
  with s' same_but_queues_trans [OF same_but_queues_activated [OF same] s'(2)]
    ForceWake_unlinks [OF sched_queues [OF inv] eq w st s1(1)] show ?thesis by auto
qed

end
