(* ===== verification/Events.thy ===== *)
theory Events
  imports Semaphore
begin

unbundle bit_operations_syntax

text \<open>
  Events, \<open>events.c\<close>: every thread has a word of pending event bits. \<open>Threads_WaitEvents\<close> sleeps until
  one of the bits it names is posted. The mask travels through the integer field \<open>RetStatus\<close>.
\<close>

section \<open>Model\<close>

definition THREAD_EVENT_VFS :: "32 word" where "THREAD_EVENT_VFS = 0x1"

definition THREAD_EVENT_IPCMSG :: "32 word" where "THREAD_EVENT_IPCMSG = 0x2"

definition THREAD_EVENT_SIGNAL :: "32 word" where "THREAD_EVENT_SIGNAL = 0x4"

definition THREAD_EVENT_TIMER :: "32 word" where "THREAD_EVENT_TIMER = 0x8"

definition THREAD_EVENT_DEADCHILD :: "32 word" where "THREAD_EVENT_DEADCHILD = 0x20"

definition set_EventState :: "ptr \<Rightarrow> 32 word \<Rightarrow> kstate \<Rightarrow> kstate" where
  "set_EventState t v = upd_thr t (\<lambda>x. x\<lparr>EventState := v\<rparr>)"

definition Threads_PostEvent :: "ptr \<Rightarrow> 32 word \<Rightarrow> kstate \<Rightarrow> kstate outcome option" where
  "Threads_PostEvent Thread EventMask s =
     (if Thread = 0 then Some (Ret s)
      else if EventMask = 0 then Some (Ret s)
      else
        (let s = set_EventState Thread (EventState (thr s Thread) OR EventMask) s
         in case Status (thr s Thread) of
              THREAD_STAT_EVENTSLEEP \<Rightarrow>
                (if (word_of_int (RetStatus (thr s Thread)) AND EventMask) \<noteq> 0
                 then Some (Threads_AddActive Thread s) else Some (Ret s))
            | THREAD_STAT_SEMAPHORESLEEP \<Rightarrow>
                (if (EventMask AND THREAD_EVENT_TIMER) \<noteq> 0 then Semaphore_ForceWake Thread s else Some (Ret s))
            | _ \<Rightarrow> Some (Ret s)))"

definition Threads_ClearEvent :: "32 word \<Rightarrow> kstate \<Rightarrow> kstate" where
  "Threads_ClearEvent EventMask s = set_EventState (cur s) (EventState (thr s (cur s)) AND NOT EventMask) s"

text \<open>The end of \<open>Threads_WaitEvents\<close>: read the bits asked for and clear them.\<close>

definition take_events :: "32 word \<Rightarrow> kstate \<Rightarrow> 32 word \<times> kstate" where
  "take_events EventMask s =
     (let us = cur s; rv = EventState (thr s us) AND EventMask
      in (rv, set_EventState us (EventState (thr s us) AND NOT EventMask) s))"

text \<open>
  \<open>None\<close> when the caller went to sleep. The list head handed to \<open>Threads_int_Sleep\<close> is the caller's
  own variable \<open>us\<close>, which holds the running thread.
\<close>

definition Threads_WaitEvents :: "32 word \<Rightarrow> kstate \<Rightarrow> 32 word option \<times> kstate" where
  "Threads_WaitEvents EventMask s =
     (if EventMask = 0 then (Some 0, s)
      else if (EventState (thr s (cur s)) AND EventMask) = 0 then
        (None, Threads_int_Sleep THREAD_STAT_EVENTSLEEP WNone (sint EventMask) (HeadOnly (cur s)) s)
      else (let (rv, s) = take_events EventMask s in (Some rv, s)))"

definition Threads_WaitEvents_resume :: "32 word \<Rightarrow> kstate \<Rightarrow> 32 word \<times> kstate" where
  "Threads_WaitEvents_resume EventMask s =
     (let (_, s) = Threads_int_Sleep_return (cur s) s in take_events EventMask s)"

section \<open>What the operations do\<close>

lemma set_EventState_simps [simp]:
  "cur (set_EventState t v s) = cur s" "sched_inv (set_EventState t v s) Q = sched_inv s Q"
  "Status (thr (set_EventState t v s) x) = Status (thr s x)"
  "RetStatus (thr (set_EventState t v s) x) = RetStatus (thr s x)"
  "Priority (thr (set_EventState t v s) x) = Priority (thr s x)"
  "EventState (thr (set_EventState t v s) x) = (if x = t then v else EventState (thr s x))"
  by (simp_all add: set_EventState_def sched_inv_upd_thr) (simp_all add: upd_thr_def)

lemma event_sleepers_free:
  "sched_inv s Q \<Longrightarrow> Status (thr s t) = THREAD_STAT_EVENTSLEEP \<Longrightarrow> free_of Q t"
  unfolding free_of_def
proof
  fix q
  assume "sched_inv s Q" "Status (thr s t) = THREAD_STAT_EVENTSLEEP"
  then show "t \<notin> set (Q q)" using sched_status [of s Q t q] by (cases q) auto
qed

lemma WaitEvents_blocks:
  assumes inv: "sched_inv s Q" and a: "Status (thr s (cur s)) = THREAD_STAT_ACTIVE"
    and m: "m \<noteq> 0" "EventState (thr s (cur s)) AND m = 0"
  shows "\<exists>s'. Threads_WaitEvents m s = (None, s') \<and> sched_inv s' Q \<and> cur s' = cur s \<and>
    Status (thr s' (cur s)) = THREAD_STAT_EVENTSLEEP \<and> RetStatus (thr s' (cur s)) = sint m \<and>
    EventState (thr s' (cur s)) = EventState (thr s (cur s))"
proof -
  define s' where "s' = Threads_int_Sleep THREAD_STAT_EVENTSLEEP WNone (sint m) (HeadOnly (cur s)) s"
  have same: "same_but_queues (sleeping THREAD_STAT_EVENTSLEEP WNone (sint m) s) s'"
    by (simp add: s'_def Threads_int_Sleep_eq same_but_queues_set)
  have "cur s \<notin> set (Q k)" for k using sched_cur_free [OF inv a] by (simp add: free_of_def)
  then have "queues s' Q = queues (sleeping THREAD_STAT_EVENTSLEEP WNone (sint m) s) Q"
    unfolding s'_def Threads_int_Sleep_eq by (intro queues_cong) (auto simp: set_Next_def thr_upd_thr)
  then have "queues s' Q" using sleeping_queues [OF inv a] by simp
  then have "sched_inv s' Q" by (intro Sleep_inv [OF inv a _ same]) auto
  then show ?thesis
    using same_but_queues_thr [OF same, of "cur s"] same_but_queues_glob(1) [OF same] m
    by (simp add: Threads_WaitEvents_def s'_def)
qed

lemma PostEvent_wakes:
  assumes inv: "sched_inv s Q" and t: "t \<noteq> 0" "Status (thr s t) = THREAD_STAT_EVENTSLEEP"
    and m: "RetStatus (thr s t) = sint m" "m AND e \<noteq> 0"
  shows "\<exists>s'. Threads_PostEvent t e s = Some (Ret s') \<and> sched_inv s' (woken t s Q) \<and>
    same_but_queues (activated t (set_EventState t (EventState (thr s t) OR e) s)) s' \<and>
    (\<forall>x. x \<noteq> t \<longrightarrow> free_of Q x \<longrightarrow> Next (thr s' x) = Next (thr s x))"
proof -
  let ?s = "set_EventState t (EventState (thr s t) OR e) s"
  have e: "e \<noteq> 0" using m(2) by auto
  have inv': "sched_inv ?s Q" using inv by simp
  from AddActive_spec [OF inv' t(1)] t event_sleepers_free [OF inv t(2)] obtain s' where
    s': "Threads_AddActive t ?s = Ret s'" "same_but_queues (activated t ?s) s'" "sched_inv s' (woken t ?s Q)" by auto
  have "woken t ?s Q = woken t s Q" by (simp add: woken_def)
  moreover have "Next (thr s' x) = Next (thr s x)" if "x \<noteq> t" "free_of Q x" for x
    using AddActive_Next_frame [OF sched_queues [OF inv'] that s'(1)] that(1) by (simp add: set_EventState_def upd_thr_def)
  ultimately show ?thesis using s' t e m by (simp add: Threads_PostEvent_def Let_def)
qed

lemma WaitEvents_resume:
  "EventState (thr s (cur s)) AND m = r \<Longrightarrow> fst (Threads_WaitEvents_resume m s) = r \<and>
   EventState (thr (snd (Threads_WaitEvents_resume m s)) (cur s)) = EventState (thr s (cur s)) AND NOT m"
  by (simp add: Threads_WaitEvents_resume_def Threads_int_Sleep_return_def take_events_def Let_def
    set_WaitPointer_def upd_thr_def)

end
