(* ===== verification/Thread_Life.thy ===== *)
theory Thread_Life
  imports Mutex Events
begin

text \<open>
  The life of a thread, \<open>threads.c\<close>: creation, look-up, waking, signals, death and reaping. Names, the
  register state, page tables and open handles of a thread are not part of the state here, so the
  calls that copy or release them do not show. A pointer returned by \<open>malloc\<close> or \<open>calloc\<close> is an
  argument, 0 when the allocation failed; writing through a null pointer is a kernel panic.
\<close>

section \<open>Creation\<close>

definition DEFAULT_QUANTUM :: int where "DEFAULT_QUANTUM = 5"

definition DEFAULT_PRIORITY :: nat where "DEFAULT_PRIORITY = 5"

definition CLONE_VM :: "32 word" where "CLONE_VM = 0x10"

definition CLONE_PGID :: "32 word" where "CLONE_PGID = 0x40"

definition upd_prc :: "ptr \<Rightarrow> (tProcess \<Rightarrow> tProcess) \<Rightarrow> kstate \<Rightarrow> kstate" where
  "upd_prc p f s = s\<lparr>prc := (prc s)(p := f (prc s p))\<rparr>"

definition Threads_Init :: "ptr \<Rightarrow> kstate \<Rightarrow> kstate" where
  "Threads_Init ProcessZero s =
     (let s = s\<lparr>gAllThreads := gThreadZero s\<rparr>;
          s = s\<lparr>giNumActiveThreads := 1\<rparr>
      in upd_thr (gThreadZero s) (\<lambda>t. t\<lparr>Process := ProcessZero\<rparr>) s)"

text \<open>Linking a new thread into the global list, as both ways of cloning do.\<close>

definition add_global :: "ptr \<Rightarrow> kstate \<Rightarrow> kstate" where
  "add_global new s =
     (let s = upd_thr new (\<lambda>t. t\<lparr>GlobalPrev := 0\<rparr>) s;
          s = upd_thr new (\<lambda>t. t\<lparr>GlobalNext := gAllThreads s\<rparr>) s;
          s = upd_thr (gAllThreads s) (\<lambda>t. t\<lparr>GlobalPrev := new\<rparr>) s
      in s\<lparr>gAllThreads := new\<rparr>)"

definition empty_process :: tProcess where
  "empty_process = \<lparr>PNext = 0, PPrev = 0, PGID = 0, PID = 0, nThreads = 0, FirstThread = 0, UID = 0, GID = 0,
     MaxFD = 0, SignalHandlers = (\<lambda>_. 0)\<rparr>"

text \<open>The part of \<open>Threads_CloneTCB\<close> that creates the process of the new thread or joins the old one.\<close>

definition clone_process :: "32 word \<Rightarrow> ptr \<Rightarrow> ptr \<Rightarrow> kstate \<Rightarrow> kstate outcome" where
  "clone_process Flags new newproc s =
     (let old = Process (thr s (cur s)) in
      if Flags AND CLONE_VM \<noteq> 0 then
        (if newproc = 0 then Panicked
         else
           (let s = upd_thr new (\<lambda>t. t\<lparr>Process := newproc, ProcessNext := 0\<rparr>) s;
                s = upd_prc newproc (\<lambda>_. empty_process
                      \<lparr>PID := TID (thr s new),
                       PGID := if Flags AND CLONE_PGID \<noteq> 0 then PGID (prc s old) else TID (thr s new),
                       UID := UID (prc s old), GID := GID (prc s old), MaxFD := MaxFD (prc s old), nThreads := 1,
                       PPrev := 0, PNext := gAllProcesses s, FirstThread := new\<rparr>) s
            in Ret (s\<lparr>gAllProcesses := newproc\<rparr>)))
      else
        (let s = upd_prc (Process (thr s new)) (\<lambda>p. p\<lparr>nThreads := nThreads p + 1\<rparr>) s;
             s = upd_thr new (\<lambda>t. t\<lparr>Process := old\<rparr>) s;
             s = upd_thr new (\<lambda>t. t\<lparr>ProcessNext := FirstThread (prc s (Process (thr s new)))\<rparr>) s
         in Ret (upd_prc (Process (thr s new)) (\<lambda>p. p\<lparr>FirstThread := new\<rparr>) s)))"

text \<open>The new thread starts as a copy of the running one, the lock inside the structure included.\<close>

definition Threads_CloneTCB :: "32 word \<Rightarrow> ptr \<Rightarrow> ptr \<Rightarrow> kstate \<Rightarrow> (ptr \<times> kstate) outcome" where
  "Threads_CloneTCB Flags new newproc s =
     (if new = 0 then Ret (0, upd_thr (cur s) (\<lambda>t. t\<lparr>errno := - errno_value ENOMEM\<rparr>) s)
      else
        (let s = s\<lparr>mtx := (mtx s)(DeadChildLock new := mtx s (DeadChildLock (cur s)))\<rparr>;
             s = upd_thr new (\<lambda>_. (thr s (cur s))\<lparr>CurCPU := - 1, Next := 0, Status := THREAD_STAT_PREINIT,
                   RetStatus := 0, TID := giNextTID s, Parent := cur s, bInstrTrace := False\<rparr>) s;
             s = s\<lparr>giNextTID := u32 (giNextTID s + 1)\<rparr>
         in bind_outcome (clone_process Flags new newproc s) (\<lambda>s.
              let us = thr s (cur s);
                  s = upd_thr new (\<lambda>t. t\<lparr>Messages := 0, LastMessage := 0, Remaining := Quantum us,
                        Quantum := Quantum us, Priority := Priority us, errno := 0,
                        CurFaultNum := 0, FaultHandler := FaultHandler us\<rparr>) s
              in Ret (new, add_global new s))))"

definition Threads_CloneThreadZero :: "ptr \<Rightarrow> kstate \<Rightarrow> ptr \<times> kstate" where
  "Threads_CloneThreadZero new s =
     (if new = 0 then (0, s)
      else
        (let s = s\<lparr>mtx := (mtx s)(DeadChildLock new := mtx s (DeadChildLock (gThreadZero s)))\<rparr>;
             s = upd_prc (Process (thr s (gThreadZero s))) (\<lambda>p. p\<lparr>nThreads := nThreads p + 1\<rparr>) s;
             s = upd_thr new (\<lambda>_. (thr s (gThreadZero s))\<lparr>CurCPU := - 1, Next := 0,
                   Status := THREAD_STAT_PREINIT, RetStatus := 0, TID := giNextTID s, Parent := 0,
                   Messages := 0, LastMessage := 0, Remaining := DEFAULT_QUANTUM, Quantum := DEFAULT_QUANTUM,
                   Priority := DEFAULT_PRIORITY, bInstrTrace := False, CurFaultNum := 0, FaultHandler := 0\<rparr>) s;
             s = s\<lparr>giNextTID := u32 (giNextTID s + 1)\<rparr>
         in (new, add_global new s)))"

section \<open>Look-up and waking\<close>

partial_function (option) find_tid :: "kstate \<Rightarrow> nat \<Rightarrow> ptr \<Rightarrow> ptr option" where
  "find_tid s tid thread =
     (if thread = 0 then Some 0
      else if TID (thr s thread) = tid then Some thread
      else find_tid s tid (GlobalNext (thr s thread)))"

definition Threads_GetThread :: "nat \<Rightarrow> kstate \<Rightarrow> ptr option" where
  "Threads_GetThread tid s = find_tid s tid (gAllThreads s)"

text \<open>Taking a thread off one of the queues of a semaphore, as \<open>Threads_Wake\<close> does it.\<close>

definition unlink_from :: "qid \<Rightarrow> ptr \<Rightarrow> ptr \<Rightarrow> kstate \<Rightarrow> kstate" where
  "unlink_from q prev Thread s =
     (let s = (if prev \<noteq> 0 then set_Next prev (Next (thr s Thread)) s else set_head q (Next (thr s Thread)) s)
      in if q_tail s q = Thread then set_tail q prev s else s)"

definition Threads_Wake :: "ptr \<Rightarrow> kstate \<Rightarrow> (int \<times> kstate) outcome option" where
  "Threads_Wake Thread s =
     (if Thread = 0 then Some (Ret (- errno_value EINVAL, s))
      else case Status (thr s Thread) of
        THREAD_STAT_ACTIVE \<Rightarrow> Some (Ret (- errno_value EALREADY, s))
      | THREAD_STAT_SLEEPING \<Rightarrow>
          obind (Threads_int_DelFromQueue QSleeping Thread s) (\<lambda>(_, s).
            obind (Some (Threads_AddActive Thread s)) (\<lambda>s. Some (Ret (- errno_value EOK, s))))
      | THREAD_STAT_SEMAPHORESLEEP \<Rightarrow>
          (case WaitPointer (thr s Thread) of
             WSem Sem \<Rightarrow>
               (case find_link (\<lambda>t. Next (thr s t)) Thread 0 (SWaiting (sem s Sem)) of
                  None \<Rightarrow> None
                | Some (prev, th) \<Rightarrow>
                    (let woke = (\<lambda>s. obind (Some (Threads_AddActive Thread (set_RetStatus Thread 0 s)))
                                       (\<lambda>s. Some (Ret (- errno_value EOK, s))))
                     in if th \<noteq> 0 then woke (unlink_from (QSemWait Sem) prev Thread s)
                        else (case find_link (\<lambda>t. Next (thr s t)) Thread 0 (Signaling (sem s Sem)) of
                                None \<Rightarrow> None
                              | Some (prev, th) \<Rightarrow>
                                  (if th = 0 then Some (Ret (- errno_value EINTERNAL, s))
                                   else woke (unlink_from (QSemSignal Sem) prev Thread s)))))
           | _ \<Rightarrow> Some Panicked)
      | THREAD_STAT_WAITING \<Rightarrow> Some (Ret (- errno_value ENOTIMPL, s))
      | THREAD_STAT_DEAD \<Rightarrow> Some (Ret (- errno_value ENOTIMPL, s))
      | _ \<Rightarrow> Some (Ret (- errno_value EINTERNAL, s)))"

definition Threads_WakeTID :: "nat \<Rightarrow> kstate \<Rightarrow> (int \<times> kstate) outcome option" where
  "Threads_WakeTID tid s =
     (case Threads_GetThread tid s of
        None \<Rightarrow> None
      | Some thread \<Rightarrow> (if thread = 0 then Some (Ret (- errno_value ENOENT, s)) else Threads_Wake thread s))"

definition Threads_ToggleTrace :: "nat \<Rightarrow> kstate \<Rightarrow> kstate option" where
  "Threads_ToggleTrace tid s =
     (case Threads_GetThread tid s of
        None \<Rightarrow> None
      | Some thread \<Rightarrow> Some (if thread = 0 then s else upd_thr thread (\<lambda>t. t\<lparr>bInstrTrace := \<not> bInstrTrace t\<rparr>) s))"

section \<open>Death\<close>

text \<open>The children of a dying thread are given to the first thread.\<close>

partial_function (option) disown_children :: "ptr \<Rightarrow> ptr \<Rightarrow> kstate \<Rightarrow> kstate option" where
  "disown_children Thread child s =
     (if child = 0 then Some s
      else
        (let s = (if Parent (thr s child) = Thread then upd_thr child (\<lambda>t. t\<lparr>Parent := gThreadZero s\<rparr>) s else s)
         in disown_children Thread (GlobalNext (thr s child)) s))"

partial_function (option) clear_messages :: "ptr \<Rightarrow> kstate \<Rightarrow> kstate option" where
  "clear_messages Thread s =
     (if Messages (thr s Thread) = 0 then Some s
      else clear_messages Thread (upd_thr Thread (\<lambda>t. t\<lparr>Messages := MNext (msg s (Messages t))\<rparr>) s))"

text \<open>The switch over the status; \<open>None\<close> inside the outcome is the early return for a zombie.\<close>

definition kill_dequeue :: "ptr \<Rightarrow> kstate \<Rightarrow> kstate option outcome option" where
  "kill_dequeue Thread s =
     (case Status (thr s Thread) of
        THREAD_STAT_ACTIVE \<Rightarrow>
          obind (if Thread \<noteq> cur s then Threads_int_DelFromQueue (QActive (Priority (thr s Thread))) Thread s
                 else Some (Ret (Thread, s))) (\<lambda>(_, s).
            let s = upd_thr Thread (\<lambda>t. t\<lparr>Remaining := 0, Quantum := 0\<rparr>) s
            in Some (Ret (Some (s\<lparr>giNumActiveThreads := giNumActiveThreads s - 1\<rparr>))))
      | THREAD_STAT_SLEEPING \<Rightarrow>
          obind (Threads_int_DelFromQueue QSleeping Thread s) (\<lambda>(_, s). Some (Ret (Some s)))
      | THREAD_STAT_ZOMBIE \<Rightarrow> Some (Ret None)
      | _ \<Rightarrow> Some (Ret (Some s)))"

text \<open>What remains once the lock of the parent is held.\<close>

definition Threads_Kill_finish :: "ptr \<Rightarrow> kstate \<Rightarrow> kstate outcome option" where
  "Threads_Kill_finish Thread s =
     (let s = set_Next Thread (LastDeadChild (thr s (Parent (thr s Thread)))) s;
          s = upd_thr (Parent (thr s Thread)) (\<lambda>t. t\<lparr>LastDeadChild := Thread\<rparr>) s
      in Threads_PostEvent (Parent (thr s Thread)) THREAD_EVENT_DEADCHILD s)"

text \<open>
  \<open>Threads_Kill\<close> up to the endless rescheduling of a thread that killed itself. The flag is false when
  the caller sleeps on the lock of the parent and finishes later.
\<close>

definition Threads_Kill :: "ptr \<Rightarrow> int \<Rightarrow> kstate \<Rightarrow> (bool \<times> kstate) outcome option" where
  "Threads_Kill Thread St s =
     (case disown_children Thread (gAllThreads s) s of
        None \<Rightarrow> None
      | Some s \<Rightarrow>
          (case clear_messages Thread s of
             None \<Rightarrow> None
           | Some s0 \<Rightarrow>
               obind (kill_dequeue Thread s0) (\<lambda>r. case r of
                 None \<Rightarrow> Some (Ret (True, s0))
               | Some s \<Rightarrow>
                   (let s = set_RetStatus Thread St s;
                        s = set_Status Thread THREAD_STAT_ZOMBIE s in
                    if Parent (thr s Thread) = 0 then Some Panicked
                    else
                      (let (got, s) = Mutex_Acquire (DeadChildLock (Parent (thr s Thread))) s
                       in if got then obind (Threads_Kill_finish Thread s) (\<lambda>s. Some (Ret (True, s)))
                          else Some (Ret (False, s)))))))"

definition Threads_Exit :: "nat \<Rightarrow> int \<Rightarrow> kstate \<Rightarrow> (bool \<times> kstate) outcome option" where
  "Threads_Exit tid St s =
     (let St = St mod 256 in
      if tid = 0 then Threads_Kill (cur s) St s
      else (case Threads_GetThread tid s of
              None \<Rightarrow> None
            | Some thread \<Rightarrow> (if thread = 0 then Some Panicked else Threads_Kill thread St s)))"

section \<open>Reaping\<close>

text \<open>Off the list of the process, and off the list of processes when it was the last thread.\<close>

definition leave_process :: "ptr \<Rightarrow> kstate \<Rightarrow> kstate option" where
  "leave_process Thread s =
     (let p = Process (thr s Thread);
          s = upd_prc p (\<lambda>x. x\<lparr>nThreads := nThreads x - 1\<rparr>) s in
      if FirstThread (prc s p) = Thread then Some (upd_prc p (\<lambda>x. x\<lparr>FirstThread := ProcessNext (thr s Thread)\<rparr>) s)
      else (case find_before (\<lambda>t. ProcessNext (thr s t)) Thread (FirstThread (prc s p)) of
              None \<Rightarrow> None
            | Some prev \<Rightarrow>
                Some (if prev = 0 then s
                      else upd_thr prev (\<lambda>t. t\<lparr>ProcessNext := ProcessNext (thr s Thread)\<rparr>) s)))"

definition remove_process :: "ptr \<Rightarrow> kstate \<Rightarrow> kstate" where
  "remove_process p s =
     (let s = (if PPrev (prc s p) \<noteq> 0 then upd_prc (PPrev (prc s p)) (\<lambda>x. x\<lparr>PNext := PNext (prc s p)\<rparr>) s
               else s\<lparr>gAllProcesses := PNext (prc s p)\<rparr>)
      in if PNext (prc s p) \<noteq> 0 then upd_prc (PNext (prc s p)) (\<lambda>x. x\<lparr>PPrev := PPrev (prc s p)\<rparr>) s else s)"

text \<open>
  A thread that is not the first of all threads has a predecessor: \<open>add_global\<close> sets \<open>GlobalPrev\<close> of the
  first thread when it puts another one in front, and nothing sets it back to null. It may be stale.
\<close>

definition Threads_Delete :: "ptr \<Rightarrow> kstate \<Rightarrow> kstate option" where
  "Threads_Delete Thread s =
     (case leave_process Thread (set_Status Thread THREAD_STAT_BURIED s) of
        None \<Rightarrow> None
      | Some s \<Rightarrow>
          (let p = Process (thr s Thread);
               s = (if nThreads (prc s p) = 0 then remove_process p s else s)
           in Some (if Thread = gAllThreads s then s\<lparr>gAllThreads := GlobalNext (thr s Thread)\<rparr>
                    else upd_thr (GlobalPrev (thr s Thread)) (\<lambda>t. t\<lparr>GlobalNext := GlobalNext (thr s Thread)\<rparr>) s)))"

text \<open>The outcome of waiting for a child: its number and exit status.\<close>

definition reap_child :: "32 word \<Rightarrow> kstate \<Rightarrow> (int \<times> int option \<times> kstate) outcome option" where
  "reap_child ev s =
     (if ev AND THREAD_EVENT_DEADCHILD \<noteq> 0 then
        (let us = cur s; dead = LastDeadChild (thr s us) in
         if dead = 0 then Some Panicked
         else
           (let s = upd_thr us (\<lambda>t. t\<lparr>LastDeadChild := Next (thr s dead)\<rparr>) s
            in obind (if LastDeadChild (thr s us) \<noteq> 0 then Threads_PostEvent us THREAD_EVENT_DEADCHILD s
                      else Some (Ret (Threads_ClearEvent THREAD_EVENT_DEADCHILD s))) (\<lambda>s.
                 obind (Some (Mutex_Release (DeadChildLock us) s)) (\<lambda>s.
                   if Status (thr s dead) \<noteq> THREAD_STAT_ZOMBIE then Some Panicked
                   else
                     (let ret = int (TID (thr s dead));
                          s = set_Status dead THREAD_STAT_DEAD s;
                          st = RetStatus (thr s dead)
                      in case Threads_Delete dead s of
                           None \<Rightarrow> None
                         | Some s \<Rightarrow> Some (Ret (ret, Some st, s)))))))
      else Some (Ret (- 1, None, s)))"

text \<open>\<open>Threads_WaitTID\<close> for any child; the value is \<open>None\<close> when the caller went to sleep.\<close>

definition Threads_WaitTID_any :: "kstate \<Rightarrow> ((int \<times> int option) option \<times> kstate) outcome option" where
  "Threads_WaitTID_any s =
     (case Threads_WaitEvents THREAD_EVENT_DEADCHILD s of
        (None, s) \<Rightarrow> Some (Ret (None, s))
      | (Some ev, s) \<Rightarrow> obind (reap_child ev s) (\<lambda>(ret, st, s). Some (Ret (Some (ret, st), s))))"

definition Threads_WaitTID_any_resume :: "kstate \<Rightarrow> (int \<times> int option \<times> kstate) outcome option" where
  "Threads_WaitTID_any_resume s =
     (let (ev, s) = Threads_WaitEvents_resume THREAD_EVENT_DEADCHILD s in reap_child ev s)"

text \<open>
  The loop for a given child throws away the others it reaps. It starts with the result of a first
  \<open>Threads_WaitTID (- 1)\<close>, which is the call itself or the one that has just been resumed.
\<close>

partial_function (option) wait_for_tid ::
  "int \<Rightarrow> (int \<times> int option) option \<times> kstate \<Rightarrow> ((int \<times> int option) option \<times> kstate) outcome option" where
  "wait_for_tid tid r =
     (case r of
        (None, s) \<Rightarrow> Some (Ret (None, s))
      | (Some (ret, st), s) \<Rightarrow>
          (if ret = tid \<or> ret = - 1 then Some (Ret (Some (ret, st), s))
           else (case Threads_WaitTID_any s of
                   None \<Rightarrow> None
                 | Some Panicked \<Rightarrow> Some Panicked
                 | Some (Ret r) \<Rightarrow> wait_for_tid tid r)))"

definition Threads_WaitTID :: "int \<Rightarrow> kstate \<Rightarrow> ((int \<times> int option) option \<times> kstate) outcome option" where
  "Threads_WaitTID tid s =
     (if tid = - 1 then Threads_WaitTID_any s
      else if tid = 0 then Some (Ret (Some (- 1, None), s))
      else if tid < - 1 then Some (Ret (Some (- 1, None), s))
      else obind (Threads_WaitTID_any s) (wait_for_tid tid))"

section \<open>Faults and signals\<close>

definition Threads_SetFaultHandler :: "nat \<Rightarrow> kstate \<Rightarrow> kstate" where
  "Threads_SetFaultHandler Handler s = upd_thr (cur s) (\<lambda>t. t\<lparr>FaultHandler := Handler\<rparr>) s"

text \<open>The flag says whether the fault handler of the thread is called; otherwise the thread is killed.\<close>

definition Threads_Fault :: "int \<Rightarrow> kstate \<Rightarrow> (bool \<times> kstate) outcome option" where
  "Threads_Fault Num s =
     (let thread = cur s; die = obind (Threads_Kill thread (- 1) s) (\<lambda>(_, s). Some (Ret (False, s))) in
      if thread = 0 then Some (Ret (False, s))
      else if FaultHandler (thr s thread) = 0 then die
      else if FaultHandler (thr s thread) = 1 then die
      else if CurFaultNum (thr s thread) \<noteq> 0 then die
      else Some (Ret (True, upd_thr thread (\<lambda>t. t\<lparr>CurFaultNum := Num\<rparr>) s)))"

definition Threads_SegFault :: "kstate \<Rightarrow> (bool \<times> kstate) outcome option" where
  "Threads_SegFault s = Threads_Fault 1 (upd_thr (cur s) (\<lambda>t. t\<lparr>bInstrTrace := False\<rparr>) s)"

definition Threads_PostSignalTo :: "ptr \<Rightarrow> int \<Rightarrow> kstate \<Rightarrow> kstate outcome option" where
  "Threads_PostSignalTo Thread SignalNum s =
     (if Thread = 0 then Some Panicked
      else Threads_PostEvent Thread THREAD_EVENT_SIGNAL (upd_thr Thread (\<lambda>t. t\<lparr>PendingSignal := SignalNum\<rparr>) s))"

definition Threads_PostSignal :: "int \<Rightarrow> kstate \<Rightarrow> kstate outcome option" where
  "Threads_PostSignal SignalNum s = Threads_PostSignalTo (cur s) SignalNum s"

partial_function (option) signal_group :: "nat \<Rightarrow> int \<Rightarrow> ptr \<Rightarrow> kstate \<Rightarrow> kstate outcome option" where
  "signal_group pgid Signal p s =
     (if p = 0 then Some (Ret s)
      else if PGID (prc s p) = pgid then
        (case Threads_PostSignalTo (FirstThread (prc s p)) Signal s of
           None \<Rightarrow> None
         | Some Panicked \<Rightarrow> Some Panicked
         | Some (Ret s) \<Rightarrow> signal_group pgid Signal (PNext (prc s p)) s)
      else signal_group pgid Signal (PNext (prc s p)) s)"

definition Threads_SignalGroup :: "nat \<Rightarrow> int \<Rightarrow> kstate \<Rightarrow> kstate outcome option" where
  "Threads_SignalGroup pgid Signal s = signal_group pgid Signal (gAllProcesses s) s"

definition Threads_GetPendingSignal :: "kstate \<Rightarrow> int \<times> kstate" where
  "Threads_GetPendingSignal s =
     (PendingSignal (thr s (cur s)), upd_thr (cur s) (\<lambda>t. t\<lparr>PendingSignal := 0\<rparr>) s)"

definition NSIGNALS :: int where "NSIGNALS = 23"

datatype signal = SIGHUP | SIGINT | SIGQUIT | SIGILL | SIGABRT | SIGFPE | SIGKILL | SIGSEGV | SIGALRM | SIGTERM
  | SIGSTOP | SIGPIPE

primrec signal_number :: "signal \<Rightarrow> int" where
  "signal_number SIGHUP = 1"
| "signal_number SIGINT = 2"
| "signal_number SIGQUIT = 3"
| "signal_number SIGILL = 4"
| "signal_number SIGABRT = 6"
| "signal_number SIGFPE = 8"
| "signal_number SIGKILL = 9"
| "signal_number SIGSEGV = 11"
| "signal_number SIGALRM = 12"
| "signal_number SIGTERM = 13"
| "signal_number SIGSTOP = 16"
| "signal_number SIGPIPE = 20"

text \<open>\<open>is_user\<close> is the test of the page tables whether an address belongs to user space.\<close>

definition Threads_SetSignalHandler :: "(ptr \<Rightarrow> bool) \<Rightarrow> int \<Rightarrow> ptr \<Rightarrow> kstate \<Rightarrow> kstate" where
  "Threads_SetSignalHandler is_user SignalNum Handler s =
     (if SignalNum \<le> 0 \<or> SignalNum \<ge> NSIGNALS then s
      else if \<not> is_user Handler then s
      else upd_prc (Process (thr s (cur s)))
             (\<lambda>p. p\<lparr>SignalHandlers := (SignalHandlers p)(nat SignalNum := Handler)\<rparr>) s)"

text \<open>\<open>kill_handler\<close> is the address of \<open>User_Signal_Kill\<close>.\<close>

definition Threads_GetSignalHandler :: "ptr \<Rightarrow> int \<Rightarrow> kstate \<Rightarrow> ptr" where
  "Threads_GetSignalHandler kill_handler SignalNum s =
     (if SignalNum \<le> 0 \<or> SignalNum \<ge> NSIGNALS then 0
      else
        (let ret = SignalHandlers (prc s (Process (thr s (cur s)))) (nat SignalNum) in
         if ret = 0 \<or> SignalNum = signal_number SIGKILL \<or> SignalNum = signal_number SIGSTOP then
           (if SignalNum \<in> signal_number ` {SIGHUP, SIGINT} then kill_handler
            else if SignalNum \<in> signal_number ` {SIGQUIT, SIGILL, SIGABRT, SIGFPE} then kill_handler
            else if SignalNum = signal_number SIGKILL then kill_handler
            else if SignalNum = signal_number SIGSEGV then kill_handler
            else if SignalNum \<in> signal_number ` {SIGPIPE, SIGALRM, SIGTERM} then kill_handler
            else 0)
         else ret))"

section \<open>Identity\<close>

definition Threads_GetPGID :: "kstate \<Rightarrow> nat" where "Threads_GetPGID s = PGID (prc s (Process (thr s (cur s))))"

definition Threads_GetPID :: "kstate \<Rightarrow> nat" where "Threads_GetPID s = PID (prc s (Process (thr s (cur s))))"

definition Threads_GetTID :: "kstate \<Rightarrow> nat" where "Threads_GetTID s = TID (thr s (cur s))"

definition Threads_GetUID :: "kstate \<Rightarrow> nat" where "Threads_GetUID s = UID (prc s (Process (thr s (cur s))))"

definition Threads_GetGID :: "kstate \<Rightarrow> nat" where "Threads_GetGID s = GID (prc s (Process (thr s (cur s))))"

definition Threads_SetUID :: "nat \<Rightarrow> kstate \<Rightarrow> int \<times> kstate" where
  "Threads_SetUID ID s =
     (if UID (prc s (Process (thr s (cur s)))) \<noteq> 0
      then (- 1, upd_thr (cur s) (\<lambda>t. t\<lparr>errno := - errno_value EACCES\<rparr>) s)
      else (0, upd_prc (Process (thr s (cur s))) (\<lambda>p. p\<lparr>UID := ID\<rparr>) s))"

definition Threads_SetGID :: "nat \<Rightarrow> kstate \<Rightarrow> int \<times> kstate" where
  "Threads_SetGID ID s =
     (if UID (prc s (Process (thr s (cur s)))) \<noteq> 0
      then (- 1, upd_thr (cur s) (\<lambda>t. t\<lparr>errno := - errno_value EACCES\<rparr>) s)
      else (0, upd_prc (Process (thr s (cur s))) (\<lambda>p. p\<lparr>GID := ID\<rparr>) s))"

end
