(* ===== verification/Thread_Life_Correct.thy ===== *)
theory Thread_Life_Correct
  imports Thread_Life
begin

text \<open>
  Lemmas about the life of a thread: the global list of threads, what dying does to the parent, and
  what the parent sees when it waits.
\<close>

section \<open>The global list\<close>

definition thread_list :: "kstate \<Rightarrow> ptr list \<Rightarrow> bool" where
  "thread_list s G \<longleftrightarrow> lseg (\<lambda>t. GlobalNext (thr s t)) (gAllThreads s) G \<and> distinct G \<and>
     inj_on (\<lambda>t. TID (thr s t)) (set G) \<and> (\<forall>t \<in> set G. TID (thr s t) < giNextTID s)"

lemma find_tid_list:
  "lseg (\<lambda>t. GlobalNext (thr s t)) p G \<Longrightarrow> inj_on (\<lambda>t. TID (thr s t)) (set G) \<Longrightarrow>
   find_tid s tid p = Some (if \<exists>t \<in> set G. TID (thr s t) = tid then (THE t. t \<in> set G \<and> TID (thr s t) = tid) else 0)"
proof (induction G arbitrary: p)
  case Nil
  then show ?case by (subst find_tid.simps) simp
next
  case (Cons x G)
  then have x: "p = x" "x \<noteq> 0" "lseg (\<lambda>t. GlobalNext (thr s t)) (GlobalNext (thr s x)) G" by auto
  show ?case
  proof (cases "TID (thr s x) = tid")
    case True
    then have "(THE t. t \<in> set (x # G) \<and> TID (thr s t) = tid) = x"
      using Cons.prems(2) by (intro the_equality) (auto simp: inj_on_def)
    with True x show ?thesis by (subst find_tid.simps) simp
  next
    case False
    then have "(\<lambda>t. t \<in> set (x # G) \<and> TID (thr s t) = tid) = (\<lambda>t. t \<in> set G \<and> TID (thr s t) = tid)" by auto
    with False x Cons.IH [OF x(3)] Cons.prems(2) show ?thesis by (subst find_tid.simps) (auto simp: inj_on_def)
  qed
qed

lemma GetThread_found:
  assumes "thread_list s G" "t \<in> set G"
  shows "Threads_GetThread (TID (thr s t)) s = Some t"
proof -
  have "(THE u. u \<in> set G \<and> TID (thr s u) = TID (thr s t)) = t"
    using assms by (intro the_equality) (auto simp: thread_list_def inj_on_def)
  moreover have "\<exists>u \<in> set G. TID (thr s u) = TID (thr s t)" using assms(2) by blast
  ultimately show ?thesis
    using find_tid_list [of s "gAllThreads s" G "TID (thr s t)"] assms(1)
    by (simp add: Threads_GetThread_def thread_list_def)
qed

lemma GetThread_missing:
  assumes "thread_list s G" "\<forall>t \<in> set G. TID (thr s t) \<noteq> tid"
  shows "Threads_GetThread tid s = Some 0"
  using find_tid_list [of s "gAllThreads s" G tid] assms by (auto simp: Threads_GetThread_def thread_list_def)

section \<open>Walks over the lists\<close>

definition disowned :: "ptr \<Rightarrow> ptr list \<Rightarrow> kstate \<Rightarrow> kstate" where
  "disowned c G s = s\<lparr>thr := (\<lambda>t. if t \<in> set G \<and> Parent (thr s t) = c then (thr s t)\<lparr>Parent := gThreadZero s\<rparr> else thr s t)\<rparr>"

lemma disown_children_eq:
  "lseg (\<lambda>t. GlobalNext (thr s t)) p G \<Longrightarrow> distinct G \<Longrightarrow> disown_children c p s = Some (disowned c G s)"
proof (induction G arbitrary: p s)
  case Nil
  then show ?case by (subst disown_children.simps) (simp add: disowned_def)
next
  case (Cons x G)
  define s1 where "s1 = (if Parent (thr s x) = c then upd_thr x (\<lambda>t. t\<lparr>Parent := gThreadZero s\<rparr>) s else s)"
  have g: "GlobalNext (thr s1 t) = GlobalNext (thr s t)" for t by (simp add: s1_def upd_thr_def)
  from Cons.prems have x: "p = x" "x \<noteq> 0" "lseg (\<lambda>t. GlobalNext (thr s1 t)) (GlobalNext (thr s1 x)) G" by (auto simp: g)
  have "disown_children c p s = disown_children c (GlobalNext (thr s1 x)) s1"
    using x by (subst disown_children.simps) (simp add: Let_def s1_def)
  also have "\<dots> = Some (disowned c G s1)" using Cons.IH [OF x(3)] Cons.prems(2) by simp
  also have "disowned c G s1 = disowned c (x # G) s"
    using Cons.prems(2) unfolding disowned_def s1_def upd_thr_def
    by (intro kstate.equality) (auto simp: fun_eq_iff cong: if_cong)
  finally show ?case .
qed

lemma clear_messages_eq:
  "lseg (\<lambda>m. MNext (msg s m)) (Messages (thr s c)) ms \<Longrightarrow>
   clear_messages c s = Some (upd_thr c (\<lambda>t. t\<lparr>Messages := 0\<rparr>) s)"
proof (induction ms arbitrary: s)
  case Nil
  then have "s = upd_thr c (\<lambda>t. t\<lparr>Messages := 0\<rparr>) s" unfolding upd_thr_def by (intro kstate.equality) auto
  with Nil show ?case by (subst clear_messages.simps) simp
next
  case (Cons m ms)
  let ?s = "upd_thr c (\<lambda>t. t\<lparr>Messages := MNext (msg s (Messages t))\<rparr>) s"
  have "lseg (\<lambda>m. MNext (msg ?s m)) (Messages (thr ?s c)) ms" using Cons.prems by (auto simp: upd_thr_def)
  from Cons.IH [OF this] Cons.prems show ?case by (subst clear_messages.simps) (auto simp: upd_thr_def)
qed

section \<open>Dying while the parent waits\<close>

text \<open>A running thread that stops being active without sleeping on a queue.\<close>

lemma sched_inv_retire:
  assumes inv: "sched_inv s Q" and a: "Status (thr s (cur s)) = THREAD_STAT_ACTIVE"
    and "cur s' = cur s" "giNumActiveThreads s' = giNumActiveThreads s - 1"
    and "\<And>q. q_head s' q = q_head s q" "\<And>q. q_tail s' q = q_tail s q"
    and other: "\<And>t. t \<noteq> cur s \<Longrightarrow> Next (thr s' t) = Next (thr s t) \<and> Status (thr s' t) = Status (thr s t)"
    and pr: "\<And>t. Priority (thr s' t) = Priority (thr s t)"
    and d: "Status (thr s' (cur s)) \<noteq> THREAD_STAT_ACTIVE"
  shows "sched_inv s' Q"
proof (rule sched_invI)
  have fr: "cur s \<notin> set (Q k)" for k using sched_cur_free [OF inv a] by (simp add: free_of_def)
  have "queues s' Q = queues s Q"
  proof (rule queues_cong)
    show "Next (thr s' x) = Next (thr s x)" if "x \<in> set (Q q)" for q x using other [of x] fr that by metis
  qed (use assms in auto)
  then show "queues s' Q" using sched_queues [OF inv] by simp
  show "Status (thr s' t) = status_of k" if "t \<in> set (Q k)" for k t
    using other [of t] fr that sched_status [OF inv that] by metis
  show "t \<in> set (Q (QActive (Priority (thr s' t))))" if "Status (thr s' t) = THREAD_STAT_ACTIVE" "t \<noteq> cur s'" for t
    using that other [of t] sched_ready [OF inv, of t] assms(3) pr by auto
qed (use sched_basic [OF inv] sched_active [OF inv] sched_count [OF inv] a assms in auto)

text \<open>The state of a thread that killed itself, just before it tells its parent.\<close>

definition corpse :: "ptr list \<Rightarrow> int \<Rightarrow> kstate \<Rightarrow> kstate" where
  "corpse G St s =
     (let c = cur s;
          s = upd_thr c (\<lambda>t. t\<lparr>Messages := 0\<rparr>) (disowned c G s);
          s = upd_thr c (\<lambda>t. t\<lparr>Remaining := 0, Quantum := 0\<rparr>) s;
          s = s\<lparr>giNumActiveThreads := giNumActiveThreads s - 1\<rparr>
      in set_Status c THREAD_STAT_ZOMBIE (set_RetStatus c St s))"

lemma corpse_simps:
  "cur (corpse G St s) = cur s" "giNumActiveThreads (corpse G St s) = giNumActiveThreads s - 1"
  "q_head (corpse G St s) q = q_head s q" "q_tail (corpse G St s) q = q_tail s q"
  "mtx (corpse G St s) = mtx s" "prc (corpse G St s) = prc s" "msg (corpse G St s) = msg s"
  "gAllThreads (corpse G St s) = gAllThreads s"
  by (cases q; simp add: corpse_def disowned_def Let_def upd_thr_def set_Status_def set_RetStatus_def)+

lemma corpse_thr:
  "thr (corpse G St s) t =
     (let x = (if t \<in> set G \<and> Parent (thr s t) = cur s then (thr s t)\<lparr>Parent := gThreadZero s\<rparr> else thr s t)
      in if t = cur s then x\<lparr>Messages := 0, Remaining := 0, Quantum := 0, RetStatus := St, Status := THREAD_STAT_ZOMBIE\<rparr>
         else x)"
  by (simp add: corpse_def disowned_def Let_def upd_thr_def set_Status_def set_RetStatus_def)

lemma Kill_self_eq:
  assumes a: "Status (thr s (cur s)) = THREAD_STAT_ACTIVE"
    and G: "lseg (\<lambda>t. GlobalNext (thr s t)) (gAllThreads s) G" "distinct G"
    and ms: "lseg (\<lambda>m. MNext (msg s m)) (Messages (thr s (cur s))) ms"
    and p: "Parent (thr s (cur s)) = p" "p \<noteq> cur s" "p \<noteq> 0"
  shows "Threads_Kill (cur s) St s =
    (case Mutex_Acquire (DeadChildLock p) (corpse G St s) of
       (got, s') \<Rightarrow> if got then obind (Threads_Kill_finish (cur s) s') (\<lambda>s. Some (Ret (True, s)))
                    else Some (Ret (False, s')))"
proof -
  let ?c = "cur s" and ?s1 = "disowned (cur s) G s"
  let ?s2 = "upd_thr ?c (\<lambda>t. t\<lparr>Messages := 0\<rparr>) ?s1"
  have m1: "lseg (\<lambda>m. MNext (msg ?s1 m)) (Messages (thr ?s1 ?c)) ms" using ms by (simp add: disowned_def)
  have c2: "cur ?s2 = ?c" "Status (thr ?s2 ?c) = THREAD_STAT_ACTIVE"
    using a by (simp_all add: disowned_def upd_thr_def)
  have par: "Parent (thr (corpse G St s) ?c) = p" using p by (simp add: corpse_thr Let_def)
  have "(let s = set_RetStatus ?c St ((upd_thr ?c (\<lambda>t. t\<lparr>Remaining := 0, Quantum := 0\<rparr>) ?s2)\<lparr>giNumActiveThreads :=
          giNumActiveThreads (upd_thr ?c (\<lambda>t. t\<lparr>Remaining := 0, Quantum := 0\<rparr>) ?s2) - 1\<rparr>)
      in set_Status ?c THREAD_STAT_ZOMBIE s) = corpse G St s" by (simp add: corpse_def Let_def)
  then show ?thesis
    using c2 par p(3) disown_children_eq [OF G, of ?c] clear_messages_eq [OF m1]
    by (simp add: Threads_Kill_def kill_dequeue_def Let_def)
qed

lemma corpse_inv:
  assumes "sched_inv s Q" "Status (thr s (cur s)) = THREAD_STAT_ACTIVE"
  shows "sched_inv (corpse G St s) Q"
  by (rule sched_inv_retire [OF assms]) (auto simp: corpse_simps corpse_thr Let_def)

lemma Kill_finish_wakes:
  assumes inv: "sched_inv s Q" and c: "free_of Q c" "c \<noteq> 0" and p: "Parent (thr s c) = p" "p \<noteq> c" "p \<noteq> 0"
    and w: "Status (thr s p) = THREAD_STAT_EVENTSLEEP" "RetStatus (thr s p) = sint THREAD_EVENT_DEADCHILD"
  shows "\<exists>s'. Threads_Kill_finish c s = Some (Ret s') \<and> sched_inv s' (woken p s Q) \<and>
    same_but_queues (activated p (upd_thr p (\<lambda>t. t\<lparr>LastDeadChild := c,
      EventState := EventState (thr s p) OR THREAD_EVENT_DEADCHILD\<rparr>) s)) s' \<and>
    Next (thr s' c) = LastDeadChild (thr s p)"
proof -
  define s1 where "s1 = upd_thr p (\<lambda>t. t\<lparr>LastDeadChild := c\<rparr>) (set_Next c (LastDeadChild (thr s p)) s)"
  have "queues (set_Next c (LastDeadChild (thr s p)) s) Q = queues s Q"
    using c(1) by (intro queues_cong) (auto simp: set_Next_def thr_upd_thr free_of_def)
  then have "sched_inv (set_Next c (LastDeadChild (thr s p)) s) Q"
    using inv by (intro sched_inv_sleepers [OF inv same_but_queues_set(3)]) (auto simp: sched_queues)
  then have inv1: "sched_inv s1 Q" by (simp add: s1_def sched_inv_upd_thr)
  have th1: "thr s1 p = (thr s p)\<lparr>LastDeadChild := c\<rparr>" "Parent (thr s1 c) = p" "Next (thr s1 c) = LastDeadChild (thr s p)"
      "Parent (thr (set_Next c (LastDeadChild (thr s p)) s) c) = p"
    using p by (simp_all add: s1_def set_Next_def upd_thr_def)
  have e: "THREAD_EVENT_DEADCHILD AND THREAD_EVENT_DEADCHILD \<noteq> 0" by (simp add: THREAD_EVENT_DEADCHILD_def)
  have st: "Status (thr s1 p) = THREAD_STAT_EVENTSLEEP" "RetStatus (thr s1 p) = sint THREAD_EVENT_DEADCHILD"
    using w th1(1) by simp_all
  from PostEvent_wakes [OF inv1 p(3) st e] obtain s' where s': "Threads_PostEvent p THREAD_EVENT_DEADCHILD s1 = Some (Ret s')"
    "sched_inv s' (woken p s1 Q)"
    "same_but_queues (activated p (set_EventState p (EventState (thr s1 p) OR THREAD_EVENT_DEADCHILD) s1)) s'"
    "\<forall>x. x \<noteq> p \<longrightarrow> free_of Q x \<longrightarrow> Next (thr s' x) = Next (thr s1 x)" by blast
  have run: "Threads_Kill_finish c s = Some (Ret s')"
    using p(1) th1(2,4) s'(1) by (simp add: Threads_Kill_finish_def Let_def s1_def)
  let ?b = "\<lambda>s. activated p (upd_thr p (\<lambda>t. t\<lparr>LastDeadChild := c, EventState := EventState (thr s p) OR THREAD_EVENT_DEADCHILD\<rparr>) s)"
  have "same_but_queues (?b s) (activated p (set_EventState p (EventState (thr s1 p) OR THREAD_EVENT_DEADCHILD) s1))"
    using p(2) unfolding s1_def
    by (intro same_but_queues_activated)
      (simp add: same_but_queues_def set_EventState_def set_Next_def upd_thr_def thread_core_def)
  moreover have "woken p s1 Q = woken p s Q" using p(2) by (simp add: woken_def s1_def set_Next_def upd_thr_def)
  ultimately show ?thesis
    using run s'(2,4) p(2) c(1) th1(3) same_but_queues_trans [OF _ s'(3)] by auto
qed

section \<open>Reaping\<close>

lemma upd_prc_simps [simp]: "thr (upd_prc p f s) = thr s" "mtx (upd_prc p f s) = mtx s" "cur (upd_prc p f s) = cur s"
  by (simp_all add: upd_prc_def)

lemma leave_process_returns:
  assumes T: "lseg (\<lambda>t. ProcessNext (thr s t)) (FirstThread (prc s (Process (thr s c)))) T" "distinct T" "c \<in> set T"
  shows "\<exists>s'. leave_process c s = Some s' \<and> mtx s' = mtx s \<and>
    (\<forall>t. Status (thr s' t) = Status (thr s t) \<and> LastDeadChild (thr s' t) = LastDeadChild (thr s t))"
proof -
  from T(3) obtain xs ys where T': "T = xs @ c # ys" by (auto simp: in_set_conv_decomp)
  define s0 where "s0 = upd_prc (Process (thr s c)) (\<lambda>x. x\<lparr>nThreads := nThreads x - 1\<rparr>) s"
  have f: "FirstThread (prc s0 (Process (thr s c))) = FirstThread (prc s (Process (thr s c)))"
    by (simp add: s0_def upd_prc_def)
  show ?thesis
  proof (cases xs)
    case Nil
    then have "FirstThread (prc s (Process (thr s c))) = c" using T(1) T' by auto
    then show ?thesis by (simp add: leave_process_def Let_def upd_prc_def)
  next
    case (Cons y xs')
    have "FirstThread (prc s (Process (thr s c))) \<noteq> c" using T(1,2) T' Cons by auto
    moreover have "find_before (\<lambda>t. ProcessNext (thr s t)) c (FirstThread (prc s (Process (thr s c)))) = Some (last xs)"
      using find_before_present [of _ _ y xs' c ys] T(1,2) T' Cons by simp
    ultimately show ?thesis by (simp add: leave_process_def Let_def upd_prc_def upd_thr_def)
  qed
qed

lemma remove_process_simps [simp]: "thr (remove_process p s) = thr s" "mtx (remove_process p s) = mtx s"
  by (simp_all add: remove_process_def Let_def upd_prc_def)

lemma Threads_Delete_returns:
  assumes "lseg (\<lambda>t. ProcessNext (thr s t)) (FirstThread (prc s (Process (thr s c)))) T" "distinct T" "c \<in> set T"
  shows "\<exists>s'. Threads_Delete c s = Some s' \<and> mtx s' = mtx s \<and>
    (\<forall>t. Status (thr s' t) = (if t = c then THREAD_STAT_BURIED else Status (thr s t)) \<and>
         LastDeadChild (thr s' t) = LastDeadChild (thr s t))"
proof -
  let ?s = "set_Status c THREAD_STAT_BURIED s"
  have st: "ProcessNext (thr ?s t) = ProcessNext (thr s t)" "Process (thr ?s t) = Process (thr s t)" "prc ?s = prc s"
    "mtx ?s = mtx s" "LastDeadChild (thr ?s t) = LastDeadChild (thr s t)"
    "Status (thr ?s t) = (if t = c then THREAD_STAT_BURIED else Status (thr s t))" for t
    by (simp_all add: set_Status_def upd_thr_def)
  from leave_process_returns [of ?s c T] assms obtain s1 where s1: "leave_process c ?s = Some s1" "mtx s1 = mtx s"
    "\<And>t. Status (thr s1 t) = Status (thr ?s t)" "\<And>t. LastDeadChild (thr s1 t) = LastDeadChild (thr s t)"
    by (auto simp: st)
  let ?s2 = "if nThreads (prc s1 (Process (thr s1 c))) = 0 then remove_process (Process (thr s1 c)) s1 else s1"
  have s2: "mtx ?s2 = mtx s" "thr ?s2 = thr s1" using s1(2) by simp_all
  have "Threads_Delete c s = Some (if c = gAllThreads ?s2 then ?s2\<lparr>gAllThreads := GlobalNext (thr ?s2 c)\<rparr>
      else upd_thr (GlobalPrev (thr ?s2 c)) (\<lambda>t. t\<lparr>GlobalNext := GlobalNext (thr ?s2 c)\<rparr>) ?s2)"
    using s1(1) by (simp add: Threads_Delete_def Let_def)
  with s2 s1(3,4) st(6) show ?thesis by (simp add: upd_thr_def)
qed

text \<open>A parent woken for a single dead child gets its number and status, and the lock is free again.\<close>

lemma WaitTID_resume_reaps:
  assumes inv: "sched_inv s Q" and c: "LastDeadChild (thr s (cur s)) = c" "c \<noteq> 0" "c \<noteq> cur s" "Next (thr s c) = 0"
    "Status (thr s c) = THREAD_STAT_ZOMBIE"
    and ev: "EventState (thr s (cur s)) AND THREAD_EVENT_DEADCHILD \<noteq> 0"
    and nobody: "Q (QMutex (DeadChildLock (cur s))) = []"
    and T: "lseg (\<lambda>t. ProcessNext (thr s t)) (FirstThread (prc s (Process (thr s c)))) T" "distinct T" "c \<in> set T"
  shows "\<exists>s'. Threads_WaitTID_any_resume s = Some (Ret (int (TID (thr s c)), Some (RetStatus (thr s c)), s')) \<and>
    Status (thr s' c) = THREAD_STAT_BURIED \<and> Owner (mtx s' (DeadChildLock (cur s))) = 0 \<and>
    LastDeadChild (thr s' (cur s)) = 0"
proof -
  let ?p = "cur s" and ?E = THREAD_EVENT_DEADCHILD
  define s1 where "s1 = upd_thr ?p (\<lambda>t. t\<lparr>WaitPointer := WNone, EventState := EventState t AND NOT ?E\<rparr>) s"
  define s2 where "s2 = upd_thr ?p (\<lambda>t. t\<lparr>LastDeadChild := 0, EventState := EventState t AND NOT ?E\<rparr>) s1"
  define s3 where "s3 = set_Owner (DeadChildLock ?p) 0 s2"
  define s4 where "s4 = set_Status c THREAD_STAT_DEAD s3"
  have inv2: "sched_inv s2 Q" using inv by (simp add: s2_def s1_def sched_inv_upd_thr)
  have res: "Threads_WaitEvents_resume ?E s = (EventState (thr s ?p) AND ?E, s1)"
    by (simp add: Threads_WaitEvents_resume_def Threads_int_Sleep_return_def take_events_def Let_def set_WaitPointer_def
      set_EventState_def s1_def upd_thr_def)
  have clr: "Threads_ClearEvent ?E (upd_thr ?p (\<lambda>t. t\<lparr>LastDeadChild := 0\<rparr>) s1) = s2"
    by (simp add: Threads_ClearEvent_def set_EventState_def s2_def s1_def upd_thr_def)
  have rel: "Mutex_Release (DeadChildLock ?p) s2 = Ret s3" by (simp add: s3_def Mutex_Release_empty [OF inv2 nobody])
  have th1: "cur s1 = ?p" "LastDeadChild (thr s1 ?p) = c" "Next (thr s1 c) = 0" using c by (simp_all add: s1_def upd_thr_def)
  have th3: "Status (thr s3 c) = THREAD_STAT_ZOMBIE" "TID (thr s3 c) = TID (thr s c)"
    "RetStatus (thr s4 c) = RetStatus (thr s c)"
    using c by (simp_all add: s4_def s3_def s2_def s1_def set_Status_def upd_thr_def)
  have "ProcessNext (thr s4 t) = ProcessNext (thr s t)" "Process (thr s4 t) = Process (thr s t)" "prc s4 = prc s" for t
    by (simp_all add: s4_def s3_def s2_def s1_def set_Status_def upd_thr_def set_Owner_def)
  with Threads_Delete_returns [of s4 c T] T obtain s' where s': "Threads_Delete c s4 = Some s'" "mtx s' = mtx s4"
    "\<forall>t. Status (thr s' t) = (if t = c then THREAD_STAT_BURIED else Status (thr s4 t)) \<and>
         LastDeadChild (thr s' t) = LastDeadChild (thr s4 t)" by auto
  have ev2: "(EventState (thr s ?p) AND ?E) AND ?E \<noteq> 0" using ev by (simp add: and.assoc)
  have "Threads_WaitTID_any_resume s = Some (Ret (int (TID (thr s c)), Some (RetStatus (thr s c)), s'))"
    using res ev2 th1 c(2) clr rel th3 s'(1)
    by (simp add: Threads_WaitTID_any_resume_def reap_child_def Let_def s4_def [symmetric] upd_thr_def [of ?p _ s1])
  moreover have "Owner (mtx s4 (DeadChildLock ?p)) = 0" "LastDeadChild (thr s4 ?p) = 0"
    using c(3) by (simp_all add: s4_def s3_def s2_def set_Status_def upd_thr_def set_Owner_def)
  ultimately show ?thesis using s'(2,3) by simp
qed

text \<open>Death and reaping together: what the parent's state looks like when the child has died.\<close>

lemma Kill_self_wakes_parent:
  assumes inv: "sched_inv s Q" and a: "Status (thr s (cur s)) = THREAD_STAT_ACTIVE"
    and G: "lseg (\<lambda>t. GlobalNext (thr s t)) (gAllThreads s) G" "distinct G"
    and ms: "lseg (\<lambda>m. MNext (msg s m)) (Messages (thr s (cur s))) ms"
    and p: "Parent (thr s (cur s)) = p" "p \<noteq> cur s" "p \<noteq> 0"
    and w: "Status (thr s p) = THREAD_STAT_EVENTSLEEP" "RetStatus (thr s p) = sint THREAD_EVENT_DEADCHILD"
    and lock: "Owner (mtx s (DeadChildLock p)) = 0"
  shows "\<exists>s'. Threads_Kill (cur s) St s = Some (Ret (True, s')) \<and> sched_inv s' (woken p (corpse G St s) Q) \<and>
    Next (thr s' (cur s)) = LastDeadChild (thr s p) \<and>
    same_but_queues (activated p (upd_thr p (\<lambda>t. t\<lparr>LastDeadChild := cur s,
      EventState := EventState (thr s p) OR THREAD_EVENT_DEADCHILD\<rparr>) (set_Owner (DeadChildLock p) (cur s) (corpse G St s)))) s'"
proof -
  let ?c = "cur s" and ?s = "set_Owner (DeadChildLock p) (cur s) (corpse G St s)"
  have inv': "sched_inv ?s Q" using corpse_inv [OF inv a] by simp
  have th: "Parent (thr ?s ?c) = p" "Status (thr ?s p) = THREAD_STAT_EVENTSLEEP"
      "RetStatus (thr ?s p) = sint THREAD_EVENT_DEADCHILD" "LastDeadChild (thr ?s p) = LastDeadChild (thr s p)"
      "EventState (thr ?s p) = EventState (thr s p)"
    using p w by (simp_all add: corpse_thr Let_def)
  have c0: "?c \<noteq> 0" using sched_basic [OF inv] by simp
  from Kill_finish_wakes [OF inv' sched_cur_free [OF inv a] c0 th(1) p(2,3) th(2,3)] obtain s' where
    s': "Threads_Kill_finish ?c ?s = Some (Ret s')" "sched_inv s' (woken p ?s Q)" "Next (thr s' ?c) = LastDeadChild (thr s p)"
    "same_but_queues (activated p (upd_thr p (\<lambda>t. t\<lparr>LastDeadChild := ?c,
      EventState := EventState (thr s p) OR THREAD_EVENT_DEADCHILD\<rparr>) ?s)) s'" unfolding th(4,5) by blast
  have "Mutex_Acquire (DeadChildLock p) (corpse G St s) = (True, ?s)"
    using lock by (simp add: Mutex_Acquire_free corpse_simps)
  moreover have "woken p ?s Q = woken p (corpse G St s) Q" by (simp add: woken_def)
  ultimately show ?thesis using s' by (simp add: Kill_self_eq [OF a G ms p])
qed

section \<open>Dying while another death is unreported\<close>

text \<open>
  The lock of the parent is held from a death until the parent has reaped it. A second thread that
  dies meanwhile goes to sleep on the lock: it is no longer a zombie, and it is taken off the count
  of active threads twice.
\<close>

lemma Kill_self_blocked:
  assumes a: "Status (thr s (cur s)) = THREAD_STAT_ACTIVE"
    and G: "lseg (\<lambda>t. GlobalNext (thr s t)) (gAllThreads s) G" "distinct G"
    and ms: "lseg (\<lambda>m. MNext (msg s m)) (Messages (thr s (cur s))) ms"
    and p: "Parent (thr s (cur s)) = p" "p \<noteq> cur s" "p \<noteq> 0"
    and held: "Owner (mtx s (DeadChildLock p)) \<noteq> 0"
  shows "\<exists>s'. Threads_Kill (cur s) St s = Some (Ret (False, s')) \<and>
    Status (thr s' (cur s)) = THREAD_STAT_MUTEXSLEEP \<and> giNumActiveThreads s' = giNumActiveThreads s - 2"
proof -
  let ?s = "corpse G St s" and ?m = "DeadChildLock p"
  define s' where "s' = Threads_int_Sleep THREAD_STAT_MUTEXSLEEP (WMutex ?m) 0 (OnQueue (QMutex ?m)) ?s"
  have "Mutex_Acquire ?m ?s = (False, s')" using held by (simp add: Mutex_Acquire_def corpse_simps s'_def)
  then have "Threads_Kill (cur s) St s = Some (Ret (False, s'))" by (simp add: Kill_self_eq [OF a G ms p])
  moreover have same: "same_but_queues (sleeping THREAD_STAT_MUTEXSLEEP (WMutex ?m) 0 ?s) s'"
    by (simp add: s'_def Threads_int_Sleep_eq enqueue_sleeper_same)
  ultimately show ?thesis
    using same_but_queues_thr(1) [OF same, of "cur s"] same_but_queues_glob(2) [OF same] by (simp add: corpse_simps)
qed

section \<open>Cloning\<close>

lemma upd_prc_ends [simp]: "q_head (upd_prc p f s) q = q_head s q" "q_tail (upd_prc p f s) q = q_tail s q"
  by (cases q; simp add: upd_prc_def)+

lemma gAllProcesses_ends [simp]:
  "q_head (s\<lparr>gAllProcesses := p\<rparr>) q = q_head s q" "q_tail (s\<lparr>gAllProcesses := p\<rparr>) q = q_tail s q"
  by (cases q; simp)+

text \<open>What setting up the process of a new thread leaves alone.\<close>

definition proc_frame :: "ptr \<Rightarrow> kstate \<Rightarrow> kstate \<Rightarrow> bool" where
  "proc_frame new s s' \<longleftrightarrow> cur s' = cur s \<and> giNumActiveThreads s' = giNumActiveThreads s \<and> giNextTID s' = giNextTID s \<and>
     gAllThreads s' = gAllThreads s \<and> mtx s' = mtx s \<and> (\<forall>q. q_head s' q = q_head s q \<and> q_tail s' q = q_tail s q) \<and>
     (\<forall>t. t \<noteq> new \<longrightarrow> thr s' t = thr s t) \<and> Status (thr s' new) = Status (thr s new) \<and>
     TID (thr s' new) = TID (thr s new) \<and> Next (thr s' new) = Next (thr s new)"

lemma proc_frame_refl: "proc_frame new s s"
  by (simp add: proc_frame_def)

lemma proc_frame_trans: "proc_frame new s s' \<Longrightarrow> proc_frame new s' s'' \<Longrightarrow> proc_frame new s s''"
  by (simp add: proc_frame_def)

lemma proc_frame_prc: "proc_frame new s (upd_prc p f s)"
  by (simp add: proc_frame_def) (simp add: upd_prc_def)

lemma proc_frame_thr:
  "(\<And>t. Status (f t) = Status t \<and> TID (f t) = TID t \<and> Next (f t) = Next t) \<Longrightarrow> proc_frame new s (upd_thr new f s)"
  by (simp add: proc_frame_def) (simp add: upd_thr_def)

lemma proc_frame_all: "proc_frame new s (s\<lparr>gAllProcesses := p\<rparr>)"
  by (simp add: proc_frame_def)

lemma clone_process_frame:
  assumes "clone_process Flags new newproc s = Ret s'"
  shows "proc_frame new s s'"
  using assms unfolding clone_process_def Let_def
  by (auto split: if_splits simp del: upd_prc_simps intro!: proc_frame_refl proc_frame_trans [OF _ proc_frame_all]
    proc_frame_trans [OF _ proc_frame_prc] proc_frame_trans [OF _ proc_frame_thr])

lemma clone_process_returns: "newproc \<noteq> 0 \<Longrightarrow> \<exists>s'. clone_process Flags new newproc s = Ret s'"
  by (simp add: clone_process_def Let_def)

lemma CloneTCB_frame:
  assumes "new \<noteq> 0" "new \<noteq> cur s" "newproc \<noteq> 0" "gAllThreads s \<noteq> new"
  shows "\<exists>s'. Threads_CloneTCB Flags new newproc s = Ret (new, s') \<and> cur s' = cur s \<and>
    giNumActiveThreads s' = giNumActiveThreads s \<and> giNextTID s' = u32 (giNextTID s + 1) \<and> gAllThreads s' = new \<and>
    (\<forall>m. mtx s' m = (if m = DeadChildLock new then mtx s (DeadChildLock (cur s)) else mtx s m)) \<and>
    (\<forall>q. q \<noteq> QMutex (DeadChildLock new) \<longrightarrow> q_head s' q = q_head s q \<and> q_tail s' q = q_tail s q) \<and>
    (\<forall>t. t \<noteq> new \<longrightarrow> thr s' t = (thr s t)\<lparr>GlobalPrev := GlobalPrev (thr s' t)\<rparr>) \<and>
    Status (thr s' new) = THREAD_STAT_PREINIT \<and> TID (thr s' new) = giNextTID s \<and> Next (thr s' new) = 0 \<and>
    GlobalNext (thr s' new) = gAllThreads s \<and> Priority (thr s' new) = Priority (thr s (cur s))"
proof -
  define s1 where "s1 = (upd_thr new (\<lambda>_. (thr s (cur s))\<lparr>CurCPU := - 1, Next := 0, Status := THREAD_STAT_PREINIT,
      RetStatus := 0, TID := giNextTID s, Parent := cur s, bInstrTrace := False\<rparr>)
    (s\<lparr>mtx := (mtx s)(DeadChildLock new := mtx s (DeadChildLock (cur s)))\<rparr>))\<lparr>giNextTID := u32 (giNextTID s + 1)\<rparr>"
  from clone_process_returns [OF assms(3)] obtain s2 where s2: "clone_process Flags new newproc s1 = Ret s2" by blast
  note f = clone_process_frame [OF s2, unfolded proc_frame_def]
  define s3 where "s3 = upd_thr new (\<lambda>t. t\<lparr>Messages := 0, LastMessage := 0, Remaining := Quantum (thr s2 (cur s2)),
      Quantum := Quantum (thr s2 (cur s2)), Priority := Priority (thr s2 (cur s2)), errno := 0, CurFaultNum := 0,
      FaultHandler := FaultHandler (thr s2 (cur s2))\<rparr>) s2"
  define s' where "s' = add_global new s3"
  have run: "Threads_CloneTCB Flags new newproc s = Ret (new, s')"
    using assms(1) s2 by (simp add: Threads_CloneTCB_def Let_def s1_def upd_thr_def s'_def s3_def)
  have "thr s' t = (thr s t)\<lparr>GlobalPrev := GlobalPrev (thr s' t)\<rparr>" if "t \<noteq> new" for t
    using that f assms(4) by (simp add: s'_def add_global_def s3_def s1_def upd_thr_def Let_def)
  moreover have "q_head s' q = q_head s q \<and> q_tail s' q = q_tail s q" if "q \<noteq> QMutex (DeadChildLock new)" for q
  proof -
    have "q_head s' q = q_head s2 q" "q_tail s' q = q_tail s2 q"
      by (cases q; simp add: s'_def add_global_def s3_def upd_thr_def Let_def)+
    moreover have "q_head s1 q = q_head s q" "q_tail s1 q = q_tail s q"
      using that by (cases q; simp add: s1_def upd_thr_def)+
    ultimately show ?thesis using f by simp
  qed
  moreover have "thr s2 (cur s) = thr s (cur s)" using f assms(2) by (simp add: s1_def upd_thr_def)
  ultimately show ?thesis
    using run f assms by (simp add: s'_def add_global_def s3_def s1_def upd_thr_def Let_def)
qed

text \<open>Cloning is safe for the scheduler as long as nobody sleeps on the lock inside the structure.\<close>

lemma CloneTCB_correct:
  assumes inv: "sched_inv s Q" and G: "thread_list s G" "G \<noteq> []"
    and new: "new \<noteq> 0" "new \<noteq> cur s" "new \<notin> set G" "free_of Q new" "newproc \<noteq> 0" "giNextTID s + 1 < two32"
    and locks: "Q (QMutex (DeadChildLock (cur s))) = []" "Q (QMutex (DeadChildLock new)) = []"
  shows "\<exists>s'. Threads_CloneTCB Flags new newproc s = Ret (new, s') \<and> sched_inv s' Q \<and> thread_list s' (new # G) \<and>
    TID (thr s' new) = giNextTID s \<and> Status (thr s' new) = THREAD_STAT_PREINIT \<and>
    Priority (thr s' new) = Priority (thr s (cur s)) \<and> (\<forall>t \<in> set G. TID (thr s' t) = TID (thr s t))"
proof -
  have g: "gAllThreads s \<noteq> new" using G new(3) by (cases G) (auto simp: thread_list_def)
  from CloneTCB_frame [OF new(1,2,5) g, of Flags] obtain s' where
    run: "Threads_CloneTCB Flags new newproc s = Ret (new, s')" and f: "cur s' = cur s"
    "giNumActiveThreads s' = giNumActiveThreads s" "giNextTID s' = u32 (giNextTID s + 1)" "gAllThreads s' = new"
    "\<And>m. mtx s' m = (if m = DeadChildLock new then mtx s (DeadChildLock (cur s)) else mtx s m)"
    "\<And>q. q \<noteq> QMutex (DeadChildLock new) \<Longrightarrow> q_head s' q = q_head s q \<and> q_tail s' q = q_tail s q"
    "\<And>t. t \<noteq> new \<Longrightarrow> thr s' t = (thr s t)\<lparr>GlobalPrev := GlobalPrev (thr s' t)\<rparr>"
    "Status (thr s' new) = THREAD_STAT_PREINIT" "TID (thr s' new) = giNextTID s" "Next (thr s' new) = 0"
    "GlobalNext (thr s' new) = gAllThreads s" "Priority (thr s' new) = Priority (thr s (cur s))" by blast
  have o: "Next (thr s' t) = Next (thr s t)" "Status (thr s' t) = Status (thr s t)" "TID (thr s' t) = TID (thr s t)"
    "Priority (thr s' t) = Priority (thr s t)" "GlobalNext (thr s' t) = GlobalNext (thr s t)" if "t \<noteq> new" for t
    by (subst f(7) [OF that], simp)+
  have nq: "t \<noteq> new" if "t \<in> set (Q q)" for t q using that new(4) by (auto simp: free_of_def)
  note qs = sched_queues [OF inv]
  have "q_head s' q = q_head s q \<and> q_tail s' q = q_tail s q" for q
    using f(5) [of "DeadChildLock new"] f(6) [of q] locks queues_head [OF qs, of "QMutex (DeadChildLock (cur s))"]
      queues_tail [OF qs, of "QMutex (DeadChildLock (cur s))"] queues_head [OF qs, of "QMutex (DeadChildLock new)"]
      queues_tail [OF qs, of "QMutex (DeadChildLock new)"] by (cases "q = QMutex (DeadChildLock new)") auto
  then have "queues s' Q = queues s Q" using o(1) nq by (intro queues_cong) auto
  then have inv': "sched_inv s' Q"
  proof (intro sched_invI)
    show "Priority (thr s' t) \<le> MIN_PRIORITY" for t
      using sched_basic [OF inv] o(4) [of t] f(12) by (cases "t = new") auto
    show "Status (thr s' t) = status_of q" if "t \<in> set (Q q)" for q t
      using that nq [OF that] o(2) sched_status [OF inv] by simp
    show "Priority (thr s' t) = p \<and> t \<noteq> cur s'" if "t \<in> set (Q (QActive p))" for p t
      using nq [OF that] o(4) sched_active [OF inv that] f(1) by simp
    show "t \<in> set (Q (QActive (Priority (thr s' t))))" if "Status (thr s' t) = THREAD_STAT_ACTIVE" "t \<noteq> cur s'" for t
      using that o(2,4) [of t] f(1,8) sched_ready [OF inv, of t] by (cases "t = new") auto
  qed (use qs f(1,2) sched_basic [OF inv] sched_count [OF inv] o(2) [of "cur s"] new(2) in auto)
  have nG: "t \<noteq> new" if "t \<in> set G" for t using that new(3) by blast
  have "lseg (\<lambda>t. GlobalNext (thr s' t)) (gAllThreads s) G = lseg (\<lambda>t. GlobalNext (thr s t)) (gAllThreads s) G"
    by (intro path_cong o(5) nG)
  moreover have tid: "TID (thr s' t) = TID (thr s t)" if "t \<in> set G" for t using o(3) [OF nG [OF that]] .
  moreover have "inj_on (\<lambda>t. TID (thr s' t)) (set G) = inj_on (\<lambda>t. TID (thr s t)) (set G)"
    by (intro inj_on_cong tid)
  ultimately have "thread_list s' (new # G)"
    using G(1) f(3,4,9,11) new(1,3,6) by (auto simp: thread_list_def u32_id)
  with run inv' f(8,9,12) tid show ?thesis by auto
qed

section \<open>Waking\<close>

lemma unlink_from_eq:
  assumes q: "queues s Q" and eq: "Q k = xs @ t # ys"
    and del: "Threads_int_DelFromQueue k t s = Some (Ret (t, s'))"
  shows "\<exists>pr. find_link (\<lambda>t. Next (thr s t)) t 0 (q_head s k) = Some (pr, t) \<and> unlink_from k pr t s = s' \<and> t \<noteq> 0"
proof -
  note rep = queuesD [OF q, of k, unfolded eq]
  have seg: "lseg (\<lambda>t. Next (thr s t)) (q_head s k) (xs @ t # ys)" and d: "distinct (xs @ t # ys)"
    and l: "q_tail s k = last (xs @ t # ys)" using rep by (auto simp: queue_rep_def)
  have nz: "0 \<notin> set (xs @ t # ys)" using queues_not_null [OF q, of 0 k] unfolding eq by blast
  have nt: "Next (thr s t) = 0 \<longleftrightarrow> ys = []" using lseg_suffix [OF seg] nz by (cases ys) auto
  have tl: "q_tail s k = t \<longleftrightarrow> ys = []" using l d by (cases ys rule: rev_cases) auto
  define pr where "pr = (if xs = [] then 0 else last xs)"
  have prt: "pr \<noteq> t" using d nz last_in_set [of xs] by (auto simp: pr_def)
  have f: "find_link (\<lambda>t. Next (thr s t)) t 0 (q_head s k) = Some (pr, t)"
    using find_link_present [OF seg, of 0] d by (simp add: pr_def)
  moreover have "unlink_from k pr t s = s'"
    using del f nz nt tl prt
    by (auto simp: Threads_int_DelFromQueue_def unlink_from_def Let_def set_Next_def thr_upd_thr split: if_splits)
  ultimately show ?thesis using nz by auto
qed

text \<open>A sleeper of the sleep queue or of either queue of a semaphore is taken off and made ready.\<close>

lemma Wake_sleeping:
  assumes inv: "sched_inv s Q" and eq: "Q QSleeping = xs @ t # ys"
  shows "\<exists>s'. Threads_Wake t s = Some (Ret (0, s')) \<and> same_but_queues (activated t s) s' \<and>
    sched_inv s' (woken t s (Q(QSleeping := xs @ ys)))"
proof -
  have st: "Status (thr s t) = THREAD_STAT_SLEEPING" using sched_status [OF inv, of t QSleeping] eq by simp
  from sched_del [OF inv eq] obtain s1 where s1: "Threads_int_DelFromQueue QSleeping t s = Some (Ret (t, s1))"
    "same_but_queues s s1" "sched_inv s1 (Q(QSleeping := xs @ ys))" "free_of (Q(QSleeping := xs @ ys)) t" "t \<noteq> 0" by auto
  have "Status (thr s1 t) \<noteq> THREAD_STAT_ACTIVE" using st same_but_queues_thr(1) [OF s1(2)] by simp
  from AddActive_spec [OF s1(3,5) this s1(4)] obtain s' where s': "Threads_AddActive t s1 = Ret s'"
    "same_but_queues (activated t s1) s'" "sched_inv s' (woken t s1 (Q(QSleeping := xs @ ys)))" by blast
  have "woken t s1 R = woken t s R" for R
    using same_but_queues_glob(1) [OF s1(2)] same_but_queues_thr(2) [OF s1(2)] by (simp add: woken_def)
  with s' s1(1,5) st same_but_queues_trans [OF same_but_queues_activated [OF s1(2)] s'(2)] show ?thesis
    by (auto simp: Threads_Wake_def)
qed

lemma Wake_semaphore:
  assumes inv: "sched_inv s Q" and w: "WaitPointer (thr s t) = WSem a" and k: "k = QSemWait a \<or> k = QSemSignal a"
    and eq: "Q k = xs @ t # ys"
  shows "\<exists>s'. Threads_Wake t s = Some (Ret (0, s')) \<and> same_but_queues (activated t (set_RetStatus t 0 s)) s' \<and>
    sched_inv s' (woken t s (Q(k := xs @ ys)))"
proof -
  note qs = sched_queues [OF inv]
  have na: "status_of k \<noteq> THREAD_STAT_ACTIVE" using k by auto
  have st: "Status (thr s t) = THREAD_STAT_SEMAPHORESLEEP" using sched_status [OF inv, of t k] eq k by auto
  from sched_del [OF inv eq na] obtain s1 where s1: "Threads_int_DelFromQueue k t s = Some (Ret (t, s1))"
    "same_but_queues s s1" "sched_inv s1 (Q(k := xs @ ys))" "free_of (Q(k := xs @ ys)) t" "t \<noteq> 0" by auto
  from unlink_from_eq [OF qs eq s1(1)] obtain pr where pr:
    "find_link (\<lambda>t. Next (thr s t)) t 0 (q_head s k) = Some (pr, t)" "unlink_from k pr t s = s1" by blast
  let ?s = "set_RetStatus t 0 s1"
  have "Threads_Wake t s = obind (Some (Threads_AddActive t ?s)) (\<lambda>s. Some (Ret (- errno_value EOK, s)))"
  proof (cases "k = QSemWait a")
    case True
    then show ?thesis using pr s1(5) st w by (simp add: Threads_Wake_def Let_def)
  next
    case False
    then have "t \<notin> set (Q (QSemWait a))" using queues_disjoint [OF qs, of t k "QSemWait a"] eq by auto
    moreover have "lseg (\<lambda>t. Next (thr s t)) (SWaiting (sem s a)) (Q (QSemWait a))"
      using queuesD [OF qs, of "QSemWait a"] by (simp add: queue_rep_def)
    ultimately obtain pr' where "find_link (\<lambda>t. Next (thr s t)) t 0 (SWaiting (sem s a)) = Some (pr', 0)"
      using find_link_absent by blast
    then show ?thesis using pr s1(5) st w k False by (simp add: Threads_Wake_def Let_def)
  qed
  moreover have "Status (thr ?s t) \<noteq> THREAD_STAT_ACTIVE"
    using st same_but_queues_thr(1) [OF s1(2)] by (simp add: set_RetStatus_def upd_thr_def)
  from AddActive_spec [OF _ s1(5) this s1(4)] s1(3) obtain s' where s': "Threads_AddActive t ?s = Ret s'"
    "same_but_queues (activated t ?s) s'" "sched_inv s' (woken t ?s (Q(k := xs @ ys)))" by auto
  moreover have same: "same_but_queues (set_RetStatus t 0 s) ?s"
    using same_but_queues_core [OF s1(2), of t] s1(2) unfolding set_RetStatus_def
    by (intro same_but_queues_upd2) (simp_all add: thread_core_upd)
  moreover have "woken t ?s R = woken t s R" for R
    using same_but_queues_glob(1) [OF s1(2)] same_but_queues_thr(2) [OF s1(2)]
    by (simp add: woken_def set_RetStatus_def upd_thr_def)
  ultimately show ?thesis using same_but_queues_trans [OF same_but_queues_activated [OF same] s'(2)] by auto
qed

end
