(* ===== verification/Messages.thy ===== *)
theory Messages
  imports Thread_Life_Correct
begin

text \<open>
  Messages between threads, \<open>messages.c\<close>. The header of a message is a record in the message store and
  its data follow at offset 12 in memory: the twelve bytes of the header are not part of the memory, and
  nothing but the routines here reads or writes them. The address \<open>malloc\<close> returned is an argument.
\<close>

section \<open>Model\<close>

definition sizeof_tMsg :: nat where "sizeof_tMsg = 12"

definition GETMSG_IGNORE :: ptr where "GETMSG_IGNORE = two32 - 1"

definition set_errno :: "libc_eErrorNumbers \<Rightarrow> kstate \<Rightarrow> kstate" where
  "set_errno e s = upd_thr (cur s) (\<lambda>t. t\<lparr>errno := - errno_value e\<rparr>) s"

text \<open>Appending a message to the mailbox of a thread.\<close>

definition append_message :: "ptr \<Rightarrow> ptr \<Rightarrow> kstate \<Rightarrow> kstate" where
  "append_message thread m s =
     (if LastMessage (thr s thread) \<noteq> 0 then
        (let s = s\<lparr>msg := (msg s)(LastMessage (thr s thread) := (msg s (LastMessage (thr s thread)))\<lparr>MNext := m\<rparr>)\<rparr>
         in upd_thr thread (\<lambda>t. t\<lparr>LastMessage := m\<rparr>) s)
      else upd_thr thread (\<lambda>t. t\<lparr>Messages := m, LastMessage := m\<rparr>) s)"

definition Proc_SendMessage :: "nat \<Rightarrow> int \<Rightarrow> ptr \<Rightarrow> ptr \<Rightarrow> kstate \<Rightarrow> (int \<times> kstate) outcome option" where
  "Proc_SendMessage Dest Length Data m s =
     (if Length \<le> 0 \<or> Data = 0 then Some (Ret (- 1, set_errno EINVAL s))
      else (case Threads_GetThread Dest s of
        None \<Rightarrow> None
      | Some thread \<Rightarrow>
          (if thread = 0 then Some (Ret (- 1, s))
           else if Status (thr s thread) = THREAD_STAT_DEAD then Some (Ret (- 1, s))
           else if m = 0 then Some Panicked
           else
             (let s = s\<lparr>msg := (msg s)(m := \<lparr>MNext = 0, MSource = TID (thr s (cur s)), MLength = nat Length\<rparr>)\<rparr>;
                  s = s\<lparr>kmem := memcpy (kmem s) (m + sizeof_tMsg) Data (nat Length)\<rparr>;
                  s = append_message thread m s
              in obind (Threads_PostEvent thread THREAD_EVENT_IPCMSG s) (\<lambda>s. Some (Ret (0, s)))))))"

text \<open>\<open>check_mem\<close> is what \<open>CheckMem\<close> answers for the buffer; the source is returned beside the length.\<close>

definition Proc_GetMessage :: "(ptr \<Rightarrow> nat \<Rightarrow> bool) \<Rightarrow> nat \<Rightarrow> ptr \<Rightarrow> kstate \<Rightarrow> int \<times> nat option \<times> kstate" where
  "Proc_GetMessage check_mem BufSize Buffer s =
     (let us = cur s; m = Messages (thr s us) in
      if m = 0 then (0, None, s)
      else
        (let Source = Some (MSource (msg s m)) in
         if Buffer = 0 then (int (MLength (msg s m)), Source, s)
         else if Buffer \<noteq> GETMSG_IGNORE \<and> \<not> check_mem Buffer BufSize then (- 1, Source, set_errno EINVAL s)
         else
           (let s = (if Buffer \<noteq> GETMSG_IGNORE
                     then s\<lparr>kmem := memcpy (kmem s) Buffer (m + sizeof_tMsg) BufSize\<rparr> else s);
                ret = int (MLength (msg s m));
                s = upd_thr us (\<lambda>t. t\<lparr>Messages := MNext (msg s m)\<rparr>) s;
                s = (if Messages (thr s us) = 0 then upd_thr us (\<lambda>t. t\<lparr>LastMessage := 0\<rparr>) s
                     else set_EventState us (EventState (thr s us) OR THREAD_EVENT_IPCMSG) s)
            in (ret, Source, s))))"

section \<open>Mailboxes\<close>

definition mailbox :: "kstate \<Rightarrow> ptr \<Rightarrow> ptr list \<Rightarrow> bool" where
  "mailbox s t ms \<longleftrightarrow> queue_rep (\<lambda>m. MNext (msg s m)) (Messages (thr s t)) (LastMessage (thr s t)) ms"

lemma mailbox_cong:
  "(\<And>m. m \<in> set ms \<Longrightarrow> MNext (msg s' m) = MNext (msg s m)) \<Longrightarrow> Messages (thr s' t) = Messages (thr s t) \<Longrightarrow>
   LastMessage (thr s' t) = LastMessage (thr s t) \<Longrightarrow> mailbox s' t ms = mailbox s t ms"
  unfolding mailbox_def queue_rep_def
  using path_cong [of ms "\<lambda>m. MNext (msg s' m)" "\<lambda>m. MNext (msg s m)"] by simp

lemma append_message_mailbox:
  assumes "mailbox s t ms" "m \<notin> set ms" "m \<noteq> 0" "MNext (msg s m) = 0"
  shows "mailbox (append_message t m s) t (ms @ [m])"
proof -
  have l: "LastMessage (thr s t) = 0 \<longleftrightarrow> ms = []"
    using queue_rep_tail assms(1) unfolding mailbox_def by blast
  have lm: "ms \<noteq> [] \<Longrightarrow> LastMessage (thr s t) \<noteq> m"
    using assms(1,2) last_in_set [of ms] by (auto simp: mailbox_def queue_rep_def)
  let ?n = "\<lambda>m. MNext (msg s m)" and ?l = "LastMessage (thr s t)"
  have n: "?n(m := 0) = ?n" "?n(?l := m, m := 0) = ?n(?l := m)" if "ms \<noteq> []" using that assms(4) lm by (auto simp: fun_eq_iff)
  have "(\<lambda>x. MNext (msg (append_message t m s) x)) = (if ms = [] then ?n else ?n(?l := m))"
    using l by (auto simp: append_message_def Let_def upd_thr_def fun_eq_iff)
  moreover have "Messages (thr (append_message t m s) t) = (if ms = [] then m else Messages (thr s t))"
      "LastMessage (thr (append_message t m s) t) = m"
    using l by (simp_all add: append_message_def Let_def upd_thr_def)
  moreover have "?n(m := 0) = ?n" using assms(4) by (auto simp: fun_eq_iff)
  ultimately show ?thesis
    using queue_rep_push [of ?n "Messages (thr s t)" ?l ms m] assms(1-3) n
    unfolding mailbox_def by (auto split: if_splits)
qed

lemma append_message_frame [simp]:
  "cur (append_message t m s) = cur s" "kmem (append_message t m s) = kmem s"
  "MLength (msg (append_message t m s) x) = MLength (msg s x)" "MSource (msg (append_message t m s) x) = MSource (msg s x)"
  "Status (thr (append_message t m s) x) = Status (thr s x)" "RetStatus (thr (append_message t m s) x) = RetStatus (thr s x)"
  by (simp_all add: append_message_def Let_def upd_thr_def)

lemma GetMessage_first:
  assumes "mailbox s (cur s) (m # ms)" "b \<noteq> 0" "b \<noteq> GETMSG_IGNORE" "check_mem b n"
  shows "\<exists>s'. Proc_GetMessage check_mem n b s = (int (MLength (msg s m)), Some (MSource (msg s m)), s') \<and>
    mailbox s' (cur s) ms \<and> kmem s' = memcpy (kmem s) b (m + sizeof_tMsg) n \<and> cur s' = cur s \<and> msg s' = msg s"
proof -
  note rep = assms(1) [unfolded mailbox_def]
  note pop = queue_rep_pop [OF rep] and nx = queue_rep_next [OF rep]
  have m: "Messages (thr s (cur s)) = m" "m \<noteq> 0"
    using pop(1) rep path_not_null by (auto simp: queue_rep_def)
  show ?thesis
    using m assms(2-4) pop(2) nx
    by (auto simp: Proc_GetMessage_def Let_def mailbox_def set_EventState_def upd_thr_def split: if_splits)
qed

text \<open>Posting the message event always returns and leaves messages and memory alone.\<close>

lemma AddActive_same:
  assumes "Threads_AddActive t s = Ret s'"
  shows "same_but_queues (activated t s) s'"
proof -
  let ?s = "set_Status t THREAD_STAT_ACTIVE s"
  have n: "giNumActiveThreads ?s = giNumActiveThreads s" by (simp add: set_Status_def upd_thr_def)
  have "\<exists>s1. same_but_queues ?s s1 \<and> s' = s1\<lparr>giNumActiveThreads := giNumActiveThreads s + 1\<rparr>"
    using assms AddToList_same [of ?s] AddToList_glob(2) n same_but_queues_refl [of ?s]
    by (auto simp: Threads_AddActive_def Let_def simp del: same_but_queues_refl split: if_splits)
  then show ?thesis using same_but_queues_num by (auto simp: activated_def)
qed

definition mail_frame :: "kstate \<Rightarrow> kstate \<Rightarrow> bool" where
  "mail_frame s s' \<longleftrightarrow> msg s' = msg s \<and> kmem s' = kmem s \<and> cur s' = cur s \<and>
     (\<forall>x. Messages (thr s' x) = Messages (thr s x) \<and> LastMessage (thr s' x) = LastMessage (thr s x) \<and>
          TID (thr s' x) = TID (thr s x))"

lemma mail_frame_activated: "same_but_queues (activated t s) s' \<Longrightarrow> mail_frame s s'"
  using same_but_queues_thr(6,12,13) [of "activated t s" s'] same_but_queues_glob(1,13,14) [of "activated t s" s']
  by (auto simp: mail_frame_def activated_def set_Status_def upd_thr_def)

lemma PostEvent_IPCMSG:
  assumes "t \<noteq> 0"
  shows "\<exists>s'. Threads_PostEvent t THREAD_EVENT_IPCMSG s = Some (Ret s') \<and> mail_frame s s' \<and>
    EventState (thr s' t) AND THREAD_EVENT_IPCMSG \<noteq> 0"
proof -
  let ?s = "set_EventState t (EventState (thr s t) OR THREAD_EVENT_IPCMSG) s"
  have ev: "(EventState (thr s t) OR THREAD_EVENT_IPCMSG) AND THREAD_EVENT_IPCMSG \<noteq> 0"
    by (simp add: THREAD_EVENT_IPCMSG_def bit.conj_disj_distrib2)
  have f: "mail_frame s ?s" by (simp add: mail_frame_def set_EventState_def upd_thr_def)
  have c: "THREAD_EVENT_IPCMSG \<noteq> 0" "THREAD_EVENT_IPCMSG AND THREAD_EVENT_TIMER = 0"
    by (simp_all add: THREAD_EVENT_IPCMSG_def THREAD_EVENT_TIMER_def)
  show ?thesis
  proof (cases "Status (thr s t) = THREAD_STAT_EVENTSLEEP \<and>
      (word_of_int (RetStatus (thr s t)) AND THREAD_EVENT_IPCMSG) \<noteq> 0")
    case True
    then obtain s' where s': "Threads_AddActive t ?s = Ret s'"
      by (auto simp: Threads_AddActive_def Let_def)
    note same = AddActive_same [OF s']
    have "mail_frame ?s s'" using mail_frame_activated [OF same] .
    then have "mail_frame s s'" using f by (simp add: mail_frame_def)
    moreover have "EventState (thr s' t) = EventState (thr ?s t)" using same_but_queues_thr(5) [OF same, of t] by simp
    ultimately show ?thesis using True s' c assms ev by (simp add: Threads_PostEvent_def Let_def)
  next
    case False
    then have "Threads_PostEvent t THREAD_EVENT_IPCMSG s = Some (Ret ?s)"
      using c assms by (cases "Status (thr s t)") (auto simp: Threads_PostEvent_def Let_def)
    with f ev show ?thesis by simp
  qed
qed

lemma mail_frame_mailbox: "mail_frame s s' \<Longrightarrow> mailbox s' t ms = mailbox s t ms"
  by (rule mailbox_cong) (auto simp: mail_frame_def)

lemma SendMessage_delivers:
  assumes G: "thread_list s G" "t \<in> set G" and live: "Status (thr s t) \<noteq> THREAD_STAT_DEAD"
    and box: "mailbox s t ms" and m: "m \<noteq> 0" "m \<notin> set ms" and d: "0 < n" "a \<noteq> 0"
  shows "\<exists>s'. Proc_SendMessage (TID (thr s t)) (int n) a m s = Some (Ret (0, s')) \<and> mailbox s' t (ms @ [m]) \<and>
    kmem s' = memcpy (kmem s) (m + sizeof_tMsg) a n \<and> MLength (msg s' m) = n \<and>
    MSource (msg s' m) = TID (thr s (cur s)) \<and> cur s' = cur s \<and>
    EventState (thr s' t) AND THREAD_EVENT_IPCMSG \<noteq> 0"
proof -
  have "0 \<notin> set G" using G(1) path_not_null unfolding thread_list_def by blast
  then have t0: "t \<noteq> 0" using G(2) by metis
  define s1 where "s1 = s\<lparr>msg := (msg s)(m := \<lparr>MNext = 0, MSource = TID (thr s (cur s)), MLength = n\<rparr>),
    kmem := memcpy (kmem s) (m + sizeof_tMsg) a n\<rparr>"
  have "mailbox s1 t ms = mailbox s t ms" using m(2) by (intro mailbox_cong) (auto simp: s1_def)
  with append_message_mailbox [of s1 t ms m] box m have b: "mailbox (append_message t m s1) t (ms @ [m])"
    by (simp add: s1_def)
  from PostEvent_IPCMSG [OF t0, of "append_message t m s1"] obtain s' where
    s': "Threads_PostEvent t THREAD_EVENT_IPCMSG (append_message t m s1) = Some (Ret s')"
    "mail_frame (append_message t m s1) s'" "EventState (thr s' t) AND THREAD_EVENT_IPCMSG \<noteq> 0" by blast
  have "Proc_SendMessage (TID (thr s t)) (int n) a m s = Some (Ret (0, s'))"
    using GetThread_found [OF G] t0 live m(1) d s'(1) by (simp add: Proc_SendMessage_def Let_def s1_def)
  with b s'(2,3) mail_frame_mailbox [OF s'(2)] show ?thesis by (auto simp: mail_frame_def s1_def)
qed

end
