(* ===== verification/RWLock.thy ===== *)
theory RWLock
  imports Scheduler
begin

text \<open>
  Reader/writer locks, \<open>rwlock.c\<close>. As for the mutex, the flag of an acquire is false when the caller
  went to sleep; a sleeper is only woken once the lock counts it as a reader or as its owner.
\<close>

section \<open>Model\<close>

definition RWLock_AcquireRead :: "ptr \<Rightarrow> kstate \<Rightarrow> bool \<times> kstate" where
  "RWLock_AcquireRead Lock s =
     (if RWOwner (rwl s Lock) \<noteq> 0 \<or> WriterWaiting (rwl s Lock) \<noteq> 0
      then (False, Threads_int_Sleep THREAD_STAT_RWLOCKSLEEP (WRWLock Lock) 0 (OnQueue (QReader Lock)) s)
      else (True, s\<lparr>rwl := (rwl s)(Lock := (rwl s Lock)\<lparr>Level := Level (rwl s Lock) + 1\<rparr>)\<rparr>))"

definition RWLock_AcquireWrite :: "ptr \<Rightarrow> kstate \<Rightarrow> bool \<times> kstate" where
  "RWLock_AcquireWrite Lock s =
     (if RWOwner (rwl s Lock) \<noteq> 0 \<or> Level (rwl s Lock) \<noteq> 0
      then (False, Threads_int_Sleep THREAD_STAT_RWLOCKSLEEP (WRWLock Lock) 0 (OnQueue (QWriter Lock)) s)
      else (True, s\<lparr>rwl := (rwl s)(Lock := (rwl s Lock)\<lparr>RWOwner := cur s\<rparr>)\<rparr>))"

text \<open>The loop that wakes the waiting readers.\<close>

partial_function (option) wake_readers :: "ptr \<Rightarrow> kstate \<Rightarrow> kstate outcome option" where
  "wake_readers Lock s =
     (if ReaderWaiting (rwl s Lock) \<noteq> 0 then
        (let s = s\<lparr>rwl := (rwl s)(Lock := (rwl s Lock)\<lparr>Level := Level (rwl s Lock) + 1\<rparr>)\<rparr>
         in case Threads_AddActive (ReaderWaiting (rwl s Lock)) s of
              Panicked \<Rightarrow> Some Panicked
            | Ret s \<Rightarrow>
                (let s = s\<lparr>rwl := (rwl s)(Lock := (rwl s Lock)\<lparr>ReaderWaiting :=
                             Next (thr s (ReaderWaiting (rwl s Lock)))\<rparr>)\<rparr>
                 in wake_readers Lock s))
      else Some (Ret s))"

definition RWLock_Release :: "ptr \<Rightarrow> kstate \<Rightarrow> kstate outcome option" where
  "RWLock_Release Lock s =
     (let s = (if RWOwner (rwl s Lock) \<noteq> cur s
               then s\<lparr>rwl := (rwl s)(Lock := (rwl s Lock)\<lparr>Level := Level (rwl s Lock) - 1\<rparr>)\<rparr> else s) in
      if WriterWaiting (rwl s Lock) \<noteq> 0 then
        (let s = s\<lparr>rwl := (rwl s)(Lock := (rwl s Lock)\<lparr>RWOwner := WriterWaiting (rwl s Lock)\<rparr>)\<rparr>;
             s = s\<lparr>rwl := (rwl s)(Lock := (rwl s Lock)\<lparr>WriterWaiting :=
                     Next (thr s (WriterWaiting (rwl s Lock)))\<rparr>)\<rparr>
         in Some (if Status (thr s (RWOwner (rwl s Lock))) \<noteq> THREAD_STAT_ACTIVE
                  then Threads_AddActive (RWOwner (rwl s Lock)) s else Ret s))
      else
        (let s = s\<lparr>rwl := (rwl s)(Lock := (rwl s Lock)\<lparr>RWOwner := 0\<rparr>)\<rparr>
         in wake_readers Lock s))"

section \<open>Frames\<close>

definition upd_rwl :: "ptr \<Rightarrow> (tRWLock \<Rightarrow> tRWLock) \<Rightarrow> kstate \<Rightarrow> kstate" where
  "upd_rwl a f s = s\<lparr>rwl := (rwl s)(a := f (rwl s a))\<rparr>"

lemma upd_rwl_simps [simp]:
  "thr (upd_rwl a f s) = thr s" "cur (upd_rwl a f s) = cur s"
  "rwl (upd_rwl a f s) = (rwl s)(a := f (rwl s a))"
  "giNumActiveThreads (upd_rwl a f s) = giNumActiveThreads s"
  by (simp_all add: upd_rwl_def)

lemma upd_rwl_inv:
  assumes "\<And>l. ReaderWaiting (f l) = ReaderWaiting l" "\<And>l. ReaderWaitingLast (f l) = ReaderWaitingLast l"
    "\<And>l. WriterWaiting (f l) = WriterWaiting l" "\<And>l. WriterWaitingLast (f l) = WriterWaitingLast l"
  shows "sched_inv (upd_rwl a f s) Q = sched_inv s Q"
proof -
  have "q_head (upd_rwl a f s) q = q_head s q \<and> q_tail (upd_rwl a f s) q = q_tail s q" for q
    using assms by (cases q) (simp_all add: upd_rwl_def)
  then have "queues (upd_rwl a f s) Q = queues s Q" by (intro queues_cong) simp_all
  then show ?thesis unfolding sched_inv_def upd_rwl_simps by simp
qed

lemma AddActive_rwl: "Threads_AddActive t s = Ret s' \<Longrightarrow> rwl s' = rwl s \<and> cur s' = cur s"
  by (auto simp: Threads_AddActive_def Threads_int_AddToList_def Let_def set_Status_def set_Next_def upd_thr_def
    split: if_splits)

lemma AddActive_Status:
  "Threads_AddActive t s = Ret s' \<Longrightarrow> Status (thr s' x) = (if x = t then THREAD_STAT_ACTIVE else Status (thr s x))"
  by (auto simp: Threads_AddActive_def Threads_int_AddToList_def Let_def set_Status_def set_Next_def upd_thr_def
    split: if_splits)

text \<open>A woken thread other than the running one is the last of its ready queue.\<close>

lemma AddActive_Next: "Threads_AddActive t s = Ret s' \<Longrightarrow> t \<noteq> cur s \<Longrightarrow> Next (thr s' t) = 0"
  by (auto simp: Threads_AddActive_def Threads_int_AddToList_def Let_def set_Status_def set_Next_def upd_thr_def
    split: if_splits)

lemma AddActive_returns: "Status (thr s t) \<noteq> THREAD_STAT_ACTIVE \<Longrightarrow> \<exists>s'. Threads_AddActive t s = Ret s'"
  by (simp add: Threads_AddActive_def Let_def)

section \<open>What the operations do\<close>

lemma AcquireRead_free:
  "RWOwner (rwl s a) = 0 \<Longrightarrow> WriterWaiting (rwl s a) = 0 \<Longrightarrow>
   RWLock_AcquireRead a s = (True, upd_rwl a (\<lambda>l. l\<lparr>Level := Level l + 1\<rparr>) s)"
  by (simp add: RWLock_AcquireRead_def upd_rwl_def)

lemma AcquireWrite_free:
  "RWOwner (rwl s a) = 0 \<Longrightarrow> Level (rwl s a) = 0 \<Longrightarrow>
   RWLock_AcquireWrite a s = (True, upd_rwl a (\<lambda>l. l\<lparr>RWOwner := cur s\<rparr>) s)"
  by (simp add: RWLock_AcquireWrite_def upd_rwl_def)

text \<open>Releasing as a reader with a writer waiting makes that writer the owner, whatever the level.\<close>

lemma Release_to_writer:
  assumes inv: "sched_inv s Q" and w: "Q (QWriter a) = w # ws" and o: "RWOwner (rwl s a) \<noteq> cur s"
  shows "\<exists>s'. RWLock_Release a s = Some (Ret s') \<and> RWOwner (rwl s' a) = w \<and> Level (rwl s' a) = Level (rwl s a) - 1 \<and>
    WriterWaiting (rwl s' a) = Next (thr s w) \<and> WriterWaitingLast (rwl s' a) = WriterWaitingLast (rwl s a) \<and>
    Status (thr s' w) = THREAD_STAT_ACTIVE \<and> cur s' = cur s"
proof -
  have h: "WriterWaiting (rwl s a) = w" "w \<noteq> 0" "Status (thr s w) = THREAD_STAT_RWLOCKSLEEP"
    using queues_head [OF sched_queues [OF inv], of "QWriter a"] w sched_status [OF inv, of w "QWriter a"]
      queues_not_null [OF sched_queues [OF inv], of w "QWriter a"] by auto
  define s1 where "s1 = upd_rwl a (\<lambda>l. l\<lparr>Level := Level l - 1, RWOwner := w, WriterWaiting := Next (thr s w)\<rparr>) s"
  from AddActive_returns [of s1 w] h(3) obtain s' where s': "Threads_AddActive w s1 = Ret s'" by (auto simp: s1_def)
  have "RWLock_Release a s = Some (Threads_AddActive w s1)"
    using o h by (simp add: RWLock_Release_def Let_def s1_def upd_rwl_def)
  with s' AddActive_rwl [OF s'] AddActive_Status [OF s'] show ?thesis by (simp add: s1_def)
qed

text \<open>
  Releasing as the writer with readers waiting wakes the first of them only: its \<open>Next\<close> pointer is
  read after \<open>Threads_AddActive\<close> has put it on a ready queue.
\<close>

lemma Release_to_readers:
  assumes inv: "sched_inv s Q" and r: "Q (QReader a) = r # rs" and o: "RWOwner (rwl s a) = cur s"
    and nw: "Q (QWriter a) = []" and nc: "r \<noteq> cur s"
  shows "\<exists>s'. RWLock_Release a s = Some (Ret s') \<and> RWOwner (rwl s' a) = 0 \<and> Level (rwl s' a) = Level (rwl s a) + 1 \<and>
    ReaderWaiting (rwl s' a) = 0 \<and> (\<forall>t. Status (thr s' t) = (if t = r then THREAD_STAT_ACTIVE else Status (thr s t)))"
proof -
  have h: "ReaderWaiting (rwl s a) = r" "r \<noteq> 0" "Status (thr s r) = THREAD_STAT_RWLOCKSLEEP" "WriterWaiting (rwl s a) = 0"
    using queues_head [OF sched_queues [OF inv], of "QReader a"] r sched_status [OF inv, of r "QReader a"]
      queues_not_null [OF sched_queues [OF inv], of r "QReader a"]
      queues_head [OF sched_queues [OF inv], of "QWriter a"] nw by auto
  define s1 where "s1 = upd_rwl a (\<lambda>l. l\<lparr>RWOwner := 0\<rparr>) s"
  define s2 where "s2 = upd_rwl a (\<lambda>l. l\<lparr>Level := Level l + 1\<rparr>) s1"
  from AddActive_returns [of s2 r] h(3) obtain s3 where s3: "Threads_AddActive r s2 = Ret s3" by (auto simp: s2_def s1_def)
  define s4 where "s4 = upd_rwl a (\<lambda>l. l\<lparr>ReaderWaiting := 0\<rparr>) s3"
  note rw = AddActive_rwl [OF s3] and st = AddActive_Status [OF s3]
  have nx: "Next (thr s3 r) = 0" using AddActive_Next [OF s3] nc by (simp add: s2_def s1_def)
  have "RWLock_Release a s = wake_readers a s1"
    using o h by (simp add: RWLock_Release_def Let_def s1_def upd_rwl_def)
  also have "\<dots> = wake_readers a s4"
    using h(1,2) s3 nx rw
    by (subst wake_readers.simps) (simp add: s4_def s2_def s1_def upd_rwl_def)
  also have "\<dots> = Some (Ret s4)" by (subst wake_readers.simps) (simp add: s4_def)
  finally show ?thesis using rw st by (simp add: s4_def s2_def s1_def)
qed

end
