(* ===== verification/Workqueue.thy ===== *)
theory Workqueue
  imports Scheduler
begin

text \<open>
  Work queues, \<open>workqueue.c\<close>: items linked through a field of their own, and threads that sleep until
  there is an item. \<open>wnext\<close> is the link field that \<open>QUEUENEXT\<close> reads and writes.
\<close>

section \<open>Model\<close>

definition Workqueue_Init :: "ptr \<Rightarrow> kstate \<Rightarrow> kstate" where
  "Workqueue_Init Queue s = s\<lparr>wq := (wq s)(Queue := (wq s Queue)\<lparr>Sleeper := 0, SleepTail := 0\<rparr>)\<rparr>"

text \<open>
  One round of the loop of \<open>Workqueue_GetWork\<close>: the item taken, or \<open>None\<close> when the caller went to
  sleep and runs the loop again once it is woken.
\<close>

definition Workqueue_GetWork :: "ptr \<Rightarrow> kstate \<Rightarrow> ptr option \<times> kstate" where
  "Workqueue_GetWork Queue s =
     (if QHead (wq s Queue) \<noteq> 0 then
        (let ret = QHead (wq s Queue);
             s = s\<lparr>wq := (wq s)(Queue := (wq s Queue)\<lparr>QHead := wnext s ret\<rparr>)\<rparr>;
             s = (if QTail (wq s Queue) = ret then s\<lparr>wq := (wq s)(Queue := (wq s Queue)\<lparr>QTail := 0\<rparr>)\<rparr> else s)
         in (Some ret, s))
      else (None, Threads_int_Sleep THREAD_STAT_QUEUESLEEP (WQueue Queue) 0 (OnQueue (QWork Queue)) s))"

definition Workqueue_AddWork :: "ptr \<Rightarrow> ptr \<Rightarrow> kstate \<Rightarrow> kstate outcome" where
  "Workqueue_AddWork Queue Ptr s =
     (let s = (if QTail (wq s Queue) \<noteq> 0 then s\<lparr>wnext := (wnext s)(QTail (wq s Queue) := Ptr)\<rparr>
               else s\<lparr>wq := (wq s)(Queue := (wq s Queue)\<lparr>QHead := Ptr\<rparr>)\<rparr>);
          s = s\<lparr>wq := (wq s)(Queue := (wq s Queue)\<lparr>QTail := Ptr\<rparr>)\<rparr>;
          s = s\<lparr>wnext := (wnext s)(Ptr := 0)\<rparr> in
      if Sleeper (wq s Queue) \<noteq> 0 then
        (if Status (thr s (Sleeper (wq s Queue))) = THREAD_STAT_ACTIVE then Panicked
         else
           (let next_sleeper = Next (thr s (Sleeper (wq s Queue)))
            in bind_outcome (Threads_AddActive (Sleeper (wq s Queue)) s) (\<lambda>s.
                 let s = s\<lparr>wq := (wq s)(Queue := (wq s Queue)\<lparr>Sleeper := next_sleeper\<rparr>)\<rparr>
                 in Ret (if next_sleeper = 0 then s\<lparr>wq := (wq s)(Queue := (wq s Queue)\<lparr>SleepTail := 0\<rparr>)\<rparr> else s))))
      else Ret s)"

section \<open>The items of the queues\<close>

definition items :: "kstate \<Rightarrow> (ptr \<Rightarrow> ptr list) \<Rightarrow> bool" where
  "items s I \<longleftrightarrow> (\<forall>a. queue_rep (wnext s) (QHead (wq s a)) (QTail (wq s a)) (I a)) \<and>
     (\<forall>a b x. x \<in> set (I a) \<longrightarrow> x \<in> set (I b) \<longrightarrow> a = b)"

lemma itemsD: "items s I \<Longrightarrow> queue_rep (wnext s) (QHead (wq s a)) (QTail (wq s a)) (I a)"
  by (simp add: items_def)

lemma items_disjoint: "items s I \<Longrightarrow> x \<in> set (I a) \<Longrightarrow> x \<in> set (I b) \<Longrightarrow> a = b"
  by (auto simp: items_def)

lemma items_cong:
  "wnext s' = wnext s \<Longrightarrow> (\<And>a. QHead (wq s' a) = QHead (wq s a)) \<Longrightarrow> (\<And>a. QTail (wq s' a) = QTail (wq s a)) \<Longrightarrow>
   items s' I = items s I"
  by (simp add: items_def)

lemma items_same: "same_but_queues s s' \<Longrightarrow> items s' I = items s I"
  by (intro items_cong same_but_queues_glob)

text \<open>Adding and taking an item, before any thread is touched.\<close>

definition push_item :: "ptr \<Rightarrow> ptr \<Rightarrow> kstate \<Rightarrow> kstate" where
  "push_item a x s =
     (let s = (if QTail (wq s a) \<noteq> 0 then s\<lparr>wnext := (wnext s)(QTail (wq s a) := x)\<rparr>
               else s\<lparr>wq := (wq s)(a := (wq s a)\<lparr>QHead := x\<rparr>)\<rparr>);
          s = s\<lparr>wq := (wq s)(a := (wq s a)\<lparr>QTail := x\<rparr>)\<rparr>
      in s\<lparr>wnext := (wnext s)(x := 0)\<rparr>)"

definition take_item :: "ptr \<Rightarrow> kstate \<Rightarrow> (ptr \<times> kstate) option" where
  "take_item a s =
     (if QHead (wq s a) = 0 then None
      else
        (let x = QHead (wq s a);
             s = s\<lparr>wq := (wq s)(a := (wq s a)\<lparr>QHead := wnext s x\<rparr>)\<rparr>
         in Some (x, if QTail (wq s a) = x then s\<lparr>wq := (wq s)(a := (wq s a)\<lparr>QTail := 0\<rparr>)\<rparr> else s)))"

lemma push_item_frame [simp]:
  "thr (push_item a x s) = thr s" "cur (push_item a x s) = cur s"
  "giNumActiveThreads (push_item a x s) = giNumActiveThreads s"
  "q_head (push_item a x s) q = q_head s q" "q_tail (push_item a x s) q = q_tail s q"
  by (simp_all add: push_item_def Let_def) (cases q; auto)+

lemma push_item_inv [simp]: "sched_inv (push_item a x s) Q = sched_inv s Q"
proof -
  have "queues (push_item a x s) Q = queues s Q" by (rule queues_cong) simp_all
  then show ?thesis by (simp add: sched_inv_def)
qed

lemma push_item_fields:
  "QTail (wq (push_item a x s) b) = (if b = a then x else QTail (wq s b))"
  "QHead (wq (push_item a x s) b) = (if b = a \<and> QTail (wq s a) = 0 then x else QHead (wq s b))"
  "wnext (push_item a x s) = (if QTail (wq s a) = 0 then (wnext s)(x := 0) else (wnext s)(QTail (wq s a) := x, x := 0))"
  by (simp_all add: push_item_def Let_def)

lemma push_item_items:
  assumes I: "items s I" and x: "x \<noteq> 0" "free_of I x"
  shows "items (push_item a x s) (I(a := I a @ [x]))"
proof -
  note rep = itemsD [OF I]
  have t: "QTail (wq s a) = 0 \<longleftrightarrow> I a = []" by (rule queue_rep_tail [OF rep])
  have l: "QTail (wq s a) = 0 \<or> QTail (wq s a) \<in> set (I a)"
    using rep [of a] last_in_set [of "I a"] by (auto simp: queue_rep_def split: if_splits)
  have "queue_rep (wnext (push_item a x s)) (QHead (wq (push_item a x s) b)) (QTail (wq (push_item a x s) b))
      ((I(a := I a @ [x])) b)" for b
  proof (cases "b = a")
    case True
    with queue_rep_push [OF rep [of a] _ x(1)] x(2) t show ?thesis
      by (auto simp: push_item_fields free_of_def)
  next
    case False
    have "QTail (wq s a) \<notin> set (I b)" if "QTail (wq s a) \<noteq> 0"
      using that l items_disjoint [OF I, of "QTail (wq s a)" a b] False by auto
    with False rep [of b] x(2) show ?thesis by (auto simp: push_item_fields free_of_def)
  qed
  moreover have "b = c" if "y \<in> set ((I(a := I a @ [x])) b)" "y \<in> set ((I(a := I a @ [x])) c)" for b c y
    using that items_disjoint [OF I, of y] x(2) by (auto simp: free_of_def split: if_splits)
  ultimately show ?thesis unfolding items_def by blast
qed

lemma take_item_items:
  assumes I: "items s I" and x: "I a = x # xs"
  shows "\<exists>s'. take_item a s = Some (x, s') \<and> items s' (I(a := xs)) \<and> thr s' = thr s \<and> cur s' = cur s \<and>
    (\<forall>Q. sched_inv s' Q = sched_inv s Q)"
proof -
  note rep = itemsD [OF I] and pop = queue_rep_pop [OF itemsD [OF I, of a, unfolded x]]
  have x0: "x \<noteq> 0" using rep [of a] path_not_null x unfolding queue_rep_def by fastforce
  have l: "QTail (wq s a) = x \<longleftrightarrow> xs = []" by (rule queue_rep_last [OF rep [of a, unfolded x]])
  define s' where "s' = s\<lparr>wq := (wq s)(a := (wq s a)\<lparr>QHead := wnext s x, QTail := if xs = [] then 0 else QTail (wq s a)\<rparr>)\<rparr>"
  have run: "take_item a s = Some (x, s')"
    using pop(1) x0 l by (simp add: take_item_def Let_def s'_def)
  have "items s' (I(a := xs))"
    using pop(2) rep items_disjoint [OF I] x unfolding items_def s'_def
    by (auto split: if_splits)
  moreover have ends: "q_head s' q = q_head s q" "q_tail s' q = q_tail s q" for q
    by (cases q; simp add: s'_def)+
  moreover have th: "thr s' = thr s" "cur s' = cur s" "giNumActiveThreads s' = giNumActiveThreads s"
    by (simp_all add: s'_def)
  moreover have "queues s' Q = queues s Q" for Q by (rule queues_cong) (simp_all add: ends th)
  ultimately show ?thesis using run by (simp add: sched_inv_def)
qed

text \<open>The items of the work queues form a family of first-in first-out queues.\<close>

interpretation wqs: queue_family items "\<lambda>x. x \<noteq> 0" push_item take_item
proof (unfold_locales, goal_cases)
  case (1 s I x a b)
  then show ?case using items_disjoint by blast
next
  case (2 s I a)
  then show ?case using itemsD [of s I a] by (simp add: queue_rep_def)
next
  case (3 s I x a)
  then show ?case using itemsD [of s I a] path_not_null unfolding queue_rep_def by metis
next
  case (4 s I x a)
  then show ?case by (intro push_item_items)
next
  case (5 s I a)
  then show ?case using queue_rep_head [OF itemsD [of s I a]] by (simp add: take_item_def)
next
  case (6 s I a x xs)
  then show ?case using take_item_items by blast
qed

section \<open>What the operations do\<close>

lemma GetWork_take:
  "take_item a s = Some (x, s') \<Longrightarrow> Workqueue_GetWork a s = (Some x, s')"
  by (auto simp: take_item_def Workqueue_GetWork_def Let_def split: if_splits)

lemma GetWork_empty:
  assumes "items s I" "I a = []" "sched_inv s Q" "Status (thr s (cur s)) = THREAD_STAT_ACTIVE"
  shows "\<exists>s'. Workqueue_GetWork a s = (None, s') \<and> items s' I \<and>
    sched_inv s' (Q(QWork a := Q (QWork a) @ [cur s])) \<and>
    same_but_queues (sleeping THREAD_STAT_QUEUESLEEP (WQueue a) 0 s) s'"
proof -
  define s' where "s' = Threads_int_Sleep THREAD_STAT_QUEUESLEEP (WQueue a) 0 (OnQueue (QWork a)) s"
  have sl: "same_but_queues (sleeping THREAD_STAT_QUEUESLEEP (WQueue a) 0 s) s'"
    "sched_inv s' (Q(QWork a := Q (QWork a) @ [cur s]))"
    using Threads_int_Sleep_spec [OF assms(3,4), of "QWork a" "WQueue a" 0] by (simp_all add: s'_def)
  have "items (sleeping THREAD_STAT_QUEUESLEEP (WQueue a) 0 s) I = items s I"
    by (rule items_cong) (simp_all add: sleeping_def upd_thr_def)
  then have "items s' I" using items_same [OF sl(1)] assms(1) by simp
  moreover have "QHead (wq s a) = 0" using queue_rep_head [OF itemsD [OF assms(1), of a]] assms(2) by simp
  ultimately show ?thesis using sl by (simp add: Workqueue_GetWork_def s'_def)
qed

lemma AddActive_commutes:
  "Threads_AddActive t (set_head (QWork a) v s) = bind_outcome (Threads_AddActive t s) (\<lambda>s. Ret (set_head (QWork a) v s))"
  "Threads_AddActive t (set_tail (QWork a) v s) = bind_outcome (Threads_AddActive t s) (\<lambda>s. Ret (set_tail (QWork a) v s))"
  by (simp_all add: Threads_AddActive_def Threads_int_AddToList_def Let_def set_Status_def set_Next_def upd_thr_def)

lemma AddWork_nobody:
  assumes "sched_inv s Q" "Q (QWork a) = []"
  shows "Workqueue_AddWork a x s = Ret (push_item a x s)"
proof -
  have "Sleeper (wq (push_item a x s) a) = 0"
    using queues_head [OF sched_queues [OF assms(1)], of "QWork a"] assms(2) push_item_frame(4) [of a x s "QWork a"] by simp
  then show ?thesis by (simp add: Workqueue_AddWork_def push_item_def Let_def)
qed

lemma AddWork_wakes:
  assumes inv: "sched_inv s Q" and w: "Q (QWork a) = w # ws"
  shows "\<exists>s'. Workqueue_AddWork a x s = Ret s' \<and> same_but_queues (activated w (push_item a x s)) s' \<and>
    sched_inv s' (woken w s (Q(QWork a := ws)))"
proof -
  let ?s = "push_item a x s"
  have inv': "sched_inv ?s Q" using inv by simp
  define s1 where "s1 = (if Next (thr ?s w) = 0 then set_tail (QWork a) 0 (set_head (QWork a) (Next (thr ?s w)) ?s)
      else set_head (QWork a) (Next (thr ?s w)) ?s)"
  have na: "status_of (QWork a) \<noteq> THREAD_STAT_ACTIVE" by simp
  note pop = sched_pop [OF inv' w na s1_def]
  from sched_pop_wake [OF inv' w na s1_def] obtain s' where s': "Threads_AddActive w s1 = Ret s'"
    "same_but_queues (activated w ?s) s'" "sched_inv s' (woken w ?s (Q(QWork a := ws)))" by blast
  have "Workqueue_AddWork a x s = (if Sleeper (wq ?s a) \<noteq> 0 then
        (if Status (thr ?s (Sleeper (wq ?s a))) = THREAD_STAT_ACTIVE then Panicked
         else bind_outcome (Threads_AddActive (Sleeper (wq ?s a)) ?s) (\<lambda>s.
           let s1 = set_head (QWork a) (Next (thr ?s (Sleeper (wq ?s a)))) s
           in Ret (if Next (thr ?s (Sleeper (wq ?s a))) = 0 then set_tail (QWork a) 0 s1 else s1))) else Ret ?s)"
    by (simp add: Workqueue_AddWork_def push_item_def Let_def cong: if_cong)
  also have "\<dots> = Ret s'"
    using pop(2,8) s'(1) pop(1) [simplified]
    by (cases "Threads_AddActive w ?s")
      (auto simp: s1_def AddActive_commutes Let_def simp del: set_head.simps set_tail.simps split: if_splits)
  finally have "Workqueue_AddWork a x s = Ret s'" .
  moreover have "woken w ?s R = woken w s R" for R by (simp add: woken_def cong: if_cong)
  ultimately show ?thesis using s'(2,3) by simp
qed

end
