(* ===== verification/Thread_Theorems.thy ===== *)
theory Thread_Theorems
  imports Messages RWLock Workqueue
begin

text \<open>
  Properties of the scheduler, the locks and the life of threads, with sample states that show that
  the hypotheses can hold.
\<close>

section \<open>Sample states\<close>

text \<open>A thread that does nothing, and a kernel with empty queues whose running thread is at address 10.\<close>

definition blank_thread :: tThread where
  "blank_thread = \<lparr>Next = 0, GlobalNext = 0, GlobalPrev = 0, ProcessNext = 0, Status = THREAD_STAT_NULL,
     WaitPointer = WNone, RetStatus = 0, TID = 0, Process = 0, Parent = 0, LastDeadChild = 0, CurFaultNum = 0,
     FaultHandler = 0, PendingSignal = 0, Messages = 0, LastMessage = 0, Quantum = 5, Remaining = 5, Priority = 5,
     errno = 0, CurCPU = - 1, bInstrTrace = False, EventState = 0\<rparr>"

definition running_thread :: tThread where
  "running_thread = blank_thread\<lparr>Status := THREAD_STAT_ACTIVE\<rparr>"

definition sample_state :: "(ptr \<Rightarrow> tThread) \<Rightarrow> kstate" where
  "sample_state f = \<lparr>thr = f, prc = (\<lambda>_. empty_process), cur = 10, giNumActiveThreads = 1, giNextTID = 50,
     gThreadZero = 10, gAllThreads = 10, gAllProcesses = 0, gSleepingThreads = \<lparr>Head = 0, Tail = 0\<rparr>,
     gaActiveThreads = (\<lambda>_. \<lparr>Head = 0, Tail = 0\<rparr>), gaThreads_NoTaskSwitch = False,
     mtx = (\<lambda>_. \<lparr>Owner = 0, Waiting = 0, LastWaiting = 0\<rparr>),
     sem = (\<lambda>_. \<lparr>Value = 0, MaxValue = 0, SWaiting = 0, SLastWaiting = 0, Signaling = 0, LastSignaling = 0\<rparr>),
     rwl = (\<lambda>_. \<lparr>Level = 0, RWOwner = 0, ReaderWaiting = 0, ReaderWaitingLast = 0, WriterWaiting = 0,
                 WriterWaitingLast = 0\<rparr>),
     wq = (\<lambda>_. \<lparr>QHead = 0, QTail = 0, Sleeper = 0, SleepTail = 0\<rparr>), wnext = (\<lambda>_. 0),
     msg = (\<lambda>_. \<lparr>MNext = 0, MSource = 0, MLength = 0\<rparr>), kmem = (\<lambda>_. 0)\<rparr>"

text \<open>Threads appended to a queue one after the other.\<close>

fun enqueue_all :: "qid \<Rightarrow> ptr list \<Rightarrow> kstate \<Rightarrow> kstate" where
  "enqueue_all q [] s = s"
| "enqueue_all q (t # ts) s = enqueue_all q ts (Threads_int_AddToList q t s)"

lemma enqueue_all_push: "enqueue_all q ts s = kq.push_all q ts s"
  by (induction ts arbitrary: s) auto

lemma enqueue_all_same: "same_but_queues s (enqueue_all q ts s)"
proof (induction ts arbitrary: s)
  case (Cons t ts)
  show ?case unfolding enqueue_all.simps by (rule same_but_queues_trans [OF AddToList_same Cons])
qed simp

lemma sample_queues: "queues (sample_state f) (\<lambda>_. [])"
proof -
  have "q_head (sample_state f) q = 0 \<and> q_tail (sample_state f) q = 0" for q
    by (cases q) (simp_all add: sample_state_def)
  then show ?thesis by (simp add: queues_def queue_rep_def)
qed

text \<open>Running thread 10, with the threads \<open>ts\<close> asleep on \<open>q\<close> and nobody else ready.\<close>

lemma sample_threads_inv:
  assumes "Status (f 10) = THREAD_STAT_ACTIVE" "\<And>t. Priority (f t) \<le> MIN_PRIORITY"
    "\<And>t. t \<noteq> 10 \<Longrightarrow> Status (f t) \<noteq> THREAD_STAT_ACTIVE" "distinct ts" "0 \<notin> set ts"
    "\<And>t. t \<in> set ts \<Longrightarrow> Status (f t) = status_of q" "status_of q \<noteq> THREAD_STAT_ACTIVE"
  shows "sched_inv (enqueue_all q ts (sample_state f)) ((\<lambda>_. [])(q := ts))"
proof (rule sched_invI)
  note same = enqueue_all_same [of "sample_state f" q ts]
  let ?s = "enqueue_all q ts (sample_state f)" and ?Q = "(\<lambda>_. [])(q := ts) :: qid \<Rightarrow> ptr list"
  have s0: "Status (thr ?s t) = Status (f t)" "Priority (thr ?s t) = Priority (f t)" "cur ?s = 10"
      "giNumActiveThreads ?s = 1" for t
    using same_but_queues_thr(1,2) [OF same] same_but_queues_glob(1,2) [OF same] by (simp_all add: sample_state_def)
  have "\<forall>t \<in> set ts. t \<noteq> 0 \<and> free_of (\<lambda>_. []) t" using assms(5) by (auto simp: free_of_def intro: gr0I)
  from kq.push_all_holds [OF sample_queues assms(4) this, of q f] show "queues ?s ?Q" by (simp add: enqueue_all_push)
  show "Status (thr ?s t) = status_of k" if "t \<in> set (?Q k)" for k t
    using that assms(6) s0 by (auto split: if_splits)
  have act: "?Q (QActive p) = []" for p using assms(7) by auto
  show "Priority (thr ?s t) = p \<and> t \<noteq> cur ?s" if "t \<in> set (?Q (QActive p))" for p t
    using that unfolding act by simp
  show "giNumActiveThreads ?s = (\<Sum>p \<le> MIN_PRIORITY. int (length (?Q (QActive p)))) +
      (if Status (thr ?s (cur ?s)) = THREAD_STAT_ACTIVE then 1 else 0)" using s0 assms(1) act by simp
qed (use assms same_but_queues_thr(1,2) [OF enqueue_all_same] same_but_queues_glob(1) [OF enqueue_all_same]
  in \<open>auto simp: sample_state_def\<close>)

section \<open>The scheduler\<close>

fun reschedules :: "int \<Rightarrow> nat \<Rightarrow> kstate \<Rightarrow> kstate outcome" where
  "reschedules CPU 0 s = Ret s"
| "reschedules CPU (Suc n) s = bind_outcome (Proc_Reschedule CPU s) (reschedules CPU n)"

lemma reschedule_rotates:
  assumes inv: "sched_inv s Q" and on: "\<not> gaThreads_NoTaskSwitch s" and a: "Status (thr s (cur s)) = THREAD_STAT_ACTIVE"
    and top: "\<And>j. j < Priority (thr s (cur s)) \<Longrightarrow> Q (QActive j) = []"
  shows "\<exists>s'. Proc_Reschedule CPU s = Ret s' \<and> \<not> gaThreads_NoTaskSwitch s' \<and> same_but_queues (s\<lparr>cur := cur s'\<rparr>) s' \<and>
    Status (thr s' (cur s')) = THREAD_STAT_ACTIVE \<and> Priority (thr s' (cur s')) = Priority (thr s (cur s)) \<and>
    (\<exists>Q'. sched_inv s' Q' \<and> (\<forall>j < Priority (thr s (cur s)). Q' (QActive j) = []) \<and>
      cur s' # Q' (QActive (Priority (thr s (cur s)))) = rotate1 (cur s # Q (QActive (Priority (thr s (cur s))))))"
proof -
  let ?i = "Priority (thr s (cur s))"
  have r: "requeued s Q = Q(QActive ?i := Q (QActive ?i) @ [cur s])" using a by (simp add: requeued_def Let_def)
  obtain x xs where x: "Q (QActive ?i) @ [cur s] = x # xs" by (cases "Q (QActive ?i) @ [cur s]") auto
  have first: "\<And>j. j < ?i \<Longrightarrow> requeued s Q (QActive j) = []" using top by (simp add: r)
  have rx: "requeued s Q (QActive ?i) = x # xs" using x by (simp add: r)
  from Reschedule_run [OF inv on rx first, of CPU] obtain s' where s': "Proc_Reschedule CPU s = Ret s'"
    "same_but_queues (s\<lparr>cur := x\<rparr>) s'" "sched_inv s' ((requeued s Q)(QActive ?i := xs))" by blast
  have c: "cur s' = x" using same_but_queues_glob(1) [OF s'(2)] by simp
  have m: "Status (thr s x) = THREAD_STAT_ACTIVE" "Priority (thr s x) = ?i" using requeued_member [OF inv, of x ?i] rx by auto
  have "cur s' # ((requeued s Q)(QActive ?i := xs)) (QActive ?i) = rotate1 (cur s # Q (QActive ?i))"
    using x c by simp
  moreover have "\<forall>j < ?i. ((requeued s Q)(QActive ?i := xs)) (QActive j) = []" using first by simp
  ultimately show ?thesis
    using s' c m same_but_queues_thr(1,2) [OF s'(2), of x] same_but_queues_glob(3) [OF s'(2)] on by auto
qed

lemma reschedules_rotate:
  assumes "sched_inv s Q" "\<not> gaThreads_NoTaskSwitch s" "Status (thr s (cur s)) = THREAD_STAT_ACTIVE"
    "\<And>j. j < Priority (thr s (cur s)) \<Longrightarrow> Q (QActive j) = []"
  shows "\<exists>s' Q'. reschedules CPU n s = Ret s' \<and> sched_inv s' Q' \<and>
    cur s' # Q' (QActive (Priority (thr s (cur s)))) = rotate n (cur s # Q (QActive (Priority (thr s (cur s)))))"
  using assms
proof (induction n arbitrary: s Q)
  case (Suc n)
  from reschedule_rotates [OF Suc.prems, of CPU] obtain s1 Q1 where s1: "Proc_Reschedule CPU s = Ret s1"
    "\<not> gaThreads_NoTaskSwitch s1" "Status (thr s1 (cur s1)) = THREAD_STAT_ACTIVE"
    "Priority (thr s1 (cur s1)) = Priority (thr s (cur s))" "sched_inv s1 Q1"
    "\<forall>j < Priority (thr s (cur s)). Q1 (QActive j) = []"
    "cur s1 # Q1 (QActive (Priority (thr s (cur s)))) = rotate1 (cur s # Q (QActive (Priority (thr s (cur s)))))" by blast
  from Suc.IH [OF s1(5,2,3)] s1(4,6) obtain s' Q' where "reschedules CPU n s1 = Ret s'" "sched_inv s' Q'"
    "cur s' # Q' (QActive (Priority (thr s (cur s)))) = rotate n (cur s1 # Q1 (QActive (Priority (thr s (cur s)))))"
    by auto
  with s1(1,7) show ?case by (auto simp: rotate1_rotate_swap simp del: rotate1.simps)
qed auto

text \<open>
  C11: rescheduling puts the running thread, if it is still active, behind the ready threads of its
  priority, and then runs the first thread of the most urgent level that has one. Nothing else
  changes and the scheduler invariant is kept.
\<close>

theorem Reschedule_picks_most_urgent:
  assumes "sched_inv s Q" "\<not> gaThreads_NoTaskSwitch s" "requeued s Q (QActive i) = x # xs"
    "\<And>j. j < i \<Longrightarrow> requeued s Q (QActive j) = []"
  shows "\<exists>s'. Proc_Reschedule CPU s = Ret s' \<and> cur s' = x \<and> Status (thr s' x) = THREAD_STAT_ACTIVE \<and>
    Priority (thr s' x) = i \<and> same_but_queues (s\<lparr>cur := x\<rparr>) s' \<and> sched_inv s' ((requeued s Q)(QActive i := xs))"
proof -
  from Reschedule_run [OF assms, of CPU] obtain s' where s': "Proc_Reschedule CPU s = Ret s'"
    "same_but_queues (s\<lparr>cur := x\<rparr>) s'" "sched_inv s' ((requeued s Q)(QActive i := xs))" by blast
  with requeued_member [OF assms(1), of x i] assms(3) same_but_queues_thr(1,2) [OF s'(2), of x]
    same_but_queues_glob(1) [OF s'(2)] show ?thesis by simp
qed

definition two_ready :: "ptr \<Rightarrow> tThread" where
  "two_ready = (\<lambda>t. if t = 10 \<or> t = 20 then running_thread else blank_thread)"

definition sample_two :: kstate where
  "sample_two = (enqueue_all (QActive 5) [20] (sample_state two_ready))\<lparr>giNumActiveThreads := 2\<rparr>"

abbreviation queue_two :: "qid \<Rightarrow> ptr list" where
  "queue_two \<equiv> (\<lambda>_. [])(QActive 5 := [20])"

lemma sample_two_simps:
  "Status (thr sample_two t) = (if t = 10 \<or> t = 20 then THREAD_STAT_ACTIVE else THREAD_STAT_NULL)"
  "Priority (thr sample_two t) = 5" "cur sample_two = 10" "giNumActiveThreads sample_two = 2"
  "\<not> gaThreads_NoTaskSwitch sample_two"
proof -
  note same = enqueue_all_same [of "sample_state two_ready" "QActive 5" "[20]"]
  show "Status (thr sample_two t) = (if t = 10 \<or> t = 20 then THREAD_STAT_ACTIVE else THREAD_STAT_NULL)"
    "Priority (thr sample_two t) = 5" "cur sample_two = 10" "giNumActiveThreads sample_two = 2"
    "\<not> gaThreads_NoTaskSwitch sample_two"
    using same_but_queues_thr(1,2) [OF same] same_but_queues_glob(1,3) [OF same]
    by (simp_all add: sample_two_def sample_state_def two_ready_def running_thread_def blank_thread_def
      del: enqueue_all.simps)
qed

lemma sample_two_inv: "sched_inv sample_two queue_two"
proof (rule sched_invI)
  show "queues sample_two queue_two"
    using kq.push_all_holds [OF sample_queues, of "[20]" "QActive 5" two_ready]
    by (simp add: sample_two_def enqueue_all_push free_of_def del: enqueue_all.simps)
  show "giNumActiveThreads sample_two = (\<Sum>p \<le> MIN_PRIORITY. int (length (queue_two (QActive p)))) +
      (if Status (thr sample_two (cur sample_two)) = THREAD_STAT_ACTIVE then 1 else 0)"
    using sum_active_upd [of 5 "\<lambda>_. []" "[20]"]
    by (simp add: sample_two_simps MIN_PRIORITY_def del: fun_upd_apply)
qed (auto simp: sample_two_simps MIN_PRIORITY_def split: if_splits)

theorem Reschedule_picks_most_urgent_witness:
  "\<exists>s'. Proc_Reschedule 0 sample_two = Ret s' \<and> cur s' = 20"
proof -
  have r: "requeued sample_two queue_two = (\<lambda>_. [])(QActive 5 := [20, 10])"
    by (auto simp: requeued_def Let_def sample_two_simps)
  have "requeued sample_two queue_two (QActive 5) = 20 # [10]"
    and "\<And>j. j < 5 \<Longrightarrow> requeued sample_two queue_two (QActive j) = []" by (simp_all add: r)
  from Reschedule_picks_most_urgent [OF sample_two_inv sample_two_simps(5) this, of 0] show ?thesis by blast
qed

text \<open>
  C12: round robin. While the running thread and the threads behind it on its level are the most
  urgent ones, every reschedule moves on by one, so each of these threads runs again after as many
  reschedules as there are threads.
\<close>

theorem Reschedule_round_robin:
  assumes "sched_inv s Q" "\<not> gaThreads_NoTaskSwitch s" "Status (thr s (cur s)) = THREAD_STAT_ACTIVE"
    "\<And>j. j < Priority (thr s (cur s)) \<Longrightarrow> Q (QActive j) = []"
  shows "\<exists>s'. reschedules CPU n s = Ret s' \<and>
    cur s' = (cur s # Q (QActive (Priority (thr s (cur s))))) ! (n mod Suc (length (Q (QActive (Priority (thr s (cur s)))))))"
proof -
  let ?l = "cur s # Q (QActive (Priority (thr s (cur s))))"
  from reschedules_rotate [OF assms, of CPU n] obtain s' Q' where s': "reschedules CPU n s = Ret s'"
    "cur s' # Q' (QActive (Priority (thr s (cur s)))) = rotate n ?l" by blast
  then have "cur s' = rotate n ?l ! 0" by (metis nth_Cons_0)
  also have "\<dots> = ?l ! (n mod length ?l)" by (subst nth_rotate) simp_all
  finally show ?thesis using s'(1) by auto
qed

theorem Reschedule_round_robin_witness:
  "\<exists>s'. reschedules 0 3 sample_two = Ret s' \<and> cur s' = 20"
  using Reschedule_round_robin [OF sample_two_inv sample_two_simps(5), of 0 3]
  by (simp add: sample_two_simps numeral_3_eq_3 mod_Suc)

text \<open>
  Changing the priority of a thread that is asleep puts it on a ready queue, and the next
  reschedule that reaches it panics. The thread sleeps on any lock, the new priority is the more
  urgent one, and nobody else is ready at that level or above.
\<close>

theorem SetPriority_of_sleeper_panics:
  assumes inv: "sched_inv s Q" and on: "\<not> gaThreads_NoTaskSwitch s" and a: "Status (thr s (cur s)) = THREAD_STAT_ACTIVE"
    and t: "t \<noteq> 0" "t \<noteq> cur s" "Status (thr s t) \<noteq> THREAD_STAT_ACTIVE"
    and pri: "pri < Priority (thr s (cur s))" "pri \<noteq> Priority (thr s t)"
    and idle: "\<And>j. j \<le> pri \<Longrightarrow> Q (QActive j) = []"
  shows "\<exists>s'. Threads_SetPriority t (int pri) s = Some (Ret s') \<and> Proc_Reschedule CPU s' = Panicked"
proof -
  let ?p = "Priority (thr s (cur s))"
  define s1 where "s1 = Threads_int_AddToList (QActive pri) t s"
  define s' where "s' = set_Priority t pri s1"
  have "?p \<le> MIN_PRIORITY" using sched_basic [OF inv] by simp
  with pri(1) have le: "pri \<le> MIN_PRIORITY" by simp
  have "t \<notin> set (Q (QActive (Priority (thr s t))))" using sched_status [OF inv, of t] t(3) by fastforce
  from DelFromQueue_absent [OF sched_queues [OF inv] this] have run: "Threads_SetPriority t (int pri) s = Some (Ret s')"
    using t pri(2) le by (simp add: Threads_SetPriority_def Let_def s'_def s1_def)
  have same: "same_but_queues s s1" unfolding s1_def by (rule AddToList_same)
  have hd: "q_head s (QActive j) = 0" if "j \<le> pri" for j
    using queues_head [OF sched_queues [OF inv], of "QActive j"] idle [OF that] by simp
  define s2 where "s2 = set_CurCPU (cur s) (- 1) (Threads_int_AddToList (QActive ?p) (cur s) (set_CurCPU (cur s) (- 1) s'))"
  have heads: "q_head s2 (QActive j) = (if j = pri then t else 0)" if "j \<le> pri" for j
    using that hd [OF that] hd [of pri] pri(1) t(1)
    by (simp add: s2_def s'_def s1_def AddToList_head set_CurCPU_def set_Priority_def del: q_head.simps)
  have st: "Status (thr s2 t) \<noteq> THREAD_STAT_ACTIVE"
    using t(2,3) same_but_queues_thr(1) [OF AddToList_same]
    by (simp add: s2_def s'_def s1_def set_CurCPU_def set_Priority_def thr_upd_thr)
  have sp: "[0..<MIN_PRIORITY + 1] = [0..<pri] @ pri # [Suc pri..<MIN_PRIORITY + 1]"
    using le upt_add_eq_append [of 0 pri "MIN_PRIORITY + 1 - pri"] by (simp add: upt_conv_Cons)
  have "get_runnable (is @ pri # js) s2 = Panicked" if "\<forall>j \<in> set is. j < pri" for "is" js
    using that heads st t(1) by (induction "is") (auto simp: Let_def)
  then have gr: "Threads_int_GetRunnable s2 = Panicked" unfolding Threads_int_GetRunnable_def sp by simp
  have "1 \<le> giNumActiveThreads s" using sched_count [OF inv] a by (simp add: sum_nonneg)
  then have n: "giNumActiveThreads s' \<noteq> 0" using same_but_queues_glob(2) [OF same] by (simp add: s'_def set_Priority_def upd_thr_def)
  have c: "cur s' = cur s" "\<not> gaThreads_NoTaskSwitch s'" "Status (thr s' (cur s)) = THREAD_STAT_ACTIVE"
      "Priority (thr s' (cur s)) = ?p"
    using same_but_queues_glob(1,3) [OF same] same_but_queues_thr(1,2) [OF same] on a t(2)
    by (simp_all add: s'_def set_Priority_def upd_thr_def)
  have "Proc_Reschedule CPU s' = Panicked"
    using gr n c sched_basic [OF inv]
    by (simp add: Proc_Reschedule_def Threads_GetNextToRun_def Let_def s2_def set_CurCPU_def upd_thr_def)
  with run show ?thesis by blast
qed

text \<open>Thread 10 runs; the threads 20 and 30 have the status given and those listed are on the queue given.\<close>

definition one_asleep :: "eThreadStatus \<Rightarrow> wait_ref \<Rightarrow> int \<Rightarrow> ptr \<Rightarrow> tThread" where
  "one_asleep st w r = (\<lambda>t. if t = 10 then running_thread
     else if t = 20 \<or> t = 30 then blank_thread\<lparr>Status := st, WaitPointer := w, RetStatus := r, Parent := 10\<rparr> else blank_thread)"

definition sample_sleepers :: "ptr list \<Rightarrow> qid \<Rightarrow> wait_ref \<Rightarrow> int \<Rightarrow> kstate" where
  "sample_sleepers ts q w r = enqueue_all q ts (sample_state (one_asleep (status_of q) w r))"

abbreviation sample_asleep :: "qid \<Rightarrow> wait_ref \<Rightarrow> int \<Rightarrow> kstate" where
  "sample_asleep \<equiv> sample_sleepers [20]"

lemma sample_sleepers_inv:
  "status_of q \<noteq> THREAD_STAT_ACTIVE \<Longrightarrow> distinct ts \<Longrightarrow> set ts \<subseteq> {20, 30} \<Longrightarrow>
   sched_inv (sample_sleepers ts q w r) ((\<lambda>_. [])(q := ts))"
  unfolding sample_sleepers_def
  by (rule sample_threads_inv) (auto simp: one_asleep_def running_thread_def blank_thread_def MIN_PRIORITY_def)

lemmas sample_asleep_inv = sample_sleepers_inv [where ts = "[20]", simplified]

lemma sample_simps:
  "cur (sample_sleepers ts q w r) = 10" "giNumActiveThreads (sample_sleepers ts q w r) = 1"
  "\<not> gaThreads_NoTaskSwitch (sample_sleepers ts q w r)"
  "Status (thr (sample_sleepers ts q w r) 10) = THREAD_STAT_ACTIVE"
  "Status (thr (sample_sleepers ts q w r) 20) = status_of q" "RetStatus (thr (sample_sleepers ts q w r) 20) = r"
  "WaitPointer (thr (sample_sleepers ts q w r) 20) = w" "Priority (thr (sample_sleepers ts q w r) t) = 5"
  "Owner (mtx (sample_sleepers ts q w r) m) = 0" "Value (sem (sample_sleepers ts q w r) a) = 0"
  "MaxValue (sem (sample_sleepers ts q w r) a) = 0" "Level (rwl (sample_sleepers ts q w r) a) = 0"
  "RWOwner (rwl (sample_sleepers ts q w r) a) = 0"
proof -
  note same = enqueue_all_same [of "sample_state (one_asleep (status_of q) w r)" q ts, folded sample_sleepers_def]
  show "cur (sample_sleepers ts q w r) = 10" "giNumActiveThreads (sample_sleepers ts q w r) = 1"
    "\<not> gaThreads_NoTaskSwitch (sample_sleepers ts q w r)"
    "Status (thr (sample_sleepers ts q w r) 10) = THREAD_STAT_ACTIVE"
    "Status (thr (sample_sleepers ts q w r) 20) = status_of q" "RetStatus (thr (sample_sleepers ts q w r) 20) = r"
    "WaitPointer (thr (sample_sleepers ts q w r) 20) = w" "Priority (thr (sample_sleepers ts q w r) t) = 5"
    "Owner (mtx (sample_sleepers ts q w r) m) = 0" "Value (sem (sample_sleepers ts q w r) a) = 0"
    "MaxValue (sem (sample_sleepers ts q w r) a) = 0" "Level (rwl (sample_sleepers ts q w r) a) = 0"
    "RWOwner (rwl (sample_sleepers ts q w r) a) = 0"
    using same_but_queues_thr(1-4) [OF same] same_but_queues_glob(1-8) [OF same]
    by (simp_all add: sample_state_def one_asleep_def running_thread_def blank_thread_def)
qed

theorem SetPriority_of_sleeper_panics_witness:
  "\<exists>s'. Threads_SetPriority 20 3 (sample_asleep QSleeping WNone 0) = Some (Ret s') \<and> Proc_Reschedule 0 s' = Panicked"
  using SetPriority_of_sleeper_panics [OF sample_asleep_inv, of QSleeping WNone 0 20 3 0]
  by (simp add: sample_simps)

section \<open>Mutexes\<close>

definition mutex_start :: "kstate \<Rightarrow> mworld" where
  "mutex_start s = \<lparr>ks = s, inside = (\<lambda>_. {}), pend = (\<lambda>_. None)\<rparr>"

text \<open>
  C10: mutual exclusion. Start with every mutex free and let any threads acquire, release, sleep on
  and be woken from any mutexes, preempted at any time: at most one thread is ever inside a mutex,
  and a mutex somebody waits for is never left without an owner.
\<close>

theorem Mutex_mutual_exclusion:
  assumes start: "sched_inv s Q" "\<And>m. Owner (mtx s m) = 0 \<and> Q (QMutex m) = []"
    and run: "mutex_step\<^sup>*\<^sup>* (mutex_start s) w"
  shows "(\<forall>m. inside w m \<subseteq> {Owner (mtx (ks w) m)}) \<and> (\<forall>t m. pend w t = Some m \<longrightarrow> Owner (mtx (ks w) m) \<noteq> 0)"
proof -
  have "mutex_inv (mutex_start s) Q" using start by (auto simp: mutex_inv_def mutex_start_def)
  from mutex_steps_inv [OF run this] obtain Q' where "mutex_inv w Q'" by blast
  note p = mutex_inv_parts [OF this]
  have "inside w m \<subseteq> {Owner (mtx (ks w) m)}" for m using p(2) by blast
  moreover have "Owner (mtx (ks w) m) \<noteq> 0" if "pend w t = Some m" for t m
  proof
    assume "Owner (mtx (ks w) m) = 0"
    with p(4) [OF that] p(6) [of m] show False by auto
  qed
  ultimately show ?thesis by blast
qed

definition sample_held :: kstate where
  "sample_held = set_Owner (MutexAt 100) 10 sample_two"

theorem Mutex_mutual_exclusion_witness:
  "\<exists>w. mutex_step\<^sup>*\<^sup>* (mutex_start sample_two) w \<and> inside w (MutexAt 100) = {10} \<and> inside w (MutexAt 100) \<subseteq> {Owner (mtx (ks w) (MutexAt 100))}"
proof -
  have free: "Owner (mtx sample_two m) = 0" for m
    using same_but_queues_glob(4) [OF enqueue_all_same [of "sample_state two_ready" "QActive 5" "[20]"]]
    by (simp add: sample_two_def sample_state_def del: enqueue_all.simps)
  let ?w = "(mutex_start sample_two)\<lparr>ks := sample_held,
    inside := (inside (mutex_start sample_two))(MutexAt 100 := insert 10 (inside (mutex_start sample_two) (MutexAt 100)))\<rparr>"
  have "Mutex_Acquire (MutexAt 100) (ks (mutex_start sample_two)) = (True, sample_held)"
    using Mutex_Acquire_free [of sample_two "MutexAt 100"] free by (simp add: mutex_start_def sample_held_def sample_two_simps)
  with mutex_step.acquire [of "mutex_start sample_two" "MutexAt 100" sample_held]
  have "mutex_step (mutex_start sample_two) ?w" by (simp add: can_act_def mutex_start_def sample_two_simps)
  then have run: "mutex_step\<^sup>*\<^sup>* (mutex_start sample_two) ?w" ..
  have "\<And>m. Owner (mtx sample_two m) = 0 \<and> queue_two (QMutex m) = []" using free by simp
  from Mutex_mutual_exclusion [OF sample_two_inv this run]
  have "inside ?w (MutexAt 100) \<subseteq> {Owner (mtx (ks ?w) (MutexAt 100))}" by blast
  moreover have "inside ?w (MutexAt 100) = {10}" by (simp add: mutex_start_def)
  ultimately show ?thesis using run by blast
qed

text \<open>
  C18: releasing a mutex that threads wait for makes the one that has waited longest its owner and
  ready to run; the others keep their order.
\<close>

theorem Mutex_Release_hands_over:
  assumes "sched_inv s Q" "Q (QMutex m) = x # xs"
  shows "\<exists>s'. Mutex_Release m s = Ret s' \<and> Owner (mtx s' m) = x \<and> Status (thr s' x) = THREAD_STAT_ACTIVE \<and>
    sched_inv s' (woken x s (Q(QMutex m := xs)))"
proof -
  from Mutex_Release_handover [OF assms] obtain s' where s': "Mutex_Release m s = Ret s'"
    "same_but_queues (activated x (set_Owner m x s)) s'" "sched_inv s' (woken x s (Q(QMutex m := xs)))" by blast
  with same_but_queues_glob(4) [OF s'(2), of m] same_but_queues_thr(1) [OF s'(2), of x] show ?thesis by simp
qed

theorem Mutex_Release_hands_over_witness:
  "\<exists>s'. Mutex_Release (MutexAt 100) (sample_asleep (QMutex (MutexAt 100)) WNone 0) = Ret s' \<and> Owner (mtx s' (MutexAt 100)) = 20"
  using Mutex_Release_hands_over [OF sample_asleep_inv, of "QMutex (MutexAt 100)" "MutexAt 100" 20 "[]" WNone 0] by auto

section \<open>Semaphores\<close>

lemma Signal_full:
  assumes "sched_inv s Q" "Status (thr s (cur s)) = THREAD_STAT_ACTIVE"
    "MaxValue (sem s a) \<noteq> 0" "Value (sem s a) = MaxValue (sem s a)"
  shows "\<exists>s'. Semaphore_Signal a n s = Some (Ret (None, s')) \<and>
    sched_inv s' (Q(QSemSignal a := Q (QSemSignal a) @ [cur s])) \<and>
    Status (thr s' (cur s)) = THREAD_STAT_SEMAPHORESLEEP \<and> RetStatus (thr s' (cur s)) = n \<and>
    Value (sem s' a) = Value (sem s a)"
proof -
  let ?s' = "Threads_int_Sleep THREAD_STAT_SEMAPHORESLEEP (WSem a) n (OnQueue (QSemSignal a)) s"
  have "Semaphore_Signal a n s = Some (Ret (None, ?s'))" using assms(3,4) by (simp add: Semaphore_Signal_def)
  moreover note Threads_int_Sleep_spec [OF assms(1,2), of "QSemSignal a" "WSem a" n]
  ultimately show ?thesis
    using same_but_queues_thr(1,3) same_but_queues_glob(5) by auto
qed

lemma Signal_room:
  assumes inv: "sched_inv s Q" and room: "\<not> (MaxValue (sem s a) \<noteq> 0 \<and> Value (sem s a) = MaxValue (sem s a))"
    and v: "0 \<le> Value (sem s a)" "0 \<le> n" "MaxValue (sem s a) = 0 \<or> Value (sem s a) \<le> MaxValue (sem s a)"
    and max: "Value (sem s a) + n < 0x80000000"
    and req: "\<forall>t \<in> set (Q (QSemWait a)). 0 \<le> RetStatus (thr s t)"
  shows "\<exists>added s' Q' ts gs. Semaphore_Signal a n s = Some (Ret (Some added, s')) \<and> sched_inv s' Q' \<and>
    Q (QSemWait a) = ts @ Q' (QSemWait a) \<and> length gs = length ts \<and>
    Value (sem s' a) + sum_list gs = Value (sem s a) + added \<and> 0 \<le> added \<and> added \<le> n \<and>
    (\<forall>i < length ts. Status (thr s' (ts ! i)) = THREAD_STAT_ACTIVE \<and> RetStatus (thr s' (ts ! i)) = gs ! i \<and> 0 < gs ! i \<and>
       (RetStatus (thr s (ts ! i)) \<noteq> 0 \<longrightarrow> gs ! i \<le> RetStatus (thr s (ts ! i)))) \<and>
    (Q' (QSemWait a) = [] \<or> Value (sem s' a) = 0)"
proof -
  define added where "added = (if MaxValue (sem s a) \<noteq> 0 \<and> Value (sem s a) + n > MaxValue (sem s a)
    then MaxValue (sem s a) - Value (sem s a) else n)"
  have ad: "0 \<le> added" "added \<le> n" using v by (auto simp: added_def)
  define s0 where "s0 = set_Value a (Value (sem s a) + added) s"
  let ?ws = "Q (QSemWait a)" and ?v = "Value (sem s a) + added"
  define gs where "gs = grants ?v (map (\<lambda>t. RetStatus (thr s t)) ?ws)"
  have inv0: "sched_inv s0 Q" using inv by (simp add: s0_def)
  have eq: "s32 (Value (sem s a) + n) = Value (sem s a) + n"
    "MaxValue (sem s a) < Value (sem s a) + n \<Longrightarrow> MaxValue (sem s a) \<noteq> 0 \<Longrightarrow>
      s32 (MaxValue (sem s a) - Value (sem s a)) = MaxValue (sem s a) - Value (sem s a)"
    "s32 ?v = ?v" using v max ad by (auto intro!: s32_id)
  have "0 \<le> Value (sem s0 a)" "Value (sem s0 a) < 0x80000000" using v max ad by (simp_all add: s0_def)
  from signal_loop_spec [OF inv0 refl this] req obtain s' Q' ts where
    l: "signal_loop a s0 = Some (Ret s')" "sched_inv s' Q'" "signalled a ts gs s0 Q s' Q'" by (auto simp: s0_def gs_def)
  have run: "Semaphore_Signal a n s = Some (Ret (Some added, s'))"
    using l(1) room eq by (auto simp: Semaphore_Signal_def Let_def s0_def added_def)
  from l(3) have f: "?ws = ts @ Q' (QSemWait a)" "length gs = length ts" "Value (sem s' a) = ?v - sum_list gs"
    "\<forall>(t, g) \<in> set (zip ts gs). Status (thr s' t) = THREAD_STAT_ACTIVE \<and> RetStatus (thr s' t) = g"
    by (auto simp: signalled_def s0_def)
  have b: "sum_list gs \<le> ?v" "length gs = length ?ws \<or> sum_list gs = ?v"
    "\<forall>i < length gs. 0 < gs ! i \<and> (map (\<lambda>t. RetStatus (thr s t)) ?ws ! i \<noteq> 0 \<longrightarrow>
       gs ! i \<le> map (\<lambda>t. RetStatus (thr s t)) ?ws ! i)"
    using grants_bounds [of ?v "map (\<lambda>t. RetStatus (thr s t)) ?ws"] v(1) ad(1) req by (auto simp: gs_def)
  have "Status (thr s' (ts ! i)) = THREAD_STAT_ACTIVE \<and> RetStatus (thr s' (ts ! i)) = gs ! i \<and> 0 < gs ! i \<and>
      (RetStatus (thr s (ts ! i)) \<noteq> 0 \<longrightarrow> gs ! i \<le> RetStatus (thr s (ts ! i)))" if i: "i < length ts" for i
  proof -
    have "(ts ! i, gs ! i) \<in> set (zip ts gs)" using i f(2) by (auto simp: set_zip)
    moreover have "map (\<lambda>t. RetStatus (thr s t)) ?ws ! i = RetStatus (thr s (ts ! i))" using i f(1) by (simp add: nth_append)
    ultimately show ?thesis using f(2,4) b(3) i by fastforce
  qed
  moreover have "Q' (QSemWait a) = [] \<or> Value (sem s' a) = 0" using b(2) f(1-3) by auto
  ultimately show ?thesis using run l(2) f(1-3) ad by (intro exI [of _ added] exI [of _ s'] exI [of _ Q'] exI [of _ ts] exI [of _ gs]) auto
qed

text \<open>
  C13: a signal of a semaphore that is not full, whose value plus the new items is an \<open>int\<close>, loses and
  invents nothing. The new value and what the woken threads are given add up to the old value and what
  was added; a woken thread gets at least one item and no more than it asked for; the threads are
  woken in the order in which they came, and waiters are only left over when there is nothing left to
  give. On a full semaphore (value and maximum are equal and not zero) nothing is added or handed out:
  the caller sleeps at the end of the queue of signallers. What \<open>Semaphore_Wait\<close> later does with such
  a sleeper does not conserve items, see \<open>Semaphore_Wait_subtracts_signal\<close>.
\<close>

theorem Semaphore_Signal_conserves:
  assumes inv: "sched_inv s Q" and act: "Status (thr s (cur s)) = THREAD_STAT_ACTIVE"
    and v: "0 \<le> Value (sem s a)" "0 \<le> n" "MaxValue (sem s a) = 0 \<or> Value (sem s a) \<le> MaxValue (sem s a)"
    and max: "Value (sem s a) + n < 0x80000000"
    and req: "\<forall>t \<in> set (Q (QSemWait a)). 0 \<le> RetStatus (thr s t)"
  shows "if MaxValue (sem s a) \<noteq> 0 \<and> Value (sem s a) = MaxValue (sem s a)
   then \<exists>s'. Semaphore_Signal a n s = Some (Ret (None, s')) \<and>
    sched_inv s' (Q(QSemSignal a := Q (QSemSignal a) @ [cur s])) \<and>
    Status (thr s' (cur s)) = THREAD_STAT_SEMAPHORESLEEP \<and> RetStatus (thr s' (cur s)) = n \<and>
    Value (sem s' a) = Value (sem s a)
   else \<exists>added s' Q' ts gs. Semaphore_Signal a n s = Some (Ret (Some added, s')) \<and> sched_inv s' Q' \<and>
    Q (QSemWait a) = ts @ Q' (QSemWait a) \<and> length gs = length ts \<and>
    Value (sem s' a) + sum_list gs = Value (sem s a) + added \<and> 0 \<le> added \<and> added \<le> n \<and>
    (\<forall>i < length ts. Status (thr s' (ts ! i)) = THREAD_STAT_ACTIVE \<and> RetStatus (thr s' (ts ! i)) = gs ! i \<and> 0 < gs ! i \<and>
       (RetStatus (thr s (ts ! i)) \<noteq> 0 \<longrightarrow> gs ! i \<le> RetStatus (thr s (ts ! i)))) \<and>
    (Q' (QSemWait a) = [] \<or> Value (sem s' a) = 0)"
  using Signal_full [OF inv act] Signal_room [OF inv _ v max req] by simp

theorem Semaphore_Signal_conserves_witness:
  "MaxValue (sem (sample_asleep (QSemWait 100) (WSem 100) 2) 100) = 0 \<and> (\<exists>added s' gs. Semaphore_Signal 100 3 (sample_asleep (QSemWait 100) (WSem 100) 2) = Some (Ret (Some added, s')) \<and>
     Value (sem s' 100) + sum_list gs = added)"
  using Semaphore_Signal_conserves [OF sample_asleep_inv, of "QSemWait 100" "WSem 100" 2 100 3]
  by (auto simp: sample_simps)

text \<open>
  A thread that blocks in \<open>Semaphore_Wait\<close> gets what the next signal gives it. The waiter sleeps on an
  empty semaphore nobody else waits for, any other thread runs and signals \<open>n\<close> items: the waiter is
  ready, and when it runs again \<open>Semaphore_Wait\<close> returns the smaller of \<open>n\<close> and what it asked for.
\<close>

theorem Semaphore_Wait_then_Signal:
  assumes inv: "sched_inv s Q" and act: "Status (thr s (cur s)) = THREAD_STAT_ACTIVE"
    and empty: "Value (sem s a) = 0" "MaxValue (sem s a) = 0" and n: "0 < n" "0 < k" "n < 0x80000000"
    and wait: "Semaphore_Wait a k s = Some (Ret (r, s1))"
    and other: "same_but_queues (s1\<lparr>cur := c\<rparr>) s2" "sched_inv s2 Q2" "Q2 (QSemWait a) = [cur s]"
    and signal: "Semaphore_Signal a n s2 = Some (Ret (r', s3))"
    and again: "same_but_queues (s3\<lparr>cur := cur s\<rparr>) s4" "sched_inv s4 Q4" "Q4 (QSemSignal a) = []"
  shows "r = None \<and> Status (thr s3 (cur s)) = THREAD_STAT_ACTIVE \<and> Value (sem s3 a) = n - min n k \<and>
    (\<exists>s5. Semaphore_Wait_resume a s4 = Some (Ret (min n k, s5)))"
proof -
  from Wait_blocks [OF inv act empty(1), of k] n(2) wait have w: "r = None"
    "same_but_queues (sleeping THREAD_STAT_SEMAPHORESLEEP (WSem a) k s) s1" by auto
  have v: "Value (sem s2 a) = 0" "MaxValue (sem s2 a) = 0" "RetStatus (thr s2 (cur s)) = k"
    using same_but_queues_glob(5,6) [OF other(1), of a] same_but_queues_glob(5,6) [OF w(2), of a] empty
      same_but_queues_thr(3) [OF other(1), of "cur s"] same_but_queues_thr(3) [OF w(2), of "cur s"] by simp_all
  from Signal_one [OF other(2,3) v(3) n(2) v(1,2) n(1,3)] signal have s3: "Status (thr s3 (cur s)) = THREAD_STAT_ACTIVE"
    "RetStatus (thr s3 (cur s)) = min n k" "Value (sem s3 a) = n - min n k" by auto
  have "RetStatus (thr s4 (cur s4)) = min n k"
    using same_but_queues_glob(1) [OF again(1)] same_but_queues_thr(3) [OF again(1), of "cur s"] s3(2) by simp
  with Wait_resume_returns [OF again(2,3)] w(1) s3(1,3) show ?thesis by auto
qed

theorem Semaphore_Wait_then_Signal_witness:
  "\<exists>s1 s3 s5. Semaphore_Wait 100 2 sample_two = Some (Ret (None, s1)) \<and> Semaphore_Signal 100 3 s1 = Some (Ret (Some 3, s3)) \<and>
     Semaphore_Wait_resume 100 s3 = Some (Ret (min 3 2, s5))"
proof -
  have act: "Status (thr sample_two (cur sample_two)) = THREAD_STAT_ACTIVE" by (simp add: sample_two_simps)
  have v: "Value (sem sample_two 100) = 0" "MaxValue (sem sample_two 100) = 0"
    using same_but_queues_glob(5,6) [OF enqueue_all_same [of "sample_state two_ready" "QActive 5" "[20]"], of 100]
    by (simp_all add: sample_two_def sample_state_def del: enqueue_all.simps)
  from Wait_blocks [OF sample_two_inv act v(1), of 2] obtain s1 where s1: "Semaphore_Wait 100 2 sample_two = Some (Ret (None, s1))"
    "sched_inv s1 (queue_two(QSemWait 100 := [10]))" "same_but_queues (sleeping THREAD_STAT_SEMAPHORESLEEP (WSem 100) 2 sample_two) s1"
    by (auto simp: sample_two_simps)
  have c1: "s1\<lparr>cur := 10\<rparr> = s1" "RetStatus (thr s1 10) = 2" "Value (sem s1 100) = 0" "MaxValue (sem s1 100) = 0" "cur s1 = 10"
    using same_but_queues_glob(1,5,6) [OF s1(3)] same_but_queues_thr(3) [OF s1(3), of 10] v
    by (auto simp: sample_two_simps intro: kstate.equality)
  from Signal_one [OF s1(2), of 100 10 2 3] c1 obtain s3 Q3 where s3: "Semaphore_Signal 100 3 s1 = Some (Ret (Some 3, s3))"
    "cur s3 = 10" "sched_inv s3 Q3" "Q3 (QSemSignal 100) = []" by auto
  have c3: "s3\<lparr>cur := 10\<rparr> = s3" using s3(2) by (auto intro: kstate.equality)
  from Semaphore_Wait_then_Signal [OF sample_two_inv act v _ _ _ s1(1) _ s1(2) _ s3(1) _ s3(3,4), of 10] c1(1) c3 s1(1) s3(1)
  show ?thesis by (auto simp: sample_two_simps)
qed

text \<open>
  Taking items from a full semaphore while a signaller is blocked on it goes wrong: the signaller
  is told that \<open>k\<close> of its items were taken, but they are subtracted from the value instead of added, so
  a semaphore of maximum \<open>M\<close> ends with \<open>M - 2 k\<close> items, a negative number when all were taken.
\<close>

theorem Semaphore_Wait_subtracts_signal:
  assumes "sched_inv s Q" "Q (QSemSignal a) = [x]" "Value (sem s a) = MaxValue (sem s a)" "0 < MaxValue (sem s a)"
    "0 < k" "k \<le> MaxValue (sem s a)" "RetStatus (thr s x) = r" "k \<le> r" "MaxValue (sem s a) - k + r < 0x80000000"
  shows "\<exists>s'. Semaphore_Wait a k s = Some (Ret (Some k, s')) \<and> Value (sem s' a) = MaxValue (sem s a) - 2 * k \<and>
    RetStatus (thr s' x) = k \<and> Status (thr s' x) = THREAD_STAT_ACTIVE"
  by (rule Wait_with_signaller [OF assms])

definition sample_full :: kstate where
  "sample_full = (let s = sample_asleep (QSemSignal 100) (WSem 100) 1
     in s\<lparr>sem := (sem s)(100 := (sem s 100)\<lparr>Value := 1, MaxValue := 1\<rparr>)\<rparr>)"

lemma sample_full_inv: "sched_inv sample_full ((\<lambda>_. [])(QSemSignal 100 := [20]))"
proof -
  let ?s = "sample_asleep (QSemSignal 100) (WSem 100) 1" and ?Q = "(\<lambda>_. [])(QSemSignal 100 := [20]) :: qid \<Rightarrow> ptr list"
  have e: "q_head sample_full q = q_head ?s q" "q_tail sample_full q = q_tail ?s q" for q
    by (cases q; simp add: sample_full_def Let_def)+
  have t: "thr sample_full = thr ?s" "cur sample_full = cur ?s" "giNumActiveThreads sample_full = giNumActiveThreads ?s"
    by (simp_all add: sample_full_def Let_def)
  have "queues sample_full ?Q = queues ?s ?Q" by (rule queues_cong) (simp_all add: e t)
  with sample_asleep_inv [of "QSemSignal 100" "WSem 100" 1] show ?thesis by (simp add: sched_inv_def t)
qed

theorem Semaphore_Wait_subtracts_signal_witness:
  "\<exists>s'. Semaphore_Wait 100 1 sample_full = Some (Ret (Some 1, s')) \<and> Value (sem s' 100) = - 1"
proof -
  have "Value (sem sample_full 100) = 1" "MaxValue (sem sample_full 100) = 1" "RetStatus (thr sample_full 20) = 1"
    using sample_simps(6) [of "[20]" "QSemSignal 100" "WSem 100" 1] by (simp_all add: sample_full_def Let_def)
  with Semaphore_Wait_subtracts_signal [OF sample_full_inv, of 100 20 1 1] show ?thesis by auto
qed

section \<open>Reader/writer locks\<close>

text \<open>
  A writer can enter while readers are inside. When one of at least two readers releases the lock
  and a writer waits, the writer becomes the owner although the count of readers is not zero.
\<close>

theorem RWLock_Release_writer_among_readers:
  assumes "sched_inv s Q" "Q (QWriter a) = w # ws" "RWOwner (rwl s a) = 0" "2 \<le> Level (rwl s a)"
  shows "\<exists>s'. RWLock_Release a s = Some (Ret s') \<and> RWOwner (rwl s' a) = w \<and> Status (thr s' w) = THREAD_STAT_ACTIVE \<and>
    1 \<le> Level (rwl s' a)"
proof -
  have "RWOwner (rwl s a) \<noteq> cur s" using assms(3) sched_basic [OF assms(1)] by simp
  from Release_to_writer [OF assms(1,2) this] assms(4) show ?thesis by auto
qed

definition sample_rw :: "ptr list \<Rightarrow> qid \<Rightarrow> int \<Rightarrow> ptr \<Rightarrow> kstate" where
  "sample_rw ts q l o' = upd_rwl 100 (\<lambda>x. x\<lparr>Level := l, RWOwner := o'\<rparr>) (sample_sleepers ts q (WRWLock 100) 0)"

lemma sample_rw_inv:
  assumes "status_of q \<noteq> THREAD_STAT_ACTIVE" "distinct ts" "set ts \<subseteq> {20, 30}"
  shows "sched_inv (sample_rw ts q l o') ((\<lambda>_. [])(q := ts))"
  using sample_sleepers_inv [OF assms, of "WRWLock 100" 0] by (simp add: sample_rw_def upd_rwl_inv del: fun_upd_apply)

theorem RWLock_Release_writer_among_readers_witness:
  "\<exists>s'. RWLock_Release 100 (sample_rw [20] (QWriter 100) 2 0) = Some (Ret s') \<and> RWOwner (rwl s' 100) = 20 \<and>
     1 \<le> Level (rwl s' 100)"
  using RWLock_Release_writer_among_readers [OF sample_rw_inv, of "QWriter 100" "[20]" 100 20 "[]" 2 0]
  by (auto simp: sample_rw_def)

text \<open>
  When a writer releases the lock and readers wait, only the first of them is woken: the queue of
  readers is empty afterwards, and every other waiting reader sleeps on although the lock has lost it.
\<close>

theorem RWLock_Release_forgets_readers:
  assumes inv: "sched_inv s Q" and act: "Status (thr s (cur s)) = THREAD_STAT_ACTIVE"
    and r: "Q (QReader a) = r # rs" and own: "RWOwner (rwl s a) = cur s" "Q (QWriter a) = []"
  shows "\<exists>s'. RWLock_Release a s = Some (Ret s') \<and> ReaderWaiting (rwl s' a) = 0 \<and> Level (rwl s' a) = Level (rwl s a) + 1 \<and>
    Status (thr s' r) = THREAD_STAT_ACTIVE \<and> (\<forall>t \<in> set rs. Status (thr s' t) = THREAD_STAT_RWLOCKSLEEP)"
proof -
  have st: "Status (thr s t) = THREAD_STAT_RWLOCKSLEEP" if "t \<in> set (r # rs)" for t
    using that sched_status [OF inv, of t "QReader a"] r by simp
  have "r \<notin> set rs" using queues_distinct [OF sched_queues [OF inv], of "QReader a"] r by simp
  moreover have "r \<noteq> cur s" using st [of r] act by auto
  ultimately show ?thesis using Release_to_readers [OF inv r own] st by fastforce
qed

theorem RWLock_Release_forgets_readers_witness:
  "\<exists>s'. RWLock_Release 100 (sample_rw [20, 30] (QReader 100) 0 10) = Some (Ret s') \<and> ReaderWaiting (rwl s' 100) = 0 \<and>
     Status (thr s' 30) = THREAD_STAT_RWLOCKSLEEP"
  using RWLock_Release_forgets_readers [OF sample_rw_inv, of "QReader 100" "[20, 30]" 0 10 100 20 "[30]"]
  by (auto simp: sample_rw_def sample_simps)

section \<open>Events and work queues\<close>

text \<open>
  No event is lost. A thread that waits for the events \<open>m\<close> and has none pending goes to sleep; if a
  bit of \<open>m\<close> is then posted to it, it is ready again, and when it runs \<open>Threads_WaitEvents\<close> returns the
  posted bits of \<open>m\<close>, which it clears.
\<close>

theorem WaitEvents_gets_posted:
  assumes inv: "sched_inv s Q" and act: "Status (thr s (cur s)) = THREAD_STAT_ACTIVE"
    and m: "EventState (thr s (cur s)) AND m = 0" "m AND e \<noteq> 0"
    and wait: "Threads_WaitEvents m s = (r, s1)"
    and other: "same_but_queues (s1\<lparr>cur := c\<rparr>) s2" "sched_inv s2 Q2"
    and post: "Threads_PostEvent (cur s) e s2 = Some (Ret s3)"
    and again: "same_but_queues (s3\<lparr>cur := cur s\<rparr>) s4"
  shows "r = None \<and> Status (thr s3 (cur s)) = THREAD_STAT_ACTIVE \<and> fst (Threads_WaitEvents_resume m s4) = e AND m \<and>
    EventState (thr (snd (Threads_WaitEvents_resume m s4)) (cur s)) AND m = 0"
proof -
  let ?c = "cur s"
  have m0: "m \<noteq> 0" using m(2) by auto
  from WaitEvents_blocks [OF inv act m0 m(1)] wait have s1: "r = None" "Status (thr s1 ?c) = THREAD_STAT_EVENTSLEEP"
    "RetStatus (thr s1 ?c) = sint m" "EventState (thr s1 ?c) = EventState (thr s ?c)" by auto
  have s2: "Status (thr s2 ?c) = THREAD_STAT_EVENTSLEEP" "RetStatus (thr s2 ?c) = sint m"
    "EventState (thr s2 ?c) = EventState (thr s ?c)"
    using same_but_queues_thr(1,3,5) [OF other(1), of ?c] s1 by simp_all
  have "?c \<noteq> 0" using sched_basic [OF inv] by simp
  from PostEvent_wakes [OF other(2) this s2(1,2) m(2)] post have s3:
    "same_but_queues (activated ?c (set_EventState ?c (EventState (thr s2 ?c) OR e) s2)) s3" by auto
  have ev: "EventState (thr s4 ?c) = EventState (thr s ?c) OR e" "cur s4 = ?c"
    using same_but_queues_thr(5) [OF again, of ?c] same_but_queues_thr(5) [OF s3, of ?c] s2(3)
      same_but_queues_glob(1) [OF again] by simp_all
  have "EventState (thr s4 (cur s4)) AND m = e AND m"
    using ev m(1) by (simp add: bit.conj_disj_distrib2)
  from WaitEvents_resume [OF this] ev(2) s1(1) same_but_queues_thr(1) [OF s3, of ?c] show ?thesis
    by (simp add: and.assoc)
qed

theorem WaitEvents_gets_posted_witness:
  "\<exists>s1 s3. Threads_WaitEvents 1 sample_two = (None, s1) \<and> Threads_PostEvent 10 3 s1 = Some (Ret s3) \<and>
     fst (Threads_WaitEvents_resume 1 s3) = 1"
proof -
  have act: "Status (thr sample_two (cur sample_two)) = THREAD_STAT_ACTIVE" by (simp add: sample_two_simps)
  have ev: "EventState (thr sample_two (cur sample_two)) AND 1 = 0"
    using same_but_queues_thr(5) [OF enqueue_all_same [of "sample_state two_ready" "QActive 5" "[20]"], of 10]
    by (simp add: sample_two_def sample_two_simps two_ready_def sample_state_def running_thread_def blank_thread_def
      same_but_queues_glob(1) [OF enqueue_all_same] del: enqueue_all.simps)
  from WaitEvents_blocks [OF sample_two_inv act _ ev] obtain s1 where s1: "Threads_WaitEvents 1 sample_two = (None, s1)"
    "sched_inv s1 queue_two" "cur s1 = 10" "Status (thr s1 10) = THREAD_STAT_EVENTSLEEP" "RetStatus (thr s1 10) = sint (1 :: 32 word)"
    by (auto simp: sample_two_simps)
  from PostEvent_wakes [OF s1(2) _ s1(4,5), of 3] obtain s3 where s3: "Threads_PostEvent 10 3 s1 = Some (Ret s3)"
    "same_but_queues (activated 10 (set_EventState 10 (EventState (thr s1 10) OR 3) s1)) s3" by auto
  have c: "s1\<lparr>cur := 10\<rparr> = s1" "s3\<lparr>cur := 10\<rparr> = s3"
    using s1(3) same_but_queues_glob(1) [OF s3(2)] by (auto intro: kstate.equality)
  from WaitEvents_gets_posted [OF sample_two_inv act ev _ s1(1) _ s1(2), of 3 10 s3 s3] c s1(1) s3(1)
  show ?thesis by (simp add: sample_two_simps)
qed

fun add_work :: "ptr \<Rightarrow> ptr list \<Rightarrow> kstate \<Rightarrow> kstate outcome" where
  "add_work a [] s = Ret s"
| "add_work a (x # xs) s = bind_outcome (Workqueue_AddWork a x s) (add_work a xs)"

fun get_work :: "ptr \<Rightarrow> nat \<Rightarrow> kstate \<Rightarrow> ptr option list" where
  "get_work a 0 s = []"
| "get_work a (Suc n) s = (let (x, s) = Workqueue_GetWork a s in x # get_work a n s)"

lemma add_work_push: "sched_inv s Q \<Longrightarrow> Q (QWork a) = [] \<Longrightarrow> add_work a xs s = Ret (wqs.push_all a xs s)"
  by (induction xs arbitrary: s) (simp_all add: AddWork_nobody)

lemma get_work_pop: "wqs.pop_n n a s = Some (xs, s') \<Longrightarrow> get_work a n s = map Some xs"
proof (induction n arbitrary: s xs)
  case (Suc n)
  then obtain y s1 where "take_item a s = Some (y, s1)" by (auto split: option.splits)
  with Suc show ?case by (auto simp: GetWork_take Let_def split: option.splits)
qed simp

text \<open>
  C17: a work queue is first in, first out. Items added to an empty queue that no worker sleeps on are
  handed out in the order in which they were added.
\<close>

theorem Workqueue_fifo:
  assumes "sched_inv s Q" "Q (QWork a) = []" "items s I" "I a = []" "distinct xs" "\<forall>x \<in> set xs. x \<noteq> 0 \<and> free_of I x"
  shows "\<exists>s'. add_work a xs s = Ret s' \<and> get_work a (length xs) s' = map Some xs"
proof -
  from wqs.fifo [OF assms(3-6)] obtain s' where "wqs.pop_n (length xs) a (wqs.push_all a xs s) = Some (xs, s')" by blast
  with get_work_pop add_work_push [OF assms(1,2)] show ?thesis by auto
qed

lemma sample_two_items: "items sample_two (\<lambda>_. [])"
  using items_same [OF enqueue_all_same [of "sample_state two_ready" "QActive 5" "[20]"], of "\<lambda>_. []"]
  by (simp add: sample_two_def sample_state_def items_def queue_rep_def del: enqueue_all.simps)

theorem Workqueue_fifo_witness:
  "\<exists>s'. add_work 100 [1000, 2000, 3000] sample_two = Ret s' \<and> get_work 100 3 s' = [Some 1000, Some 2000, Some 3000]"
  using Workqueue_fifo [OF sample_two_inv _ sample_two_items, of 100 "[1000, 2000, 3000]"]
  by (simp add: free_of_def numeral_3_eq_3 del: add_work.simps get_work.simps)

text \<open>
  Adding an item while workers sleep wakes the one that has slept longest and keeps the rest
  asleep; the item is there for the next call of \<open>Workqueue_GetWork\<close>.
\<close>

theorem Workqueue_AddWork_wakes_worker:
  assumes inv: "sched_inv s Q" and w: "Q (QWork a) = w # ws" and I: "items s I" "I a = []" and x: "x \<noteq> 0" "free_of I x"
  shows "\<exists>s' s''. Workqueue_AddWork a x s = Ret s' \<and> Status (thr s' w) = THREAD_STAT_ACTIVE \<and>
    sched_inv s' (woken w s (Q(QWork a := ws))) \<and> Workqueue_GetWork a s' = (Some x, s'')"
proof -
  from AddWork_wakes [OF inv w, of x] obtain s' where s': "Workqueue_AddWork a x s = Ret s'"
    "same_but_queues (activated w (push_item a x s)) s'" "sched_inv s' (woken w s (Q(QWork a := ws)))" by blast
  have "items (activated w (push_item a x s)) J = items (push_item a x s) J" for J
    by (rule items_cong) (simp_all add: activated_def set_Status_def upd_thr_def)
  then have "items s' (I(a := [x]))"
    using items_same [OF s'(2)] push_item_items [OF I(1) x, of a] I(2) by simp
  from take_item_items [OF this, of a x "[]"] obtain s'' where "take_item a s' = Some (x, s'')" by auto
  from GetWork_take [OF this] s' same_but_queues_thr(1) [OF s'(2), of w] show ?thesis by auto
qed

lemma sample_sleepers_items: "items (sample_sleepers ts q w r) (\<lambda>_. [])"
  using items_same [OF enqueue_all_same [of "sample_state (one_asleep (status_of q) w r)" q ts], of "\<lambda>_. []"]
  by (simp add: sample_sleepers_def sample_state_def items_def queue_rep_def)

theorem Workqueue_AddWork_wakes_worker_witness:
  "\<exists>s' s''. Workqueue_AddWork 100 1000 (sample_asleep (QWork 100) (WQueue 100) 0) = Ret s' \<and>
     Status (thr s' 20) = THREAD_STAT_ACTIVE \<and> Workqueue_GetWork 100 s' = (Some 1000, s'')"
  using Workqueue_AddWork_wakes_worker [OF sample_asleep_inv _ sample_sleepers_items, of "QWork 100" 100 20 "[]" 1000 "WQueue 100" 0]
  by (auto simp: free_of_def)

section \<open>Death and reaping\<close>

text \<open>
  C14: a thread that exits while its parent waits for a child becomes a zombie and wakes the parent;
  when the scheduler runs the parent, \<open>Threads_WaitTID\<close> returns the number of the child and the low byte
  of its exit status, the child is buried and the lock for the next death is free.
\<close>

theorem Exit_then_WaitTID:
  assumes inv: "sched_inv s Q" and a: "Status (thr s (cur s)) = THREAD_STAT_ACTIVE"
    and G: "lseg (\<lambda>t. GlobalNext (thr s t)) (gAllThreads s) G" "distinct G"
    and ms: "lseg (\<lambda>m. MNext (msg s m)) (Messages (thr s (cur s))) ms"
    and p: "Parent (thr s (cur s)) = p" "p \<noteq> cur s" "p \<noteq> 0" "LastDeadChild (thr s p) = 0"
    and w: "Status (thr s p) = THREAD_STAT_EVENTSLEEP" "RetStatus (thr s p) = sint THREAD_EVENT_DEADCHILD"
    and lock: "Owner (mtx s (DeadChildLock p)) = 0" "Q (QMutex (DeadChildLock p)) = []"
    and T: "lseg (\<lambda>t. ProcessNext (thr s t)) (FirstThread (prc s (Process (thr s (cur s))))) T" "distinct T" "cur s \<in> set T"
    and exit: "Threads_Exit 0 St s = Some (Ret (b, s1))" and switch: "Proc_Reschedule CPU s1 = Ret s2" "cur s2 = p"
  shows "b \<and> Status (thr s1 (cur s)) = THREAD_STAT_ZOMBIE \<and>
    (\<exists>s3. Threads_WaitTID_any_resume s2 = Some (Ret (int (TID (thr s (cur s))), Some (St mod 256), s3)) \<and>
      Status (thr s3 (cur s)) = THREAD_STAT_BURIED \<and> Owner (mtx s3 (DeadChildLock p)) = 0)"
proof -
  let ?c = "cur s" and ?s = "corpse G (St mod 256) s"
  let ?t = "set_Owner (DeadChildLock p) ?c ?s"
  let ?u = "upd_thr p (\<lambda>t. t\<lparr>LastDeadChild := ?c, EventState := EventState (thr s p) OR THREAD_EVENT_DEADCHILD\<rparr>) ?t"
  from Kill_self_wakes_parent [OF inv a G ms p(1-3) w lock(1), of "St mod 256"] exit p(4) have s1: "b"
    "sched_inv s1 (woken p ?s Q)" "Next (thr s1 ?c) = 0" "same_but_queues (activated p ?u) s1"
    by (auto simp: Threads_Exit_def Let_def)
  from Reschedule_inv [OF s1(2), of CPU] obtain r R where r: "Proc_Reschedule CPU s1 = Ret r" "sched_inv r R"
    "same_but_queues (s1\<lparr>cur := cur r\<rparr>) r" "\<forall>q. status_of q \<noteq> THREAD_STAT_ACTIVE \<longrightarrow> R q = woken p ?s Q q"
    "Status (thr s1 (cur s1)) \<noteq> THREAD_STAT_ACTIVE \<longrightarrow> (\<forall>t. t \<noteq> cur r \<longrightarrow> Next (thr r t) = Next (thr s1 t))" by blast
  have c1: "cur s1 = ?c" using same_but_queues_glob(1) [OF s1(4)] by (simp add: upd_thr_def corpse_simps)
  have f1: "Status (thr s1 ?c) = THREAD_STAT_ZOMBIE" "LastDeadChild (thr s1 p) = ?c" "TID (thr s1 ?c) = TID (thr s ?c)"
      "RetStatus (thr s1 ?c) = St mod 256" "EventState (thr s1 p) = EventState (thr s p) OR THREAD_EVENT_DEADCHILD"
      "ProcessNext (thr s1 t) = ProcessNext (thr s t)" "Process (thr s1 t) = Process (thr s t)" "prc s1 = prc s" for t
    using same_but_queues_thr [OF s1(4)] same_but_queues_glob(12) [OF s1(4)] p(2)
    by (simp_all add: upd_thr_def corpse_thr corpse_simps set_Owner_def Let_def activated_def set_Status_def)
  note f2 = same_but_queues_thr [OF r(3), simplified] same_but_queues_glob(12) [OF r(3), simplified]
  have rr: "r = s2" "cur r = p" using switch r(1) by simp_all
  have n2: "Next (thr r ?c) = 0" using r(5) c1 f1(1) s1(3) p(2) rr by simp
  have ev: "EventState (thr r p) AND THREAD_EVENT_DEADCHILD \<noteq> 0"
    using f2(5) [of p] f1(5) by (simp add: bit.conj_disj_distrib2 THREAD_EVENT_DEADCHILD_def)
  have nobody: "R (QMutex (DeadChildLock p)) = []" using r(4) [rule_format, of "QMutex (DeadChildLock p)"] lock(2) by simp
  have "lseg (\<lambda>t. ProcessNext (thr r t)) (FirstThread (prc r (Process (thr r ?c)))) T"
    using T(1) f1 f2 by simp
  with WaitTID_resume_reaps [OF r(2), unfolded rr(2), of ?c T] T(2,3) n2 ev nobody f1 f2 p(2) sched_basic [OF inv] rr
  have "\<exists>s3. Threads_WaitTID_any_resume s2 = Some (Ret (int (TID (thr s ?c)), Some (St mod 256), s3)) \<and>
      Status (thr s3 ?c) = THREAD_STAT_BURIED \<and> Owner (mtx s3 (DeadChildLock p)) = 0" by fastforce
  with s1(1) f1(1) show ?thesis by blast
qed

text \<open>A child 10 of thread 20, which waits for it; both are in the process at address 500.\<close>

definition family_thr :: "ptr \<Rightarrow> tThread" where
  "family_thr = (\<lambda>t. if t = 10 then running_thread\<lparr>TID := 7, Parent := 20, Process := 500\<rparr>
     else if t = 20 then blank_thread\<lparr>Status := THREAD_STAT_EVENTSLEEP, RetStatus := sint THREAD_EVENT_DEADCHILD\<rparr>
     else blank_thread)"

definition family :: kstate where
  "family = upd_prc 500 (\<lambda>p. p\<lparr>FirstThread := 10, nThreads := 1\<rparr>) (sample_state family_thr)"

lemma family_inv: "sched_inv family (\<lambda>_. [])"
proof -
  have "sched_inv (enqueue_all QSleeping [] (sample_state family_thr)) ((\<lambda>_. [])(QSleeping := []))"
    by (rule sample_threads_inv) (auto simp: family_thr_def running_thread_def blank_thread_def MIN_PRIORITY_def)
  moreover have "(\<lambda>_. [])(QSleeping := []) = (\<lambda>_. [] :: ptr list)" by auto
  ultimately have "sched_inv (sample_state family_thr) (\<lambda>_. [])" by simp
  moreover have "queues family Q = queues (sample_state family_thr) Q" for Q
    by (rule queues_cong) (simp_all add: family_def)
  ultimately show ?thesis by (simp add: sched_inv_def family_def upd_prc_def)
qed

lemma family_simps: "cur family = 10" "thr family = family_thr" "gAllThreads family = 10" "mtx family m = \<lparr>Owner = 0, Waiting = 0, LastWaiting = 0\<rparr>"
  "FirstThread (prc family 500) = 10" "msg family x = \<lparr>MNext = 0, MSource = 0, MLength = 0\<rparr>" "\<not> gaThreads_NoTaskSwitch family"
  "gThreadZero family = 10"
  by (simp_all add: family_def sample_state_def upd_prc_def)

theorem Exit_then_WaitTID_witness:
  "\<exists>s1 s2 s3. Threads_Exit 0 42 family = Some (Ret (True, s1)) \<and> Proc_Reschedule 0 s1 = Ret s2 \<and>
     Threads_WaitTID_any_resume s2 = Some (Ret (7, Some 42, s3))"
proof -
  have pre: "Status (thr family (cur family)) = THREAD_STAT_ACTIVE" "lseg (\<lambda>t. GlobalNext (thr family t)) (gAllThreads family) [10]"
    "distinct [10 :: ptr]" "lseg (\<lambda>m. MNext (msg family m)) (Messages (thr family (cur family))) []"
    "Parent (thr family (cur family)) = 20" "20 \<noteq> cur family" "(20 :: ptr) \<noteq> 0" "Status (thr family 20) = THREAD_STAT_EVENTSLEEP"
    "RetStatus (thr family 20) = sint THREAD_EVENT_DEADCHILD" "Owner (mtx family (DeadChildLock 20)) = 0"
    by (simp_all add: family_simps family_thr_def running_thread_def blank_thread_def)
  from Kill_self_wakes_parent [OF family_inv pre, of 42] obtain s1 where
    s1: "Threads_Kill 10 42 family = Some (Ret (True, s1))" "sched_inv s1 (woken 20 (corpse [10] 42 family) (\<lambda>_. []))"
    "same_but_queues (activated 20 (upd_thr 20 (\<lambda>t. t\<lparr>LastDeadChild := 10,
      EventState := EventState (thr family 20) OR THREAD_EVENT_DEADCHILD\<rparr>) (set_Owner (DeadChildLock 20) 10 (corpse [10] 42 family)))) s1"
    by (auto simp: family_simps)
  have exit: "Threads_Exit 0 42 family = Some (Ret (True, s1))" using s1(1) by (simp add: Threads_Exit_def family_simps)
  have th: "cur s1 = 10" "Status (thr s1 10) = THREAD_STAT_ZOMBIE" "\<not> gaThreads_NoTaskSwitch s1"
    using same_but_queues_glob(1,3) [OF s1(3)] same_but_queues_thr(1) [OF s1(3), of 10]
    by (simp_all add: upd_thr_def corpse_simps corpse_thr family_simps activated_def set_Status_def set_Owner_def Let_def)
      (simp add: corpse_def disowned_def upd_thr_def set_Status_def set_RetStatus_def family_simps)
  have q: "requeued s1 (woken 20 (corpse [10] 42 family) (\<lambda>_. [])) = (\<lambda>_. [])(QActive 5 := [20])"
    by (auto simp: requeued_def Let_def th woken_def corpse_simps family_simps corpse_thr family_thr_def blank_thread_def)
  from Reschedule_run [OF s1(2) th(3), of 5 20 "[]" 0] obtain s2 where s2: "Proc_Reschedule 0 s1 = Ret s2" "same_but_queues (s1\<lparr>cur := 20\<rparr>) s2"
    unfolding q by auto
  have "cur s2 = 20" using same_but_queues_glob(1) [OF s2(2)] by simp
  from Exit_then_WaitTID [OF family_inv pre(1-7) _ pre(8-10) _ _ _ _ exit s2(1) this, of "[10]"] exit s2(1) show ?thesis
    by (auto simp: family_simps family_thr_def running_thread_def blank_thread_def)
qed

text \<open>
  A thread that exits before the previous death among its siblings has been reaped does not
  become a zombie: it sleeps on the lock of the parent, and the count of active threads drops by two.
\<close>

theorem Exit_while_death_unreported:
  assumes "Status (thr s (cur s)) = THREAD_STAT_ACTIVE"
    "lseg (\<lambda>t. GlobalNext (thr s t)) (gAllThreads s) G" "distinct G"
    "lseg (\<lambda>m. MNext (msg s m)) (Messages (thr s (cur s))) ms"
    "Parent (thr s (cur s)) = p" "p \<noteq> cur s" "p \<noteq> 0" "Owner (mtx s (DeadChildLock p)) \<noteq> 0"
  shows "\<exists>s'. Threads_Exit 0 St s = Some (Ret (False, s')) \<and> Status (thr s' (cur s)) = THREAD_STAT_MUTEXSLEEP \<and>
    giNumActiveThreads s' = giNumActiveThreads s - 2"
  using Kill_self_blocked [OF assms] by (simp add: Threads_Exit_def)

theorem Exit_while_death_unreported_witness:
  "\<exists>s'. Threads_Exit 0 1 (set_Owner (DeadChildLock 20) 30 family) = Some (Ret (False, s')) \<and>
     Status (thr s' 10) = THREAD_STAT_MUTEXSLEEP \<and> giNumActiveThreads s' = - 1"
proof -
  have n: "giNumActiveThreads family = 1" by (simp add: family_def sample_state_def upd_prc_def)
  have g: "gAllThreads (set_Owner m t s) = gAllThreads s" "msg (set_Owner m t s) = msg s" for m t s by (simp_all add: set_Owner_def)
  from Exit_while_death_unreported [of "set_Owner (DeadChildLock 20) 30 family" "[10]" "[]" 20 1] show ?thesis
    by (auto simp: family_simps family_thr_def running_thread_def blank_thread_def g n)
qed

text \<open>
  A cloned thread gets a number of its own. It can be looked up by that number, every other thread
  is still found by its own, and the scheduler does not know the new thread yet.
\<close>

theorem CloneTCB_fresh_thread:
  assumes "sched_inv s Q" "thread_list s G" "G \<noteq> []" "new \<noteq> 0" "new \<noteq> cur s" "new \<notin> set G" "free_of Q new"
    "newproc \<noteq> 0" "giNextTID s + 1 < two32" "Q (QMutex (DeadChildLock (cur s))) = []" "Q (QMutex (DeadChildLock new)) = []"
  shows "\<exists>s'. Threads_CloneTCB Flags new newproc s = Ret (new, s') \<and> sched_inv s' Q \<and>
    Status (thr s' new) = THREAD_STAT_PREINIT \<and> Threads_GetThread (giNextTID s) s' = Some new \<and>
    (\<forall>t \<in> set G. Threads_GetThread (TID (thr s t)) s' = Some t)"
proof -
  from CloneTCB_correct [OF assms, of Flags] obtain s' where s': "Threads_CloneTCB Flags new newproc s = Ret (new, s')"
    "sched_inv s' Q" "thread_list s' (new # G)" "TID (thr s' new) = giNextTID s" "Status (thr s' new) = THREAD_STAT_PREINIT"
    "\<forall>t \<in> set G. TID (thr s' t) = TID (thr s t)" by blast
  have "Threads_GetThread (giNextTID s) s' = Some new" using GetThread_found [OF s'(3), of new] s'(4) by simp
  moreover have "Threads_GetThread (TID (thr s t)) s' = Some t" if "t \<in> set G" for t
    using GetThread_found [OF s'(3), of t] s'(6) that by simp
  ultimately show ?thesis using s' by blast
qed

lemma family_list: "thread_list family [10]" "giNextTID family = 50"
  by (simp_all add: thread_list_def family_def sample_state_def upd_prc_def family_thr_def running_thread_def blank_thread_def)

theorem CloneTCB_fresh_thread_witness:
  "\<exists>s'. Threads_CloneTCB CLONE_VM 30 600 family = Ret (30, s') \<and> Threads_GetThread 50 s' = Some 30 \<and>
     Threads_GetThread 7 s' = Some 10"
  using CloneTCB_fresh_thread [OF family_inv family_list(1), of 30 600 CLONE_VM]
  by (auto simp: family_simps family_list free_of_def family_thr_def)

section \<open>Messages and signals\<close>

text \<open>
  C15: a message arrives as it was sent. The sender copies \<open>n\<close> bytes at \<open>a\<close> to a thread with an empty
  mailbox; when that thread runs and asks for a message with a large enough buffer, it gets the length,
  the number of the sender and the same bytes, and its mailbox is empty again.
\<close>

theorem Message_round_trip:
  assumes dest: "thread_list s G" "t \<in> set G" "Status (thr s t) \<noteq> THREAD_STAT_DEAD" "mailbox s t []"
    and m: "m \<noteq> 0" and d: "0 < n" "a \<noteq> 0" "a + n \<le> m + sizeof_tMsg \<or> m + sizeof_tMsg + n \<le> a"
    and send: "Proc_SendMessage (TID (thr s t)) (int n) a m s = Some (Ret (r, s1))"
    and switch: "same_but_queues (s1\<lparr>cur := t\<rparr>) s2"
    and buf: "b \<noteq> 0" "b \<noteq> GETMSG_IGNORE" "check b k" "n \<le> k" "b + k \<le> m + sizeof_tMsg \<or> m + sizeof_tMsg + k \<le> b"
  shows "r = 0 \<and> (\<exists>s3. Proc_GetMessage check k b s2 = (int n, Some (TID (thr s (cur s))), s3) \<and>
    (\<forall>i < n. kmem s3 (b + i) = kmem s (a + i)) \<and> mailbox s3 t [])"
proof -
  from SendMessage_delivers [OF dest m _ d(1,2)] send have s1: "r = 0" "mailbox s1 t [m]"
    "kmem s1 = memcpy (kmem s) (m + sizeof_tMsg) a n" "MLength (msg s1 m) = n" "MSource (msg s1 m) = TID (thr s (cur s))" by auto
  have c: "cur s2 = t" "msg s2 = msg s1" "kmem s2 = kmem s1"
    using same_but_queues_glob(1,13,14) [OF switch] by simp_all
  have "mailbox s2 t [m] = mailbox s1 t [m]"
    using c same_but_queues_thr(12,13) [OF switch, of t] by (intro mailbox_cong) simp_all
  with s1(2) have "mailbox s2 (cur s2) [m]" using c(1) by simp
  from GetMessage_first [OF this buf(1,2), of check k] buf(3) obtain s3 where s3:
    "Proc_GetMessage check k b s2 = (int n, Some (TID (thr s (cur s))), s3)" "mailbox s3 t []"
    "kmem s3 = memcpy (kmem s2) b (m + sizeof_tMsg) k" using c s1(4,5) by auto
  have "kmem s3 (b + i) = kmem s (a + i)" if i: "i < n" for i
  proof -
    have apart: "b \<le> m + sizeof_tMsg \<or> m + sizeof_tMsg + k \<le> b" "m + sizeof_tMsg \<le> a \<or> a + n \<le> m + sizeof_tMsg"
      using buf(5) d(3) by linarith+
    have "i < k" using i buf(4) by simp
    from memcpy_apply [OF apart(1) this] have "kmem s3 (b + i) = kmem s1 (m + sizeof_tMsg + i)" by (simp add: s3(3) c(3))
    also have "\<dots> = kmem s (a + i)" using memcpy_apply [OF apart(2) i] by (simp add: s1(3))
    finally show ?thesis .
  qed
  with s1(1) s3 show ?thesis by blast
qed

theorem Message_round_trip_witness:
  "\<exists>s1 s3. Proc_SendMessage 7 4 2000 1000 family = Some (Ret (0, s1)) \<and>
     Proc_GetMessage (\<lambda>_ _. True) 8 3000 s1 = (4, Some 7, s3)"
proof -
  have dest: "thread_list family [10]" "10 \<in> set [10 :: ptr]" "Status (thr family 10) \<noteq> THREAD_STAT_DEAD" "mailbox family 10 []"
    by (simp_all add: family_list family_simps family_thr_def running_thread_def blank_thread_def mailbox_def queue_rep_def)
  have tid: "TID (thr family 10) = 7" "TID (thr family (cur family)) = 7" by (simp_all add: family_simps family_thr_def)
  from SendMessage_delivers [OF dest, of 1000 4 2000] tid obtain s1 where
    s1: "Proc_SendMessage 7 4 2000 1000 family = Some (Ret (0, s1))" "cur s1 = 10" by (auto simp: family_simps)
  have "s1\<lparr>cur := 10\<rparr> = s1" using s1(2) by (auto intro: kstate.equality)
  with Message_round_trip [OF dest, of 1000 4 2000 0 s1 s1 3000 "\<lambda>_ _. True" 8] s1(1) tid show ?thesis
    by (auto simp: sizeof_tMsg_def GETMSG_IGNORE_def)
qed

text \<open>
  The kill signal cannot be caught. Whatever handlers a process installs, the handler for
  \<open>SIGKILL\<close> is the default one; a handler installed for another signal than \<open>SIGKILL\<close> and \<open>SIGSTOP\<close> is
  the one that is called, provided it lies in user space.
\<close>

theorem SIGKILL_not_caught:
  "Threads_GetSignalHandler kh (signal_number SIGKILL) (Threads_SetSignalHandler is_user n h s) = kh \<and>
   (0 < n \<and> n < NSIGNALS \<and> n \<noteq> signal_number SIGKILL \<and> n \<noteq> signal_number SIGSTOP \<and> is_user h \<and> h \<noteq> 0 \<longrightarrow>
    Threads_GetSignalHandler kh n (Threads_SetSignalHandler is_user n h s) = h)"
  by (auto simp: Threads_GetSignalHandler_def Threads_SetSignalHandler_def upd_prc_def NSIGNALS_def Let_def)

theorem SIGKILL_not_caught_witness:
  "Threads_GetSignalHandler 77 3 (Threads_SetSignalHandler (\<lambda>p. p < 1000) 3 500 family) = 500"
  using SIGKILL_not_caught [of 77 "\<lambda>p. p < 1000" 3 500 family] by (simp add: NSIGNALS_def)

text \<open>
  Only a process of user 0 may change its user: for any other the call fails with \<open>EACCES\<close> and no
  process changes.
\<close>

theorem SetUID_needs_root:
  assumes "UID (prc s (Process (thr s (cur s)))) \<noteq> 0"
  shows "fst (Threads_SetUID u s) = - 1 \<and> prc (snd (Threads_SetUID u s)) = prc s \<and>
    errno (thr (snd (Threads_SetUID u s)) (cur s)) = - errno_value EACCES"
  using assms by (simp add: Threads_SetUID_def upd_thr_def)

theorem SetUID_needs_root_witness:
  "fst (Threads_SetUID 0 (upd_prc 500 (\<lambda>p. p\<lparr>UID := 1000\<rparr>) family)) = - 1"
proof -
  have "UID (prc (upd_prc 500 (\<lambda>p. p\<lparr>UID := 1000\<rparr>) family) (Process (thr family (cur family)))) \<noteq> 0"
    by (simp add: family_simps family_thr_def upd_prc_def)
  with SetUID_needs_root [of "upd_prc 500 (\<lambda>p. p\<lparr>UID := 1000\<rparr>) family" 0] show ?thesis by simp
qed

text \<open>
  \<open>Threads_Wake\<close> takes a thread that sleeps on a semaphore, as a waiter or as a signaller, off the
  queue it is on, whatever its place there, tells it that it got nothing and makes it ready.
\<close>

theorem Wake_from_semaphore:
  assumes "sched_inv s Q" "WaitPointer (thr s t) = WSem a" "k = QSemWait a \<or> k = QSemSignal a" "Q k = xs @ t # ys"
  shows "\<exists>s'. Threads_Wake t s = Some (Ret (- errno_value EOK, s')) \<and> Status (thr s' t) = THREAD_STAT_ACTIVE \<and>
    RetStatus (thr s' t) = 0 \<and> sched_inv s' (woken t s (Q(k := xs @ ys)))"
proof -
  from Wake_semaphore [OF assms] obtain s' where s': "Threads_Wake t s = Some (Ret (0, s'))"
    "same_but_queues (activated t (set_RetStatus t 0 s)) s'" "sched_inv s' (woken t s (Q(k := xs @ ys)))" by blast
  with same_but_queues_thr(1,3) [OF s'(2), of t] show ?thesis by (simp add: set_RetStatus_def upd_thr_def)
qed

theorem Wake_from_semaphore_witness:
  "\<exists>s'. Threads_Wake 30 (sample_sleepers [20, 30] (QSemSignal 100) (WSem 100) 5) = Some (Ret (0, s')) \<and>
     Status (thr s' 30) = THREAD_STAT_ACTIVE"
proof -
  have "WaitPointer (thr (sample_sleepers [20, 30] (QSemSignal 100) (WSem 100) 5) 30) = WSem 100"
    using same_but_queues_thr(4) [OF enqueue_all_same [of "sample_state (one_asleep (status_of (QSemSignal 100)) (WSem 100) 5)"
      "QSemSignal 100" "[20, 30]"], of 30]
    by (simp add: sample_sleepers_def sample_state_def one_asleep_def del: enqueue_all.simps)
  from Wake_from_semaphore [OF sample_sleepers_inv this, of "QSemSignal 100" "[20]" "[]"] show ?thesis by auto
qed

section \<open>The queues\<close>

text \<open>
  C16: the pointer surgery of \<open>Threads_int_DelFromQueue\<close> is removal from a list: it always ends, it
  returns the thread exactly when it was on the queue, the queue then holds the other threads in the
  same order, and no other queue changes.
\<close>

theorem DelFromQueue_refines_remove:
  assumes "queues s Q"
  shows "\<exists>s'. Threads_int_DelFromQueue q t s = Some (Ret (if t \<in> set (Q q) then t else 0, s')) \<and>
    queues s' (Q(q := remove1 t (Q q))) \<and> same_but_queues s s'"
proof (cases "t \<in> set (Q q)")
  case True
  then obtain xs ys where eq: "Q q = xs @ t # ys" by (auto simp: in_set_conv_decomp)
  have "t \<notin> set xs" using queues_distinct [OF assms, of q] eq by simp
  then have "remove1 t (Q q) = xs @ ys" by (simp add: eq remove1_append)
  with DelFromQueue_present [OF assms eq] True show ?thesis by simp
next
  case False
  with DelFromQueue_absent [OF assms False] assms show ?thesis by (simp add: remove1_idem)
qed

theorem DelFromQueue_refines_remove_witness:
  "\<exists>s'. Threads_int_DelFromQueue QSleeping 20 (sample_sleepers [20, 30] QSleeping WNone 0) = Some (Ret (20, s')) \<and>
     queues s' ((\<lambda>_. [])(QSleeping := [30]))"
proof -
  have "queues (sample_sleepers [20, 30] QSleeping WNone 0) ((\<lambda>_. [])(QSleeping := [20, 30]))"
    by (rule sched_queues [OF sample_sleepers_inv]) simp_all
  from DelFromQueue_refines_remove [OF this, of QSleeping 20] show ?thesis by auto
qed

end
