(* ===== verification/Division.thy ===== *)
theory Division
  imports Prelude
begin

text \<open>
  The 64-bit division of the x86 build: \<open>__divmod64\<close> of \<open>arch/helpers.h\<close>, which shifts and
  subtracts, and \<open>DivMod64U\<close>, \<open>__udivdi3\<close> and \<open>__umoddi3\<close> of \<open>arch/x86/lib.c\<close>, which choose
  between a shift, the \<open>div\<close> instruction and \<open>__divmod64\<close>. The lemmas show that the loops end on
  every input and that each routine is the division of the unbounded values.
\<close>

unbundle bit_operations_syntax

section \<open>The routines\<close>

text \<open>The first loop, which scales the divisor up. It ends because the bits of \<open>add\<close> leave the word.\<close>

definition bit_weight :: "64 word \<Rightarrow> nat" where
  "bit_weight a = (\<Sum>i | i < 64 \<and> bit a i. 64 - i)"

lemma bit_weight_shift:
  assumes "a \<noteq> 0"
  shows "bit_weight (push_bit 1 a) < bit_weight a"
proof -
  let ?B = "{i. i < 64 \<and> bit a i}"
  have fin: "finite ?B" by simp
  from assms obtain j where "bit a j" by (auto simp: bit_eq_iff)
  then have "j \<in> ?B" using bit_imp_le_length [of a j] by simp
  have "{i. i < 64 \<and> bit (push_bit 1 a) i} \<subseteq> Suc ` ?B"
  proof
    fix i assume "i \<in> {i. i < 64 \<and> bit (push_bit 1 a) i}"
    then have "i < 64" "bit (push_bit 1 a) i" by simp_all
    then have "i = Suc (i - 1)" "i - 1 \<in> ?B" unfolding bit_push_bit_iff by simp_all
    then show "i \<in> Suc ` ?B" by blast
  qed
  then have "bit_weight (push_bit 1 a) \<le> (\<Sum>i \<in> Suc ` ?B. 64 - i)"
    unfolding bit_weight_def using fin by (intro sum_mono2) auto
  also have "\<dots> = (\<Sum>i \<in> ?B. 64 - Suc i)" by (simp add: sum.reindex)
  also have "\<dots> < (\<Sum>i \<in> ?B. 64 - i)"
    using fin \<open>j \<in> ?B\<close> by (intro sum_strict_mono) auto
  finally show ?thesis by (simp add: bit_weight_def)
qed

function divmod_up :: "64 word \<Rightarrow> 64 word \<Rightarrow> 64 word \<Rightarrow> 64 word \<times> 64 word" where
  "divmod_up N D add =
     (if N div 2 \<ge> D \<and> add \<noteq> 0 then divmod_up N (push_bit 1 D) (push_bit 1 add) else (D, add))"
  by auto
termination
  by (relation "measure (\<lambda>(N, D, add). bit_weight add)") (use bit_weight_shift [simplified] in auto)

lemma unat_half: "unat (drop_bit 1 (a :: 64 word)) = unat a div 2"
  by (simp only: drop_bit_eq_div power_one_right) (simp add: unat_div)

lemma unat_double:
  assumes "2 * unat a < 2 ^ 64"
  shows "unat (push_bit 1 (a :: 64 word)) = 2 * unat a"
  using assms by (simp add: unat_word_ariths)

lemma drop_bit_less:
  assumes "(a :: 64 word) > 0"
  shows "unat (drop_bit 1 a) < unat a"
proof -
  from assms have "unat a > 0" by (simp add: word_less_nat_alt)
  then show ?thesis unfolding unat_half by simp
qed

text \<open>The second loop: one bit of the quotient per round.\<close>

function divmod_down :: "64 word \<Rightarrow> 64 word \<Rightarrow> 64 word \<Rightarrow> 64 word \<Rightarrow> 64 word \<times> 64 word" where
  "divmod_down N D add ret =
     (if add > 0 then
        (let (ret, N) = (if N \<ge> D then (ret + add, N - D) else (ret, N))
         in divmod_down N (drop_bit 1 D) (drop_bit 1 add) ret)
      else (ret, N))"
  by auto
termination
  by (relation "measure (\<lambda>(N, D, add, ret). unat add)") (use drop_bit_less in auto)

declare divmod_up.simps [simp del] divmod_down.simps [simp del]

definition divmod64 :: "64 word \<Rightarrow> 64 word \<Rightarrow> 64 word \<times> 64 word" where
  "divmod64 N D = (let (D, add) = divmod_up N D 1 in divmod_down N D add 0)"

text \<open>
  The instruction \<open>div r32\<close> divides \<open>edx:eax\<close>. It raises an exception when the divisor is zero or
  the quotient does not fit 32 bits.
\<close>

definition div_insn :: "32 word \<Rightarrow> 32 word \<Rightarrow> 32 word \<Rightarrow> (32 word \<times> 32 word) outcome" where
  "div_insn edx eax d =
     (let n = two32 * unat edx + unat eax in
      if d = 0 \<or> n div unat d \<ge> two32 then Panicked
      else Ret (word_of_nat (n div unat d), word_of_nat (n mod unat d)))"

definition DivMod64U :: "64 word \<Rightarrow> 64 word \<Rightarrow> (64 word \<times> 64 word) outcome" where
  "DivMod64U Num Div =
     (if Div = 16 then Ret (drop_bit 4 Num, and Num 15)
      else if Div < 0x100000000 \<and> Num < 0xFFFFFFFF * Div then
        bind_outcome (div_insn (ucast (drop_bit 32 Num)) (ucast (and Num 0xFFFFFFFF)) (ucast Div))
          (\<lambda>(ret_32, rem). Ret (ucast ret_32, ucast rem))
      else Ret (divmod64 Num Div))"

definition udivdi3 :: "64 word \<Rightarrow> 64 word \<Rightarrow> 64 word outcome" where
  "udivdi3 Num Den =
     (if Den = 0 then Panicked
      else Ret (
        if Num \<le> 0xFFFFFFFF \<and> Den \<le> 0xFFFFFFFF then ucast ((ucast Num :: 32 word) div ucast Den)
        else if Den = 1 then Num
        else if Den = 2 then drop_bit 1 Num
        else if Den = 4 then drop_bit 2 Num
        else if Den = 8 then drop_bit 3 Num
        else if Den = 16 then drop_bit 4 Num
        else if Den = 32 then drop_bit 5 Num
        else if Den = 1024 then drop_bit 10 Num
        else if Den = 2048 then drop_bit 11 Num
        else if Den = 4096 then drop_bit 12 Num
        else if Num < Den then 0
        else if Num < Den * 2 then 1
        else if Num = Den * 2 then 2
        else fst (divmod64 Num Den)))"

definition umoddi3 :: "64 word \<Rightarrow> 64 word \<Rightarrow> 64 word outcome" where
  "umoddi3 Num Den =
     (if Den = 0 then Panicked
      else Ret (
        if Den = 1 then 0
        else if Den = 2 then and Num 1
        else if Den = 4 then and Num 3
        else if Den = 8 then and Num 7
        else if Den = 16 then and Num 15
        else if Den = 32 then and Num 31
        else if Den = 1024 then and Num 1023
        else if Den = 2048 then and Num 2047
        else if Den = 4096 then and Num 4095
        else if drop_bit 32 Num = 0 \<and> drop_bit 32 Den = 0
        then ucast ((ucast Num :: 32 word) mod ucast Den)
        else snd (divmod64 Num Den)))"

section \<open>Shift and subtract\<close>

text \<open>In both loops the divisor and \<open>add\<close> stay the original divisor and one, scaled by the same power.\<close>

lemma divmod_down_spec:
  assumes "unat D = d * 2 ^ k" "unat add = 2 ^ k" "unat N < 2 * unat D" "0 < d"
  shows "divmod_down N D add ret = (ret + word_of_nat (unat N div d), word_of_nat (unat N mod d))"
  using assms
proof (induction k arbitrary: N D add ret)
  case 0
  then have "add = 1" by (metis power_0 unsigned_1 word_unat_eq_iff)
  have z: "drop_bit (Suc 0) (1 :: 64 word) = 0" by (simp add: drop_bit_eq_div)
  show ?case
  proof (cases "N \<ge> D")
    case True
    then have n: "unat N = unat (N - D) + d"
      using 0 by (simp add: unat_sub_if_size word_le_nat_alt)
    then have "unat (N - D) < d" using 0 by simp
    then have "unat N div d = 1" "unat N mod d = unat (N - D)"
      unfolding n using \<open>0 < d\<close> by (simp_all add: div_add_self2)
    then show ?thesis
      using True z unfolding \<open>add = 1\<close>
      by (simp add: divmod_down.simps [of N D 1] divmod_down.simps [of _ _ 0])
  next
    case False
    then have "unat N < d" using 0 by (simp add: word_le_nat_alt)
    then show ?thesis
      using False z unfolding \<open>add = 1\<close>
      by (simp add: divmod_down.simps [of N D 1] divmod_down.simps [of _ _ 0])
  qed
next
  case (Suc k)
  have halves: "unat (drop_bit 1 D) = d * 2 ^ k" "unat (drop_bit 1 add) = 2 ^ k"
    unfolding unat_half using Suc.prems by simp_all
  have "add > 0" using Suc.prems by (simp add: word_less_nat_alt)
  show ?case
  proof (cases "N \<ge> D")
    case True
    then have n: "unat N = unat (N - D) + d * 2 ^ Suc k"
      using Suc.prems by (simp add: unat_sub_if_size word_le_nat_alt)
    then have "unat (N - D) < 2 * unat (drop_bit 1 D)" using Suc.prems halves by simp
    note ih = Suc.IH [OF halves this Suc.prems(4), of "ret + add"]
    have "unat N div d = unat (N - D) div d + 2 ^ Suc k" "unat N mod d = unat (N - D) mod d"
      unfolding n using Suc.prems(4) by (simp_all add: mult.commute)
    moreover have "(word_of_nat (2 ^ Suc k) :: 64 word) = add"
      unfolding Suc.prems(2) [symmetric] by simp
    ultimately show ?thesis
      using ih True \<open>add > 0\<close> by (simp add: divmod_down.simps [of N D add] ac_simps)
  next
    case False
    then have "unat N < 2 * unat (drop_bit 1 D)" using Suc.prems halves by (simp add: word_le_nat_alt)
    from Suc.IH [OF halves this Suc.prems(4), of ret] show ?thesis
      using False \<open>add > 0\<close> by (simp add: divmod_down.simps [of N D add])
  qed
qed

lemma divmod_up_spec:
  assumes "unat D = d * 2 ^ k" "unat add = 2 ^ k" "0 < d"
  shows "\<exists>j. unat (fst (divmod_up N D add)) = d * 2 ^ j \<and> unat (snd (divmod_up N D add)) = 2 ^ j \<and>
    unat N < 2 * (d * 2 ^ j)"
  using assms
proof (induction N D add arbitrary: k rule: divmod_up.induct)
  case (1 N D add)
  have "add \<noteq> 0" using "1.prems" by auto
  show ?case
  proof (cases "N div 2 \<ge> D")
    case True
    then have "unat D \<le> unat N div 2" by (simp add: word_le_nat_alt unat_div)
    then have le: "d * 2 ^ Suc k \<le> unat N" using "1.prems" by simp
    also have "unat N < 2 ^ 64" using unsigned_less [of N, where 'a = nat] by simp
    finally have dl: "d * 2 ^ Suc k < 2 ^ 64" .
    moreover have "2 ^ Suc k \<le> d * 2 ^ Suc k" using "1.prems" by simp
    ultimately have al: "(2::nat) ^ Suc k < 2 ^ 64" by linarith
    have "unat (push_bit 1 D) = d * 2 ^ Suc k" "unat (push_bit 1 add) = 2 ^ Suc k"
      using dl al "1.prems" unat_double [of D] unat_double [of add] by (simp_all add: ac_simps)
    from "1.IH" [OF _ this "1.prems"(3)] True \<open>add \<noteq> 0\<close> show ?thesis
      by (simp add: divmod_up.simps [of N D add])
  next
    case False
    then have "unat N div 2 < unat D" by (simp add: word_le_nat_alt unat_div)
    then have "unat N < 2 * (d * 2 ^ k)" using "1.prems" by linarith
    then show ?thesis
      using False "1.prems" by (intro exI [of _ k]) (simp add: divmod_up.simps [of N D add])
  qed
qed

lemma word_of_nat_div: "word_of_nat (unat a div unat b) = (a :: 'a::len word) div b"
  by (simp add: word_arith_nat_div)

lemma word_of_nat_mod: "word_of_nat (unat a mod unat b) = (a :: 'a::len word) mod b"
  by (simp add: word_arith_nat_mod)

lemma divmod64_spec:
  assumes "D \<noteq> 0"
  shows "divmod64 N D = (N div D, N mod D)"
proof -
  have "0 < unat D" using assms by (simp add: unat_gt_0)
  from divmod_up_spec [of D "unat D" 0 1 N] this obtain j where
    j: "unat (fst (divmod_up N D 1)) = unat D * 2 ^ j" "unat (snd (divmod_up N D 1)) = 2 ^ j"
       "unat N < 2 * (unat D * 2 ^ j)" by auto
  have "divmod_down N (fst (divmod_up N D 1)) (snd (divmod_up N D 1)) 0 =
      (0 + word_of_nat (unat N div unat D), word_of_nat (unat N mod unat D))"
    using j by (intro divmod_down_spec [OF j(1,2) _ \<open>0 < unat D\<close>]) simp
  then show ?thesis by (simp add: divmod64_def case_prod_beta word_of_nat_div word_of_nat_mod)
qed

section \<open>The shortcuts\<close>

lemma and_low:
  assumes "mask k = c" "2 ^ k = d"
  shows "and (N :: 'a::len word) c = N mod d"
  using assms by (auto simp: take_bit_eq_mod simp flip: take_bit_eq_mask)

lemma drop_low: "2 ^ k = d \<Longrightarrow> drop_bit k (N :: 64 word) = N div d"
  by (auto simp: drop_bit_eq_div)

lemmas and_lows = and_low [where k = 1 and c = 1 and d = 2, simplified]
  and_low [where k = 2 and c = 3 and d = 4, simplified mask_eq_exp_minus_1, simplified]
  and_low [where k = 3 and c = 7 and d = 8, simplified mask_eq_exp_minus_1, simplified]
  and_low [where k = 4 and c = 15 and d = 16, simplified mask_eq_exp_minus_1, simplified]
  and_low [where k = 5 and c = 31 and d = 32, simplified mask_eq_exp_minus_1, simplified]
  and_low [where k = 10 and c = 1023 and d = 1024, simplified mask_eq_exp_minus_1, simplified]
  and_low [where k = 11 and c = 2047 and d = 2048, simplified mask_eq_exp_minus_1, simplified]
  and_low [where k = 12 and c = 4095 and d = 4096, simplified mask_eq_exp_minus_1, simplified]

lemmas drop_lows = drop_low [where k = 1 and d = 2, simplified] drop_low [where k = 2 and d = 4, simplified]
  drop_low [where k = 3 and d = 8, simplified] drop_low [where k = 4 and d = 16, simplified]
  drop_low [where k = 5 and d = 32, simplified] drop_low [where k = 10 and d = 1024, simplified]
  drop_low [where k = 11 and d = 2048, simplified] drop_low [where k = 12 and d = 4096, simplified]

lemma unat_halves:
  "two32 * unat (ucast (drop_bit 32 N) :: 32 word) + unat (ucast (and N 0xFFFFFFFF) :: 32 word) =
   unat (N :: 64 word)"
proof -
  have "unat N < two32 * two32" using unsigned_less [of N, where 'a = nat] by simp
  then have "unat N div two32 < two32" by (simp add: less_mult_imp_div_less)
  then have "unat (ucast (drop_bit 32 N) :: 32 word) = unat N div two32"
    by (simp add: unsigned_ucast_eq unat_div drop_bit_eq_div take_bit_eq_mod)
  moreover have "unat (ucast (and N 0xFFFFFFFF) :: 32 word) = unat N mod two32"
    by (simp add: and_low [where k = 32 and d = "2 ^ 32"] mask_eq_exp_minus_1 unsigned_ucast_eq unat_mod take_bit_eq_mod)
  ultimately show ?thesis by simp
qed

lemma unat_ucast_small: "(D :: 64 word) < 0x100000000 \<Longrightarrow> unat (ucast D :: 32 word) = unat D"
  by (simp add: unsigned_ucast_eq take_bit_eq_mod word_less_nat_alt)

lemma DivMod64U_spec:
  assumes "Div \<noteq> 0"
  shows "DivMod64U Num Div = Ret (Num div Div, Num mod Div)"
proof (cases "Div \<noteq> 16 \<and> Div < 0x100000000 \<and> Num < 0xFFFFFFFF * Div")
  case True
  let ?d = "unat Div" and ?n = "unat Num"
  have d: "?d < two32" "0 < ?d" using True assms by (simp_all add: word_less_nat_alt unat_gt_0)
  have "0xFFFFFFFF * ?d < 2 ^ 64" using d by simp
  then have "?n < 0xFFFFFFFF * ?d" using True by (simp add: word_less_nat_alt unat_word_ariths)
  then have q: "?n div ?d < two32 - 1" by (intro less_mult_imp_div_less) simp
  moreover have "?n mod ?d < two32" using d by (meson less_trans mod_less_divisor)
  moreover have "div_insn (ucast (drop_bit 32 Num)) (ucast (and Num 0xFFFFFFFF)) (ucast Div) =
      Ret (word_of_nat (?n div ?d), word_of_nat (?n mod ?d))"
    using d q unat_ucast_small [of Div] True
    by (simp only: div_insn_def unat_halves Let_def) (auto simp: word_unat_eq_iff)
  ultimately show ?thesis
    using True
    by (simp add: DivMod64U_def word_unat_eq_iff unsigned_ucast_eq unat_of_nat take_bit_eq_mod unat_div unat_mod)
next
  case False
  then show ?thesis
    using assms by (auto simp: DivMod64U_def divmod64_spec and_low [of 4] drop_low [of 4] mask_eq_exp_minus_1)
qed

lemma quotient_one:
  assumes "\<not> Num < Den" "Num < Den * 2"
  shows "(Num :: 64 word) div Den = 1"
proof -
  have "unat (Den * 2) \<le> 2 * unat Den" by (simp add: unat_word_ariths)
  then have n: "unat Den \<le> unat Num" "unat Num < unat Den * 2"
    using assms by (simp_all add: word_less_nat_alt)
  then have "unat Num div unat Den = 1" by (intro div_nat_eqI) simp_all
  then show ?thesis by (simp add: word_unat_eq_iff unat_div)
qed

lemma quotient_two:
  assumes "Den \<noteq> 0" "\<not> Den * 2 < Den"
  shows "(Den * 2 :: 64 word) div Den = 2"
proof -
  have lt: "unat Den < 2 ^ 64" "0 < unat Den"
    using unsigned_less [of Den, where 'a = nat] assms(1) by (simp_all add: unat_gt_0)
  have w: "unat (Den * 2) = unat Den * 2 mod 2 ^ 64" by (simp add: unat_word_ariths)
  have "unat Den * 2 < 2 ^ 64"
  proof (rule ccontr)
    assume "\<not> unat Den * 2 < 2 ^ 64"
    then have "unat (Den * 2) = unat Den * 2 - 2 ^ 64" using lt w by (simp add: le_mod_geq)
    then show False using assms(2) lt by (simp add: word_less_nat_alt)
  qed
  then have "unat (Den * 2) = unat Den * 2" using w by simp
  then show ?thesis using lt by (simp add: word_unat_eq_iff unat_div)
qed

lemma udivdi3_spec:
  assumes "Den \<noteq> 0"
  shows "udivdi3 Num Den = Ret (Num div Den)"
proof (cases "Num \<le> 0xFFFFFFFF \<and> Den \<le> 0xFFFFFFFF")
  case True
  then have "unat (ucast Num :: 32 word) = unat Num" "unat (ucast Den :: 32 word) = unat Den"
    by (simp_all add: unsigned_ucast_eq take_bit_eq_mod word_le_nat_alt)
  moreover have "unat Num div unat Den < two32"
    using True by (intro le_less_trans [OF div_le_dividend]) (simp add: word_le_nat_alt)
  ultimately have "ucast ((ucast Num :: 32 word) div ucast Den) = Num div Den"
    by (simp add: word_unat_eq_iff unsigned_ucast_eq take_bit_eq_mod unat_div)
  then show ?thesis using True assms by (simp add: udivdi3_def)
next
  case False
  have zero: "Num < Den \<Longrightarrow> Num div Den = 0"
    by (simp add: word_unat_eq_iff unat_div word_less_nat_alt)
  from False have "(Num \<le> 0xFFFFFFFF \<and> Den \<le> 0xFFFFFFFF) = False" by blast
  then show ?thesis
    unfolding udivdi3_def using assms
    by (simp only: if_False) (auto simp: divmod64_spec quotient_one quotient_two zero drop_lows)
qed

lemma umoddi3_spec:
  assumes "Den \<noteq> 0"
  shows "umoddi3 Num Den = Ret (Num mod Den)"
proof -
  have hi: "unat (ucast x :: 32 word) = unat x" if "drop_bit 32 x = 0" for x :: "64 word"
  proof -
    have "unat x div two32 = unat (drop_bit 32 x)" by (simp add: drop_bit_eq_div unat_div)
    then have "unat x < two32" unfolding that by (simp add: div_eq_0_iff)
    then show ?thesis by (simp add: unsigned_ucast_eq take_bit_eq_mod)
  qed
  have "ucast ((ucast Num :: 32 word) mod ucast Den) = Num mod Den"
    if "drop_bit 32 Num = 0" "drop_bit 32 Den = 0"
  proof -
    have "unat Num mod unat Den < two32"
      using hi [OF that(1)] unsigned_less [of "ucast Num :: 32 word", where 'a = nat]
      by (intro le_less_trans [OF mod_less_eq_dividend]) simp
    then show ?thesis
      using hi [OF that(1)] hi [OF that(2)]
      by (simp add: word_unat_eq_iff unsigned_ucast_eq take_bit_eq_mod unat_mod)
  qed
  then show ?thesis
    unfolding umoddi3_def using assms by (auto simp: divmod64_spec and_lows)
qed

end
