(* ===== verification/Libc_String.thy ===== *)
theory Libc_String
  imports Libc_Memory Division
begin

text \<open>
  The character classes and the string routines of \<open>libc.c\<close>. A pointer is an address of the byte
  addressed memory, a \<open>char\<close> is a signed byte, and a loop that runs until it meets a zero byte is a
  partial function: its value is \<^const>\<open>None\<close> when there is none. The predicate \<open>cstr\<close> relates an
  address to the list of bytes stored there; the lemmas say what each routine does with the lists.
\<close>

named_theorems cstr_simps \<open>the string routines on stored strings\<close>

section \<open>Character classes\<close>

definition isupper :: "int \<Rightarrow> bool" where "isupper c = (65 \<le> c \<and> c \<le> 90)"
definition islower :: "int \<Rightarrow> bool" where "islower c = (97 \<le> c \<and> c \<le> 122)"
definition isdigit :: "int \<Rightarrow> bool" where "isdigit c = (48 \<le> c \<and> c \<le> 57)"
definition isalpha :: "int \<Rightarrow> bool" where "isalpha c = (isupper c \<or> islower c)"
definition isalnum :: "int \<Rightarrow> bool" where "isalnum c = (isalpha c \<or> isdigit c)"
definition isascii :: "int \<Rightarrow> bool" where "isascii c = (0 \<le> c \<and> c < 128)"
definition isblank :: "int \<Rightarrow> bool" where "isblank c = (c = 9 \<or> c = 32)"
definition iscntrl :: "int \<Rightarrow> bool" where "iscntrl c = (c < 32)"
definition isgraph :: "int \<Rightarrow> bool" where "isgraph c = False"
definition isprint :: "int \<Rightarrow> bool" where "isprint c = (32 \<le> c \<and> c \<le> 0x7F)"
definition ispunct :: "int \<Rightarrow> bool" where "ispunct c = (c = 46 \<or> c = 44 \<or> c = 63 \<or> c = 33)"
definition isspace :: "int \<Rightarrow> bool" where "isspace c = (c = 32 \<or> c = 9 \<or> c = 11 \<or> c = 10 \<or> c = 13)"
definition isxdigit :: "int \<Rightarrow> bool" where
  "isxdigit c = (isdigit c \<or> (97 \<le> c \<and> c \<le> 102) \<or> (65 \<le> c \<and> c \<le> 70))"
definition toupper :: "int \<Rightarrow> int" where "toupper c = (if islower c then c - 0x20 else c)"
definition tolower :: "int \<Rightarrow> int" where "tolower c = (if isupper c then c + 0x20 else c)"

section \<open>String routines\<close>

partial_function (option) strlen_loop :: "memory \<Rightarrow> addr \<Rightarrow> nat \<Rightarrow> nat option" where
  "strlen_loop m str ret = (if m str = 0 then Some ret else strlen_loop m (str + 1) (ret + 1))"

definition strlen :: "memory \<Rightarrow> addr \<Rightarrow> nat option" where
  "strlen m str = strlen_loop m str 0"

text \<open>Zero is the null pointer.\<close>

partial_function (option) strchr :: "memory \<Rightarrow> addr \<Rightarrow> int \<Rightarrow> addr option" where
  "strchr m s c =
     (if m s = 0 then Some 0
      else if sint (m s) = c then Some s
      else strchr m (s + 1) c)"

text \<open>
  The loop \<open>while(--ofs && __s[ofs] != __c)\<close> leaves \<open>ofs\<close> at the place it stopped. For the empty
  string the first decrement wraps to the largest \<open>size_t\<close>.
\<close>

fun strrchr_loop :: "memory \<Rightarrow> addr \<Rightarrow> int \<Rightarrow> nat \<Rightarrow> nat" where
  "strrchr_loop m s c 0 = 0"
| "strrchr_loop m s c (Suc ofs) =
     (if ofs \<noteq> 0 \<and> sint (m (u32 (s + ofs))) \<noteq> c then strrchr_loop m s c ofs else ofs)"

definition strrchr :: "memory \<Rightarrow> addr \<Rightarrow> int \<Rightarrow> addr option" where
  "strrchr m s c =
     map_option (\<lambda>n.
       let ofs = (if n = 0 then strrchr_loop m s c two32 else strrchr_loop m s c n)
       in if sint (m (u32 (s + ofs))) = c then u32 (s + ofs) else 0) (strlen m s)"

partial_function (option) strpos_loop :: "memory \<Rightarrow> addr \<Rightarrow> 8 word \<Rightarrow> nat \<Rightarrow> int option" where
  "strpos_loop m Str Ch pos =
     (if m (Str + pos) = 0 then Some (- 1)
      else if m (Str + pos) = Ch then Some (int pos)
      else strpos_loop m Str Ch (pos + 1))"

definition strpos :: "memory \<Rightarrow> addr \<Rightarrow> 8 word \<Rightarrow> int option" where
  "strpos m Str Ch = strpos_loop m Str Ch 0"

text \<open>The copying routines return the memory and the address of the terminator they wrote.\<close>

partial_function (option) strcpy :: "memory \<Rightarrow> addr \<Rightarrow> addr \<Rightarrow> (memory \<times> addr) option" where
  "strcpy m str1 str2 =
     (if m str2 = 0 then Some (m(str1 := 0), str1)
      else strcpy (m(str1 := m str2)) (str1 + 1) (str2 + 1))"

text \<open>
  \<open>max-- >= 1\<close> decrements also when the test fails, so that \<open>max\<close> is then the largest \<open>size_t\<close>. The
  structural recursion is on \<open>max\<close>.
\<close>

fun strncpy_loop :: "memory \<Rightarrow> addr \<Rightarrow> addr \<Rightarrow> nat \<Rightarrow> memory \<times> addr \<times> nat" where
  "strncpy_loop m str1 str2 0 = (m, str1, if m str2 = 0 then 0 else two32 - 1)"
| "strncpy_loop m str1 str2 (Suc maxlen) =
     (if m str2 = 0 then (m, str1, Suc maxlen)
      else strncpy_loop (m(str1 := m str2)) (str1 + 1) (str2 + 1) maxlen)"

definition strncpy :: "memory \<Rightarrow> addr \<Rightarrow> addr \<Rightarrow> nat \<Rightarrow> memory \<times> addr" where
  "strncpy m str1 str2 maxlen =
     (let (m, str1, maxlen) = strncpy_loop m str1 str2 maxlen
      in if maxlen \<noteq> 0 then (m(str1 := 0), str1) else (m, str1))"

text \<open>\<open>while(*dest++);\<close> leaves \<open>dest\<close> one behind the terminator.\<close>

partial_function (option) skip_string :: "memory \<Rightarrow> addr \<Rightarrow> addr option" where
  "skip_string m dest = (if m dest = 0 then Some (dest + 1) else skip_string m (dest + 1))"

definition strcat :: "memory \<Rightarrow> addr \<Rightarrow> addr \<Rightarrow> (memory \<times> addr) option" where
  "strcat m dest src = Option.bind (skip_string m dest) (\<lambda>dest. strcpy m (dest - 1) src)"

fun copy_some :: "memory \<Rightarrow> addr \<Rightarrow> addr \<Rightarrow> nat \<Rightarrow> memory \<times> addr" where
  "copy_some m dest src 0 = (m, dest)"
| "copy_some m dest src (Suc n) =
     (if m src = 0 then (m, dest) else copy_some (m(dest := m src)) (dest + 1) (src + 1) n)"

definition strncat :: "memory \<Rightarrow> addr \<Rightarrow> addr \<Rightarrow> nat \<Rightarrow> (memory \<times> addr) option" where
  "strncat m dest src n =
     map_option (\<lambda>dest. let (m, dest) = copy_some m dest src n in (m(dest := 0), dest)) (skip_string m dest)"

partial_function (option) strcmp :: "memory \<Rightarrow> addr \<Rightarrow> addr \<Rightarrow> int option" where
  "strcmp m str1 str2 =
     (if m str1 \<noteq> 0 \<and> m str1 = m str2 then strcmp m (str1 + 1) (str2 + 1)
      else Some (sint (m str1) - sint (m str2)))"

fun strncmp_loop :: "memory \<Rightarrow> addr \<Rightarrow> addr \<Rightarrow> nat \<Rightarrow> int" where
  "strncmp_loop m Str1 Str2 0 = sint (m Str1) - sint (m Str2)"
| "strncmp_loop m Str1 Str2 (Suc num) =
     (if m Str1 \<noteq> 0 \<and> m Str1 = m Str2 then strncmp_loop m (Str1 + 1) (Str2 + 1) num
      else sint (m Str1) - sint (m Str2))"

definition strncmp :: "memory \<Rightarrow> addr \<Rightarrow> addr \<Rightarrow> nat \<Rightarrow> int" where
  "strncmp m Str1 Str2 num = (if num = 0 then 0 else strncmp_loop m Str1 Str2 (num - 1))"

partial_function (option) strucmp :: "memory \<Rightarrow> addr \<Rightarrow> addr \<Rightarrow> int option" where
  "strucmp m Str1 Str2 =
     (if m Str1 \<noteq> 0 \<and> tolower (sint (m Str1)) = tolower (sint (m Str2))
      then strucmp m (Str1 + 1) (Str2 + 1)
      else Some (tolower (sint (m Str1)) - tolower (sint (m Str2))))"

text \<open>
  \<open>CheckString\<close>: \<open>mapped a\<close> says that \<open>MM_GetPhysAddr\<close> finds a page for the address, \<open>is_user a\<close> that
  \<open>MM_IsUser\<close> lets user code read it.
\<close>

partial_function (option) check_string ::
  "(addr \<Rightarrow> bool) \<Rightarrow> (addr \<Rightarrow> bool) \<Rightarrow> bool \<Rightarrow> memory \<Rightarrow> addr \<Rightarrow> bool option" where
  "check_string mapped is_user bUser m a =
     (if m a = 0 then Some True
      else if a mod 4096 = 0 \<and> bUser \<and> \<not> is_user a then Some False
      else if a mod 4096 = 0 \<and> \<not> bUser \<and> \<not> mapped a then Some False
      else check_string mapped is_user bUser m (a + 1))"

definition CheckString :: "(addr \<Rightarrow> bool) \<Rightarrow> (addr \<Rightarrow> bool) \<Rightarrow> memory \<Rightarrow> addr \<Rightarrow> bool option" where
  "CheckString mapped is_user m String =
     (if \<not> mapped String then Some False else check_string mapped is_user (is_user String) m String)"

text \<open>The state of \<open>rand\<close> is its four static variables.\<close>

record rand_state =
  rand_x :: "32 word"
  rand_y :: "32 word"
  rand_z :: "32 word"
  rand_w :: "32 word"

definition rand_seed :: rand_state where
  "rand_seed = \<lparr>rand_x = 123456789, rand_y = 362436069, rand_z = 521288629, rand_w = 88675123\<rparr>"

definition rand :: "rand_state \<Rightarrow> int \<times> rand_state" where
  "rand s =
     (let t = xor (rand_x s) (push_bit 11 (rand_x s));
          w = rand_w s;
          w' = xor (xor (xor w (drop_bit 19 w)) t) (drop_bit 8 t)
      in (sint w', \<lparr>rand_x = rand_y s, rand_y = rand_z s, rand_z = w, rand_w = w'\<rparr>))"

section \<open>Stored strings\<close>

text \<open>The bytes \<open>xs\<close>, none of them zero, and a zero byte behind them.\<close>

fun cstr :: "memory \<Rightarrow> addr \<Rightarrow> 8 word list \<Rightarrow> bool" where
  "cstr m p [] = (m p = 0)"
| "cstr m p (x # xs) = (m p = x \<and> x \<noteq> 0 \<and> cstr m (p + 1) xs)"

lemma cstr_cong:
  "(\<And>i. i \<le> length xs \<Longrightarrow> m (p + i) = m' (p + i)) \<Longrightarrow> cstr m p xs = cstr m' p xs"
proof (induction xs arbitrary: p)
  case Nil
  then show ?case using Nil [of 0] by simp
next
  case (Cons x xs)
  have "cstr m (p + 1) xs = cstr m' (p + 1) xs"
  proof (rule Cons.IH)
    fix i assume "i \<le> length xs"
    then show "m (p + 1 + i) = m' (p + 1 + i)" using Cons.prems [of "Suc i"] by simp
  qed
  then show ?case using Cons.prems [of 0] by simp
qed

lemma cstr_unique: "cstr m p xs \<Longrightarrow> cstr m p ys \<Longrightarrow> xs = ys"
proof (induction xs arbitrary: p ys)
  case Nil
  then show ?case by (cases ys) auto
next
  case (Cons x xs)
  then show ?case by (cases ys) auto
qed

lemma cstr_nth: "cstr m p xs \<Longrightarrow> i < length xs \<Longrightarrow> m (p + i) = xs ! i"
proof (induction xs arbitrary: p i)
  case (Cons x xs)
  then show ?case by (cases i) (use Cons.IH [of "Suc p"] in auto)
qed simp

lemma cstr_end: "cstr m p xs \<Longrightarrow> m (p + length xs) = 0"
proof (induction xs arbitrary: p)
  case (Cons x xs)
  then show ?case using Cons.IH [of "Suc p"] by simp
qed simp

lemma cstr_no_zero: "cstr m p xs \<Longrightarrow> 0 \<notin> set xs"
  by (induction xs arbitrary: p) auto

lemma cstr_append: "cstr m p (xs @ ys) \<longleftrightarrow>
  (\<forall>i < length xs. m (p + i) = xs ! i \<and> xs ! i \<noteq> 0) \<and> cstr m (p + length xs) ys"
proof (induction xs arbitrary: p)
  case (Cons x xs)
  have "(\<forall>i < Suc (length xs). m (p + i) = (x # xs) ! i \<and> (x # xs) ! i \<noteq> 0) \<longleftrightarrow>
      m p = x \<and> x \<noteq> 0 \<and> (\<forall>i < length xs. m (p + 1 + i) = xs ! i \<and> xs ! i \<noteq> 0)"
    by (auto simp: All_less_Suc2)
  then show ?case using Cons.IH [of "p + 1"] by simp
qed simp

lemma strlen_loop_cstr: "cstr m p xs \<Longrightarrow> strlen_loop m p n = Some (n + length xs)"
proof (induction xs arbitrary: p n)
  case Nil
  then show ?case by (simp add: strlen_loop.simps [of m p])
next
  case (Cons x xs)
  then show ?case by (simp add: strlen_loop.simps [of m p])
qed

lemma strlen_cstr [cstr_simps]: "cstr m p xs \<Longrightarrow> strlen m p = Some (length xs)"
  by (simp add: strlen_def strlen_loop_cstr)

text \<open>The first place of a byte, counted from the start.\<close>

lemma strchr_absent: "cstr m p xs \<Longrightarrow> c \<notin> sint ` set xs \<Longrightarrow> strchr m p c = Some 0"
proof (induction xs arbitrary: p)
  case Nil
  then show ?case by (simp add: strchr.simps [of m p])
next
  case (Cons x xs)
  then show ?case by (simp add: strchr.simps [of m p])
qed

lemma strchr_present:
  "cstr m p (xs @ x # ys) \<Longrightarrow> c \<notin> sint ` set xs \<Longrightarrow> sint x = c \<Longrightarrow> strchr m p c = Some (p + length xs)"
proof (induction xs arbitrary: p)
  case Nil
  then show ?case by (simp add: strchr.simps [of m p])
next
  case (Cons x xs)
  then show ?case by (simp add: strchr.simps [of m p])
qed

lemma strpos_absent:
  "cstr m (p + n) xs \<Longrightarrow> c \<notin> set xs \<Longrightarrow> strpos_loop m p c n = Some (- 1)"
proof (induction xs arbitrary: n)
  case Nil
  then show ?case by (auto simp: strpos_loop.simps [of m p c n])
next
  case (Cons x xs)
  then show ?case by (auto simp: strpos_loop.simps [of m p c n])
qed

lemma strpos_present:
  "cstr m (p + n) (xs @ c # ys) \<Longrightarrow> c \<notin> set xs \<Longrightarrow> strpos_loop m p c n = Some (int (n + length xs))"
proof (induction xs arbitrary: n)
  case Nil
  then show ?case by (auto simp: strpos_loop.simps [of m p c n])
next
  case (Cons x xs)
  then show ?case by (auto simp: strpos_loop.simps [of m p c n])
qed

section \<open>Copies\<close>

text \<open>Memory that differs only at the \<open>n\<close> bytes from \<open>d\<close> on.\<close>

definition changed_at_most :: "memory \<Rightarrow> memory \<Rightarrow> addr \<Rightarrow> nat \<Rightarrow> bool" where
  "changed_at_most m m' d n = (\<forall>x. x < d \<or> d + n \<le> x \<longrightarrow> m' x = m x)"

text \<open>Two regions that do not overlap.\<close>

definition apart :: "addr \<Rightarrow> nat \<Rightarrow> addr \<Rightarrow> nat \<Rightarrow> bool" where
  "apart a n b k \<longleftrightarrow> a + n \<le> b \<or> b + k \<le> a"

lemma apart_left: "apart a n b k \<Longrightarrow> a \<le> x \<Longrightarrow> x < a + n \<Longrightarrow> x < b \<or> b + k \<le> x"
  by (auto simp: apart_def)

lemma apart_right: "apart a n b k \<Longrightarrow> b \<le> x \<Longrightarrow> x < b + k \<Longrightarrow> x < a \<or> a + n \<le> x"
  by (auto simp: apart_def)

lemma apart_sub_left: "apart a n b k \<Longrightarrow> a \<le> c \<Longrightarrow> c + l \<le> a + n \<Longrightarrow> apart c l b k"
  by (auto simp: apart_def)

lemma apart_sub_right: "apart a n b k \<Longrightarrow> b \<le> c \<Longrightarrow> c + l \<le> b + k \<Longrightarrow> apart a n c l"
  by (auto simp: apart_def)

lemma strcpy_cstr:
  assumes "cstr m s xs" "s + length xs < d \<or> d + length xs < s"
  shows "\<exists>m'. strcpy m d s = Some (m', d + length xs) \<and> cstr m' d xs \<and> changed_at_most m m' d (length xs + 1)"
  using assms
proof (induction xs arbitrary: m d s)
  case Nil
  then show ?case by (simp add: strcpy.simps [of m] changed_at_most_def)
next
  case (Cons x xs)
  define m1 where "m1 = m(d := x)"
  have "cstr m1 (s + 1) xs = cstr m (s + 1) xs"
    using Cons.prems by (intro cstr_cong) (auto simp: m1_def)
  then obtain m' where m': "strcpy m1 (d + 1) (s + 1) = Some (m', d + 1 + length xs)" "cstr m' (d + 1) xs"
      "changed_at_most m1 m' (d + 1) (length xs + 1)"
    using Cons.IH [of m1 "s + 1" "d + 1"] Cons.prems by auto
  have "m' d = x" using m'(3) by (simp add: changed_at_most_def m1_def)
  moreover have "changed_at_most m m' d (length (x # xs) + 1)"
    using m'(3) by (simp add: changed_at_most_def m1_def)
  moreover have "strcpy m d s = strcpy m1 (d + 1) (s + 1)"
    using Cons.prems by (simp add: strcpy.simps [of m d] m1_def)
  ultimately show ?case using m' Cons.prems by simp
qed

lemma skip_string_cstr: "cstr m p xs \<Longrightarrow> skip_string m p = Some (p + length xs + 1)"
proof (induction xs arbitrary: p)
  case Nil
  then show ?case by (simp add: skip_string.simps [of m p])
next
  case (Cons x xs)
  then show ?case by (simp add: skip_string.simps [of m p])
qed

lemma strcat_cstr:
  assumes "cstr m d xs" "cstr m s ys"
    "s + length ys < d \<or> d + length xs + length ys < s"
  shows "\<exists>m'. strcat m d s = Some (m', d + length (xs @ ys)) \<and> cstr m' d (xs @ ys) \<and>
    changed_at_most m m' (d + length xs) (length ys + 1)"
proof -
  obtain m' where m': "strcpy m (d + length xs) s = Some (m', d + length xs + length ys)"
      "cstr m' (d + length xs) ys" "changed_at_most m m' (d + length xs) (length ys + 1)"
    using strcpy_cstr [OF assms(2), of "d + length xs"] assms(3) by auto
  have "m' (d + i) = xs ! i \<and> xs ! i \<noteq> 0" if "i < length xs" for i
    using that m'(3) cstr_nth [OF assms(1) that] cstr_no_zero [OF assms(1)]
    by (metis add_less_cancel_left changed_at_most_def nth_mem)
  then have "cstr m' d (xs @ ys)" using m'(2) by (simp add: cstr_append)
  then show ?thesis
    using m' by (simp add: strcat_def skip_string_cstr [OF assms(1)] add.assoc)
qed

text \<open>
  \<open>strncpy\<close> is right for a shorter string. For one of exactly \<open>n\<close> bytes it writes no terminator,
  and for a longer one it writes a terminator behind the \<open>n\<close> bytes.
\<close>

lemma strncpy_loop_short:
  assumes "cstr m s xs" "length xs \<le> n" "s + length xs < d \<or> d + n \<le> s"
  shows "\<exists>m'. strncpy_loop m d s n = (m', d + length xs, n - length xs) \<and>
    (\<forall>i < length xs. m' (d + i) = xs ! i) \<and> changed_at_most m m' d (length xs)"
  using assms
proof (induction xs arbitrary: m d s n)
  case Nil
  then show ?case by (cases n) (simp_all add: changed_at_most_def)
next
  case (Cons x xs)
  then obtain k where k: "n = Suc k" by (cases n) auto
  define m1 where "m1 = m(d := x)"
  have "cstr m1 (s + 1) xs = cstr m (s + 1) xs"
    using Cons.prems by (intro cstr_cong) (auto simp: m1_def)
  then obtain m' where m': "strncpy_loop m1 (d + 1) (s + 1) k = (m', d + 1 + length xs, k - length xs)"
      "\<forall>i < length xs. m' (d + 1 + i) = xs ! i" "changed_at_most m1 m' (d + 1) (length xs)"
    using Cons.IH [of m1 "s + 1" k "d + 1"] Cons.prems k by auto
  have "m' (d + i) = (x # xs) ! i" if "i < Suc (length xs)" for i
    using that m'(2,3) by (cases i) (simp_all add: changed_at_most_def m1_def)
  moreover have "changed_at_most m m' d (length (x # xs))"
    using m'(3) by (simp add: changed_at_most_def m1_def)
  moreover have "strncpy_loop m d s n = strncpy_loop m1 (d + 1) (s + 1) k"
    using Cons.prems k by (simp add: m1_def)
  ultimately show ?case using m' k by simp
qed

lemma strncpy_loop_long:
  assumes "\<forall>i \<le> n. m (s + i) \<noteq> 0" "s + n < d \<or> d + n \<le> s"
  shows "\<exists>m'. strncpy_loop m d s n = (m', d + n, two32 - 1)"
  using assms
proof (induction n arbitrary: m d s)
  case (Suc n)
  define m1 where "m1 = m(d := m s)"
  have "m (s + 1 + i) \<noteq> 0" if "i \<le> n" for i
    using Suc.prems(1) that by (metis Suc_le_mono add_Suc_right add_Suc_shift plus_1_eq_Suc add.commute)
  then have "\<forall>i \<le> n. m1 (s + 1 + i) \<noteq> 0" "s + 1 + n < d + 1 \<or> d + 1 + n \<le> s + 1"
    using Suc.prems by (auto simp: m1_def)
  from Suc.IH [OF this] obtain m' where "strncpy_loop m1 (d + 1) (s + 1) n = (m', d + 1 + n, two32 - 1)"
    by blast
  moreover have "m s \<noteq> 0" using Suc.prems(1) by (metis add_0_right le0)
  ultimately show ?case by (auto simp: m1_def simp del: fun_upd_apply)
qed auto

section \<open>Comparisons\<close>

lemma sint_inject: "sint (x :: 'a::len word) = sint y \<longleftrightarrow> x = y"
  by (metis signed_word_eqI)

lemma sint_zero: "sint (x :: 8 word) = 0 \<longleftrightarrow> x = 0"
  using sint_inject [of x 0] by simp

lemma strcmp_zero:
  "cstr m p xs \<Longrightarrow> cstr m q ys \<Longrightarrow> \<exists>r. strcmp m p q = Some r \<and> (r = 0 \<longleftrightarrow> xs = ys)"
proof (induction xs arbitrary: p q ys)
  case Nil
  then show ?case by (cases ys) (auto simp: strcmp.simps [of m p] sint_zero)
next
  case (Cons x xs)
  show ?case
  proof (cases ys)
    case Nil
    then show ?thesis using Cons.prems by (auto simp: strcmp.simps [of m p] sint_zero sint_inject)
  next
    case (Cons y zs)
    then show ?thesis
      using Cons.prems Cons.IH [of "p + 1" "q + 1" zs] by (auto simp: strcmp.simps [of m p] sint_zero sint_inject)
  qed
qed

lemma strncmp_loop_zero:
  "cstr m p xs \<Longrightarrow> cstr m q ys \<Longrightarrow> strncmp_loop m p q n = 0 \<longleftrightarrow> take (Suc n) xs = take (Suc n) ys"
proof (induction n arbitrary: p q xs ys)
  case 0
  then show ?case by (cases xs; cases ys) (auto simp: sint_zero sint_inject)
next
  case (Suc n)
  then show ?case
    by (cases xs; cases ys) (auto simp: sint_zero sint_inject simp del: take_Suc_Cons simp: take_Suc_Cons [of "Suc n"])
qed

lemma strncmp_zero:
  "cstr m p xs \<Longrightarrow> cstr m q ys \<Longrightarrow> strncmp m p q n = 0 \<longleftrightarrow> take n xs = take n ys"
  using strncmp_loop_zero [of m p xs q ys "n - 1"] by (cases n) (auto simp: strncmp_def)

end
