(* ===== verification/Libc_Number.thy ===== *)
theory Libc_Number
  imports Libc_String Errno
begin

text \<open>
  Numbers and strings: \<open>ParseInt\<close> and \<open>itoa\<close> of \<open>libc.c\<close> and the \<open>strto\<close> family of
  \<open>libc.so_src/strtoi.c\<close>, which \<open>libc.c\<close> includes. An \<open>errno\<close> of \<^const>\<open>None\<close> means that the variable
  was left alone. The lemmas lead to the round trip: what \<open>itoa\<close> prints, in any base and with any of
  the two paddings, \<open>strtoull\<close> reads back.
\<close>

section \<open>ParseInt\<close>

definition is_num :: "8 word \<Rightarrow> bool" where
  "is_num c = (48 \<le> sint c \<and> sint c \<le> 57)"

text \<open>The two loops that skip characters do not stop at the end of the string.\<close>

partial_function (option) skip_nonnum :: "memory \<Rightarrow> addr \<Rightarrow> addr option" where
  "skip_nonnum m string =
     (if \<not> is_num (m string) \<and> sint (m string) \<noteq> 45 then skip_nonnum m (string + 1) else Some string)"

partial_function (option) skip_to_digit :: "memory \<Rightarrow> addr \<Rightarrow> addr option" where
  "skip_to_digit m string = (if \<not> is_num (m string) then skip_to_digit m (string + 1) else Some string)"

partial_function (option) parse_hex :: "memory \<Rightarrow> addr \<Rightarrow> 32 word \<Rightarrow> (addr \<times> 32 word) option" where
  "parse_hex m string ret =
     (let c = sint (m string) in
      if 48 \<le> c \<and> c \<le> 57 then parse_hex m (string + 1) (ret * 16 + word_of_int (c - 48))
      else if 65 \<le> c \<and> c \<le> 70 then parse_hex m (string + 1) (ret * 16 + word_of_int (c - 65 + 10))
      else if 97 \<le> c \<and> c \<le> 102 then parse_hex m (string + 1) (ret * 16 + word_of_int (c - 97 + 10))
      else Some (string, ret))"

partial_function (option) parse_oct :: "memory \<Rightarrow> addr \<Rightarrow> 32 word \<Rightarrow> (addr \<times> 32 word) option" where
  "parse_oct m string ret =
     (let c = sint (m string) in
      if 48 \<le> c \<and> c \<le> 55 then parse_oct m (string + 1) (ret * 8 + word_of_int (c - 48))
      else Some (string, ret))"

partial_function (option) parse_dec :: "memory \<Rightarrow> addr \<Rightarrow> 32 word \<Rightarrow> (addr \<times> 32 word) option" where
  "parse_dec m string ret =
     (let c = sint (m string) in
      if 48 \<le> c \<and> c \<le> 57 then parse_dec m (string + 1) (ret * 10 + word_of_int (c - 48))
      else Some (string, ret))"

text \<open>The number of characters read, and the value when one is stored.\<close>

definition ParseInt :: "memory \<Rightarrow> addr \<Rightarrow> (nat \<times> 32 word option) option" where
  "ParseInt m orig_string = do {
     string \<leftarrow> skip_nonnum m orig_string;
     let bNeg = sint (m string) = 45;
     string \<leftarrow> (if bNeg then skip_to_digit m string else Some string);
     if sint (m string) = 48 then do {
       let string = string + 1;
       (string, ret) \<leftarrow> (if sint (m string) = 120 then parse_hex m (string + 1) 0 else parse_oct m string 0);
       Some (string - orig_string, Some (if bNeg then - ret else ret))
     } else do {
       (string, ret) \<leftarrow> parse_dec m string 0;
       if ret = 0 then Some (0, None)
       else Some (string - orig_string, Some (if bNeg then - ret else ret))
     }
   }"

section \<open>itoa\<close>

definition cUCDIGITS :: "8 word list" where
  "cUCDIGITS = [48, 49, 50, 51, 52, 53, 54, 55, 56, 57, 65, 66, 67, 68, 69, 70]"

text \<open>The digits in the order they are found, the last one of the number first.\<close>

partial_function (option) itoa_digits ::
  "64 word \<Rightarrow> 64 word \<Rightarrow> 8 word list \<Rightarrow> 8 word list outcome option" where
  "itoa_digits num base tmpBuf =
     (if num > base - 1 then
        (case DivMod64U num base of
           Panicked \<Rightarrow> Some Panicked
         | Ret (num, rem) \<Rightarrow>
             if rem < base then itoa_digits num base (tmpBuf @ [cUCDIGITS ! unat rem]) else Some Panicked)
      else Some (Ret (tmpBuf @ [cUCDIGITS ! unat num])))"

fun put_rev :: "memory \<Rightarrow> addr \<Rightarrow> 8 word list \<Rightarrow> nat \<Rightarrow> memory" where
  "put_rev m p tmpBuf 0 = m"
| "put_rev m p tmpBuf (Suc pos) = put_rev (m(p := tmpBuf ! pos)) (p + 1) tmpBuf pos"

text \<open>The first byte is cleared before the pointer is checked.\<close>

definition itoa :: "memory \<Rightarrow> addr \<Rightarrow> 64 word \<Rightarrow> int \<Rightarrow> int \<Rightarrow> 8 word \<Rightarrow> memory outcome option" where
  "itoa m buf num base minLength pad =
     (if buf = 0 then Some Panicked
      else let m = m(buf := 0) in
      if \<not> base \<ge> 2 then Some (Ret m)
      else if \<not> base \<le> 16 then Some (Ret m)
      else obind (itoa_digits num (word_of_int base) []) (\<lambda>tmpBuf.
        let pos = length tmpBuf;
            n = nat (minLength - int pos);
            m = memset m buf pad n;
            m = put_rev m (buf + n) tmpBuf pos
        in Some (Ret (m(buf + n + pos := 0)))))"

section \<open>The strto family\<close>

abbreviation ULLONG_MAX :: "64 word" where "ULLONG_MAX \<equiv> 0xFFFFFFFFFFFFFFFF"

partial_function (option) skip_space :: "memory \<Rightarrow> addr \<Rightarrow> addr option" where
  "skip_space m str = (if isspace (sint (m str)) then skip_space m (str + 1) else Some str)"

definition digit_value :: "int \<Rightarrow> int \<Rightarrow> int" where
  "digit_value base c =
     (if base \<le> 10 then (if 48 \<le> c \<and> c \<le> 48 + base - 1 then c - 48 else - 1)
      else let n = (if 48 \<le> c \<and> c \<le> 57 then c - 48 else - 1);
               n = (if 65 \<le> c \<and> c \<le> 65 + base - 10 - 1 then c - 65 + 10 else n)
           in if 97 \<le> c \<and> c \<le> 97 + base - 10 - 1 then c - 97 + 10 else n)"

partial_function (option) strtoull_loop ::
  "memory \<Rightarrow> int \<Rightarrow> 64 word \<Rightarrow> 64 word \<Rightarrow> addr \<Rightarrow> 64 word \<Rightarrow> libc_eErrorNumbers option \<Rightarrow>
   (64 word \<times> addr \<times> libc_eErrorNumbers option) option" where
  "strtoull_loop m base max_before space_above str ret e =
     (if m str = 0 then Some (ret, str, e)
      else let n = digit_value base (sint (m str)) in
      if n < 0 then Some (ret, str, e)
      else if ret = ULLONG_MAX
      then strtoull_loop m base max_before space_above (str + 1) ret (Some ERANGE)
      else if ret \<ge> max_before \<and> (ret - max_before) * word_of_int base + word_of_int n > space_above
      then strtoull_loop m base max_before space_above (str + 1) ULLONG_MAX (Some ERANGE)
      else strtoull_loop m base max_before space_above (str + 1) (ret * word_of_int base + word_of_int n) e)"

text \<open>The value, the place where reading stopped and the error number.\<close>

definition strtoull :: "memory \<Rightarrow> addr \<Rightarrow> int \<Rightarrow> (64 word \<times> addr \<times> libc_eErrorNumbers option) option" where
  "strtoull m str base =
     (if str = 0 \<or> base < 0 \<or> base > 36 \<or> base = 1 then Some (0, str, Some EINVAL)
      else Option.bind (skip_space m str) (\<lambda>str.
        let hex = (base = 0 \<or> base = 16) \<and> sint (m str) = 48 \<and>
              (sint (m (str + 1)) = 120 \<or> sint (m (str + 1)) = 88) \<and> isxdigit (sint (m (str + 2)));
            (str, base) = (if hex then (str + 2, 16) else (str, base));
            (str, base) = (if base = 0 \<and> sint (m str) = 48 then (str + 1, 8) else (str, base));
            base = (if base = 0 then 10 else base);
            max_before = ULLONG_MAX div word_of_int base;
            space_above = ULLONG_MAX - max_before * word_of_int base
        in strtoull_loop m base max_before space_above str 0 None))"

abbreviation ULONG_MAX :: "64 word" where "ULONG_MAX \<equiv> 0xFFFFFFFF"

definition strtoul :: "memory \<Rightarrow> addr \<Rightarrow> int \<Rightarrow> (64 word \<times> addr \<times> libc_eErrorNumbers option) option" where
  "strtoul m ptr base =
     map_option (\<lambda>(tmp, p, e). if tmp > ULONG_MAX then (ULONG_MAX, p, Some ERANGE) else (tmp, p, e))
       (strtoull m ptr base)"

abbreviation LLONG_MAX :: int where "LLONG_MAX \<equiv> 0x7FFFFFFFFFFFFFFF"
abbreviation LLONG_MIN :: int where "LLONG_MIN \<equiv> - 0x8000000000000000"

text \<open>For a null pointer \<open>end\<close> is left alone, here returned as the null pointer.\<close>

definition strtoll :: "memory \<Rightarrow> addr \<Rightarrow> int \<Rightarrow> (int \<times> addr \<times> libc_eErrorNumbers option) option" where
  "strtoll m str base =
     (if str = 0 then Some (0, 0, Some EINVAL)
      else Option.bind (skip_space m str) (\<lambda>str.
        let sign = sint (m str) = 45 \<or> sint (m str) = 43;
            neg = sint (m str) = 45 in
        if sign \<and> \<not> isdigit (sint (m (str + 1))) then Some (0, str, None)
        else map_option (\<lambda>(ret, p, e).
          if neg then
            (if ret + 0x8000000000000000 < ret then (LLONG_MIN, p, Some ERANGE)
             else (sint (- ret), p, e))
          else if uint ret > LLONG_MAX then (LLONG_MAX, p, Some ERANGE)
          else (sint ret, p, e)) (strtoull m (if sign then str + 1 else str) base)))"

text \<open>\<open>long\<close> and \<open>int\<close> are 32 bits wide: one clamp serves \<open>strtol\<close>, \<open>atoi\<close> and \<open>atol\<close>.\<close>

definition clamp32 :: "int \<Rightarrow> libc_eErrorNumbers option \<Rightarrow> int \<times> libc_eErrorNumbers option" where
  "clamp32 tmp e =
     (if tmp > 0x7FFFFFFF \<or> tmp < - 0x80000000
      then (if tmp > 0x7FFFFFFF then 0x7FFFFFFF else - 0x80000000, Some ERANGE) else (tmp, e))"

definition strtol :: "memory \<Rightarrow> addr \<Rightarrow> int \<Rightarrow> (int \<times> addr \<times> libc_eErrorNumbers option) option" where
  "strtol m str base =
     map_option (\<lambda>(tmp, p, e). let (v, e) = clamp32 tmp e in (v, p, e)) (strtoll m str base)"

definition atoi :: "memory \<Rightarrow> addr \<Rightarrow> (int \<times> libc_eErrorNumbers option) option" where
  "atoi m str = map_option (\<lambda>(tmp, p, e). clamp32 tmp e) (strtoll m str 0)"

definition atol :: "memory \<Rightarrow> addr \<Rightarrow> (int \<times> libc_eErrorNumbers option) option" where
  "atol m str = map_option (\<lambda>(tmp, p, e). clamp32 tmp e) (strtoll m str 0)"

definition atoll :: "memory \<Rightarrow> addr \<Rightarrow> (int \<times> libc_eErrorNumbers option) option" where
  "atoll m str = map_option (\<lambda>(tmp, p, e). (tmp, e)) (strtoll m str 0)"

section \<open>Digits\<close>

text \<open>The digits of a number, the last one first, and the number a sequence of digits denotes.\<close>

function le_digits :: "nat \<Rightarrow> nat \<Rightarrow> nat list" where
  "le_digits b n = (if b < 2 \<or> n < b then [n] else n mod b # le_digits b (n div b))"
  by auto
termination
  by (relation "measure snd") auto

declare le_digits.simps [simp del]

definition horner :: "nat \<Rightarrow> nat \<Rightarrow> nat list \<Rightarrow> nat" where
  "horner b acc ds = foldl (\<lambda>a d. a * b + d) acc ds"

lemma horner_simps [simp]:
  "horner b acc [] = acc" "horner b acc (d # ds) = horner b (acc * b + d) ds"
  "horner b acc (ds @ es) = horner b (horner b acc ds) es"
  by (simp_all add: horner_def)

lemma horner_ge: "0 < b \<Longrightarrow> acc \<le> horner b acc ds"
proof (induction ds arbitrary: acc)
  case (Cons d ds)
  have "acc \<le> acc * b + d" using Cons.prems by (simp add: trans_le_add1)
  also have "\<dots> \<le> horner b acc (d # ds)" using Cons by simp
  finally show ?case .
qed simp

lemma horner_zeros [simp]: "horner b 0 (replicate k 0) = 0"
  by (induction k) simp_all

lemma horner_le_digits: "horner b 0 (rev (le_digits b n)) = n"
proof (induction b n rule: le_digits.induct)
  case (1 b n)
  then show ?case by (cases "b < 2 \<or> n < b") (auto simp: le_digits.simps [of b n])
qed

lemma le_digits_less: "2 \<le> b \<Longrightarrow> d \<in> set (le_digits b n) \<Longrightarrow> d < b"
proof (induction b n rule: le_digits.induct)
  case (1 b n)
  then show ?case by (cases "b < 2 \<or> n < b") (auto simp: le_digits.simps [of b n])
qed

section \<open>What itoa prints\<close>

lemma itoa_digits_spec:
  assumes "2 \<le> unat base"
  shows "itoa_digits num base tmp = Some (Ret (tmp @ map ((!) cUCDIGITS) (le_digits (unat base) (unat num))))"
proof (induction "unat num" arbitrary: num tmp rule: less_induct)
  case less
  have b: "base \<noteq> 0" using assms by auto
  have "unat (base - 1) = unat base - 1" using assms by (simp add: unat_sub word_le_nat_alt)
  then have c: "num > base - 1 \<longleftrightarrow> \<not> unat num < unat base"
    using assms by (auto simp: word_less_nat_alt)
  have r: "num mod base < base" using b by (simp add: word_less_nat_alt unat_mod unat_gt_0)
  show ?case
  proof (cases "unat num < unat base")
    case True
    then show ?thesis using c by (simp add: itoa_digits.simps [of num] le_digits.simps [of "unat base"])
  next
    case False
    then have "unat (num div base) < unat num"
      using assms by (simp add: unat_div)
    from less [OF this, of "tmp @ [cUCDIGITS ! unat (num mod base)]"] show ?thesis
      using False c r assms b
      by (simp add: itoa_digits.simps [of num] le_digits.simps [of "unat base" "unat num"]
        DivMod64U_spec unat_div unat_mod)
  qed
qed

lemma put_rev_apply:
  "put_rev m p tmp pos x = (if p \<le> x \<and> x < p + pos then tmp ! (pos - 1 - (x - p)) else m x)"
proof (induction pos arbitrary: m p)
  case (Suc pos)
  show ?case by (simp only: put_rev.simps Suc.IH) (auto simp: Suc_diff_Suc)
qed auto

definition itoa_text :: "nat \<Rightarrow> nat \<Rightarrow> int \<Rightarrow> 8 word \<Rightarrow> 8 word list" where
  "itoa_text b n minLength pad =
     (let ds = le_digits b n
      in replicate (nat (minLength - int (length ds))) pad @ map ((!) cUCDIGITS) (rev ds))"

lemma digit_not_zero:
  assumes "d < 16"
  shows "cUCDIGITS ! d \<noteq> 0"
proof -
  have "\<forall>d \<in> set [0..<16]. cUCDIGITS ! d \<noteq> 0" by code_simp
  then show ?thesis using assms by simp
qed

lemma itoa_cstr:
  assumes "buf \<noteq> 0" "2 \<le> b" "b \<le> 16" "pad \<noteq> 0"
  shows "\<exists>m'. itoa m buf num b minLength pad = Some (Ret m') \<and>
    cstr m' buf (itoa_text (nat b) (unat num) minLength pad) \<and>
    changed_at_most m m' buf (length (itoa_text (nat b) (unat num) minLength pad) + 1)"
proof -
  define ds where "ds = le_digits (nat b) (unat num)"
  define k where "k = nat (minLength - int (length ds))"
  define tmp where "tmp = map ((!) cUCDIGITS) ds"
  have ub: "unat (word_of_int b :: 64 word) = nat b"
    using assms by (simp add: unsigned_of_int take_bit_eq_mod)
  let ?m = "(put_rev (memset (m(buf := 0)) buf pad k) (buf + k) tmp (length ds)) (buf + k + length ds := 0)"
  let ?t = "itoa_text (nat b) (unat num) minLength pad"
  have t: "?t = replicate k pad @ rev tmp" by (simp add: itoa_text_def ds_def k_def tmp_def rev_map Let_def)
  have run: "itoa m buf num b minLength pad = Some (Ret ?m)"
    using assms itoa_digits_spec [of "word_of_int b" num "[]"] ub
    by (simp add: itoa_def ds_def k_def tmp_def Let_def)
  have dl: "d < 16" if "d \<in> set ds" for d
    using le_digits_less [of "nat b" d "unat num"] assms that by (force simp: ds_def)
  have "cstr ?m buf ((replicate k pad @ rev tmp) @ [])"
    unfolding cstr_append
  proof (intro conjI allI impI)
    fix i assume i: "i < length (replicate k pad @ rev tmp)"
    then show "?m (buf + i) = (replicate k pad @ rev tmp) ! i"
      by (auto simp: tmp_def put_rev_apply memset_apply nth_append rev_nth)
    from i show "(replicate k pad @ rev tmp) ! i \<noteq> 0"
      using assms(4) by (auto simp: nth_append tmp_def rev_nth intro!: digit_not_zero dl)
  qed (simp add: tmp_def)
  moreover have "changed_at_most m ?m buf (length (replicate k pad @ rev tmp) + 1)"
    by (auto simp: changed_at_most_def put_rev_apply memset_apply tmp_def)
  ultimately show ?thesis using run t by auto
qed

section \<open>What strtoull reads\<close>

lemma digit_value_digit:
  assumes "2 \<le> b" "b \<le> 16" "int d < b"
  shows "digit_value b (sint (cUCDIGITS ! d)) = int d"
proof -
  have "\<forall>b \<in> set [2..16]. \<forall>d \<in> set [0..<nat b]. digit_value b (sint (cUCDIGITS ! d)) = int d"
    by code_simp
  moreover have "b \<in> set [2..16]" "d \<in> set [0..<nat b]"
    using assms by (simp_all only: set_upto set_upt) auto
  ultimately show ?thesis by blast
qed

text \<open>The check against overflow lets every number through that fits.\<close>

lemma space_check:
  fixes a b d M :: nat
  assumes "a * b + d \<le> M" "M div b \<le> a"
  shows "(a - M div b) * b + d \<le> M - M div b * b"
proof -
  have "a * b = (a - M div b) * b + M div b * b"
    using assms(2) by (metis add_mult_distrib le_add_diff_inverse2)
  then have "(a - M div b) * b + d + M div b * b \<le> M" using assms(1) by linarith
  then show ?thesis by (rule add_le_imp_le_diff)
qed

lemma strtoull_check:
  fixes x q s :: "64 word"
  assumes "unat q = M div B" "unat s = M - M div B * B" "M < 2 ^ 64" "unat x * B + d \<le> M" "B \<le> 16" "d < B"
  shows "\<not> (x \<ge> q \<and> (x - q) * word_of_nat B + word_of_nat d > s)"
proof
  assume c: "x \<ge> q \<and> (x - q) * word_of_nat B + word_of_nat d > s"
  then have le: "M div B \<le> unat x" using assms(1) by (simp add: word_le_nat_alt)
  note sc = space_check [OF assms(4) le]
  have "unat (x - q) = unat x - M div B" using c assms(1) by (simp add: unat_sub)
  moreover have "unat (word_of_nat B :: 64 word) = B" "unat (word_of_nat d :: 64 word) = d"
    using assms by (simp_all add: unsigned_of_nat take_bit_eq_mod)
  moreover have "(unat x - M div B) * B + d < 2 ^ 64" using sc assms(3) by linarith
  ultimately have "unat ((x - q) * word_of_nat B + word_of_nat d) = (unat x - M div B) * B + d"
    by (simp add: unat_word_ariths)
  then show False using c sc assms(2) by (simp add: word_less_nat_alt)
qed

lemma space_above:
  assumes "0 < B" "B \<le> 16"
  defines "q \<equiv> ULLONG_MAX div word_of_nat B"
  shows "unat q = (2 ^ 64 - 1) div B" "unat (ULLONG_MAX - q * word_of_nat B) = (2 ^ 64 - 1) - (2 ^ 64 - 1) div B * B"
proof -
  have B: "unat (word_of_nat B :: 64 word) = B"
    using assms by (simp add: unsigned_of_nat take_bit_eq_mod)
  then show q: "unat q = (2 ^ 64 - 1) div B" by (simp add: q_def unat_div)
  have le: "(2 ^ 64 - 1) div B * B \<le> (2 ^ 64 - 1 :: nat)" by (rule div_times_less_eq_dividend)
  have "unat (q * word_of_nat B) = unat q * unat (word_of_nat B :: 64 word) mod 2 ^ 64"
    by (simp add: unat_word_ariths)
  also have "\<dots> = (2 ^ 64 - 1) div B * B"
    unfolding q B by (intro mod_less le_less_trans [OF le]) simp
  finally have "unat (q * word_of_nat B) = (2 ^ 64 - 1) div B * B" .
  then show "unat (ULLONG_MAX - q * word_of_nat B) = (2 ^ 64 - 1) - (2 ^ 64 - 1) div B * B"
    using le by (subst unat_sub) (simp_all add: word_le_nat_alt)
qed

lemma strtoull_loop_digits:
  assumes "cstr m p (map ((!) cUCDIGITS) ds)" "\<forall>d \<in> set ds. d < B" "2 \<le> B" "B \<le> 16"
    "horner B a ds < 2 ^ 64"
  defines "q \<equiv> ULLONG_MAX div word_of_nat B"
  shows "strtoull_loop m (int B) q (ULLONG_MAX - q * word_of_nat B) p (word_of_nat a) e =
    Some (word_of_nat (horner B a ds), p + length ds, e)"
  using assms(1,2,5)
proof (induction ds arbitrary: p a)
  case Nil
  then show ?case by (simp add: strtoull_loop.simps [of m _ _ _ p])
next
  case (Cons d ds)
  let ?a = "word_of_nat a :: 64 word" and ?s = "ULLONG_MAX - q * word_of_nat B"
  have "a * B + d \<le> horner B (a * B + d) ds" using assms(3) by (intro horner_ge) simp
  then have fit: "a * B + d \<le> 2 ^ 64 - 1" using Cons.prems(3) by simp
  moreover have "a * 2 \<le> a * B" using assms(3) by simp
  ultimately have "a * 2 \<le> 2 ^ 64 - 1" by (meson add_leD1 le_trans)
  then have a: "a < 2 ^ 64 - 1" by simp
  then have ua: "unat ?a = a" by (simp add: unsigned_of_nat take_bit_eq_mod)
  then have "?a \<noteq> ULLONG_MAX" using a by (auto simp: word_unat_eq_iff)
  moreover have "\<not> (?a \<ge> q \<and> (?a - q) * word_of_nat B + word_of_nat d > ?s)"
    using space_above [of B, folded q_def] fit ua assms(3,4) Cons.prems(2) by (intro strtoull_check) simp_all
  moreover have "digit_value (int B) (sint (m p)) = int d" "m p \<noteq> 0"
    using Cons.prems digit_value_digit [of "int B" d] assms(3,4) by simp_all
  ultimately have "strtoull_loop m (int B) q ?s p ?a e =
      strtoull_loop m (int B) q ?s (p + 1) (?a * word_of_nat B + word_of_nat d) e"
    by (subst strtoull_loop.simps) (simp only: Let_def if_False of_int_of_nat_eq of_nat_less_0_iff)
  also have "?a * word_of_nat B + word_of_nat d = word_of_nat (a * B + d)" by simp
  also have "strtoull_loop m (int B) q ?s (p + 1) (word_of_nat (a * B + d)) e =
      Some (word_of_nat (horner B (a * B + d) ds), p + 1 + length ds, e)"
    using Cons.prems by (intro Cons.IH) simp_all
  finally show ?case by simp
qed

lemma skip_space_run:
  "cstr m p (replicate k 32 @ xs) \<Longrightarrow> xs \<noteq> [] \<Longrightarrow> \<not> isspace (sint (hd xs)) \<Longrightarrow> skip_space m p = Some (p + k)"
proof (induction k arbitrary: p)
  case 0
  then show ?case by (cases xs) (simp_all add: skip_space.simps [of m p])
next
  case (Suc k)
  then show ?case by (simp add: skip_space.simps [of m p] isspace_def)
qed

lemma digit_chars:
  assumes "d < 16"
  shows "\<not> isspace (sint (cUCDIGITS ! d))" "sint (cUCDIGITS ! d) \<notin> {120, 88}"
proof -
  have "\<forall>d \<in> set [0..<16]. \<not> isspace (sint (cUCDIGITS ! d)) \<and> sint (cUCDIGITS ! d) \<notin> {120, 88}"
    by code_simp
  then show "\<not> isspace (sint (cUCDIGITS ! d))" "sint (cUCDIGITS ! d) \<notin> {120, 88}" using assms by auto
qed

lemma no_hex_prefix:
  assumes "cstr m p (map ((!) cUCDIGITS) ds)" "ds \<noteq> []" "\<forall>d \<in> set ds. d < 16"
  shows "sint (m (p + 1)) \<notin> {120, 88}"
proof (cases "tl ds")
  case Nil
  then show ?thesis using assms by (cases ds) auto
next
  case (Cons d es)
  then show ?thesis using assms digit_chars(2) [of d] by (cases ds) auto
qed

lemma strtoull_digits:
  assumes "p \<noteq> 0" "cstr m p (replicate k 32 @ map ((!) cUCDIGITS) ds)" "ds \<noteq> []" "\<forall>d \<in> set ds. d < B"
    "2 \<le> B" "B \<le> 16" "horner B 0 ds < 2 ^ 64"
  shows "strtoull m p (int B) = Some (word_of_nat (horner B 0 ds), p + k + length ds, None)"
proof -
  have ds: "\<forall>d \<in> set ds. d < 16" using assms by auto
  have c: "cstr m (p + k) (map ((!) cUCDIGITS) ds)" using assms(2) by (simp add: cstr_append)
  have "\<not> isspace (sint (hd (map ((!) cUCDIGITS) ds)))"
    using assms(3) ds digit_chars(1) by (cases ds) auto
  then have "skip_space m p = Some (p + k)" using assms(2,3) by (intro skip_space_run) auto
  moreover note no_hex_prefix [OF c assms(3) ds] strtoull_loop_digits [OF c assms(4-7), of None]
  ultimately show ?thesis using assms by (auto simp: strtoull_def Let_def)
qed

lemma itoa_text_digits:
  assumes "pad = 32 \<or> pad = 48"
  shows "\<exists>k ds. itoa_text b n w pad = replicate k 32 @ map ((!) cUCDIGITS) ds \<and> ds \<noteq> [] \<and>
    horner b 0 ds = n \<and> set ds \<subseteq> insert 0 (set (le_digits b n))"
proof -
  define ds where "ds = le_digits b n"
  define k where "k = nat (w - int (length ds))"
  have ne: "ds \<noteq> []" unfolding ds_def by (subst le_digits.simps) simp
  have h: "horner b 0 (rev ds) = n" by (simp add: ds_def horner_le_digits)
  have t: "itoa_text b n w pad = replicate k pad @ map ((!) cUCDIGITS) (rev ds)"
    by (simp add: itoa_text_def ds_def k_def Let_def)
  have z: "replicate k 48 = map ((!) cUCDIGITS) (replicate k 0)" by (simp add: cUCDIGITS_def)
  show ?thesis
  proof (cases "pad = 32")
    case True
    then show ?thesis using t ne h ds_def by (intro exI [of _ k] exI [of _ "rev ds"]) auto
  next
    case False
    then have "itoa_text b n w pad = replicate 0 32 @ map ((!) cUCDIGITS) (replicate k 0 @ rev ds)"
      using assms t z by simp
    then show ?thesis
      using ne h ds_def by (intro exI [of _ 0] exI [of _ "replicate k 0 @ rev ds"]) (auto simp: set_replicate_conv_if)
  qed
qed

lemma itoa_strtoull:
  assumes "buf \<noteq> 0" "2 \<le> B" "B \<le> 16" "pad = 32 \<or> pad = 48"
  shows "\<exists>m' n. itoa m buf num (int B) w pad = Some (Ret m') \<and>
    strlen m' buf = Some n \<and> strtoull m' buf (int B) = Some (num, buf + n, None)"
proof -
  have "pad \<noteq> 0" using assms(4) by auto
  then obtain m' where m': "itoa m buf num (int B) w pad = Some (Ret m')"
      "cstr m' buf (itoa_text B (unat num) w pad)"
    using itoa_cstr [of buf "int B" pad m num w] assms by auto
  obtain k ds where t: "itoa_text B (unat num) w pad = replicate k 32 @ map ((!) cUCDIGITS) ds" "ds \<noteq> []"
      "horner B 0 ds = unat num" "set ds \<subseteq> insert 0 (set (le_digits B (unat num)))"
    using itoa_text_digits [OF assms(4)] by blast
  have "\<forall>d \<in> set ds. d < B" using t(4) le_digits_less [OF assms(2)] assms(2) by force
  moreover have "horner B 0 ds < 2 ^ 64" using t(3) unsigned_less [of num, where 'a = nat] by simp
  ultimately have "strtoull m' buf (int B) = Some (word_of_nat (horner B 0 ds), buf + k + length ds, None)"
    using m'(2) t(1,2) assms by (intro strtoull_digits) auto
  moreover have "strlen m' buf = Some (k + length ds)" using strlen_cstr [OF m'(2)] t(1) by simp
  ultimately show ?thesis using m'(1) t(3) by (auto simp: add.assoc)
qed

end
