(* ===== verification/Kernel_Lib.thy ===== *)
theory Kernel_Lib
  imports Libc_Number "HOL-Library.Signed_Division"
begin

text \<open>
  The common library of the kernel, \<open>lib.c\<close> and \<open>utf16.c\<close>: splitting strings, UTF-8 and UTF-16,
  dates, hexadecimal input and byte order. The result of \<open>malloc\<close> is an argument. The lemmas give
  the UTF-8 round trip, that a split string is the list of its parts, and where the date routines
  and the encoders go wrong.
\<close>

unbundle bit_operations_syntax

section \<open>Small helpers\<close>

fun ByteSum :: "memory \<Rightarrow> addr \<Rightarrow> nat \<Rightarrow> 8 word" where
  "ByteSum m data 0 = 0"
| "ByteSum m data (Suc Size) = m data + ByteSum m (data + 1) Size"

definition DivUp :: "int \<Rightarrow> int \<Rightarrow> int" where
  "DivUp num dem = (num + dem - 1) sdiv dem"

definition SwapEndian16 :: "16 word \<Rightarrow> 16 word" where
  "SwapEndian16 Val = or (push_bit 8 (and Val 0xFF)) (and (drop_bit 8 Val) 0xFF)"

definition SwapEndian32 :: "32 word \<Rightarrow> 32 word" where
  "SwapEndian32 Val =
     or (or (or (push_bit 24 (and Val 0xFF)) (push_bit 8 (and Val 0xFF00)))
       (and (drop_bit 8 Val) 0xFF00)) (and (drop_bit 24 Val) 0xFF)"

definition SwapEndian64 :: "64 word \<Rightarrow> 64 word" where
  "SwapEndian64 Val =
     or (ucast (SwapEndian32 (ucast (drop_bit 32 Val)))) (push_bit 32 (ucast (SwapEndian32 (ucast Val))))"

section \<open>Splitting\<close>

partial_function (option) split_count :: "memory \<Rightarrow> addr \<Rightarrow> 8 word \<Rightarrow> nat \<Rightarrow> nat \<Rightarrow> (nat \<times> nat) option" where
  "split_count m str ch i len =
     (if m (str + i) = 0 then Some (i, len)
      else split_count m str ch (i + 1) (if m (str + i) = ch then len + 1 else len))"

partial_function (option) split_fill ::
  "memory \<Rightarrow> addr \<Rightarrow> 8 word \<Rightarrow> addr \<Rightarrow> nat \<Rightarrow> nat \<Rightarrow> addr \<Rightarrow> (memory \<times> nat \<times> addr) option" where
  "split_fill m str ch ret i j start =
     (if m (str + i) = 0 then Some (m, j, start)
      else if m (str + i) = ch
      then split_fill (wr32 (m(start := 0)) (ret + 4 * j) (start + 1)) str ch ret (i + 1) (j + 1) (start + 1)
      else split_fill (m(start := m (str + i))) str ch ret (i + 1) j (start + 1))"

text \<open>\<open>ret\<close> is what \<open>malloc\<close> returns for the block of pointers and characters; the size asked for comes first.\<close>

definition str_split_size :: "memory \<Rightarrow> addr \<Rightarrow> 8 word \<Rightarrow> nat option" where
  "str_split_size m str ch = map_option (\<lambda>(i, len). 4 * (len + 1) + (i + 1)) (split_count m str ch 0 1)"

definition str_split :: "memory \<Rightarrow> addr \<Rightarrow> 8 word \<Rightarrow> addr \<Rightarrow> (addr \<times> memory) option" where
  "str_split m str ch ret =
     Option.bind (split_count m str ch 0 1) (\<lambda>(i, len).
       if ret = 0 then Some (0, m)
       else let start = ret + 4 * (len + 1); m = wr32 m ret start
       in map_option (\<lambda>(m, j, start). (ret, wr32 (m(start := 0)) (ret + 4 * j) 0))
            (split_fill m str ch ret 0 1 start))"

section \<open>UTF-8\<close>

text \<open>The number of bytes read and the character, \<open>0xFFFD\<close> for anything invalid.\<close>

definition ReadUTF8 :: "memory \<Rightarrow> addr \<Rightarrow> nat \<times> 32 word" where
  "ReadUTF8 m str =
     (let c = m str; byte = (\<lambda>i. ucast (m (str + i)) :: 32 word); bad = 0xFFFD in
      if and c 0x80 = 0 then (1, ucast c)
      else if and c 0xC0 = 0x80 then (1, bad)
      else if and c 0xE0 = 0xC0 then
        (if and (m (str + 1)) 0xC0 \<noteq> 0x80 then (2, bad)
         else (2, or (push_bit 6 (and (byte 0) 0x1F)) (and (byte 1) 0x3F)))
      else if and c 0xF0 = 0xE0 then
        (if and (m (str + 1)) 0xC0 \<noteq> 0x80 then (2, bad)
         else if and (m (str + 2)) 0xC0 \<noteq> 0x80 then (3, bad)
         else (3, or (or (push_bit 12 (and (byte 0) 0x0F)) (push_bit 6 (and (byte 1) 0x3F))) (and (byte 2) 0x3F)))
      else if and c 0xF8 = 0xF0 then
        (if and (m (str + 1)) 0xC0 \<noteq> 0x80 then (2, bad)
         else if and (m (str + 2)) 0xC0 \<noteq> 0x80 then (3, bad)
         else if and (m (str + 3)) 0xC0 \<noteq> 0x80 then (4, bad)
         else (4, or (or (or (push_bit 18 (and (byte 0) 0x07)) (push_bit 12 (and (byte 1) 0x3F)))
                (push_bit 6 (and (byte 2) 0x3F))) (and (byte 3) 0x3F)))
      else (4, bad))"

fun put_bytes :: "memory \<Rightarrow> addr \<Rightarrow> 8 word list \<Rightarrow> memory" where
  "put_bytes m p [] = m"
| "put_bytes m p (x # xs) = put_bytes (m(p := x)) (p + 1) xs"

text \<open>The bytes \<open>WriteUTF8\<close> stores, each cut to eight bits; none for a value that is too large.\<close>

definition utf8_bytes :: "32 word \<Rightarrow> 8 word list" where
  "utf8_bytes Val =
     (if Val < 128 then [ucast Val]
      else if Val < 0x8000 then
        [ucast (or 0xC0 (drop_bit 6 Val)), ucast (or 0x80 (and Val 0x3F))]
      else if Val < 0x10000 then
        [ucast (or 0xE0 (drop_bit 12 Val)), ucast (or 0x80 (and (drop_bit 6 Val) 0x3F)),
         ucast (or 0x80 (and Val 0x3F))]
      else if Val < 0x110000 then
        [ucast (or 0xF0 (drop_bit 18 Val)), ucast (or 0x80 (and (drop_bit 12 Val) 0x3F)),
         ucast (or 0x80 (and (drop_bit 6 Val) 0x3F)), ucast (or 0x80 (and Val 0x3F))]
      else [])"

definition WriteUTF8 :: "memory \<Rightarrow> addr \<Rightarrow> 32 word \<Rightarrow> nat \<times> memory" where
  "WriteUTF8 m str Val =
     (let bs = utf8_bytes Val in (length bs, if str \<noteq> 0 then put_bytes m str bs else m))"

partial_function (option) strpos8_loop :: "memory \<Rightarrow> addr \<Rightarrow> 32 word \<Rightarrow> nat \<Rightarrow> int option" where
  "strpos8_loop m str Search pos =
     (if m (str + pos) = 0 then Some (- 1)
      else if Search < 128 then
        (if m (str + pos) = ucast Search then Some (int pos) else strpos8_loop m str Search (pos + 1))
      else if m (str + pos) < 128 then strpos8_loop m str Search (pos + 1)
      else let (n, val) = ReadUTF8 m (str + pos); pos = pos + n in
        if val = Search then Some (int pos) else strpos8_loop m str Search (pos + 1))"

definition strpos8 :: "memory \<Rightarrow> addr \<Rightarrow> 32 word \<Rightarrow> int option" where
  "strpos8 m str Search = strpos8_loop m str Search 0"

section \<open>UTF-16\<close>

text \<open>A string of 16-bit units is a function of the index.\<close>

definition ReadUTF16 :: "(nat \<Rightarrow> 16 word) \<Rightarrow> nat \<times> 32 word" where
  "ReadUTF16 Str16 =
     (if 0xD800 < Str16 0 \<and> Str16 0 \<le> 0xDFFF then
        (if Str16 0 > 0xDC00 then (1, 0)
         else if Str16 1 < 0xD800 \<or> Str16 1 \<ge> 0xDC00 then (2, 0)
         else (2, 0x10000 + or (push_bit 10 (ucast (and (Str16 0) 0x3FF))) (ucast (and (Str16 1) 0x3FF))))
      else (1, ucast (Str16 0)))"

text \<open>The number of units, and the bytes stored when there is a destination.\<close>

fun UTF16_ConvertToUTF8 :: "nat \<Rightarrow> memory \<Rightarrow> addr \<Rightarrow> nat \<Rightarrow> (nat \<Rightarrow> 16 word) \<Rightarrow> nat \<Rightarrow> nat \<times> memory" where
  "UTF16_ConvertToUTF8 DestLen m Dest 0 Source len =
     (len, if Dest \<noteq> 0 \<and> len < DestLen then m(Dest + len := 0) else m)"
| "UTF16_ConvertToUTF8 DestLen m Dest (Suc SrcLen) Source len =
     (if Source 0 = 0 then (len, if Dest \<noteq> 0 \<and> len < DestLen then m(Dest + len := 0) else m)
      else UTF16_ConvertToUTF8 DestLen (if Dest \<noteq> 0 \<and> len < DestLen then m(Dest + len := ucast (Source 0)) else m)
        Dest SrcLen (\<lambda>i. Source (i + 1)) (len + 1))"

partial_function (option) utf16_compare ::
  "nat \<Rightarrow> (nat \<Rightarrow> 16 word) \<Rightarrow> memory \<Rightarrow> addr \<Rightarrow> bool \<Rightarrow> nat \<Rightarrow> nat \<Rightarrow> int option" where
  "utf16_compare Str16Len Str16 m Str8 bCI pos16 pos8 =
     (if pos16 < Str16Len \<and> Str16 pos16 \<noteq> 0 \<and> m (Str8 + pos8) \<noteq> 0 then
        (let (n16, cp16) = ReadUTF16 (\<lambda>i. Str16 (pos16 + i));
             (n8, cp8) = ReadUTF8 m (Str8 + pos8);
             cp16 = (if bCI then word_of_int (toupper (sint cp16)) else cp16);
             cp8 = (if bCI then word_of_int (toupper (sint cp8)) else cp8)
         in if cp16 = cp8 then utf16_compare Str16Len Str16 m Str8 bCI (pos16 + n16) (pos8 + n8)
            else if cp16 < cp8 then Some (- 1) else Some 1)
      else if pos16 = Str16Len then Some 0
      else if Str16 pos16 \<noteq> 0 \<and> m (Str8 + pos8) \<noteq> 0 then Some 0
      else if Str16 pos16 \<noteq> 0 then Some 1
      else Some (- 1))"

definition UTF16_CompareWithUTF8Ex :: "nat \<Rightarrow> (nat \<Rightarrow> 16 word) \<Rightarrow> memory \<Rightarrow> addr \<Rightarrow> bool \<Rightarrow> int option" where
  "UTF16_CompareWithUTF8Ex Str16Len Str16 m Str8 bCaseInsensitive =
     utf16_compare Str16Len Str16 m Str8 bCaseInsensitive 0 0"

definition UTF16_CompareWithUTF8 :: "nat \<Rightarrow> (nat \<Rightarrow> 16 word) \<Rightarrow> memory \<Rightarrow> addr \<Rightarrow> int option" where
  "UTF16_CompareWithUTF8 Str16Len Str16 m Str8 = UTF16_CompareWithUTF8Ex Str16Len Str16 m Str8 False"

definition UTF16_CompareWithUTF8CI :: "nat \<Rightarrow> (nat \<Rightarrow> 16 word) \<Rightarrow> memory \<Rightarrow> addr \<Rightarrow> int option" where
  "UTF16_CompareWithUTF8CI Str16Len Str16 m Str8 = UTF16_CompareWithUTF8Ex Str16Len Str16 m Str8 True"

section \<open>Dates\<close>

definition DAYS_BEFORE :: "int list" where
  "DAYS_BEFORE = [0, 31, 59, 90, 120, 151, 181, 212, 243, 273, 304, 334]"

definition UNIX_TO_2K :: int where
  "UNIX_TO_2K = 30 * 365 * 3600 * 24 + 7 * 3600 * 24"

text \<open>Months and days count from zero. Years beyond a few million would overflow an \<open>int\<close>; the model is exact.\<close>

definition timestamp :: "int \<Rightarrow> int \<Rightarrow> int \<Rightarrow> int \<Rightarrow> int \<Rightarrow> int \<Rightarrow> int outcome" where
  "timestamp sec mins hrs day month year =
     (if \<not> (0 \<le> sec \<and> sec < 60) then Ret 0
      else if \<not> (0 \<le> mins \<and> mins < 60) then Ret 0
      else if \<not> (0 \<le> hrs \<and> hrs < 24) then Ret 0
      else if \<not> (0 \<le> day \<and> day < 31) then Ret 0
      else if \<not> (0 \<le> month \<and> month < 12) then Ret 0
      else let stamp = DAYS_BEFORE ! nat month + day;
               is_leap = of_bool (year smod 4 = 0) - of_bool (year smod 100 = 0) + of_bool (year smod 400 = 0) :: int
      in if \<not> (is_leap = 0 \<or> is_leap = 1) then Panicked
      else let stamp = (if is_leap \<noteq> 0 \<and> month > 1 then stamp + 1 else stamp);
               year = year - 2000;
               stamp = stamp + (year * 365 + year sdiv 400 - year sdiv 100 + year sdiv 4);
               stamp = stamp * (3600 * 24) + UNIX_TO_2K + sec + mins * 60 + hrs * 3600
      in Ret (stamp * 1000))"

text \<open>The remainder is that of the absolute values.\<close>

definition DivMod64 :: "int \<Rightarrow> int \<Rightarrow> (int \<times> int) outcome" where
  "DivMod64 N D =
     bind_outcome (DivMod64U (word_of_int \<bar>N\<bar>) (word_of_int \<bar>D\<bar>)) (\<lambda>(q, r).
       Ret (if (N < 0) \<noteq> (D < 0) then sint (- q) else sint q, sint r))"

record date =
  d_year :: int
  d_month :: int
  d_day :: int
  d_hrs :: int
  d_mins :: int
  d_sec :: int
  d_ms :: int

text \<open>The search for the month: the first entry that is larger, or 12.\<close>

fun month_loop :: "int \<Rightarrow> nat \<Rightarrow> nat \<Rightarrow> nat" where
  "month_loop TS 0 i = i"
| "month_loop TS (Suc n) i = (if TS < DAYS_BEFORE ! i then i else month_loop TS n (i + 1))"

text \<open>The year and the day in it, counted from 2000, and whether it is taken for a leap year.\<close>

definition split_years :: "int \<Rightarrow> (int \<times> int \<times> bool) outcome" where
  "split_years TS =
     bind_outcome (DivMod64 TS (365 * 400 + (400 div 4 - 3))) (\<lambda>(q, TS).
       let year = 400 * q in
       if TS < 366 then Ret (year, TS, True)
       else bind_outcome (DivMod64 TS (365 * 100 + (100 div 4 - 1))) (\<lambda>(q, TS).
         let year = year + 100 * q in
         if TS < 366 then Ret (year, TS, False)
         else bind_outcome (DivMod64 TS (365 * 4 + 1)) (\<lambda>(q, TS).
           let year = year + 4 * q in
           if TS < 366 then Ret (year, TS, True)
           else bind_outcome (DivMod64 TS 356) (\<lambda>(q, TS). Ret (year + q, TS, False)))))"

definition format_date :: "int \<Rightarrow> date outcome" where
  "format_date TS =
     bind_outcome (DivMod64 TS 1000) (\<lambda>(TS, ms).
     bind_outcome (DivMod64 TS 60) (\<lambda>(TS, sec).
     bind_outcome (DivMod64 TS 60) (\<lambda>(TS, mins).
     bind_outcome (DivMod64 TS 24) (\<lambda>(TS, hrs).
     bind_outcome (split_years (TS - UNIX_TO_2K sdiv (3600 * 24))) (\<lambda>(year, TS, is_leap).
       if \<not> TS \<ge> 0 then Panicked
       else let (TS, day) = (if is_leap \<and> TS > DAYS_BEFORE ! 2 then (TS - 1, 1) else (TS, 0));
                i = month_loop TS 12 0
       in Ret \<lparr>d_year = year + 2000, d_month = int i - 1, d_day = day + (TS - DAYS_BEFORE ! (i - 1)),
            d_hrs = hrs, d_mins = mins, d_sec = sec, d_ms = ms\<rparr>)))))"

section \<open>Hexadecimal input\<close>

definition hex_digit :: "8 word \<Rightarrow> int" where
  "hex_digit c =
     (if 48 \<le> sint c \<and> sint c \<le> 57 then sint c - 48
      else if 65 \<le> sint c \<and> sint c \<le> 70 then sint c - 65 + 10
      else if 97 \<le> sint c \<and> sint c \<le> 102 then sint c - 97 + 10
      else 0)"

text \<open>The number of bytes stored; \<open>n\<close> is what is left of \<open>DestSize\<close>.\<close>

fun UnHex :: "memory \<Rightarrow> addr \<Rightarrow> nat \<Rightarrow> addr \<Rightarrow> nat \<times> memory" where
  "UnHex m Dest 0 SourceString = (0, m)"
| "UnHex m Dest (Suc n) SourceString =
     (if m SourceString = 0 \<or> m (SourceString + 1) = 0 then (0, m)
      else let val = or (push_bit 4 (word_of_int (hex_digit (m SourceString))))
                       (word_of_int (hex_digit (m (SourceString + 1))));
               (k, m) = UnHex (m(Dest := val)) (Dest + 1) n (SourceString + 2)
           in (k + 1, m))"

section \<open>Identifiers\<close>

text \<open>A null terminated array of string pointers.\<close>

partial_function (option) lookup_loop :: "memory \<Rightarrow> addr \<Rightarrow> addr \<Rightarrow> nat \<Rightarrow> int option" where
  "lookup_loop m Array Needle i =
     (if rd32 m (Array + 4 * i) = 0 then Some (- 1)
      else Option.bind (strcmp m (rd32 m (Array + 4 * i)) Needle) (\<lambda>r.
        if r = 0 then Some (int i) else lookup_loop m Array Needle (i + 1)))"

definition ModUtil_LookupString ::
  "(addr \<Rightarrow> bool) \<Rightarrow> (addr \<Rightarrow> bool) \<Rightarrow> memory \<Rightarrow> addr \<Rightarrow> addr \<Rightarrow> int option" where
  "ModUtil_LookupString mapped is_user m Array Needle =
     Option.bind (CheckString mapped is_user m Needle) (\<lambda>ok.
       if \<not> ok then Some (- 1) else lookup_loop m Array Needle 0)"

text \<open>\<open>valid\<close> is the answer of \<open>CheckMem\<close> for the 32 bytes at \<open>Dest\<close>.\<close>

definition ModUtil_SetIdent :: "bool \<Rightarrow> memory \<Rightarrow> addr \<Rightarrow> addr \<Rightarrow> int \<times> memory" where
  "ModUtil_SetIdent valid m Dest Value =
     (if \<not> valid then (- 1, m) else (1, fst (strncpy m Dest Value 32)))"

section \<open>UTF-8 round trip\<close>

lemma small_word:
  assumes "(x :: 32 word) < word_of_nat n" "n < 2 ^ 32"
  shows "x \<in> set (map word_of_nat [0..<n])"
proof -
  have "unat x < n" using assms by (simp add: word_less_nat_alt unsigned_of_nat take_bit_eq_mod)
  moreover have "x = word_of_nat (unat x)" by simp
  ultimately show ?thesis by (metis (no_types, lifting) atLeast0LessThan image_eqI lessThan_iff list.set_map set_upt)
qed

definition lead :: "32 word \<Rightarrow> 32 word \<Rightarrow> 8 word" where
  "lead tag x = ucast (or tag x)"

lemma lead_two:
  assumes "x < 0x20"
  shows "and (lead 0xC0 x) 0x80 \<noteq> 0 \<and> and (lead 0xC0 x) 0xC0 \<noteq> 0x80 \<and>
    and (lead 0xC0 x) 0xE0 = 0xC0 \<and> and (ucast (lead 0xC0 x)) 0x1F = x"
proof -
  have *: "\<forall>x \<in> set (map word_of_nat [0..<32]). and (lead 0xC0 x) 0x80 \<noteq> 0 \<and> and (lead 0xC0 x) 0xC0 \<noteq> 0x80 \<and>
    and (lead 0xC0 x) 0xE0 = 0xC0 \<and> and (ucast (lead 0xC0 x)) 0x1F = x" by code_simp
  show ?thesis using assms by (intro bspec [OF * small_word]) simp_all
qed

lemma lead_three:
  assumes "x < 0x10"
  shows "and (lead 0xE0 x) 0x80 \<noteq> 0 \<and> and (lead 0xE0 x) 0xC0 \<noteq> 0x80 \<and>
    and (lead 0xE0 x) 0xE0 \<noteq> 0xC0 \<and> and (lead 0xE0 x) 0xF0 = 0xE0 \<and> and (ucast (lead 0xE0 x)) 0x0F = x"
proof -
  have *: "\<forall>x \<in> set (map word_of_nat [0..<16]). and (lead 0xE0 x) 0x80 \<noteq> 0 \<and> and (lead 0xE0 x) 0xC0 \<noteq> 0x80 \<and>
    and (lead 0xE0 x) 0xE0 \<noteq> 0xC0 \<and> and (lead 0xE0 x) 0xF0 = 0xE0 \<and> and (ucast (lead 0xE0 x)) 0x0F = x" by code_simp
  show ?thesis using assms by (intro bspec [OF * small_word]) simp_all
qed

lemma lead_four:
  assumes "x < 8"
  shows "and (lead 0xF0 x) 0x80 \<noteq> 0 \<and> and (lead 0xF0 x) 0xC0 \<noteq> 0x80 \<and>
    and (lead 0xF0 x) 0xE0 \<noteq> 0xC0 \<and> and (lead 0xF0 x) 0xF0 \<noteq> 0xE0 \<and> and (lead 0xF0 x) 0xF8 = 0xF0 \<and>
    and (ucast (lead 0xF0 x)) 0x07 = x"
proof -
  have *: "\<forall>x \<in> set (map word_of_nat [0..<8]). and (lead 0xF0 x) 0x80 \<noteq> 0 \<and> and (lead 0xF0 x) 0xC0 \<noteq> 0x80 \<and>
    and (lead 0xF0 x) 0xE0 \<noteq> 0xC0 \<and> and (lead 0xF0 x) 0xF0 \<noteq> 0xE0 \<and> and (lead 0xF0 x) 0xF8 = 0xF0 \<and>
    and (ucast (lead 0xF0 x)) 0x07 = x" by code_simp
  show ?thesis using assms by (intro bspec [OF * small_word]) simp_all
qed

lemma low_six: "and (x :: 32 word) 0x3F = take_bit 6 x"
  by (simp add: take_bit_eq_mask mask_eq_exp_minus_1)

lemma trail:
  "and (lead 0x80 (take_bit 6 x)) 0xC0 = 0x80 \<and> take_bit 6 (ucast (lead 0x80 (take_bit 6 x))) = take_bit 6 x"
proof -
  have *: "\<forall>x \<in> set (map word_of_nat [0..<64]). and (lead 0x80 x) 0xC0 = 0x80 \<and> take_bit 6 (ucast (lead 0x80 x)) = x"
    by code_simp
  have "unat (take_bit 6 x) < 64" unfolding unsigned_take_bit_eq by (simp add: take_bit_eq_mod)
  then have "take_bit 6 x < 0x40" by (simp only: word_less_nat_alt unat_numeral) simp
  then show ?thesis by (intro bspec [OF * small_word]) simp_all
qed

text \<open>The pieces put together again.\<close>

lemma join_bits:
  fixes V :: "32 word"
  shows "or (push_bit 6 (drop_bit 6 V)) (take_bit 6 V) = V"
    "or (or (push_bit 12 (drop_bit 12 V)) (push_bit 6 (take_bit 6 (drop_bit 6 V)))) (take_bit 6 V) = V"
    "or (or (or (push_bit 18 (drop_bit 18 V)) (push_bit 12 (take_bit 6 (drop_bit 12 V))))
       (push_bit 6 (take_bit 6 (drop_bit 6 V)))) (take_bit 6 V) = V"
proof -
  show "or (push_bit 6 (drop_bit 6 V)) (take_bit 6 V) = V"
    by (rule bit_eqI) (auto simp: bit_simps)
  show "or (or (push_bit 12 (drop_bit 12 V)) (push_bit 6 (take_bit 6 (drop_bit 6 V)))) (take_bit 6 V) = V"
  proof (rule bit_eqI)
    fix n assume "possible_bit TYPE(32 word) n"
    then show "bit (or (or (push_bit 12 (drop_bit 12 V)) (push_bit 6 (take_bit 6 (drop_bit 6 V)))) (take_bit 6 V)) n = bit V n"
      by (cases "n < 6"; cases "n < 12") (auto simp: bit_simps)
  qed
  show "or (or (or (push_bit 18 (drop_bit 18 V)) (push_bit 12 (take_bit 6 (drop_bit 12 V))))
       (push_bit 6 (take_bit 6 (drop_bit 6 V)))) (take_bit 6 V) = V"
  proof (rule bit_eqI)
    fix n assume "possible_bit TYPE(32 word) n"
    then show "bit (or (or (or (push_bit 18 (drop_bit 18 V)) (push_bit 12 (take_bit 6 (drop_bit 12 V))))
       (push_bit 6 (take_bit 6 (drop_bit 6 V)))) (take_bit 6 V)) n = bit V n"
      by (cases "n < 6"; cases "n < 12"; cases "n < 18") (auto simp: bit_simps)
  qed
qed

lemma drop_less:
  assumes "unat V < 2 ^ k * n"
  shows "unat (drop_bit k (V :: 32 word)) < n"
  unfolding unat_drop_bit_eq using assms by (simp add: drop_bit_eq_div less_mult_imp_div_less mult.commute)

lemma put_bytes_apply:
  "put_bytes m p bs x = (if p \<le> x \<and> x < p + length bs then bs ! (x - p) else m x)"
proof (induction bs arbitrary: m p)
  case (Cons b bs)
  show ?case by (simp only: put_bytes.simps Cons.IH) (auto simp: nth_Cons')
qed auto

text \<open>The values that come back are all but those between \<open>0x800\<close> and \<open>0x8000\<close>.\<close>

lemma ReadUTF8_WriteUTF8:
  assumes "str \<noteq> 0" "Val < 0x110000" "Val < 0x800 \<or> 0x8000 \<le> Val"
  shows "ReadUTF8 (snd (WriteUTF8 m str Val)) str = (fst (WriteUTF8 m str Val), Val)"
proof -
  note simps = ReadUTF8_def WriteUTF8_def utf8_bytes_def put_bytes_apply low_six trail join_bits Let_def
  consider "Val < 128" | "\<not> Val < 128" "Val < 0x800" | "\<not> Val < 0x8000" "Val < 0x10000"
    | "\<not> Val < 0x10000" using assms(3) by fastforce
  then show ?thesis
  proof cases
    case 1
    have *: "\<forall>x \<in> set (map word_of_nat [0..<128]). and (ucast (x :: 32 word) :: 8 word) 0x80 = 0 \<and>
        ucast (ucast x :: 8 word) = x" by code_simp
    have "and (ucast Val :: 8 word) 0x80 = 0 \<and> ucast (ucast Val :: 8 word) = Val"
      using 1 by (intro bspec [OF * small_word]) simp_all
    then show ?thesis using 1 assms(1) by (simp add: simps)
  next
    case 2
    then have "unat (drop_bit 6 Val) < 0x20" by (intro drop_less) (simp add: word_less_nat_alt)
    then have "drop_bit 6 Val < 0x20" by (simp add: word_less_nat_alt)
    from lead_two [OF this] have l: "and (lead 0xC0 (drop_bit 6 Val)) 0x80 \<noteq> 0" "and (lead 0xC0 (drop_bit 6 Val)) 0xC0 \<noteq> 0x80"
      "and (lead 0xC0 (drop_bit 6 Val)) 0xE0 = 0xC0" "and (ucast (lead 0xC0 (drop_bit 6 Val))) 0x1F = drop_bit 6 Val"
      by simp_all
    have "Val < 0x8000" using 2 by (simp add: word_less_nat_alt)
    then show ?thesis using 2 assms(1) l by (simp add: simps flip: lead_def)
  next
    case 3
    then have "unat (drop_bit 12 Val) < 0x10" by (intro drop_less) (simp add: word_less_nat_alt)
    then have "drop_bit 12 Val < 0x10" by (simp add: word_less_nat_alt)
    from lead_three [OF this] have l: "and (lead 0xE0 (drop_bit 12 Val)) 0x80 \<noteq> 0"
      "and (lead 0xE0 (drop_bit 12 Val)) 0xC0 \<noteq> 0x80" "and (lead 0xE0 (drop_bit 12 Val)) 0xE0 \<noteq> 0xC0"
      "and (lead 0xE0 (drop_bit 12 Val)) 0xF0 = 0xE0" "and (ucast (lead 0xE0 (drop_bit 12 Val))) 0x0F = drop_bit 12 Val"
      by simp_all
    have "\<not> Val < 128" using 3 by (simp add: word_less_nat_alt)
    then show ?thesis using 3 assms(1) l by (simp add: simps flip: lead_def)
  next
    case 4
    have "unat (drop_bit 18 Val) < 8" using assms(2) by (intro drop_less) (simp add: word_less_nat_alt)
    then have "drop_bit 18 Val < 8" by (simp add: word_less_nat_alt)
    from lead_four [OF this] have l: "and (lead 0xF0 (drop_bit 18 Val)) 0x80 \<noteq> 0"
      "and (lead 0xF0 (drop_bit 18 Val)) 0xC0 \<noteq> 0x80" "and (lead 0xF0 (drop_bit 18 Val)) 0xE0 \<noteq> 0xC0"
      "and (lead 0xF0 (drop_bit 18 Val)) 0xF0 \<noteq> 0xE0" "and (lead 0xF0 (drop_bit 18 Val)) 0xF8 = 0xF0"
      "and (ucast (lead 0xF0 (drop_bit 18 Val))) 0x07 = drop_bit 18 Val"
      by simp_all
    have "\<not> Val < 128" "\<not> Val < 0x8000" using 4 by (simp_all add: word_less_nat_alt)
    then show ?thesis using 4 assms(1,2) l by (simp add: simps flip: lead_def)
  qed
qed

lemma WriteUTF8_loses_bits:
  "ReadUTF8 (snd (WriteUTF8 (\<lambda>_. 0) 100 0x20AC)) 100 = (2, 0xAC)"
  by code_simp

text \<open>Every well-formed pair of surrogates is refused.\<close>

lemma ReadUTF16_no_pairs:
  assumes "0xD800 < s 0" "s 0 < 0xDC00" "0xDC00 \<le> s 1"
  shows "ReadUTF16 s = (2, 0)"
proof -
  have "\<not> s 0 > 0xDC00" "s 0 \<le> 0xDFFF" using assms(2) by (simp_all add: word_less_nat_alt word_le_nat_alt)
  then show ?thesis using assms by (simp add: ReadUTF16_def)
qed

lemma ReadUTF16_basic:
  assumes "s 0 < 0xD800 \<or> 0xDFFF < s 0"
  shows "ReadUTF16 s = (1, ucast (s 0))"
  using assms by (auto simp: ReadUTF16_def word_less_nat_alt word_le_nat_alt)

text \<open>The last day of a leap year and the first day of the next year have the same time stamp.\<close>

lemma timestamp_collides: "timestamp 0 0 0 30 11 2000 = timestamp 0 0 0 0 0 2001"
  by code_simp

lemma sint_small: "0 \<le> i \<Longrightarrow> i < 2 ^ 63 \<Longrightarrow> sint (word_of_int i :: 64 word) = i"
  by (simp add: signed_of_int signed_take_bit_int_eq_self)

lemma DivMod64_nonneg:
  assumes "0 \<le> N" "N < 2 ^ 63" "0 < D" "D < 2 ^ 63"
  shows "DivMod64 N D = Ret (N div D, N mod D)"
proof -
  have u: "uint (word_of_int N :: 64 word) = N" "uint (word_of_int D :: 64 word) = D"
    using assms by (simp_all add: unsigned_of_int take_bit_int_eq_self)
  then have "(word_of_int D :: 64 word) \<noteq> 0" using assms(3) by (metis less_irrefl unsigned_0)
  moreover have "(word_of_int N :: 64 word) div word_of_int D = word_of_int (N div D)"
    "(word_of_int N :: 64 word) mod word_of_int D = word_of_int (N mod D)"
    using u by (simp_all add: word_div_def word_mod_def)
  moreover have "0 \<le> N div D" "N div D < 2 ^ 63" "0 \<le> N mod D" "N mod D < 2 ^ 63"
    using assms zdiv_mono2 [of N 1 D] pos_mod_bound [of D N]
    by (auto simp: pos_imp_zdiv_nonneg_iff simp del: pos_mod_bound)
  ultimately show ?thesis using assms by (simp add: DivMod64_def DivMod64U_spec sint_small)
qed

text \<open>The first of January 2002 is shown as the twentieth: the length of a year is given as 356 days.\<close>

lemma format_date_356:
  "format_date 1009843200000 = Ret \<lparr>d_year = 2002, d_month = 0, d_day = 19, d_hrs = 0, d_mins = 0, d_sec = 0, d_ms = 0\<rparr>"
  by (simp add: format_date_def split_years_def DivMod64_nonneg UNIX_TO_2K_def DAYS_BEFORE_def eval_nat_numeral)

section \<open>Splitting\<close>

fun split_on :: "8 word \<Rightarrow> 8 word list \<Rightarrow> 8 word list list" where
  "split_on c [] = [[]]"
| "split_on c (x # xs) =
     (if x = c then [] # split_on c xs
      else case split_on c xs of y # ys \<Rightarrow> (x # y) # ys | [] \<Rightarrow> [[x]])"

text \<open>Where the parts after the first one start when the text is stored at \<open>a\<close>.\<close>

fun part_addrs :: "8 word \<Rightarrow> addr \<Rightarrow> 8 word list \<Rightarrow> addr list" where
  "part_addrs c a [] = []"
| "part_addrs c a (x # xs) = (if x = c then (a + 1) # part_addrs c (a + 1) xs else part_addrs c (a + 1) xs)"

lemma split_on_not_Nil [simp]: "split_on c xs \<noteq> []"
  by (induction xs) (auto split: list.splits)

lemma part_addrs_bounds: "p \<in> set (part_addrs c a xs) \<Longrightarrow> a < p \<and> p \<le> a + length xs"
  by (induction xs arbitrary: a) (fastforce split: if_splits)+

text \<open>A text in which the separators are replaced by zero bytes is the sequence of its parts.\<close>

lemma split_parts:
  assumes "\<forall>k < length xs. m (a + k) = (if xs ! k = c then 0 else xs ! k)" "m (a + length xs) = 0" "0 \<notin> set xs"
  shows "list_all2 (cstr m) (a # part_addrs c a xs) (split_on c xs)"
  using assms
proof (induction xs arbitrary: a)
  case (Cons x xs)
  have "\<forall>k < length xs. m (a + 1 + k) = (if xs ! k = c then 0 else xs ! k)"
  proof (intro allI impI)
    fix k assume "k < length xs"
    then show "m (a + 1 + k) = (if xs ! k = c then 0 else xs ! k)" using Cons.prems(1) [rule_format, of "Suc k"] by simp
  qed
  then have ih: "list_all2 (cstr m) ((a + 1) # part_addrs c (a + 1) xs) (split_on c xs)"
    using Cons.prems by (intro Cons.IH) simp_all
  have "m a = (if x = c then 0 else x)" using Cons.prems(1) [rule_format, of 0] by simp
  then show ?case using ih Cons.prems(3) by (auto split: list.splits)
qed simp

text \<open>Memory that differs only at the pointers and at the characters.\<close>

definition same_but :: "memory \<Rightarrow> memory \<Rightarrow> addr \<Rightarrow> nat \<Rightarrow> addr \<Rightarrow> nat \<Rightarrow> bool" where
  "same_but m m' p n d k = (\<forall>x. \<not> (p \<le> x \<and> x < p + n) \<and> \<not> (d \<le> x \<and> x < d + k) \<longrightarrow> m' x = m x)"

lemma split_fill_spec:
  assumes "cstr m (str + i) xs" "ret + 4 * (j + length (part_addrs ch start xs)) \<le> start"
    "str + i + length xs < ret \<or> start + length xs \<le> str + i" "start + length xs < two32"
  shows "\<exists>m'. split_fill m str ch ret i j start = Some (m', j + length (part_addrs ch start xs), start + length xs) \<and>
    (\<forall>k < length xs. m' (start + k) = (if xs ! k = ch then 0 else xs ! k)) \<and>
    (\<forall>k < length (part_addrs ch start xs). rd32 m' (ret + 4 * (j + k)) = part_addrs ch start xs ! k) \<and>
    same_but m m' (ret + 4 * j) (4 * length (part_addrs ch start xs)) start (length xs)"
  using assms
proof (induction xs arbitrary: m i j start)
  case Nil
  then show ?case by (simp add: split_fill.simps [of m str ch ret i] same_but_def)
next
  case (Cons x xs)
  define sep where "sep = (x = ch)"
  define m1 where "m1 = (if sep then wr32 (m(start := 0)) (ret + 4 * j) (start + 1) else m(start := x))"
  define j1 where "j1 = (if sep then j + 1 else j)"
  let ?as = "part_addrs ch (start + 1) xs"
  have bound: "ret + 4 * (j1 + length ?as) \<le> start" using Cons.prems(2) by (auto simp: j1_def sep_def split: if_splits)
  have m1: "m1 y = m y" if "y \<noteq> start" "\<not> (sep \<and> ret + 4 * j \<le> y \<and> y < ret + 4 * j + 4)" for y
    using that by (auto simp: m1_def wr32_outside)
  have "cstr m1 (str + (i + 1)) xs = cstr m (str + (i + 1)) xs"
    using Cons.prems bound by (intro cstr_cong m1) (auto simp: j1_def)
  then have c: "cstr m1 (str + (i + 1)) xs" using Cons.prems by simp
  obtain m' where m': "split_fill m1 str ch ret (i + 1) j1 (start + 1) = Some (m', j1 + length ?as, start + 1 + length xs)"
      "\<forall>k < length xs. m' (start + 1 + k) = (if xs ! k = ch then 0 else xs ! k)"
      "\<forall>k < length ?as. rd32 m' (ret + 4 * (j1 + k)) = ?as ! k"
      "same_but m1 m' (ret + 4 * j1) (4 * length ?as) (start + 1) (length xs)"
    using Cons.IH [OF c, where j = j1 and start = "start + 1"] bound Cons.prems by auto
  have as: "part_addrs ch start (x # xs) = (if sep then (start + 1) # ?as else ?as)" unfolding sep_def by simp
  have len: "j + length (part_addrs ch start (x # xs)) = j1 + length ?as" unfolding as j1_def by simp
  have run: "split_fill m str ch ret i j start = split_fill m1 str ch ret (i + 1) j1 (start + 1)"
    using Cons.prems(1) by (auto simp: split_fill.simps [of m str ch ret i] m1_def j1_def sep_def)
  have frame: "m' y = m1 y" if "y \<le> start" "\<not> (ret + 4 * j1 \<le> y \<and> y < ret + 4 * j1 + 4 * length ?as)" for y
    using m'(4) that by (auto simp: same_but_def)
  have first: "m' start = (if sep then 0 else x)"
    using frame [of start] bound by (auto simp: m1_def j1_def wr32_outside)
  have "m' (start + k) = (if (x # xs) ! k = ch then 0 else (x # xs) ! k)" if "k < length (x # xs)" for k
    using that first m'(2) by (cases k) (auto simp: sep_def)
  moreover have "rd32 m' (ret + 4 * (j + k)) = part_addrs ch start (x # xs) ! k"
    if "k < length (part_addrs ch start (x # xs))" for k
  proof (cases "sep \<and> k = 0")
    case True
    have "rd32 m' (ret + 4 * j) = rd32 m1 (ret + 4 * j)"
      using bound True by (intro rd32_cong frame) (auto simp: j1_def)
    then show ?thesis using True Cons.prems(4) as by (simp add: m1_def)
  next
    case False
    then have "k = (if sep then Suc (k - 1) else k)" "(if sep then k - 1 else k) < length ?as"
      using that as by auto
    then have "rd32 m' (ret + 4 * (j1 + (if sep then k - 1 else k))) = ?as ! (if sep then k - 1 else k)"
      using m'(3) by blast
    moreover have "j1 + (if sep then k - 1 else k) = j + k" using False by (auto simp: j1_def)
    ultimately show ?thesis using False as by (auto simp: nth_Cons')
  qed
  moreover have "same_but m m' (ret + 4 * j) (4 * length (part_addrs ch start (x # xs))) start (length (x # xs))"
    unfolding same_but_def
  proof (intro allI impI)
    fix y assume y: "\<not> (ret + 4 * j \<le> y \<and> y < ret + 4 * j + 4 * length (part_addrs ch start (x # xs))) \<and>
      \<not> (start \<le> y \<and> y < start + length (x # xs))"
    then have "m' y = m1 y" using m'(4) as by (auto simp: same_but_def j1_def split: if_splits)
    also have "m1 y = m y" using y as by (intro m1) (auto split: if_splits)
    finally show "m' y = m y" .
  qed
  ultimately show ?case using run m'(1) len by simp
qed

lemma split_count_spec:
  "cstr m (str + i) xs \<Longrightarrow>
   split_count m str ch i len = Some (i + length xs, len + length (part_addrs ch a xs))"
proof (induction xs arbitrary: i len a)
  case Nil
  then show ?case by (simp add: split_count.simps [of m str ch i])
next
  case (Cons x xs)
  then have "cstr m (str + (i + 1)) xs" by simp
  from Cons.IH [OF this, of "len + 1" "a + 1"] Cons.IH [OF this, of len "a + 1"] show ?case
    using Cons.prems by (auto simp: split_count.simps [of m str ch i])
qed

lemma part_addrs_length: "length (part_addrs c a xs) = length (part_addrs c b xs)"
  by (induction xs arbitrary: a b) simp_all

lemma split_on_length: "length (split_on c xs) = Suc (length (part_addrs c a xs))"
  by (induction xs arbitrary: a) (auto split: list.splits simp: part_addrs_length [of _ "Suc _"])

text \<open>The block must hold the array and the text, and not overlap the string.\<close>

lemma str_split_spec:
  assumes "cstr m str xs" "str_split_size m str ch = Some n" "ret \<noteq> 0" "ret + n \<le> two32"
    "str + length xs < ret \<or> ret + n \<le> str"
  shows "\<exists>m'. str_split m str ch ret = Some (ret, m') \<and> changed_at_most m m' ret n \<and>
    (\<forall>k < length (split_on ch xs). cstr m' (rd32 m' (ret + 4 * k)) (split_on ch xs ! k)) \<and>
    rd32 m' (ret + 4 * length (split_on ch xs)) = 0"
proof -
  define c where "c = length (part_addrs ch 0 xs)"
  define start where "start = ret + 4 * (c + 2)"
  define m0 where "m0 = wr32 m ret start"
  let ?as = "part_addrs ch start xs"
  have as: "length ?as = c" unfolding c_def by (rule part_addrs_length)
  have cnt: "split_count m str ch 0 1 = Some (length xs, 1 + c)"
    using split_count_spec [of m str 0 xs ch 1 0] assms(1) by (simp add: c_def)
  then have n: "n = 4 * (c + 2) + length xs + 1" using assms(2) by (simp add: str_split_size_def)
  have "cstr m0 (str + 0) xs"
    using assms(1,5) n by (subst cstr_cong [of xs m0 _ m]) (auto simp: m0_def wr32_outside start_def)
  from split_fill_spec [OF this, of ret 1 ch start] assms(4,5) n as obtain m1 where
    m1: "split_fill m0 str ch ret 0 1 start = Some (m1, 1 + c, start + length xs)"
      "\<forall>k < length xs. m1 (start + k) = (if xs ! k = ch then 0 else xs ! k)"
      "\<forall>k < c. rd32 m1 (ret + 4 * (1 + k)) = ?as ! k"
      "same_but m0 m1 (ret + 4) (4 * c) start (length xs)"
    by (auto simp: start_def)
  define m' where "m' = wr32 (m1(start + length xs := 0)) (ret + 4 * (1 + c)) 0"
  have run: "str_split m str ch ret = Some (ret, m')"
    using cnt m1(1) assms(3) by (simp add: str_split_def m0_def m'_def start_def Let_def ac_simps)
  have chars: "m' (start + k) = (if k = length xs then 0 else m1 (start + k))" if "k \<le> length xs" for k
    using that by (simp add: m'_def start_def wr32_outside)
  have ptr: "rd32 m' (ret + 4 * k) = rd32 m1 (ret + 4 * k)" if "k \<le> c" for k
    using that by (intro rd32_cong) (auto simp: m'_def start_def wr32_outside)
  have "rd32 m1 ret = rd32 m0 ret" using m1(4) by (intro rd32_cong) (auto simp: same_but_def start_def)
  then have "rd32 m1 ret = start" using assms(4) n by (simp add: m0_def start_def)
  then have ptrs: "rd32 m' (ret + 4 * k) = (start # ?as) ! k" if "k \<le> c" for k
    using ptr [OF that] m1(3) that by (cases k) auto
  have "list_all2 (cstr m') (start # ?as) (split_on ch xs)"
    using chars m1(2) cstr_no_zero [OF assms(1)] by (intro split_parts) auto
  then have parts: "cstr m' ((start # ?as) ! k) (split_on ch xs ! k)" if "k \<le> c" for k
    using that as by (simp add: list_all2_conv_all_nth)
  have len: "length (split_on ch xs) = Suc c" using split_on_length [of ch xs start] as by simp
  have "changed_at_most m m' ret n"
    using m1(4) n by (auto simp: changed_at_most_def m'_def m0_def same_but_def start_def wr32_outside)
  then show ?thesis using run ptrs parts len by (auto simp: m'_def less_Suc_eq_le)
qed

end
