(* ===== verification/Printf.thy ===== *)
theory Printf
  imports Kernel_Lib
begin

text \<open>
  \<open>vsnprintf\<close> of \<open>libc.c\<close> with \<open>snprintf\<close>, \<open>sprintf\<close> and \<open>Hex\<close> of \<open>lib.c\<close>. The format, the
  arguments and the output all live in the one memory. The arguments are the 32-bit words on the
  caller's stack, \<open>tmpBuf\<close> is the address of the local buffer of 34 bytes that \<open>itoa\<close> prints into.
  What the virtual memory code says about a pointer is an argument of the model. The destination
  does not reach past the end of the address space, so the address of a character is not reduced.
\<close>

unbundle bit_operations_syntax

text \<open>The answers of \<open>MM_GetPhysAddr\<close>, \<open>MM_IsUser\<close> and \<open>CheckMem\<close>, and the arguments of the call.\<close>

record printf_env =
  pe_mapped :: "addr \<Rightarrow> bool"
  pe_user :: "addr \<Rightarrow> bool"
  pe_valid :: "addr \<Rightarrow> nat \<Rightarrow> bool"
  pe_s :: addr
  pe_maxlen :: nat
  pe_tmpBuf :: addr

text \<open>The variables that live across the directives of a format.\<close>

record printf_state =
  pf_mem :: memory
  pf_pos :: nat
  pf_format :: addr
  pf_args :: addr
  pf_left :: bool

section \<open>Output\<close>

definition PUTCH :: "printf_env \<Rightarrow> 8 word \<Rightarrow> printf_state \<Rightarrow> printf_state" where
  "PUTCH e ch st =
     st\<lparr>pf_mem := (if pf_pos st < pe_maxlen e \<and> pe_s e \<noteq> 0
                   then (pf_mem st)(pe_s e + pf_pos st := ch) else pf_mem st),
        pf_pos := u32 (pf_pos st + 1)\<rparr>"

fun put_chars :: "printf_env \<Rightarrow> 8 word list \<Rightarrow> printf_state \<Rightarrow> printf_state" where
  "put_chars e [] st = st"
| "put_chars e (c # cs) st = put_chars e cs (PUTCH e c st)"

text \<open>\<open>while(*p && precision--) { PUTCH(*p); p++; }\<close>\<close>

partial_function (option) put_string ::
  "printf_env \<Rightarrow> addr \<Rightarrow> 32 word \<Rightarrow> printf_state \<Rightarrow> printf_state option" where
  "put_string e p precision st =
     (if pf_mem st p \<noteq> 0 \<and> precision \<noteq> 0
      then put_string e (p + 1) (precision - 1) (PUTCH e (pf_mem st p) st) else Some st)"

text \<open>The hexadecimal digits of a pointer without leading zeros.\<close>

definition nibble :: "32 word \<Rightarrow> nat \<Rightarrow> nat" where
  "nibble v i = unat (and (drop_bit (i * 4) v) 15)"

fun hex_count :: "32 word \<Rightarrow> nat \<Rightarrow> nat" where
  "hex_count v 0 = 0"
| "hex_count v (Suc len) = (if nibble v len = 0 then hex_count v len else Suc len)"

definition hex_chars :: "32 word \<Rightarrow> 8 word list" where
  "hex_chars v =
     (if hex_count v 8 = 0 then [48] else map (\<lambda>i. cUCDIGITS ! nibble v i) (rev [0..<hex_count v 8]))"

section \<open>Reading the format and the arguments\<close>

definition next_char :: "printf_state \<Rightarrow> 8 word \<times> printf_state" where
  "next_char st = (pf_mem st (pf_format st), st\<lparr>pf_format := pf_format st + 1\<rparr>)"

definition va_arg32 :: "printf_state \<Rightarrow> 32 word \<times> printf_state" where
  "va_arg32 st = (word_of_nat (rd32 (pf_mem st) (pf_args st)), st\<lparr>pf_args := pf_args st + 4\<rparr>)"

definition va_arg64 :: "printf_state \<Rightarrow> 64 word \<times> printf_state" where
  "va_arg64 st =
     (word_of_nat (rd32 (pf_mem st) (pf_args st) + two32 * rd32 (pf_mem st) (pf_args st + 4)),
      st\<lparr>pf_args := pf_args st + 8\<rparr>)"

definition GETVAL :: "bool \<Rightarrow> printf_state \<Rightarrow> 64 word \<times> printf_state" where
  "GETVAL isLongLong st = (if isLongLong then va_arg64 st else let (v, st) = va_arg32 st in (ucast v, st))"

partial_function (option) number_loop ::
  "8 word \<Rightarrow> 32 word \<Rightarrow> printf_state \<Rightarrow> (32 word \<times> 8 word \<times> printf_state) option" where
  "number_loop c n st =
     (if 48 \<le> sint c \<and> sint c \<le> 57
      then let (c', st') = next_char st in number_loop c' (n * 10 + word_of_int (sint c - 48)) st'
      else Some (n, c, st))"

text \<open>
  The minimum length and, with another default, the precision: a star takes the next argument,
  a number has no leading zero.
\<close>

definition read_width ::
  "32 word \<Rightarrow> 8 word \<Rightarrow> printf_state \<Rightarrow> (32 word \<times> 8 word \<times> printf_state) option" where
  "read_width dflt c st =
     (if c = 42 then let (n, st) = va_arg32 st; (c, st) = next_char st in Some (n, c, st)
      else if 49 \<le> sint c \<and> sint c \<le> 57 then number_loop c 0 st
      else Some (dflt, c, st))"

text \<open>Padding side, padding character, minimum length, precision and length of one directive.\<close>

record flags =
  fl_pad :: "8 word"
  fl_minSize :: "32 word"
  fl_precision :: "32 word"
  fl_isLong :: bool
  fl_isLongLong :: bool

definition read_padding :: "8 word \<Rightarrow> printf_state \<Rightarrow> 8 word \<times> 8 word \<times> printf_state" where
  "read_padding c st =
     (let (c, st) = (if c = 45 then next_char (st\<lparr>pf_left := True\<rparr>) else (c, st))
      in if c = 48 then (48, next_char st) else (32, c, st))"

definition read_length :: "8 word \<Rightarrow> printf_state \<Rightarrow> bool \<times> bool \<times> 8 word \<times> printf_state" where
  "read_length c st =
     (if c = 108 then
        (let (c, st) = next_char st in if c = 108 then (True, True, next_char st) else (True, False, c, st))
      else (False, False, c, st))"

definition read_flags :: "8 word \<Rightarrow> printf_state \<Rightarrow> (flags \<times> 8 word \<times> printf_state) option" where
  "read_flags c st = do {
     let (pad, c, st) = read_padding c st;
     (minSize, c, st) \<leftarrow> read_width 0 c st;
     (precision, c, st) \<leftarrow> (if c = 46 then let (c, st) = next_char st in read_width (- 1) c st else Some (- 1, c, st));
     let (isLong, isLongLong, c, st) = read_length c st;
     Some (\<lparr>fl_pad = pad, fl_minSize = minSize, fl_precision = precision,
            fl_isLong = isLong, fl_isLongLong = isLongLong\<rparr>, c, st)
   }"

section \<open>Directives\<close>

text \<open>The padding in front of or behind a string of \<open>len\<close> characters.\<close>

definition put_pad :: "printf_env \<Rightarrow> flags \<Rightarrow> nat \<Rightarrow> printf_state \<Rightarrow> printf_state" where
  "put_pad e fl len st = put_chars e (replicate (nat (sint (fl_minSize fl) - int len)) (fl_pad fl)) st"

text \<open>The label \<open>printString\<close>, for a string in memory and for a literal of the code.\<close>

definition printString :: "printf_env \<Rightarrow> flags \<Rightarrow> addr \<Rightarrow> printf_state \<Rightarrow> printf_state option" where
  "printString e fl p st = do {
     len \<leftarrow> strlen (pf_mem st) p;
     st \<leftarrow> put_string e p (fl_precision fl) (if pf_left st then st else put_pad e fl len st);
     Some (if pf_left st then put_pad e fl len st else st)
   }"

definition print_literal :: "printf_env \<Rightarrow> flags \<Rightarrow> 8 word list \<Rightarrow> printf_state \<Rightarrow> printf_state" where
  "print_literal e fl cs st =
     (let st = (if pf_left st then st else put_pad e fl (length cs) st);
          st = put_chars e (take (unat (fl_precision fl)) cs) st
      in if pf_left st then put_pad e fl (length cs) st else st)"

definition printInt :: "printf_env \<Rightarrow> flags \<Rightarrow> 64 word \<Rightarrow> int \<Rightarrow> printf_state \<Rightarrow> printf_state outcome option" where
  "printInt e fl val base st =
     obind (itoa (pf_mem st) (pe_tmpBuf e) val base (sint (fl_minSize fl)) (fl_pad fl)) (\<lambda>m.
       map_option Ret (printString e fl (pe_tmpBuf e) (st\<lparr>pf_mem := m\<rparr>)))"

text \<open>The sign is printed at once, the magnitude is what is left to print.\<close>

definition print_sign :: "printf_env \<Rightarrow> flags \<Rightarrow> 64 word \<Rightarrow> printf_state \<Rightarrow> 64 word \<times> printf_state" where
  "print_sign e fl val st =
     (if fl_isLongLong fl \<and> drop_bit 63 val \<noteq> 0 then
        (if val = 0x8000000000000000 then 0x7FFFFFFFFFFFFFFF else - val, PUTCH e 45 st)
      else if \<not> fl_isLongLong fl \<and> drop_bit 31 val \<noteq> 0 then
        (and (not val) 0xFFFFFFFF + 1, PUTCH e 45 st)
      else (val, st))"

text \<open>A string of 16-bit units, converted to UTF-8.\<close>

definition rd16 :: "memory \<Rightarrow> addr \<Rightarrow> 16 word" where
  "rd16 m a = word_of_nat (unat (m a) + 256 * unat (m (a + 1)))"

partial_function (option) put_wide ::
  "printf_env \<Rightarrow> addr \<Rightarrow> 32 word \<Rightarrow> printf_state \<Rightarrow> printf_state option" where
  "put_wide e p16 precision st =
     (if rd16 (pf_mem st) p16 \<noteq> 0 \<and> precision \<noteq> 0
      then let (n, cp) = ReadUTF16 (\<lambda>i. rd16 (pf_mem st) (p16 + 2 * i))
           in put_wide e (p16 + 2 * n) (precision - 1) (put_chars e (takeWhile (\<lambda>b. b \<noteq> 0) (utf8_bytes cp)) st)
      else Some st)"

text \<open>\<open>(inval:*0x...)\<close> is printed for a string that is not in valid memory.\<close>

definition invalString :: "printf_env \<Rightarrow> addr \<Rightarrow> printf_state \<Rightarrow> printf_state" where
  "invalString e p st =
     put_chars e ([40, 105, 110, 118, 97, 108, 58, 42, 48, 120] @ hex_chars (word_of_nat p) @ [41]) st"

definition null_text :: "8 word list" where "null_text = [40, 110, 117, 108, 108, 41]"
definition inval_text :: "8 word list" where "inval_text = [40, 105, 110, 118, 97, 108, 41]"
definition true_text :: "8 word list" where "true_text = [84, 114, 117, 101]"
definition false_text :: "8 word list" where "false_text = [70, 97, 108, 115, 101]"

fun put_array :: "printf_env \<Rightarrow> addr \<Rightarrow> nat \<Rightarrow> printf_state \<Rightarrow> printf_state" where
  "put_array e p 0 st = st"
| "put_array e p (Suc n) st =
     (let c = pf_mem st p
      in put_array e (p + 1) n
           (if c = 0 then put_chars e [92, 48] st
            else if c = 92 then put_chars e [92, 92] st
            else PUTCH e c st))"

text \<open>The \<open>switch\<close> on the format code.\<close>

definition convert :: "printf_env \<Rightarrow> flags \<Rightarrow> 8 word \<Rightarrow> printf_state \<Rightarrow> printf_state outcome option" where
  "convert e fl c st =
     (if c = 100 \<or> c = 105 then
        (let (val, st) = GETVAL (fl_isLongLong fl) st; (val, st) = print_sign e fl val st
         in printInt e fl val 10 st)
      else if c = 117 then (let (val, st) = GETVAL (fl_isLongLong fl) st in printInt e fl val 10 st)
      else if c = 80 then
        (let (val, st) = GETVAL (fl_isLongLong fl) (put_chars e [48, 120] st) in printInt e fl val 16 st)
      else if c = 88 \<or> c = 120 then
        (let (val, st) = GETVAL (fl_isLongLong fl) st in printInt e fl val 16 st)
      else if c = 111 then (let (val, st) = GETVAL (fl_isLongLong fl) st in printInt e fl val 8 st)
      else if c = 98 then (let (val, st) = GETVAL (fl_isLongLong fl) st in printInt e fl val 2 st)
      else if c = 66 then
        (let (val, st) = va_arg32 st
         in Some (Ret (print_literal e fl (if val \<noteq> 0 then true_text else false_text) st)))
      else if c = 115 then
        (let (p, st) = va_arg32 st; p = unat p in
         if fl_isLong fl then map_option Ret (put_wide e p (fl_precision fl) st)
         else if p = 0 then Some (Ret (print_literal e fl null_text st))
         else do {
           ok \<leftarrow> CheckString (pe_mapped e) (pe_user e) (pf_mem st) p;
           if ok then map_option Ret (printString e fl p st) else Some (Ret (invalString e p st))
         })
      else if c = 67 then
        (let (p, st) = va_arg32 st; p = unat p in
         if \<not> pe_valid e p (unat (fl_minSize fl)) then Some (Ret (print_literal e fl inval_text st))
         else if p = 0 then Some (Ret (print_literal e fl null_text st))
         else Some (Ret (put_array e p (unat (fl_minSize fl)) st)))
      else
        (let (val, st) = GETVAL (fl_isLongLong fl) st in Some (Ret (PUTCH e (ucast val) st))))"

text \<open>What follows a percent sign; \<open>Ret None\<close> at the end of the format.\<close>

definition directive :: "printf_env \<Rightarrow> printf_state \<Rightarrow> printf_state option outcome option" where
  "directive e st =
     (let (c, st) = next_char st in
      if c = 0 then Some (Ret None)
      else if c = 37 then Some (Ret (Some (PUTCH e 37 st)))
      else if c = 112 then
        (let (ptr, st) = va_arg32 st in Some (Ret (Some (put_chars e ([42, 48, 120] @ hex_chars ptr) st))))
      else Option.bind (read_flags c st) (\<lambda>(fl, c, st).
        obind (convert e fl c st) (\<lambda>st. Some (Ret (Some st)))))"

partial_function (option) format_loop :: "printf_env \<Rightarrow> printf_state \<Rightarrow> printf_state outcome option" where
  "format_loop e st =
     (let (c, st) = next_char st in
      if c = 0 then Some (Ret st)
      else if c \<noteq> 37 then format_loop e (PUTCH e c st)
      else case directive e st of
        None \<Rightarrow> None
      | Some Panicked \<Rightarrow> Some Panicked
      | Some (Ret None) \<Rightarrow> Some (Ret st)
      | Some (Ret (Some st)) \<Rightarrow> format_loop e st)"

text \<open>The length of the whole output, and the memory.\<close>

definition vsnprintf :: "printf_env \<Rightarrow> addr \<Rightarrow> addr \<Rightarrow> memory \<Rightarrow> (nat \<times> memory) outcome option" where
  "vsnprintf e format args m =
     obind (format_loop e \<lparr>pf_mem = m, pf_pos = 0, pf_format = format, pf_args = args, pf_left = False\<rparr>)
       (\<lambda>st. Some (Ret (pf_pos st,
          if pe_s e \<noteq> 0 \<and> pf_pos st < pe_maxlen e then (pf_mem st)(pe_s e + pf_pos st := 0) else pf_mem st)))"

definition snprintf :: "printf_env \<Rightarrow> addr \<Rightarrow> nat \<Rightarrow> addr \<Rightarrow> addr \<Rightarrow> memory \<Rightarrow> (nat \<times> memory) outcome option" where
  "snprintf e s n format args m = vsnprintf (e\<lparr>pe_s := s, pe_maxlen := n\<rparr>) format args m"

definition sprintf :: "printf_env \<Rightarrow> addr \<Rightarrow> addr \<Rightarrow> addr \<Rightarrow> memory \<Rightarrow> (nat \<times> memory) outcome option" where
  "sprintf e s format args m = vsnprintf (e\<lparr>pe_s := s, pe_maxlen := two32 - 1\<rparr>) format args m"

text \<open>
  \<open>Hex\<close> prints each byte with the format \<open>"%02x"\<close>, which is the string at \<open>lit\<close>. The byte is the
  argument, pushed as a word at \<open>stack\<close>. \<open>i\<close> counts the bytes printed.
\<close>

fun hex_loop :: "printf_env \<Rightarrow> addr \<Rightarrow> addr \<Rightarrow> addr \<Rightarrow> addr \<Rightarrow> nat \<Rightarrow> nat \<Rightarrow> memory \<Rightarrow> (nat \<times> memory) outcome option" where
  "hex_loop e lit stack Dest SourceData i 0 m = Some (Ret (i * 2, m))"
| "hex_loop e lit stack Dest SourceData i (Suc n) m =
     obind (sprintf e (Dest + i * 2) lit stack (wr32 m stack (unat (m (SourceData + i))))) (\<lambda>(r, m).
       hex_loop e lit stack Dest SourceData (i + 1) n m)"

definition Hex :: "printf_env \<Rightarrow> addr \<Rightarrow> addr \<Rightarrow> addr \<Rightarrow> nat \<Rightarrow> addr \<Rightarrow> memory \<Rightarrow> (nat \<times> memory) outcome option" where
  "Hex e lit stack Dest Size SourceData m = hex_loop e lit stack Dest SourceData 0 Size m"

section \<open>What is written\<close>

text \<open>The bytes that are neither in the output buffer nor at or above \<open>tmpBuf\<close> keep their value.\<close>

definition outside :: "printf_env \<Rightarrow> addr \<Rightarrow> bool" where
  "outside e x = (x < pe_tmpBuf e \<and> \<not> (pe_s e \<noteq> 0 \<and> pe_s e \<le> x \<and> x < pe_s e + pe_maxlen e))"

definition spares :: "printf_env \<Rightarrow> memory \<Rightarrow> memory \<Rightarrow> bool" where
  "spares e m m' = (\<forall>x. outside e x \<longrightarrow> m' x = m x)"

named_theorems spares_intros \<open>parts of printf that write only where they may\<close>

lemma spares_refl [simp, spares_intros]: "spares e m m"
  by (simp add: spares_def)

lemma spares_trans [trans]: "spares e m m' \<Longrightarrow> spares e m' m'' \<Longrightarrow> spares e m m''"
  by (simp add: spares_def)

lemma PUTCH_spares [spares_intros]: "spares e m (pf_mem st) \<Longrightarrow> spares e m (pf_mem (PUTCH e c st))"
  by (auto simp: spares_def PUTCH_def outside_def)

lemma put_chars_spares [spares_intros]: "spares e m (pf_mem st) \<Longrightarrow> spares e m (pf_mem (put_chars e cs st))"
  by (induction e cs st rule: put_chars.induct) (simp_all add: PUTCH_spares)

lemma put_array_spares [spares_intros]: "spares e m (pf_mem st) \<Longrightarrow> spares e m (pf_mem (put_array e p n st))"
proof (induction n arbitrary: p st)
  case (Suc n)
  then have "spares e m (pf_mem (if pf_mem st p = 0 then put_chars e [92, 48] st
      else if pf_mem st p = 92 then put_chars e [92, 92] st else PUTCH e (pf_mem st p) st))"
    by (auto intro: spares_intros simp del: put_chars.simps)
  from Suc.IH [OF this] show ?case by (simp only: put_array.simps Let_def)
qed simp

lemma put_pad_spares [spares_intros]: "spares e m (pf_mem st) \<Longrightarrow> spares e m (pf_mem (put_pad e fl n st))"
  by (simp add: put_pad_def put_chars_spares)

lemma print_literal_spares [spares_intros]:
  "spares e m (pf_mem st) \<Longrightarrow> spares e m (pf_mem (print_literal e fl cs st))"
  by (auto simp: print_literal_def Let_def intro!: spares_intros)

lemma invalString_spares [spares_intros]:
  "spares e m (pf_mem st) \<Longrightarrow> spares e m (pf_mem (invalString e p st))"
  unfolding invalString_def by (rule put_chars_spares)

lemma put_string_spares:
  assumes "put_string e p n st = Some st'" "spares e m (pf_mem st)"
  shows "spares e m (pf_mem st')"
  using assms
proof (induction rule: put_string.raw_induct [rotated, consumes 1, case_names step])
  case (step rec e p n st st')
  then show ?case using PUTCH_spares by (fastforce split: if_splits)
qed

lemma put_wide_spares:
  assumes "put_wide e p n st = Some st'" "spares e m (pf_mem st)"
  shows "spares e m (pf_mem st')"
  using assms
proof (induction rule: put_wide.raw_induct [rotated, consumes 1, case_names step])
  case (step rec e p n st st')
  then show ?case using put_chars_spares by (fastforce split: if_splits prod.splits)
qed

lemma printString_spares:
  "printString e fl p st = Some st' \<Longrightarrow> spares e m (pf_mem st) \<Longrightarrow> spares e m (pf_mem st')"
  unfolding printString_def
  by (auto simp: bind_eq_Some_conv intro!: put_pad_spares dest!: put_string_spares [where m = m] split: if_splits)

lemma itoa_below:
  assumes "itoa m buf num base w pad = Some (Ret m')" "x < buf"
  shows "m' x = m x"
  using assms
  by (auto simp: itoa_def obind_def put_rev_apply memset_apply Let_def split: if_splits option.splits outcome.splits)

lemma printInt_spares:
  assumes "printInt e fl val base st = Some (Ret st')" "spares e m (pf_mem st)"
  shows "spares e m (pf_mem st')"
proof -
  from assms(1) obtain m1 where m1: "itoa (pf_mem st) (pe_tmpBuf e) val base (sint (fl_minSize fl)) (fl_pad fl) = Some (Ret m1)"
      "printString e fl (pe_tmpBuf e) (st\<lparr>pf_mem := m1\<rparr>) = Some st'"
    by (auto simp: printInt_def obind_def split: option.splits outcome.splits)
  have "spares e m m1"
    using assms(2) itoa_below [OF m1(1)] by (auto simp: spares_def outside_def)
  then show ?thesis using printString_spares [OF m1(2), of m] by simp
qed

text \<open>Reading the format and the arguments writes nothing.\<close>

lemma read_mem [simp]:
  "pf_mem (snd (next_char st)) = pf_mem st" "pf_mem (snd (va_arg32 st)) = pf_mem st"
  "pf_mem (snd (GETVAL l st)) = pf_mem st"
  by (simp_all add: next_char_def va_arg32_def va_arg64_def GETVAL_def)

lemma number_loop_mem:
  assumes "number_loop c n st = Some r"
  shows "pf_mem (snd (snd r)) = pf_mem st"
  using assms
proof (induction rule: number_loop.raw_induct [rotated, consumes 1, case_names step])
  case (step rec c n st r)
  then show ?case by (fastforce simp: next_char_def Let_def split: if_splits)
qed

lemma read_width_mem: "read_width d c st = Some (n, c', st') \<Longrightarrow> pf_mem st' = pf_mem st"
  using number_loop_mem [of c 0 st "(n, c', st')"]
  by (auto simp: read_width_def next_char_def va_arg32_def split: if_splits)

lemma read_padding_mem: "read_padding c st = (pad, c', st') \<Longrightarrow> pf_mem st' = pf_mem st"
  by (auto simp: read_padding_def next_char_def split: if_splits)

lemma read_length_mem: "read_length c st = (l, ll, c', st') \<Longrightarrow> pf_mem st' = pf_mem st"
  by (auto simp: read_length_def next_char_def split: if_splits)

lemma read_flags_mem:
  assumes "read_flags c st = Some (fl, c', st')"
  shows "pf_mem st' = pf_mem st"
proof -
  obtain pad c1 st1 where 1: "read_padding c st = (pad, c1, st1)" by (cases "read_padding c st")
  with assms obtain n c2 st2 where 2: "read_width 0 c1 st1 = Some (n, c2, st2)"
    by (auto simp: read_flags_def bind_eq_Some_conv)
  have "\<exists>c3 st3. pf_mem st3 = pf_mem st2 \<and> snd (snd (read_length c3 st3)) = (c', st')"
  proof (cases "c2 = 46")
    case True
    with assms 1 2 obtain k c3 st3 where "read_width (- 1) (fst (next_char st2)) (snd (next_char st2)) = Some (k, c3, st3)"
        "snd (snd (read_length c3 st3)) = (c', st')"
      by (auto simp: read_flags_def bind_eq_Some_conv case_prod_beta)
    then show ?thesis using read_width_mem by fastforce
  next
    case False
    with assms 1 2 have "snd (snd (read_length c2 st2)) = (c', st')"
      by (auto simp: read_flags_def bind_eq_Some_conv case_prod_beta)
    then show ?thesis by blast
  qed
  then obtain c3 st3 where 3: "pf_mem st3 = pf_mem st2" "snd (snd (read_length c3 st3)) = (c', st')" by blast
  from 3(2) have "pf_mem st' = pf_mem st3" by (metis prod.collapse read_length_mem)
  then show ?thesis using read_padding_mem [OF 1] read_width_mem [OF 2] 3(1) by simp
qed

lemma print_sign_spares:
  "spares e m (pf_mem st) \<Longrightarrow> spares e m (pf_mem (snd (print_sign e fl val st)))"
  by (auto simp: print_sign_def intro: PUTCH_spares)

lemma convert_spares:
  assumes "convert e fl c st = Some (Ret st')" "spares e m (pf_mem st)"
  shows "spares e m (pf_mem st')"
  using assms unfolding convert_def
  by (auto simp: case_prod_beta Let_def bind_eq_Some_conv
    intro!: spares_intros dest!: printInt_spares [where m = m] printString_spares [where m = m] put_wide_spares [where m = m]
    intro: print_sign_spares split: if_splits)

lemma directive_spares:
  assumes "directive e st = Some (Ret (Some st'))" "spares e m (pf_mem st)"
  shows "spares e m (pf_mem st')"
  using assms unfolding directive_def
  by (auto simp: case_prod_beta Let_def bind_eq_Some_conv obind_eq_Ret
    intro!: spares_intros dest!: read_flags_mem convert_spares [where m = m] split: if_splits)

lemma format_loop_spares:
  assumes "format_loop e st = Some r" "r = Ret st'" "spares e m (pf_mem st)"
  shows "spares e m (pf_mem st')"
  using assms
proof (induction rule: format_loop.raw_induct [rotated, consumes 1, case_names step])
  case (step rec e st r)
  have a: "spares e m (pf_mem (snd (next_char st)))" using step.prems(2) by simp
  show ?case
    using step a PUTCH_spares directive_spares
    by (fastforce simp: case_prod_beta split: if_splits option.splits outcome.splits)
qed

lemma vsnprintf_spares:
  assumes "vsnprintf e format args m = Some (Ret (n, m'))"
  shows "spares e m m'"
proof -
  obtain st where st: "format_loop e \<lparr>pf_mem = m, pf_pos = 0, pf_format = format, pf_args = args, pf_left = False\<rparr> = Some (Ret st)"
      "m' = (if pe_s e \<noteq> 0 \<and> pf_pos st < pe_maxlen e then (pf_mem st)(pe_s e + pf_pos st := 0) else pf_mem st)"
    using assms by (auto simp: vsnprintf_def obind_def split: option.splits outcome.splits)
  have "spares e m (pf_mem st)" using format_loop_spares [OF st(1) refl, of m] by simp
  then show ?thesis by (auto simp: st(2) spares_def outside_def)
qed

section \<open>Hexadecimal output\<close>

lemma PUTCH_fields [simp]:
  "pf_format (PUTCH e c st) = pf_format st" "pf_args (PUTCH e c st) = pf_args st" "pf_left (PUTCH e c st) = pf_left st"
  "pf_pos (PUTCH e c st) = u32 (pf_pos st + 1)"
  by (simp_all add: PUTCH_def)

lemma put_chars_fields [simp]:
  "pf_format (put_chars e cs st) = pf_format st" "pf_args (put_chars e cs st) = pf_args st"
  "pf_left (put_chars e cs st) = pf_left st"
  by (induction e cs st rule: put_chars.induct) simp_all

text \<open>Output that fits into the buffer.\<close>

lemma put_chars_room:
  assumes "pe_s e \<noteq> 0" "pf_pos st + length cs \<le> pe_maxlen e" "pe_maxlen e < two32"
  shows "pf_pos (put_chars e cs st) = pf_pos st + length cs \<and>
    pf_mem (put_chars e cs st) = put_bytes (pf_mem st) (pe_s e + pf_pos st) cs"
  using assms(2)
proof (induction cs arbitrary: st)
  case (Cons c cs)
  have pos: "pf_pos (PUTCH e c st) = pf_pos st + 1" using Cons.prems assms(3) by (simp add: u32_id)
  have mem: "pf_mem (PUTCH e c st) = (pf_mem st)(pe_s e + pf_pos st := c)"
    using Cons.prems assms(1) by (simp add: PUTCH_def)
  have "pf_pos (PUTCH e c st) + length cs \<le> pe_maxlen e" using pos Cons.prems by simp
  from Cons.IH [OF this] show ?case unfolding pos mem by (simp del: fun_upd_apply)
qed simp

text \<open>A stored string is printed as it is when the output does not touch it.\<close>

lemma put_string_cstr:
  assumes "cstr (pf_mem st) p xs" "length xs \<le> unat n" "pf_pos st + length xs < two32"
    "p + length xs < pe_s e + pf_pos st \<or> pe_s e + pf_pos st + length xs \<le> p"
  shows "put_string e p n st = Some (put_chars e xs st)"
  using assms
proof (induction xs arbitrary: p n st)
  case Nil
  then show ?case by (simp add: put_string.simps [of e p n st])
next
  case (Cons x xs)
  have pos: "pf_pos (PUTCH e x st) = pf_pos st + 1" using Cons.prems(3) by (simp add: u32_id)
  have "cstr (pf_mem (PUTCH e x st)) (p + 1) xs = cstr (pf_mem st) (p + 1) xs"
    using Cons.prems(4) by (intro cstr_cong) (auto simp: PUTCH_def)
  moreover have n: "n \<noteq> 0" "unat (n - 1) = unat n - 1"
    using Cons.prems(2) by (auto simp: unat_eq_zero [symmetric] unat_minus_one)
  ultimately have "put_string e (p + 1) (n - 1) (PUTCH e x st) = Some (put_chars e xs (PUTCH e x st))"
    using Cons.prems pos by (intro Cons.IH) auto
  then show ?case using Cons.prems(1) n(1) by (simp add: put_string.simps [of e p n st])
qed

definition hex2 :: "8 word \<Rightarrow> 8 word list" where
  "hex2 b = [cUCDIGITS ! (unat b div 16), cUCDIGITS ! (unat b mod 16)]"

lemma itoa_text_hex2: "itoa_text 16 (unat (b :: 8 word)) 2 48 = hex2 b"
proof -
  have b: "unat b < 256" using unsigned_less [of b, where 'a = nat] by simp
  show ?thesis
  proof (cases "unat b < 16")
    case True
    then have "le_digits 16 (unat b) = [unat b]" by (simp add: le_digits.simps [of 16 "unat b"])
    then show ?thesis using True by (simp add: itoa_text_def hex2_def cUCDIGITS_def)
  next
    case False
    then have "le_digits 16 (unat b) = [unat b mod 16, unat b div 16]"
      using b less_mult_imp_div_less [of "unat b" 16 16]
      by (simp add: le_digits.simps [of 16 "unat b"] le_digits.simps [of 16 "unat b div 16"])
    then show ?thesis by (simp add: itoa_text_def hex2_def)
  qed
qed

text \<open>Where the things \<open>sprintf\<close> works with are, apart from each other.\<close>

definition hex_layout :: "printf_env \<Rightarrow> addr \<Rightarrow> addr \<Rightarrow> addr \<Rightarrow> nat \<Rightarrow> bool" where
  "hex_layout e lit stack d n \<longleftrightarrow>
     pe_tmpBuf e \<noteq> 0 \<and> d \<noteq> 0 \<and> apart lit 5 (pe_tmpBuf e) 34 \<and> apart d n (pe_tmpBuf e) 34 \<and>
     apart lit 5 stack 4 \<and> apart d n stack 4 \<and> apart lit 5 d n"

lemma widen_byte: "unat (ucast (word_of_nat (unat (b :: 8 word)) :: 32 word) :: 64 word) = unat b"
  using unsigned_less [of b, where 'a = nat]
  by (simp only: unsigned_ucast_eq unsigned_of_nat take_bit_eq_mod) simp

lemma itoa_hex2:
  assumes "t \<noteq> 0"
  shows "\<exists>m1. itoa m t (ucast (word_of_nat (unat (b :: 8 word)) :: 32 word)) 16 2 48 = Some (Ret m1) \<and>
    cstr m1 t (hex2 b) \<and> changed_at_most m m1 t 3"
proof -
  define v :: "64 word" where "v = ucast (word_of_nat (unat b) :: 32 word)"
  have "itoa_text (nat 16) (unat v) 2 48 = hex2 b"
    by (simp only: v_def widen_byte nat_numeral itoa_text_hex2)
  moreover have "length (hex2 b) + 1 = 3" by (simp add: hex2_def)
  ultimately have "\<exists>m1. itoa m t v 16 2 48 = Some (Ret m1) \<and> cstr m1 t (hex2 b) \<and> changed_at_most m m1 t 3"
    using itoa_cstr [of t 16 48 m v 2] assms by simp
  then show ?thesis unfolding v_def .
qed

text \<open>The flags and the conversion of the format \<open>"%02x"\<close>, whose characters are at \<open>l0\<close> to \<open>l3\<close>.\<close>

definition flags_02x :: flags where
  "flags_02x = \<lparr>fl_pad = 48, fl_minSize = 2, fl_precision = - 1, fl_isLong = False, fl_isLongLong = False\<rparr>"

lemma read_flags_02x:
  assumes "next_char s1 = (50, s2)" "next_char s2 = (120, s3)"
  shows "read_flags 48 s1 = Some (flags_02x, 120, s3)"
proof -
  have "number_loop 50 0 s2 = Some (2, 120, s3)"
    by (simp add: number_loop.simps [of 50] number_loop.simps [of 120] assms)
  then show ?thesis
    by (simp add: read_flags_def read_padding_def read_width_def read_length_def flags_02x_def assms)
qed

lemma convert_02x:
  assumes "va_arg32 st = (word_of_nat (unat (b :: 8 word)), st')" "pf_pos st' = 0" "\<not> pf_left st'"
    "pe_tmpBuf e \<noteq> 0" "apart (pe_s e) 3 (pe_tmpBuf e) 34"
  shows "\<exists>m1. convert e flags_02x 120 st = Some (Ret (put_chars e (hex2 b) (st'\<lparr>pf_mem := m1\<rparr>))) \<and>
    changed_at_most (pf_mem st') m1 (pe_tmpBuf e) 3"
proof -
  obtain m1 where m1: "itoa (pf_mem st') (pe_tmpBuf e) (ucast (word_of_nat (unat b) :: 32 word)) 16 2 48 = Some (Ret m1)"
      "cstr m1 (pe_tmpBuf e) (hex2 b)" "changed_at_most (pf_mem st') m1 (pe_tmpBuf e) 3"
    using itoa_hex2 [OF assms(4)] by blast
  define st1 where "st1 = st'\<lparr>pf_mem := m1\<rparr>"
  have l2: "length (hex2 b) = 2" by (simp add: hex2_def)
  have "put_string e (pe_tmpBuf e) (- 1) st1 = Some (put_chars e (hex2 b) st1)"
    using assms m1(2) l2
    by (intro put_string_cstr) (auto simp: st1_def unsigned_minus_1_eq_mask mask_eq_exp_minus_1 apart_def)
  then have "printInt e flags_02x (ucast (word_of_nat (unat b) :: 32 word)) 16 st' =
      Some (Ret (put_chars e (hex2 b) st1))"
    using m1 l2 strlen_cstr [OF m1(2)] assms(3)
    by (simp add: printInt_def printString_def put_pad_def flags_02x_def st1_def del: of_nat_unat)
  then show ?thesis
    using m1(3) assms(1) by (auto simp: convert_def GETVAL_def flags_02x_def st1_def)
qed

lemma sprintf_02x:
  assumes "hex_layout e lit stack d 3" "cstr m lit [37, 48, 50, 120]" "rd32 m stack = unat (b :: 8 word)"
  shows "\<exists>m1. sprintf e d lit stack m = Some (Ret (2, put_bytes m1 d (hex2 b @ [0]))) \<and>
    changed_at_most m m1 (pe_tmpBuf e) 3"
proof -
  define e' where "e' = e\<lparr>pe_s := d, pe_maxlen := two32 - 1\<rparr>"
  define l1 l2 l3 l4 where "l1 = lit + 1" and "l2 = l1 + 1" and "l3 = l2 + 1" and "l4 = l3 + 1"
  note l = l1_def l2_def l3_def l4_def
  define st where "st = (\<lambda>f a. \<lparr>pf_mem = m, pf_pos = 0, pf_format = f, pf_args = a, pf_left = False\<rparr>)"
  have nc: "next_char (st lit a) = (37, st l1 a)" "next_char (st l1 a) = (48, st l2 a)"
    "next_char (st l2 a) = (50, st l3 a)" "next_char (st l3 a) = (120, st l4 a)" for a
    using assms(2) by (simp_all add: next_char_def st_def l)
  have v: "va_arg32 (st l4 stack) = (word_of_nat (unat b), st l4 (stack + 4))"
    using assms(3) by (simp add: va_arg32_def st_def)
  obtain m1 where m1: "convert e' flags_02x 120 (st l4 stack) =
        Some (Ret (put_chars e' (hex2 b) ((st l4 (stack + 4))\<lparr>pf_mem := m1\<rparr>)))"
      "changed_at_most m m1 (pe_tmpBuf e) 3"
    using convert_02x [OF v, of e'] assms(1) by (auto simp: st_def e'_def hex_layout_def)
  define st1 where "st1 = put_chars e' (hex2 b) ((st l4 (stack + 4))\<lparr>pf_mem := m1\<rparr>)"
  have dir: "directive e' (st l1 stack) = Some (Ret (Some st1))"
    using m1(1) read_flags_02x [OF nc(3,4)] by (simp add: directive_def nc st1_def)
  have room: "pf_pos st1 = 2" "pf_mem st1 = put_bytes m1 d (hex2 b)"
    using put_chars_room [of e' "(st l4 (stack + 4))\<lparr>pf_mem := m1\<rparr>" "hex2 b"] assms(1)
    by (simp_all add: e'_def st1_def st_def hex_layout_def hex2_def)
  have "apart lit 5 d 3" "apart lit 5 (pe_tmpBuf e) 34" using assms(1) by (simp_all add: hex_layout_def)
  then have "l4 < d \<or> d + 3 \<le> l4" "l4 < pe_tmpBuf e \<or> pe_tmpBuf e + 34 \<le> l4"
    by (auto simp: apart_def l)
  then have "pf_mem st1 l4 = m l4"
    using m1(2) by (auto simp: room put_bytes_apply hex2_def changed_at_most_def)
  also have "m l4 = 0" using assms(2) by (simp add: l)
  finally have "next_char st1 = (0, st1\<lparr>pf_format := l4 + 1\<rparr>)"
    by (simp add: next_char_def st1_def st_def)
  then have "format_loop e' st1 = Some (Ret (st1\<lparr>pf_format := l4 + 1\<rparr>))"
    by (simp add: format_loop.simps [of e' st1])
  then have "format_loop e' (st lit stack) = Some (Ret (st1\<lparr>pf_format := l4 + 1\<rparr>))"
    using dir by (simp add: format_loop.simps [of e' "st lit stack"] nc)
  then have "sprintf e d lit stack m = Some (Ret (2, (pf_mem st1)(d + 2 := 0)))"
    using assms(1) room(1) by (simp add: sprintf_def vsnprintf_def st_def e'_def hex_layout_def)
  moreover have "(pf_mem st1)(d + 2 := 0) = put_bytes m1 d (hex2 b @ [0])"
    by (auto simp: room fun_eq_iff put_bytes_apply hex2_def nth_append)
  ultimately show ?thesis using m1(2) by auto
qed

text \<open>The whole of \<open>Hex\<close>: two characters for every byte and a terminator.\<close>

definition hex_source :: "printf_env \<Rightarrow> addr \<Rightarrow> addr \<Rightarrow> nat \<Rightarrow> addr \<Rightarrow> nat \<Rightarrow> bool" where
  "hex_source e stack d n s k \<longleftrightarrow> apart s k (pe_tmpBuf e) 34 \<and> apart s k d n \<and> apart s k stack 4"

definition scratch :: "printf_env \<Rightarrow> addr \<Rightarrow> addr \<Rightarrow> bool" where
  "scratch e stack x \<longleftrightarrow> (pe_tmpBuf e \<le> x \<and> x < pe_tmpBuf e + 3) \<or> (stack \<le> x \<and> x < stack + 4)"

fun hex_text :: "memory \<Rightarrow> addr \<Rightarrow> nat \<Rightarrow> 8 word list" where
  "hex_text m s 0 = [0]"
| "hex_text m s (Suc n) = hex2 (m s) @ hex_text m (s + 1) n"

lemma hex2_length [simp]: "length (hex2 b) = 2"
  by (simp add: hex2_def)

lemma hex_text_length [simp]: "length (hex_text m s n) = 2 * n + 1"
  by (induction n arbitrary: s) simp_all

lemma hex_text_cong: "(\<And>j. j < n \<Longrightarrow> m (s + j) = m' (s + j)) \<Longrightarrow> hex_text m s n = hex_text m' s n"
proof (induction n arbitrary: s)
  case (Suc n)
  have "hex_text m (s + 1) n = hex_text m' (s + 1) n"
    using Suc.prems [of "Suc _"] by (intro Suc.IH) simp
  then show ?case using Suc.prems [of 0] by simp
qed simp

text \<open>A byte of a region that is kept apart is not in the scratch space.\<close>

lemma not_scratch:
  "apart a n (pe_tmpBuf e) 34 \<Longrightarrow> apart a n stack 4 \<Longrightarrow> a \<le> x \<Longrightarrow> x < a + n \<Longrightarrow> \<not> scratch e stack x"
  using apart_left [of a n "pe_tmpBuf e" 34 x] apart_left [of a n stack 4 x] by (auto simp: scratch_def)

text \<open>One round: the byte is pushed and printed.\<close>

lemma hex_round:
  assumes "hex_layout e lit stack d 3" "cstr m lit [37, 48, 50, 120]"
  shows "\<exists>m1. sprintf e d lit stack (wr32 m stack (unat (b :: 8 word))) = Some (Ret (2, put_bytes m1 d (hex2 b @ [0]))) \<and>
    (\<forall>x. \<not> scratch e stack x \<longrightarrow> m1 x = m x)"
proof -
  let ?m = "wr32 m stack (unat b)"
  have "apart lit 5 stack 4" using assms(1) by (simp add: hex_layout_def)
  then have "cstr ?m lit [37, 48, 50, 120] = cstr m lit [37, 48, 50, 120]"
    by (intro cstr_cong wr32_outside) (auto simp: apart_def)
  moreover have "rd32 ?m stack = unat b"
    using unsigned_less [of b, where 'a = nat] by (intro rd32_wr32_same) simp
  ultimately obtain m1 where m1: "sprintf e d lit stack ?m = Some (Ret (2, put_bytes m1 d (hex2 b @ [0])))"
      "changed_at_most ?m m1 (pe_tmpBuf e) 3"
    using sprintf_02x [OF assms(1)] assms(2) by blast
  have "m1 x = m x" if "\<not> scratch e stack x" for x
    using that m1(2) wr32_outside [of x stack m] by (auto simp: scratch_def changed_at_most_def)
  then show ?thesis using m1(1) by blast
qed

lemma hex_loop_spec:
  assumes "hex_layout e lit stack d (2 * k + 1)" "hex_source e stack d (2 * k + 1) s k"
    "cstr m lit [37, 48, 50, 120]" "i + n = k" "0 < n"
  shows "\<exists>m'. hex_loop e lit stack d s i n m = Some (Ret (k * 2, put_bytes m' (d + 2 * i) (hex_text m (s + i) n))) \<and>
    (\<forall>x. \<not> scratch e stack x \<longrightarrow> m' x = m x)"
  using assms(3-5)
proof (induction n arbitrary: i m)
  case (Suc n)
  define b d1 where "b = m (s + i)" and "d1 = d + 2 * i"
  have d: "d \<le> d1" "d1 + 3 \<le> d + (2 * k + 1)" using Suc.prems by (simp_all add: d1_def)
  have ap: "apart lit 5 (pe_tmpBuf e) 34" "apart lit 5 stack 4" "apart lit 5 d1 3"
    "apart d1 3 (pe_tmpBuf e) 34" "apart d1 3 stack 4"
    using assms(1) d by (auto simp: hex_layout_def intro: apart_sub_left apart_sub_right)
  then have "hex_layout e lit stack d1 3" using assms(1) d by (auto simp: hex_layout_def)
  from hex_round [OF this Suc.prems(1)] obtain m1 where
    m1: "sprintf e d1 lit stack (wr32 m stack (unat b)) = Some (Ret (2, put_bytes m1 d1 (hex2 b @ [0])))"
      "\<forall>x. \<not> scratch e stack x \<longrightarrow> m1 x = m x" by blast
  define mm where "mm = put_bytes m1 d1 (hex2 b @ [0])"
  have mm: "mm x = m x" if "\<not> scratch e stack x" "x < d1 \<or> d1 + 3 \<le> x" for x
    using that m1(2) by (auto simp: mm_def put_bytes_apply)
  have run: "hex_loop e lit stack d s i (Suc n) m = hex_loop e lit stack d s (i + 1) n mm"
    using m1(1) by (simp add: mult.commute b_def d1_def mm_def)
  show ?case
  proof (cases "n = 0")
    case True
    then show ?thesis using run m1(2) Suc.prems by (auto simp: b_def d1_def mm_def)
  next
    case False
    have "cstr mm lit [37, 48, 50, 120] = cstr m lit [37, 48, 50, 120]"
      using not_scratch [OF ap(1,2)] apart_left [OF ap(3)] by (intro cstr_cong mm) auto
    then obtain m2 where m2: "hex_loop e lit stack d s (i + 1) n mm =
          Some (Ret (k * 2, put_bytes m2 (d + 2 * (i + 1)) (hex_text mm (s + (i + 1)) n)))"
        "\<forall>x. \<not> scratch e stack x \<longrightarrow> m2 x = mm x"
      using Suc.IH [of mm "i + 1"] Suc.prems False by auto
    have src: "hex_text mm (s + (i + 1)) n = hex_text m (s + (i + 1)) n"
    proof (intro hex_text_cong mm)
      fix j assume "j < n"
      then have "s \<le> s + (i + 1) + j" "s + (i + 1) + j < s + k" using Suc.prems by simp_all
      moreover have "apart s k (pe_tmpBuf e) 34" "apart s k stack 4" "apart s k d1 3"
        using assms(2) d by (auto simp: hex_source_def intro: apart_sub_right)
      ultimately show "\<not> scratch e stack (s + (i + 1) + j)"
        "s + (i + 1) + j < d1 \<or> d1 + 3 \<le> s + (i + 1) + j"
        using not_scratch apart_left by blast+
    qed
    define m' where "m' = (\<lambda>x. if scratch e stack x then m2 x else m x)"
    have "put_bytes m2 (d1 + 2) t = put_bytes m' d1 (hex2 b @ t)" if t: "t = hex_text m (s + (i + 1)) n" for t
    proof
      fix x
      have free: "\<not> scratch e stack x" if "d1 \<le> x" "x < d1 + 3"
        using that not_scratch [OF ap(4,5)] by blast
      show "put_bytes m2 (d1 + 2) t x = put_bytes m' d1 (hex2 b @ t) x"
      proof (cases "d1 \<le> x \<and> x < d1 + 2")
        case True
        then have "m2 x = (hex2 b @ [0]) ! (x - d1)" using free m2(2) by (auto simp: mm_def put_bytes_apply)
        then show ?thesis using True by (auto simp: put_bytes_apply nth_append)
      next
        case False
        then show ?thesis using mm m2(2) t by (auto simp: put_bytes_apply nth_append m'_def)
      qed
    qed
    then have "hex_loop e lit stack d s i (Suc n) m = Some (Ret (k * 2, put_bytes m' (d + 2 * i) (hex_text m (s + i) (Suc n))))"
      using run m2(1) src by (simp add: d1_def b_def)
    then show ?thesis by (intro exI [of _ m']) (simp add: m'_def)
  qed
qed simp

lemma Hex_spec:
  assumes "hex_layout e lit stack d (2 * n + 1)" "hex_source e stack d (2 * n + 1) s n"
    "cstr m lit [37, 48, 50, 120]" "0 < n"
  shows "\<exists>m'. Hex e lit stack d n s m = Some (Ret (n * 2, put_bytes m' d (hex_text m s n))) \<and>
    (\<forall>x. \<not> scratch e stack x \<longrightarrow> m' x = m x)"
  using hex_loop_spec [OF assms(1,2,3), of 0 n] assms(4) by (simp add: Hex_def)

section \<open>Reading it back\<close>

lemma hex_digit_char:
  assumes "d < 16"
  shows "hex_digit (cUCDIGITS ! d) = int d"
proof -
  have "\<forall>d \<in> set [0..<16]. hex_digit (cUCDIGITS ! d) = int d" by code_simp
  then show ?thesis using assms by simp
qed

lemma hex2_value:
  fixes b :: "8 word"
  shows "or (push_bit 4 (word_of_int (hex_digit (hex2 b ! 0)))) (word_of_int (hex_digit (hex2 b ! 1))) = b"
    "hex2 b ! 0 \<noteq> 0" "hex2 b ! 1 \<noteq> 0"
proof -
  have b: "unat b div 16 < 16"
    using unsigned_less [of b, where 'a = nat] by (intro less_mult_imp_div_less) simp
  then show "hex2 b ! 0 \<noteq> 0" "hex2 b ! 1 \<noteq> 0" by (simp_all add: hex2_def digit_not_zero)
  have "word_of_int (hex_digit (hex2 b ! 0)) = drop_bit 4 b" "word_of_int (hex_digit (hex2 b ! 1)) = take_bit 4 b"
    using b by (simp_all add: hex2_def hex_digit_char word_unat_eq_iff unsigned_of_nat unsigned_take_bit_eq
      unat_drop_bit_eq drop_bit_eq_div take_bit_eq_mod unat_div unat_mod)
  moreover have "or (push_bit 4 (drop_bit 4 b)) (take_bit 4 b) = b"
    by (rule bit_eqI) (auto simp: bit_simps)
  ultimately show "or (push_bit 4 (word_of_int (hex_digit (hex2 b ! 0)))) (word_of_int (hex_digit (hex2 b ! 1))) = b" by simp
qed

lemma UnHex_hex_text:
  assumes "\<forall>i < 2 * n + 1. m (p + i) = hex_text src s n ! i" "apart p (2 * n + 1) d n"
  shows "UnHex m d n p = (n, put_bytes m d (map (\<lambda>j. src (s + j)) [0..<n]))"
  using assms
proof (induction n arbitrary: m d p s)
  case (Suc n)
  define b where "b = src s"
  have two: "m p = hex2 b ! 0" "m (p + 1) = hex2 b ! 1"
    using Suc.prems(1) [rule_format, of 0] Suc.prems(1) [rule_format, of 1]
    by (simp_all add: b_def nth_append)
  define m1 where "m1 = m(d := b)"
  have "m1 (p + 2 + i) = hex_text src (s + 1) n ! i" if "i < 2 * n + 1" for i
    using that Suc.prems(1) [rule_format, of "i + 2"] Suc.prems(2)
    by (auto simp: m1_def nth_append apart_def)
  moreover have "apart (p + 2) (2 * n + 1) (d + 1) n" using Suc.prems(2) by (auto simp: apart_def)
  ultimately have "UnHex m1 (d + 1) n (p + 2) = (n, put_bytes m1 (d + 1) (map (\<lambda>j. src (s + 1 + j)) [0..<n]))"
    by (intro Suc.IH) simp_all
  moreover have "UnHex m d (Suc n) p = (let (k, m) = UnHex m1 (d + 1) n (p + 2) in (k + 1, m))"
    using two hex2_value [of b] by (simp add: m1_def)
  moreover have "map (\<lambda>j. src (s + j)) [0..<Suc n] = b # map (\<lambda>j. src (s + 1 + j)) [0..<n]"
    by (simp add: b_def map_upt_Suc del: upt_Suc)
  ultimately show ?case by (simp add: m1_def)
qed simp

lemma Hex_UnHex:
  assumes "hex_layout e lit stack d (2 * n + 1)" "hex_source e stack d (2 * n + 1) s n"
    "cstr m lit [37, 48, 50, 120]" "0 < n" "apart d (2 * n + 1) d' n"
  shows "\<exists>m1 m2. Hex e lit stack d n s m = Some (Ret (n * 2, m1)) \<and> UnHex m1 d' n d = (n, m2) \<and>
    (\<forall>j < n. m2 (d' + j) = m (s + j))"
proof -
  obtain m' where m': "Hex e lit stack d n s m = Some (Ret (n * 2, put_bytes m' d (hex_text m s n)))"
    using Hex_spec [OF assms(1-4)] by blast
  have "UnHex (put_bytes m' d (hex_text m s n)) d' n d =
      (n, put_bytes (put_bytes m' d (hex_text m s n)) d' (map (\<lambda>j. m (s + j)) [0..<n]))"
    using assms(5) by (intro UnHex_hex_text) (simp_all add: put_bytes_apply)
  then show ?thesis using m' by (auto simp: put_bytes_apply)
qed

end
