(* ===== verification/Byte_Lists.thy ===== *)
theory Byte_Lists
  imports Prelude
begin

text \<open>
  Buffers as lists of bytes: a part of a buffer (\<open>slice\<close>), storing into one (\<open>blit\<close>, the effect of
  \<open>memcpy\<close> on the destination), and a disk as a function from addresses to bytes with its parts
  (\<open>span\<close>) and stores (\<open>overwrite\<close>).
\<close>

type_synonym bytes = "8 word list"

definition slice :: "'a list \<Rightarrow> nat \<Rightarrow> nat \<Rightarrow> 'a list" where
  "slice xs i n = take n (drop i xs)"

definition blit :: "'a list \<Rightarrow> nat \<Rightarrow> 'a list \<Rightarrow> 'a list" where
  "blit xs i ys = take i xs @ ys @ drop (i + length ys) xs"

definition span :: "(nat \<Rightarrow> 'a) \<Rightarrow> nat \<Rightarrow> nat \<Rightarrow> 'a list" where
  "span d a n = map d [a..<a + n]"

definition overwrite :: "(nat \<Rightarrow> 'a) \<Rightarrow> nat \<Rightarrow> 'a list \<Rightarrow> nat \<Rightarrow> 'a" where
  "overwrite d a xs = (\<lambda>i. if a \<le> i \<and> i < a + length xs then xs ! (i - a) else d i)"

lemma slice_nth: "i + n \<le> length xs \<Longrightarrow> slice xs i n = map (\<lambda>k. xs ! (i + k)) [0..<n]"
  by (rule nth_equalityI) (simp_all add: slice_def)

lemma slice_length [simp]: "i + n \<le> length xs \<Longrightarrow> length (slice xs i n) = n"
  by (simp add: slice_def)

lemma slice_0 [simp]: "slice xs 0 n = take n xs"
  by (simp add: slice_def)

lemma blit_length: "i + length ys \<le> length xs \<Longrightarrow> length (blit xs i ys) = length xs"
  by (simp add: blit_def)

lemma blit_nth:
  "i + length ys \<le> length xs \<Longrightarrow> k < length xs \<Longrightarrow>
   blit xs i ys ! k = (if i \<le> k \<and> k < i + length ys then ys ! (k - i) else xs ! k)"
  by (auto simp: blit_def nth_append)

lemma blit_all [simp]: "length ys = length xs \<Longrightarrow> blit xs 0 ys = ys"
  by (simp add: blit_def)

lemma blit_prefix: "blit (xs @ zs) (length xs) ys = xs @ ys @ drop (length ys) zs"
  by (simp add: blit_def)

lemma slice_blit_other:
  assumes "i + length ys \<le> length xs" "k + n \<le> length xs" "k + n \<le> i \<or> i + length ys \<le> k"
  shows "slice (blit xs i ys) k n = slice xs k n"
  using assms by (auto simp: slice_nth blit_length blit_nth)

lemma slice_blit_same: "i \<le> length xs \<Longrightarrow> slice (blit xs i ys) i (length ys) = ys"
  by (simp add: slice_def blit_def)

lemma span_length [simp]: "length (span d a n) = n"
  by (simp add: span_def)

lemma span_nth [simp]: "i < n \<Longrightarrow> span d a n ! i = d (a + i)"
  by (simp add: span_def)

lemma span_append: "span d a m @ span d (a + m) n = span d a (m + n)"
  by (rule nth_equalityI) (simp_all add: nth_append)

lemma slice_span: "i + k \<le> n \<Longrightarrow> slice (span d a n) i k = span d (a + i) k"
  by (rule nth_equalityI) (simp_all add: slice_nth add.assoc)

lemma span_0 [simp]: "span d a 0 = []"
  by (simp add: span_def)

lemma overwrite_Nil [simp]: "overwrite d a [] = d"
  by (auto simp: overwrite_def fun_eq_iff)

lemma overwrite_append: "overwrite (overwrite d a xs) (a + length xs) ys = overwrite d a (xs @ ys)"
  by (auto simp: overwrite_def fun_eq_iff nth_append)

lemma overwrite_blit:
  assumes "off + length xs \<le> n"
  shows "overwrite d a (blit (span d a n) off xs) = overwrite d (a + off) xs"
  using assms by (auto simp: overwrite_def fun_eq_iff blit_nth blit_length)

lemma span_overwrite_same: "length xs = n \<Longrightarrow> span (overwrite d a xs) a n = xs"
  by (rule nth_equalityI) (simp_all add: overwrite_def)

lemma span_overwrite_other: "a + n \<le> b \<or> b + length xs \<le> a \<Longrightarrow> span (overwrite d b xs) a n = span d a n"
  by (rule nth_equalityI) (auto simp: overwrite_def)

text \<open>An index beyond the end of a ring continues at the beginning.\<close>

lemma wrap_index: "(i::nat) < 2 * n \<Longrightarrow> i mod n = (if i < n then i else i - n)"
  by (simp add: le_mod_geq)

end
