(* ===== verification/Ring_Buffer.thy ===== *)
theory Ring_Buffer
  imports Byte_Lists
begin

text \<open>
  The ring buffers of \<open>adt.c\<close>. The interface they offer is the locale \<open>byte_fifo\<close>: a bounded queue of
  bytes, written and read in blocks; its client lemma says that what has been read, followed by what
  is still stored, is what has been accepted. The buffer is interpreted as such a queue, so that the
  receive path of the network stack rests on the interface only. Sizes are natural numbers: the sums
  of the code are exact for buffers of less than 2 GiB, which the kernel heap cannot exceed.
\<close>

section \<open>A bounded queue of bytes\<close>

text \<open>Requests of a client: the bytes accepted and the bytes returned so far are recorded.\<close>

fun serve :: "('b list \<Rightarrow> 's \<Rightarrow> nat \<times> 's) \<Rightarrow> (nat \<Rightarrow> 's \<Rightarrow> 'b list \<times> 's) \<Rightarrow> ('b list + nat) list \<Rightarrow> 's \<Rightarrow>
    'b list \<times> 'b list \<times> 's" where
  "serve put get [] s = ([], [], s)"
| "serve put get (Inl xs # rs) s =
     (let (n, s) = put xs s; (ins, outs, s) = serve put get rs s in (take n xs @ ins, outs, s))"
| "serve put get (Inr k # rs) s =
     (let (ys, s) = get k s; (ins, outs, s) = serve put get rs s in (ins, ys @ outs, s))"

text \<open>A write accepts as many bytes as there is room for, a read returns as many as there are.\<close>

locale byte_fifo =
  fixes inv :: "'s \<Rightarrow> bool"
    and contents :: "'s \<Rightarrow> 'b list"
    and capacity :: "'s \<Rightarrow> nat"
    and put :: "'b list \<Rightarrow> 's \<Rightarrow> nat \<times> 's"
    and get :: "nat \<Rightarrow> 's \<Rightarrow> 'b list \<times> 's"
  assumes bounded: "inv s \<Longrightarrow> length (contents s) \<le> capacity s"
    and put_law: "inv s \<Longrightarrow> put xs s = (n, s') \<Longrightarrow>
      inv s' \<and> capacity s' = capacity s \<and> n = min (length xs) (capacity s - length (contents s)) \<and>
      contents s' = contents s @ take n xs"
    and get_law: "inv s \<Longrightarrow> get k s = (ys, s') \<Longrightarrow>
      inv s' \<and> capacity s' = capacity s \<and> ys = take k (contents s) \<and> contents s' = drop k (contents s)"
begin

lemma serve_fifo:
  assumes "inv s" "serve put get rs s = (ins, outs, s')"
  shows "inv s' \<and> capacity s' = capacity s \<and> contents s @ ins = outs @ contents s'"
  using assms
proof (induction rs arbitrary: s ins outs)
  case (Cons r rs)
  show ?case
  proof (cases r)
    case (Inl xs)
    obtain n t where p: "put xs s = (n, t)" by fastforce
    obtain ins' outs' s'' where r: "serve put get rs t = (ins', outs', s'')" by (cases "serve put get rs t") auto
    show ?thesis using Cons.IH [of t] put_law [OF Cons.prems(1) p] Cons.prems(2) p r Inl by auto
  next
    case (Inr k)
    obtain ys t where g: "get k s = (ys, t)" by fastforce
    obtain ins' outs' s'' where r: "serve put get rs t = (ins', outs', s'')" by (cases "serve put get rs t") auto
    have "s'' = s'" "ins' = ins" "outs = ys @ outs'" using Cons.prems(2) g r Inr by auto
    moreover have "inv s''" "capacity s'' = capacity s" "drop k (contents s) @ ins' = outs' @ contents s''"
      using Cons.IH [of t ins' outs'] get_law [OF Cons.prems(1) g] r \<open>s'' = s'\<close> by auto
    moreover have "ys = take k (contents s)" using get_law [OF Cons.prems(1) g] by blast
    ultimately show ?thesis by (metis append_assoc append_take_drop_id)
  qed
qed auto

end

section \<open>The ring buffer\<close>

text \<open>\<open>Data\<close> has \<open>Space\<close> bytes. A buffer of no bytes makes the modulus of \<open>RingBuffer_Write\<close> trap.\<close>

record tRingBuffer =
  Start :: nat
  Length :: nat
  Space :: nat
  Data :: "8 word list"

definition RingBuffer_Create :: "nat \<Rightarrow> tRingBuffer" where
  "RingBuffer_Create space = \<lparr>Start = 0, Length = 0, Space = space, Data = replicate space 0\<rparr>"

text \<open>The bytes copied to \<open>Dest\<close>, whose number is the result.\<close>

definition RingBuffer_Read :: "nat \<Rightarrow> tRingBuffer \<Rightarrow> 8 word list \<times> tRingBuffer" where
  "RingBuffer_Read len b =
     (let tmpLen = Length b;
          len = (if len > tmpLen then tmpLen else len);
          out = (if Start b + len > Space b then
                   (let endData = Space b - Start b
                    in slice (Data b) (Start b) endData @ slice (Data b) 0 (len - endData))
                 else slice (Data b) (Start b) len);
          start = Start b + len;
          start = (if start > Space b then start - Space b else start)
      in (out, b\<lparr>Start := start, Length := Length b - len\<rparr>))"

definition RingBuffer_Write :: "8 word list \<Rightarrow> tRingBuffer \<Rightarrow> nat \<times> tRingBuffer" where
  "RingBuffer_Write src b =
     (let tmpStart = Start b;
          tmpLen = Length b;
          bufEnd = (tmpStart + Length b) mod Space b;
          endSpace = Space b - bufEnd;
          len = (if length src > Space b - tmpLen then Space b - tmpLen else length src);
          data = (if endSpace < len then
                    blit (blit (Data b) bufEnd (take endSpace src)) 0 (slice src endSpace (len - endSpace))
                  else blit (Data b) bufEnd (take len src))
      in (len, b\<lparr>Length := Length b + len, Data := data\<rparr>))"

section \<open>It is a queue\<close>

definition rb_inv :: "tRingBuffer \<Rightarrow> bool" where
  "rb_inv b \<longleftrightarrow> 0 < Space b \<and> length (Data b) = Space b \<and> Start b \<le> Space b \<and> Length b \<le> Space b"

definition rb_contents :: "tRingBuffer \<Rightarrow> 8 word list" where
  "rb_contents b = map (\<lambda>i. Data b ! ((Start b + i) mod Space b)) [0..<Length b]"

lemma Read_spec:
  assumes "rb_inv b" "RingBuffer_Read k b = (ys, b')"
  shows "rb_inv b' \<and> Space b' = Space b \<and> ys = take k (rb_contents b) \<and> rb_contents b' = drop k (rb_contents b)"
proof -
  define n where "n = min k (Length b)"
  have inv: "0 < Space b" "length (Data b) = Space b" "Start b \<le> Space b" "Length b \<le> Space b"
    using assms(1) by (simp_all add: rb_inv_def)
  have n: "n \<le> Length b" "(if k > Length b then Length b else k) = n" by (simp_all add: n_def)
  have ys: "ys = map (\<lambda>i. Data b ! ((Start b + i) mod Space b)) [0..<n]"
  proof (cases "Start b + n > Space b")
    case True
    define e where "e = Space b - Start b"
    have "ys = slice (Data b) (Start b) e @ slice (Data b) 0 (n - e)"
      using True assms(2) n by (auto simp: RingBuffer_Read_def e_def Let_def)
    also have "\<dots> = map (\<lambda>i. Data b ! (Start b + i)) [0..<e] @ map (\<lambda>i. Data b ! i) [0..<n - e]"
      using inv n True by (simp add: slice_nth e_def del: slice_0)
    also have "\<dots> = map (\<lambda>i. Data b ! ((Start b + i) mod Space b)) [0..<n]"
      using inv n True by (intro nth_equalityI) (auto simp: nth_append e_def wrap_index add.commute)
    finally show ?thesis .
  next
    case False
    then have "ys = slice (Data b) (Start b) n" using assms(2) n by (auto simp: RingBuffer_Read_def Let_def)
    also have "\<dots> = map (\<lambda>i. Data b ! (Start b + i)) [0..<n]" using inv False by (simp add: slice_nth)
    finally show ?thesis using False by simp
  qed
  define st where "st = (if Start b + n > Space b then Start b + n - Space b else Start b + n)"
  have b': "b' = b\<lparr>Start := st, Length := Length b - n\<rparr>"
    using assms(2) n by (auto simp: RingBuffer_Read_def st_def Let_def)
  have "(st + i) mod Space b = (Start b + (n + i)) mod Space b" for i
    by (auto simp: st_def mod_if [of "Start b + n + i"] add.assoc le_mod_geq)
  then have "rb_contents b' = drop n (rb_contents b)"
    unfolding b' rb_contents_def using n by (intro nth_equalityI) (simp_all add: drop_map)
  moreover have "drop n (rb_contents b) = drop k (rb_contents b)" "ys = take k (rb_contents b)"
    using ys n by (auto simp: n_def rb_contents_def min_def take_map)
  moreover have "rb_inv b'" using inv n by (auto simp: b' rb_inv_def st_def)
  ultimately show ?thesis by (simp add: b')
qed

text \<open>
  The place \<open>k\<close> of the \<open>i\<close>-th byte and the place \<open>e\<close> of the first new byte, when \<open>n\<close> bytes are written
  behind the \<open>L\<close> bytes that are there.
\<close>

lemma ring_index:
  fixes s L S n i e k :: nat
  assumes "s \<le> S" "L + n \<le> S" "e < S" "k < S" "e = s + L \<or> e + S = s + L \<or> e + 2 * S = s + L"
    "k = s + i \<or> k + S = s + i" "i < L + n"
  shows "L \<le> i \<Longrightarrow> (e \<le> k \<and> k < e + n \<and> k - e = i - L) \<or> (\<not> (e \<le> k \<and> k < e + n) \<and> k + S < e + n \<and> k + S - e = i - L)"
    "i < L \<Longrightarrow> \<not> (e \<le> k \<and> k < e + n) \<and> \<not> k + S < e + n"
  using assms by linarith+

lemma mod_cases:
  fixes a n :: nat
  assumes "0 < n" "a \<le> 2 * n"
  shows "a mod n < n" "a = a mod n \<or> a = a mod n + n \<or> a = a mod n + 2 * n"
proof -
  show "a mod n < n" using assms(1) by simp
  have "a div n \<le> 2" using assms div_le_mono [of a "2 * n" n] by simp
  then consider "a div n = 0" | "a div n = 1" | "a div n = 2" by linarith
  then show "a = a mod n \<or> a = a mod n + n \<or> a = a mod n + 2 * n"
    using mult_div_mod_eq [of n a] by cases simp_all
qed

lemma Write_spec:
  assumes "rb_inv b" "RingBuffer_Write xs b = (n, b')"
  shows "rb_inv b' \<and> Space b' = Space b \<and> n = min (length xs) (Space b - length (rb_contents b)) \<and>
    rb_contents b' = rb_contents b @ take n xs"
proof -
  have inv: "0 < Space b" "length (Data b) = Space b" "Start b \<le> Space b" "Length b \<le> Space b"
    using assms(1) by (simp_all add: rb_inv_def)
  define e where "e = (Start b + Length b) mod Space b"
  have e: "e < Space b" using inv by (simp add: e_def)
  have n: "n = min (length xs) (Space b - Length b)"
    using assms(2) by (auto simp: RingBuffer_Write_def Let_def)
  define d where "d = (if Space b - e < n then blit (blit (Data b) e (take (Space b - e) xs)) 0 (slice xs (Space b - e) (n - (Space b - e)))
      else blit (Data b) e (take n xs))"
  have b': "b' = b\<lparr>Length := Length b + n, Data := d\<rparr>"
    using assms(2) n by (auto simp: RingBuffer_Write_def Let_def e_def d_def min_def)
  have ld: "length d = Space b"
    using inv e n by (auto simp: d_def blit_length slice_def)
  have dk: "d ! k = (if e \<le> k \<and> k < e + n then xs ! (k - e) else if k + Space b < e + n then xs ! (k + Space b - e) else Data b ! k)"
    if "k < Space b" for k
  proof (cases "Space b - e < n")
    case True
    define r where "r = Space b - e"
    have r: "length (take r xs) = r" "e + r = Space b" "length (slice xs r (n - r)) = n - r" "n - r \<le> e"
      using True e n inv by (auto simp: r_def slice_def)
    have sl: "slice xs r (n - r) ! k = xs ! (k + Space b - e)" if "k < n - r"
      using that r n True by (simp add: slice_def r_def add.commute)
    have tk: "take r xs ! (k - e) = xs ! (k - e)" if "e \<le> k"
      using that r(2) \<open>k < Space b\<close> by (intro nth_take) linarith
    have "d ! k = (if k < n - r then xs ! (k + Space b - e) else if e \<le> k then xs ! (k - e) else Data b ! k)"
      using True that r inv sl tk by (simp add: d_def blit_nth blit_length flip: r_def)
    then show ?thesis using True that r e by (auto simp: r_def)
  next
    case False
    have "length (take n xs) = n" using n by simp
    then show ?thesis using False that inv e by (auto simp: d_def blit_nth)
  qed
  have d: "d ! ((Start b + i) mod Space b) = (if i < Length b then Data b ! ((Start b + i) mod Space b) else xs ! (i - Length b))"
    if "i < Length b + n" for i
  proof -
    let ?k = "(Start b + i) mod Space b"
    have "Start b + i < 2 * Space b" using that n inv by auto
    then have k: "?k < Space b" "?k = Start b + i \<or> ?k + Space b = Start b + i"
      using inv mod_cases [of "Space b" "Start b + i"] by auto
    have "e = Start b + Length b \<or> e + Space b = Start b + Length b \<or> e + 2 * Space b = Start b + Length b"
      using inv mod_cases [of "Space b" "Start b + Length b"] by (auto simp: e_def)
    moreover have "Length b + n \<le> Space b" using n inv by simp
    ultimately show ?thesis
      using ring_index [OF inv(3) _ e k(1) _ k(2) that] dk [OF k(1)] by (cases "i < Length b") auto
  qed
  have "rb_contents b' = rb_contents b @ take n xs"
    unfolding b' rb_contents_def using n d by (intro nth_equalityI) (auto simp: nth_append min_def split: if_splits)
  then show ?thesis using inv n ld by (auto simp: b' rb_inv_def rb_contents_def)
qed

interpretation rb: byte_fifo rb_inv rb_contents Space RingBuffer_Write RingBuffer_Read
proof
  show "rb_inv s \<Longrightarrow> length (rb_contents s) \<le> Space s" for s by (simp add: rb_inv_def rb_contents_def)
qed (use Write_spec Read_spec in blast)+

lemma Create_inv: "0 < n \<Longrightarrow> rb_inv (RingBuffer_Create n) \<and> rb_contents (RingBuffer_Create n) = []"
  by (simp add: rb_inv_def rb_contents_def RingBuffer_Create_def)

end
