(* ===== verification/Libc_Theorems.thy ===== *)
theory Libc_Theorems
  imports Heap_Theorems Printf Ring_Buffer
begin

text \<open>
  The properties of the library routines: memory, division, numbers, strings, UTF-8, formatted
  output and ring buffers. \<open>_strdup\<close>, which needs the heap as well as the strings, is defined here.
  The last section holds what the model shows to be wrong in these routines.
\<close>

section \<open>Duplicating strings\<close>

definition strdup ::
  "(addr \<Rightarrow> bool) \<Rightarrow> nat \<Rightarrow> nat \<Rightarrow> nat \<Rightarrow> addr \<Rightarrow> heap_state \<Rightarrow> (addr \<times> heap_state) outcome option" where
  "strdup mm tm File Line Str s =
     (case strlen (mem s) Str of
        None \<Rightarrow> None
      | Some n \<Rightarrow> obind (Heap_Allocate mm tm File Line (n + 1) s) (\<lambda>(ret, s).
          if ret = 0 then Some (Ret (0, s))
          else case strcpy (mem s) ret Str of
            None \<Rightarrow> None
          | Some (m, e) \<Rightarrow> Some (Ret (ret, s\<lparr>mem := m\<rparr>))))"

lemma cstr_in_region:
  assumes "keeps m m' L" "(p, j) \<in> L" "p \<le> a" "a + length xs < p + j" "cstr m a xs"
  shows "cstr m' a xs"
  using assms(5) keepsD [OF assms(1,2)] assms(3,4) by (subst cstr_cong [of xs m' a m]) auto

text \<open>
  \<open>_strdup\<close> of a string that lies in a region in use returns; if it does not fail, the result is a
  region of its own that holds the same string, no other region has changed and the heap is
  well-formed.
\<close>

theorem strdup_copies:
  assumes "heap_ok s" "(p, j) \<in> payloads s" "p \<le> Str" "Str + length xs < p + j" "cstr (mem s) Str xs"
    "length xs < 0x2FFFFFFF"
  shows "\<exists>r s'. strdup mm tm File Line Str s = Some (Ret (r, s')) \<and> heap_ok s' \<and>
    keeps (mem s) (mem s') (payloads s) \<and> (r = 0 \<longrightarrow> payloads s' = payloads s) \<and>
    (r \<noteq> 0 \<longrightarrow> cstr (mem s') r xs \<and> (\<exists>k > length xs. payloads s' = insert (r, k) (payloads s) \<and>
      (\<forall>(p, j) \<in> payloads s. p + j \<le> r \<or> r + k \<le> p)))"
proof -
  let ?n = "length xs + 1"
  have n: "0 < ?n" "?n < 0x30000000" using assms(6) by simp_all
  note len = strlen_cstr [OF assms(5)]
  obtain r s1 where a: "Heap_Allocate mm tm File Line ?n s = Some (Ret (r, s1))"
    using Heap_Allocate_ok [OF assms(1) n] by blast
  note ok1 = kheap.alloc_ok [OF assms(1) n a]
  show ?thesis
  proof (cases "r = 0")
    case True
    then show ?thesis using a len ok1 kheap.alloc_failed [OF assms(1) n] by (auto simp: strdup_def)
  next
    case False
    obtain k where k: "?n \<le> k" "payloads s1 = insert (r, k) (payloads s)"
        "\<forall>(p, j) \<in> payloads s. p + j \<le> r \<or> r + k \<le> p"
      using kheap.alloc_fresh [OF assms(1) n a False] by blast
    have src: "cstr (mem s1) Str xs"
      using ok1 assms by (intro cstr_in_region [of "mem s" "mem s1" "payloads s" p j]) auto
    have "p + j \<le> r \<or> r + k \<le> p" using k(3) assms(2) by blast
    then obtain m where m: "strcpy (mem s1) r Str = Some (m, r + length xs)" "cstr m r xs"
        "changed_at_most (mem s1) m r ?n"
      using strcpy_cstr [OF src, of r] assms(3,4) k(1) by auto
    have "heap_ok (s1\<lparr>mem := m\<rparr>) \<and> payloads (s1\<lparr>mem := m\<rparr>) = payloads s1"
      using m(3) k ok1 by (intro heap_ok_write [of s1 r k]) (auto simp: changed_at_most_def)
    moreover have "keeps (mem s) m (payloads s)"
      using ok1 m(3) k(1,3) unfolding keeps_def changed_at_most_def by (fastforce split: prod.splits)
    moreover have "strdup mm tm File Line Str s = Some (Ret (r, s1\<lparr>mem := m\<rparr>))"
      using a len m(1) False by (simp add: strdup_def)
    moreover have "\<exists>k > length xs. payloads s1 = insert (r, k) (payloads s) \<and>
        (\<forall>(p, j) \<in> payloads s. p + j \<le> r \<or> r + k \<le> p)"
      using k by (intro exI [of _ k]) auto
    ultimately show ?thesis using m(2) False by (intro exI [of _ r] exI [of _ "s1\<lparr>mem := m\<rparr>"]) simp
  qed
qed

text \<open>A heap with one used block that holds a string.\<close>

definition heap_str :: heap_state where
  "heap_str = heap_a\<lparr>mem := (mem heap_a)(3225419804 := 65, 3225419805 := 66, 3225419806 := 0)\<rparr>"

lemma heap_str_ok: "heap_ok heap_str" "payloads heap_str = {(3225419804, 28)}"
  using heap_ok_write [of heap_a 3225419804 28 "mem heap_str"] heap_a_ok by (simp_all add: heap_str_def)

theorem strdup_copies_witness:
  "cstr (mem heap_str) 3225419804 [65, 66] \<and>
   (\<exists>r s'. strdup (\<lambda>_. True) 0 0 0 3225419804 heap_str = Some (Ret (r, s')) \<and> heap_ok s' \<and>
     (r \<noteq> 0 \<longrightarrow> cstr (mem s') r [65, 66]))"
proof -
  have c: "cstr (mem heap_str) 3225419804 [65, 66]" by (simp add: heap_str_def)
  then show ?thesis
    using strdup_copies [OF heap_str_ok(1) _ _ _ c, of 3225419804 28 "\<lambda>_. True" 0 0 0] heap_str_ok(2) by fastforce
qed

section \<open>Memory and arithmetic\<close>

text \<open>
  C9: the copy that moves 16-byte vectors or words where the alignment allows it is the loop over
  bytes, for every alignment, length and overlap, and likewise the filling of memory; \<open>memmove\<close>
  copies overlapping regions as if through a buffer.
\<close>

theorem memory_routines_bytewise:
  "memcpy_x86 m d s n = memcpy m d s n \<and> memset_x86 m d V n = memset m d (ucast V) n \<and>
   (s + n < two32 \<longrightarrow> d + n < two32 \<longrightarrow>
     memmove m d s n = (\<lambda>x. if d \<le> x \<and> x < d + n then m (s + (x - d)) else m x))"
  using memmove_apply [of s n d m] by (auto simp: memcpy_x86_bytes memset_x86_bytes)

theorem memory_routines_bytewise_witness:
  "memmove (\<lambda>x. word_of_nat x) 1000 998 300 1001 = 231 \<and> memcpy_x86 (\<lambda>x. word_of_nat x) 1600 320 200 1700 = 164"
proof -
  have "memcpy (\<lambda>x. word_of_nat x) 1600 320 200 (1600 + 100) = (word_of_nat (320 + 100) :: 8 word)"
    by (rule memcpy_apply) simp_all
  then show ?thesis
    using memory_routines_bytewise [of "\<lambda>x. word_of_nat x" 1600 320 200 0]
      memory_routines_bytewise [of "\<lambda>x. word_of_nat x" 1000 998 300 0] by simp
qed

text \<open>
  C19: for every dividend and every divisor but zero, the three 64-bit division routines return the
  quotient and the remainder, whichever of their shortcuts, the \<open>div\<close> instruction or the
  shift-and-subtract loops they take; the instruction never traps.
\<close>

theorem division_exact:
  assumes "Den \<noteq> 0"
  shows "DivMod64U Num Den = Ret (Num div Den, Num mod Den) \<and> divmod64 Num Den = (Num div Den, Num mod Den) \<and>
    udivdi3 Num Den = Ret (Num div Den) \<and> umoddi3 Num Den = Ret (Num mod Den)"
  using assms by (simp add: DivMod64U_spec divmod64_spec udivdi3_spec umoddi3_spec)

theorem division_exact_witness:
  "(0x1000000000 :: 64 word) \<noteq> 0 \<and> DivMod64U 0xFFFFFFFFFFFFFFFF 0x1000000000 = Ret (0xFFFFFFF, 0xFFFFFFFFF)"
  using division_exact [of "0x1000000000" "0xFFFFFFFFFFFFFFFF"] by simp

section \<open>Numbers and strings\<close>

text \<open>
  C20: what \<open>itoa\<close> prints for a 64-bit number, in any base it supports and padded with blanks or
  zeros to any length, \<open>strtoull\<close> reads back to the last character, with no error.
\<close>

theorem itoa_strtoull_round_trip:
  assumes "buf \<noteq> 0" "2 \<le> B" "B \<le> 16" "pad = 32 \<or> pad = 48"
  shows "\<exists>m' n. itoa m buf num (int B) w pad = Some (Ret m') \<and> strlen m' buf = Some n \<and>
    strtoull m' buf (int B) = Some (num, buf + n, None)"
  using assms by (rule itoa_strtoull)

theorem itoa_strtoull_round_trip_witness:
  "\<exists>m' n. itoa (\<lambda>_. 7) 100 0xFFFFFFFFFFFFFFFF 16 20 48 = Some (Ret m') \<and> strlen m' 100 = Some n \<and>
    strtoull m' 100 16 = Some (0xFFFFFFFFFFFFFFFF, 100 + n, None)"
  using itoa_strtoull_round_trip [of 100 16 48 "\<lambda>_. 7" "0xFFFFFFFFFFFFFFFF" 20] by simp

text \<open>
  \<open>str_split\<close> returns an array of pointers to the parts of the string between the separators,
  in order and ended by a null pointer, all inside the one block it has allocated.
\<close>

theorem str_split_parts:
  assumes "cstr m str xs" "str_split_size m str ch = Some n" "ret \<noteq> 0" "ret + n \<le> two32"
    "str + length xs < ret \<or> ret + n \<le> str"
  shows "\<exists>m'. str_split m str ch ret = Some (ret, m') \<and> changed_at_most m m' ret n \<and>
    (\<forall>k < length (split_on ch xs). cstr m' (rd32 m' (ret + 4 * k)) (split_on ch xs ! k)) \<and>
    rd32 m' (ret + 4 * length (split_on ch xs)) = 0"
  using assms by (rule str_split_spec)

definition sample_text :: memory where
  "sample_text = put_bytes (\<lambda>_. 0) 10 [97, 44, 44, 98, 99]"

lemma sample_text_cstr: "cstr sample_text 10 [97, 44, 44, 98, 99]"
  by (simp add: sample_text_def)

theorem str_split_parts_witness:
  "str_split_size sample_text 10 44 = Some 22 \<and> split_on 44 [97, 44, 44, 98, 99] = [[97], [], [98, 99]] \<and>
   (\<exists>m'. str_split sample_text 10 44 100 = Some (100, m') \<and> cstr m' (rd32 m' 108) [98, 99] \<and> rd32 m' 112 = 0)"
proof -
  let ?t = "[97, 44, 44, 98, 99] :: 8 word list"
  have parts: "split_on 44 ?t = [[97], [], [98, 99]]" by simp
  have size: "str_split_size sample_text 10 44 = Some 22"
    using split_count_spec [of sample_text 10 0 ?t 44 1 0] sample_text_cstr
    by (simp add: str_split_size_def del: cstr.simps)
  obtain m' where "str_split sample_text 10 44 100 = Some (100, m')"
    "\<forall>k < 3. cstr m' (rd32 m' (100 + 4 * k)) ([[97], [], [98, 99]] ! k)" "rd32 m' (100 + 4 * 3) = 0"
    using str_split_parts [OF sample_text_cstr size, of 100] unfolding parts by auto
  then have "str_split sample_text 10 44 100 = Some (100, m') \<and> cstr m' (rd32 m' 108) [98, 99] \<and> rd32 m' 112 = 0"
    by (auto dest: spec [of _ 2] simp del: cstr.simps)
  then show ?thesis using size parts by blast
qed

section \<open>UTF-8 and formatted output\<close>

text \<open>
  C21: a character that \<open>WriteUTF8\<close> stores is read back by \<open>ReadUTF8\<close> with the same number of bytes,
  for every value up to \<open>0x10FFFF\<close> except those from \<open>0x800\<close> to \<open>0x7FFF\<close>.
\<close>

theorem UTF8_round_trip:
  assumes "str \<noteq> 0" "Val < 0x110000" "Val < 0x800 \<or> 0x8000 \<le> Val"
  shows "ReadUTF8 (snd (WriteUTF8 m str Val)) str = (fst (WriteUTF8 m str Val), Val)"
  using assms by (rule ReadUTF8_WriteUTF8)

theorem UTF8_round_trip_witness:
  "ReadUTF8 (snd (WriteUTF8 (\<lambda>_. 0) 100 0x1F600)) 100 = (4, 0x1F600)"
  using UTF8_round_trip [of 100 "0x1F600" "\<lambda>_. 0"] by (simp add: WriteUTF8_def utf8_bytes_def)

text \<open>
  C22: whatever the format and the arguments are, \<open>snprintf\<close> changes no byte that is below its local
  buffer and outside the first \<open>n\<close> bytes of the destination.
\<close>

theorem snprintf_stays_inside:
  assumes "snprintf e s n format args m = Some (Ret (k, m'))" "x < pe_tmpBuf e" "s = 0 \<or> x < s \<or> s + n \<le> x"
  shows "m' x = m x"
  using vsnprintf_spares [OF assms(1) [unfolded snprintf_def]] assms(2,3)
  by (auto simp: spares_def outside_def)

definition sample_env :: printf_env where
  "sample_env = \<lparr>pe_mapped = (\<lambda>_. True), pe_user = (\<lambda>_. True), pe_valid = (\<lambda>_ _. True), pe_s = 0,
     pe_maxlen = 0, pe_tmpBuf = 1000\<rparr>"

definition sample_format :: memory where
  "sample_format = put_bytes (\<lambda>_. 0) 20 [97, 98, 99, 100]"

lemma sample_snprintf: "\<exists>m'. snprintf sample_env 100 2 20 40 sample_format = Some (Ret (4, m'))"
  by (simp add: snprintf_def vsnprintf_def sample_env_def sample_format_def format_loop.simps next_char_def
    PUTCH_def u32_def)

theorem snprintf_stays_inside_witness:
  "\<exists>m'. snprintf sample_env 100 2 20 40 sample_format = Some (Ret (4, m')) \<and> m' 102 = 0"
proof -
  from sample_snprintf obtain m' where m': "snprintf sample_env 100 2 20 40 sample_format = Some (Ret (4, m'))" by blast
  have "m' 102 = sample_format 102"
    by (rule snprintf_stays_inside [OF m']) (simp_all add: sample_env_def)
  then show ?thesis using m' by (simp add: sample_format_def)
qed

text \<open>
  \<open>Hex\<close>, which prints every byte through \<open>sprintf\<close>, and \<open>UnHex\<close> are inverse: the bytes come back.
\<close>

theorem Hex_UnHex_round_trip:
  assumes "hex_layout e lit stack d (2 * n + 1)" "hex_source e stack d (2 * n + 1) s n"
    "cstr m lit [37, 48, 50, 120]" "0 < n" "apart d (2 * n + 1) d' n"
  shows "\<exists>m1 m2. Hex e lit stack d n s m = Some (Ret (n * 2, m1)) \<and> UnHex m1 d' n d = (n, m2) \<and>
    (\<forall>j < n. m2 (d' + j) = m (s + j))"
  using assms by (rule Hex_UnHex)

definition sample_hex :: memory where
  "sample_hex = put_bytes (put_bytes (\<lambda>_. 0) 20 [37, 48, 50, 120]) 60 [0xDE, 0xAD]"

theorem Hex_UnHex_round_trip_witness:
  "\<exists>m1 m2. Hex sample_env 20 40 100 2 60 sample_hex = Some (Ret (4, m1)) \<and> UnHex m1 200 2 100 = (2, m2) \<and>
    m2 200 = 0xDE \<and> m2 201 = 0xAD"
proof -
  have h: "sample_hex 60 = 0xDE" "sample_hex 61 = 0xAD" "cstr sample_hex 20 [37, 48, 50, 120]"
    by (simp_all add: sample_hex_def)
  have "hex_layout sample_env 20 40 100 (2 * 2 + 1)" "hex_source sample_env 40 100 (2 * 2 + 1) 60 2" "apart 100 (2 * 2 + 1) 200 2"
    by (simp_all add: hex_layout_def hex_source_def apart_def sample_env_def)
  from Hex_UnHex_round_trip [OF this(1,2) h(3) _ this(3)] obtain m1 m2 where
    "Hex sample_env 20 40 100 2 60 sample_hex = Some (Ret (2 * 2, m1))" "UnHex m1 200 2 100 = (2, m2)"
    "\<forall>j < 2. m2 (200 + j) = sample_hex (60 + j)" by auto
  moreover from this(3) have "m2 200 = 0xDE" "m2 201 = 0xAD"
    using h(1,2) by (auto dest: spec [of _ 0] spec [of _ 1])
  ultimately show ?thesis by (intro exI [of _ m1] exI [of _ m2]) simp
qed

section \<open>Ring buffers\<close>

text \<open>
  C23: over any sequence of writes and reads of a ring buffer, the bytes returned followed by the bytes
  still stored are the bytes that were stored followed by those accepted: nothing is lost, repeated
  or reordered, and the buffer never holds more than its space.
\<close>

theorem RingBuffer_is_fifo:
  assumes "rb_inv b" "serve RingBuffer_Write RingBuffer_Read rs b = (ins, outs, b')"
  shows "rb_contents b @ ins = outs @ rb_contents b' \<and> rb_inv b' \<and> length (rb_contents b') \<le> Space b"
  using rb.serve_fifo [OF assms] rb.bounded [of b'] by auto

theorem RingBuffer_is_fifo_witness:
  "rb_inv (RingBuffer_Create 4) \<and>
   serve RingBuffer_Write RingBuffer_Read [Inl [1, 2, 3], Inr 2, Inl [4, 5, 6, 7], Inr 9] (RingBuffer_Create 4) =
     ([1, 2, 3, 4, 5, 6], [1, 2, 3, 4, 5, 6], snd (snd (serve RingBuffer_Write RingBuffer_Read
        [Inl [1, 2, 3], Inr 2, Inl [4, 5, 6, 7], Inr 9] (RingBuffer_Create 4)))) \<and>
   rb_contents (snd (snd (serve RingBuffer_Write RingBuffer_Read
        [Inl [1, 2, 3], Inr 2, Inl [4, 5, 6, 7], Inr 9] (RingBuffer_Create 4)))) = []"
proof -
  let ?r = "serve RingBuffer_Write RingBuffer_Read [Inl [1, 2, 3], Inr 2, Inl [4, 5, 6, 7], Inr 9] (RingBuffer_Create 4)"
  have inv: "rb_inv (RingBuffer_Create 4)" "rb_contents (RingBuffer_Create 4) = []" using Create_inv [of 4] by simp_all
  have run: "?r = ([1, 2, 3, 4, 5, 6], [1, 2, 3, 4, 5, 6], snd (snd ?r))" by code_simp
  then show ?thesis using RingBuffer_is_fifo [OF inv(1) run] inv by simp
qed

section \<open>What goes wrong\<close>

text \<open>The check of \<open>strtoull\<close> against overflow overflows itself.\<close>

lemma strtoull_misses_overflow:
  "strtoull (put_bytes (\<lambda>_. 0) 100 [51, 54, 56, 57, 51, 52, 56, 56, 49, 52, 55, 52, 49, 57, 49, 48, 51, 50, 51, 48]) 100 10 =
   Some (0xFFFFFFFFFFFFFFFE, 120, None)"
  by (simp add: strtoull_def skip_space.simps strtoull_loop.simps digit_value_def isspace_def isdigit_def
    isalpha_def isupper_def islower_def Let_def cong: if_weak_cong)

text \<open>\<open>strncpy\<close> writes a terminator behind the \<open>n\<close> bytes it may write when the string is longer.\<close>

lemma strncpy_writes_behind:
  assumes "\<forall>i \<le> n. m (s + i) \<noteq> 0" "s + n < d \<or> d + n < s"
  shows "fst (strncpy m d s n) (d + n) = 0"
  using strncpy_loop_long [of n m s d] assms by (auto simp: strncpy_def)

text \<open>\<open>strncat\<close> writes behind the terminator: the string stays what it was.\<close>

lemma copy_some_below: "copy_some m d s n = (m', d') \<Longrightarrow> d \<le> d' \<and> (\<forall>x < d. m' x = m x)"
  by (induction m d s n arbitrary: m' d' rule: copy_some.induct) (fastforce split: if_splits)+

lemma strncat_appends_nothing:
  assumes "cstr m d xs" "strncat m d s n = Some (m', e)"
  shows "cstr m' d xs"
proof -
  obtain m1 where m1: "copy_some m (d + length xs + 1) s n = (m1, e)" "m' = m1(e := 0)"
    using assms skip_string_cstr [OF assms(1)] by (auto simp: strncat_def split: prod.splits)
  show ?thesis
    using copy_some_below [OF m1(1)] assms(1) by (subst cstr_cong [of xs m' d m]) (auto simp: m1(2))
qed

end
