(* ===== verification/Disk_Util.thy ===== *)
theory Disk_Util
  imports Byte_Lists "HOL-Library.Monad_Syntax"
begin

text \<open>
  The helpers of \<open>drvutil_disk.c\<close> that give byte access to a device that is read and written in
  blocks. The callbacks are arguments. They get the number of the first block and the number of
  blocks and return how many they have moved, with the contents of the buffer given to them and the
  state of the device; \<^const>\<open>None\<close> when a callback does not return. The contents of the local
  array \<open>tmp\<close> before the call are an argument. A block size of zero makes the first division trap.
\<close>

type_synonym 's read_blocks = "nat \<Rightarrow> nat \<Rightarrow> bytes \<Rightarrow> 's \<Rightarrow> (nat \<times> bytes \<times> 's) option"
type_synonym 's write_blocks = "nat \<Rightarrow> nat \<Rightarrow> bytes \<Rightarrow> 's \<Rightarrow> (nat \<times> 's) option"

section \<open>Reading\<close>

text \<open>The central blocks and the first bytes of the last one, to \<open>Buffer\<close> from index \<open>leading\<close> on.\<close>

definition read_rest ::
  "'s read_blocks \<Rightarrow> nat \<Rightarrow> nat \<Rightarrow> nat \<Rightarrow> nat \<Rightarrow> nat \<Rightarrow> nat \<Rightarrow> bytes \<Rightarrow> bytes \<Rightarrow> 's \<Rightarrow> (nat \<times> bytes \<times> 's) option" where
  "read_rest ReadBlocks BlockSize Len leading block num tailings tmp Buffer s = do {
     (ret, Buffer, s) \<leftarrow>
       (if num \<noteq> 0 then do { (ret, rest, s) \<leftarrow> ReadBlocks block num (drop leading Buffer) s; Some (ret, take leading Buffer @ rest, s) }
        else Some (num, Buffer, s));
     if ret \<noteq> num then Some (u32 (leading + ret * BlockSize), Buffer, s)
     else if tailings \<noteq> 0 then do {
       (ret, tmp, s) \<leftarrow> ReadBlocks (block + num) 1 tmp s;
       if ret \<noteq> 1 then Some (u32 (leading + num * BlockSize), Buffer, s)
       else Some (Len, blit Buffer (leading + num * BlockSize) (take tailings tmp), s)
     }
     else Some (Len, Buffer, s)
   }"

definition DrvUtil_ReadBlock ::
  "nat \<Rightarrow> nat \<Rightarrow> bytes \<Rightarrow> 's read_blocks \<Rightarrow> nat \<Rightarrow> bytes \<Rightarrow> 's \<Rightarrow> (nat \<times> bytes \<times> 's) option" where
  "DrvUtil_ReadBlock Start Len Buffer ReadBlocks BlockSize tmp s =
     (let block = Start div BlockSize; offset = Start - block * BlockSize; leading = BlockSize - offset
      in if offset \<noteq> 0 then
           (let leading = (if leading > Len then Len else leading) in do {
              (ret, tmp, s) \<leftarrow> ReadBlocks block 1 tmp s;
              if ret \<noteq> 1 then Some (0, Buffer, s)
              else let Buffer = blit Buffer 0 (slice tmp offset leading) in
                if leading = Len then Some (leading, Buffer, s)
                else let num = (Len - leading) div BlockSize
                  in read_rest ReadBlocks BlockSize Len leading (block + 1) num (Len - num * BlockSize - leading) tmp Buffer s
            })
         else read_rest ReadBlocks BlockSize Len 0 block (Len div BlockSize) (Len mod BlockSize) tmp Buffer s)"

section \<open>Writing\<close>

text \<open>
  The central blocks and the first bytes of the last one, from \<open>Buffer\<close>. What the caller has in
  \<open>leading\<close> only counts when a callback fails.
\<close>

definition write_rest ::
  "'s read_blocks \<Rightarrow> 's write_blocks \<Rightarrow> nat \<Rightarrow> nat \<Rightarrow> nat \<Rightarrow> nat \<Rightarrow> nat \<Rightarrow> nat \<Rightarrow> bytes \<Rightarrow> bytes \<Rightarrow> 's \<Rightarrow> (nat \<times> 's) option" where
  "write_rest ReadBlocks WriteBlocks BlockSize Len leading block num tailings tmp Buffer s = do {
     (ret, s) \<leftarrow> (if num \<noteq> 0 then WriteBlocks block num (take (num * BlockSize) Buffer) s else Some (num, s));
     if ret \<noteq> num then Some (u32 (leading + ret * BlockSize), s)
     else if tailings \<noteq> 0 then do {
       (ret, tmp, s) \<leftarrow> ReadBlocks (block + num) 1 tmp s;
       if ret \<noteq> 1 then Some (u32 (leading + num * BlockSize), s)
       else do {
         (ret, s) \<leftarrow> WriteBlocks (block + num) 1 (blit tmp 0 (slice Buffer (num * BlockSize) tailings)) s;
         if ret \<noteq> 1 then Some (u32 (leading + num * BlockSize), s) else Some (Len, s)
       }
     }
     else Some (Len, s)
   }"

definition DrvUtil_WriteBlock ::
  "nat \<Rightarrow> nat \<Rightarrow> bytes \<Rightarrow> 's read_blocks \<Rightarrow> 's write_blocks \<Rightarrow> nat \<Rightarrow> bytes \<Rightarrow> 's \<Rightarrow> (nat \<times> 's) option" where
  "DrvUtil_WriteBlock Start Len Buffer ReadBlocks WriteBlocks BlockSize tmp s =
     (let block = Start div BlockSize; offset = Start - block * BlockSize; leading = BlockSize - offset
      in if offset \<noteq> 0 then
           (let leading = (if leading > Len then Len else leading) in do {
              (ret, tmp, s) \<leftarrow> ReadBlocks block 1 tmp s;
              if ret \<noteq> 1 then Some (0, s)
              else let tmp = blit tmp offset (take leading Buffer) in do {
                (ret, s) \<leftarrow> WriteBlocks block 1 tmp s;
                if ret \<noteq> 1 then Some (0, s)
                else if leading = Len then Some (leading, s)
                else let num = (Len - leading) div BlockSize
                  in write_rest ReadBlocks WriteBlocks BlockSize Len leading (block + 1) num
                       (Len - num * BlockSize - leading) tmp (drop leading Buffer) s
              }
            })
         else write_rest ReadBlocks WriteBlocks BlockSize Len leading block (Len div BlockSize) (Len mod BlockSize) tmp Buffer s)"

section \<open>A device read in blocks\<close>

text \<open>Blocks that lie inside the device.\<close>

lemma blocks_fit:
  assumes "0 < bs" "b * bs + n * bs + t \<le> c * bs"
  shows "b + n \<le> (c::nat)" "t \<noteq> 0 \<Longrightarrow> b + n + 1 \<le> c"
proof -
  have *: "(b + n) * bs + t \<le> c * bs" using assms(2) by (simp add: add_mult_distrib)
  then have "(b + n) * bs \<le> c * bs" by linarith
  then show "b + n \<le> c" using assms(1) by simp
  show "b + n + 1 \<le> c" if "t \<noteq> 0"
  proof -
    have "(b + n) * bs < c * bs" using * that by linarith
    then show ?thesis by simp
  qed
qed

lemma split_rest:
  assumes "0 < bs" "lead \<le> (Len::nat)" "num = (Len - lead) div bs"
  obtains t where "Len - num * bs - lead = t" "Len = lead + num * bs + t" "t < bs" "num * bs + t = Len - lead"
proof
  have "Len - lead = num * bs + (Len - lead) mod bs" using assms(3) by simp
  then show "Len - num * bs - lead = (Len - lead) mod bs" "Len = lead + num * bs + (Len - lead) mod bs"
    "num * bs + (Len - lead) mod bs = Len - lead" using assms(2) by linarith+
  show "(Len - lead) mod bs < bs" using assms(1) by simp
qed

text \<open>
  What the helpers need of the callbacks: whole blocks of the disk are read, the disk stays what it
  was; a write replaces whole blocks.
\<close>

locale block_source =
  fixes inv :: "'s \<Rightarrow> bool"
    and disk :: "'s \<Rightarrow> nat \<Rightarrow> 8 word"
    and bsize :: "'s \<Rightarrow> nat"
    and bcount :: "'s \<Rightarrow> nat"
    and rd :: "'s read_blocks"
  assumes bsize_pos: "inv s \<Longrightarrow> 0 < bsize s"
    and rd_law: "inv s \<Longrightarrow> b + n \<le> bcount s \<Longrightarrow> n < 2147483648 \<Longrightarrow> n * bsize s \<le> length buf \<Longrightarrow>
      \<exists>s'. rd b n buf s = Some (n, span (disk s) (b * bsize s) (n * bsize s) @ drop (n * bsize s) buf, s') \<and>
        inv s' \<and> disk s' = disk s \<and> bsize s' = bsize s \<and> bcount s' = bcount s"
begin

lemma num_small:
  assumes "inv s" "Len = leading + num * bsize s + tailings" "Len < 2147483648"
  shows "num < 2147483648"
proof -
  have "num * 1 \<le> num * bsize s" using bsize_pos [OF assms(1)] by (intro mult_le_mono) auto
  then show ?thesis using assms by linarith
qed

lemma read_rest_law:
  assumes "inv s" "Len = leading + num * bsize s + tailings" "tailings < bsize s" "Len < 2147483648"
    "block * bsize s + num * bsize s + tailings \<le> bcount s * bsize s"
    "Len \<le> length Buffer" "length tmp = bsize s"
  shows "\<exists>s'. read_rest rd (bsize s) Len leading block num tailings tmp Buffer s =
      Some (Len, take leading Buffer @ span (disk s) (block * bsize s) (num * bsize s + tailings) @ drop Len Buffer, s') \<and>
    inv s' \<and> disk s' = disk s \<and> bsize s' = bsize s \<and> bcount s' = bcount s"
proof -
  let ?bs = "bsize s"
  define B1 where "B1 = take leading Buffer @ span (disk s) (block * ?bs) (num * ?bs) @ drop (leading + num * ?bs) Buffer"
  have room: "block + num \<le> bcount s" "tailings \<noteq> 0 \<Longrightarrow> block + num + 1 \<le> bcount s"
    using blocks_fit [OF bsize_pos [OF assms(1)] assms(5)] by auto
  have "num * ?bs \<le> length (drop leading Buffer)" using assms(2,6) by simp
  then have "\<exists>s1. (if num \<noteq> 0 then do { (ret, rest, s) \<leftarrow> rd block num (drop leading Buffer) s; Some (ret, take leading Buffer @ rest, s) }
        else Some (num, Buffer, s)) = Some (num, B1, s1) \<and>
      inv s1 \<and> disk s1 = disk s \<and> bsize s1 = ?bs \<and> bcount s1 = bcount s"
    using rd_law [OF assms(1) room(1) num_small [OF assms(1,2,4)], of "drop leading Buffer"] assms(1)
    by (cases "num = 0") (auto simp: B1_def add.commute)
  then obtain s1 where s1: "(if num \<noteq> 0 then do { (ret, rest, s) \<leftarrow> rd block num (drop leading Buffer) s; Some (ret, take leading Buffer @ rest, s) }
        else Some (num, Buffer, s)) = Some (num, B1, s1)"
      "inv s1" "disk s1 = disk s" "bsize s1 = ?bs" "bcount s1 = bcount s" by blast
  show ?thesis
  proof (cases "tailings = 0")
    case True
    then show ?thesis using s1 assms(2) by (simp add: read_rest_def B1_def)
  next
    case False
    from rd_law [OF s1(2), of "block + num" 1 tmp] room(2) [OF False] s1 assms(7) obtain s2 where
      s2: "rd (block + num) 1 tmp s1 = Some (1, span (disk s) ((block + num) * ?bs) ?bs, s2)"
        "inv s2" "disk s2 = disk s" "bsize s2 = ?bs" "bcount s2 = bcount s" by auto
    have "take tailings (span (disk s) ((block + num) * ?bs) ?bs) = span (disk s) (block * ?bs + num * ?bs) tailings"
      using slice_span [of 0 tailings ?bs] assms(3) by (simp add: add_mult_distrib)
    moreover have "blit B1 (leading + num * ?bs) (span (disk s) (block * ?bs + num * ?bs) tailings) =
        take leading Buffer @ span (disk s) (block * ?bs) (num * ?bs + tailings) @ drop Len Buffer"
      using assms(2,6) by (simp add: B1_def blit_def add.commute [of tailings] flip: span_append)
    ultimately show ?thesis using s1 s2 False assms(7) by (simp add: read_rest_def)
  qed
qed

text \<open>Bytes are read as if the device had byte access.\<close>

lemma ReadBlock_law:
  assumes "inv s" "Start + Len \<le> bcount s * bsize s" "Len < 2147483648" "Len \<le> length Buffer" "length tmp = bsize s"
  shows "\<exists>s'. DrvUtil_ReadBlock Start Len Buffer rd (bsize s) tmp s = Some (Len, span (disk s) Start Len @ drop Len Buffer, s') \<and>
    inv s' \<and> disk s' = disk s \<and> bsize s' = bsize s \<and> bcount s' = bcount s"
proof -
  let ?bs = "bsize s"
  define block off where "block = Start div ?bs" and "off = Start mod ?bs"
  have pos: "0 < ?bs" using bsize_pos assms(1) by blast
  have st: "Start = block * ?bs + off" "off < ?bs" "Start - block * ?bs = off"
    using pos by (simp_all add: block_def off_def minus_div_mult_eq_mod)
  show ?thesis
  proof (cases "off = 0")
    case True
    have "Len = 0 + Len div ?bs * ?bs + Len mod ?bs" by simp
    from read_rest_law [OF assms(1) this _ assms(3), of block Buffer tmp] show ?thesis
      using True st pos assms by (simp add: DrvUtil_ReadBlock_def flip: block_def)
  next
    case False
    define lead where "lead = (if ?bs - off > Len then Len else ?bs - off)"
    have lead: "lead \<le> Len" "off + lead \<le> ?bs" using st(2) by (auto simp: lead_def)
    have "block + 1 \<le> bcount s"
      using blocks_fit(2) [OF pos, of block 0 off "bcount s"] assms(2) st(1) False by simp
    from rd_law [OF assms(1) this, of tmp] assms(5) obtain s1 where
      s1: "rd block 1 tmp s = Some (1, span (disk s) (block * ?bs) ?bs, s1)"
        "inv s1" "disk s1 = disk s" "bsize s1 = ?bs" "bcount s1 = bcount s" by auto
    define B1 where "B1 = span (disk s) Start lead @ drop lead Buffer"
    have B1: "blit Buffer 0 (slice (span (disk s) (block * ?bs) ?bs) off lead) = B1"
      using lead st(1) by (simp add: B1_def slice_span blit_def)
    show ?thesis
    proof (cases "lead = Len")
      case True
      then show ?thesis
        using False st B1 s1 assms(5) by (simp add: DrvUtil_ReadBlock_def lead_def B1_def flip: block_def)
    next
      case False2: False
      define num where "num = (Len - lead) div ?bs"
      have l: "lead = ?bs - off" using False2 by (simp add: lead_def split: if_splits)
      obtain t where t: "Len - num * ?bs - lead = t" "Len = lead + num * ?bs + t" "t < ?bs" "num * ?bs + t = Len - lead"
        using split_rest [OF pos lead(1) num_def] .
      have next_block: "(block + 1) * ?bs = Start + lead" using st l by simp
      then have "(block + 1) * ?bs + num * ?bs + t \<le> bcount s * ?bs" using t(2) assms(2) by simp
      from read_rest_law [of s1, unfolded s1, OF _ t(2,3) assms(3) this, of B1 "span (disk s) (block * ?bs) ?bs"]
      obtain s' where "read_rest rd ?bs Len lead (block + 1) num t (span (disk s) (block * ?bs) ?bs) B1 s1 =
          Some (Len, take lead B1 @ span (disk s) (Start + lead) (Len - lead) @ drop Len B1, s')"
        "inv s'" "disk s' = disk s" "bsize s' = ?bs" "bcount s' = bcount s"
        using s1(2) lead assms(4) unfolding next_block t(4) by (auto simp: B1_def)
      moreover have "take lead B1 @ span (disk s) (Start + lead) (Len - lead) @ drop Len B1 = span (disk s) Start Len @ drop Len Buffer"
        using lead span_append [of "disk s" Start lead "Len - lead"] by (simp add: B1_def)
      ultimately show ?thesis
        using False False2 st B1 s1 assms(5) t(1)
        by (simp add: DrvUtil_ReadBlock_def flip: block_def lead_def num_def)
    qed
  qed
qed

end

locale block_device = block_source +
  fixes wr :: "'a write_blocks"
  assumes wr_law: "inv s \<Longrightarrow> b + n \<le> bcount s \<Longrightarrow> n < 2147483648 \<Longrightarrow> length data = n * bsize s \<Longrightarrow>
      \<exists>s'. wr b n data s = Some (n, s') \<and> inv s' \<and> disk s' = overwrite (disk s) (b * bsize s) data \<and>
        bsize s' = bsize s \<and> bcount s' = bcount s"
begin

text \<open>One block is read, changed in part and written back.\<close>

lemma patch_law:
  assumes "inv s" "b + 1 \<le> bcount s" "off + length xs \<le> bsize s" "length tmp = bsize s"
  shows "\<exists>s1 s2. rd b 1 tmp s = Some (1, span (disk s) (b * bsize s) (bsize s), s1) \<and>
    wr b 1 (blit (span (disk s) (b * bsize s) (bsize s)) off xs) s1 = Some (1, s2) \<and> inv s2 \<and>
    disk s2 = overwrite (disk s) (b * bsize s + off) xs \<and> bsize s2 = bsize s \<and> bcount s2 = bcount s"
proof -
  from rd_law [OF assms(1,2), of tmp] assms(4) obtain s1 where
    s1: "rd b 1 tmp s = Some (1, span (disk s) (b * bsize s) (bsize s), s1)"
      "inv s1" "disk s1 = disk s" "bsize s1 = bsize s" "bcount s1 = bcount s" by auto
  have "length (blit (span (disk s) (b * bsize s) (bsize s)) off xs) = 1 * bsize s1"
    using assms(3) s1 by (simp add: blit_length)
  from wr_law [OF s1(2) _ _ this, of b] assms(2-4) s1 show ?thesis by (auto simp: overwrite_blit)
qed

lemma write_rest_law:
  assumes "inv s" "Len = done + num * bsize s + tailings" "tailings < bsize s" "Len < 2147483648"
    "block * bsize s + num * bsize s + tailings \<le> bcount s * bsize s"
    "num * bsize s + tailings \<le> length Buffer" "length tmp = bsize s"
  shows "\<exists>s'. write_rest rd wr (bsize s) Len leading block num tailings tmp Buffer s = Some (Len, s') \<and>
    inv s' \<and> disk s' = overwrite (disk s) (block * bsize s) (take (num * bsize s + tailings) Buffer) \<and>
    bsize s' = bsize s \<and> bcount s' = bcount s"
proof -
  let ?bs = "bsize s"
  have room: "block + num \<le> bcount s" "tailings \<noteq> 0 \<Longrightarrow> block + num + 1 \<le> bcount s"
    using blocks_fit [OF bsize_pos [OF assms(1)] assms(5)] by auto
  have "length (take (num * ?bs) Buffer) = num * ?bs" using assms(6) by simp
  from wr_law [OF assms(1) room(1) num_small [OF assms(1,2,4)] this] obtain s0 where
    "wr block num (take (num * ?bs) Buffer) s = Some (num, s0)" "inv s0"
    "disk s0 = overwrite (disk s) (block * ?bs) (take (num * ?bs) Buffer)" "bsize s0 = ?bs" "bcount s0 = bcount s" by blast
  then have "\<exists>s1. (if num \<noteq> 0 then wr block num (take (num * ?bs) Buffer) s else Some (num, s)) = Some (num, s1) \<and>
      inv s1 \<and> disk s1 = overwrite (disk s) (block * ?bs) (take (num * ?bs) Buffer) \<and> bsize s1 = ?bs \<and> bcount s1 = bcount s"
    using assms(1) by (cases "num = 0") simp_all
  then obtain s1 where
    s1: "(if num \<noteq> 0 then wr block num (take (num * ?bs) Buffer) s else Some (num, s)) = Some (num, s1)"
      "inv s1" "disk s1 = overwrite (disk s) (block * ?bs) (take (num * ?bs) Buffer)" "bsize s1 = ?bs" "bcount s1 = bcount s"
    by blast
  show ?thesis
  proof (cases "tailings = 0")
    case True
    then show ?thesis using s1 assms(2) by (simp add: write_rest_def)
  next
    case False
    have len: "length (slice Buffer (num * ?bs) tailings) = tailings" using assms(6) by simp
    from patch_law [OF s1(2), of "block + num" 0 "slice Buffer (num * ?bs) tailings" tmp] room(2) [OF False] len assms(3,7) s1
    obtain s2 s3 where "rd (block + num) 1 tmp s1 = Some (1, span (disk s1) ((block + num) * ?bs) ?bs, s2)"
      "wr (block + num) 1 (blit (span (disk s1) ((block + num) * ?bs) ?bs) 0 (slice Buffer (num * ?bs) tailings)) s2 = Some (1, s3)"
      "inv s3" "disk s3 = overwrite (disk s1) ((block + num) * ?bs) (slice Buffer (num * ?bs) tailings)"
      "bsize s3 = ?bs" "bcount s3 = bcount s" by auto
    moreover have "overwrite (disk s1) ((block + num) * ?bs) (slice Buffer (num * ?bs) tailings) =
        overwrite (disk s) (block * ?bs) (take (num * ?bs + tailings) Buffer)"
      using overwrite_append [of "disk s" "block * ?bs" "take (num * ?bs) Buffer" "slice Buffer (num * ?bs) tailings"] assms(6)
      by (simp add: s1(3) add_mult_distrib slice_def take_add)
    ultimately show ?thesis using s1(1) False by (simp add: write_rest_def)
  qed
qed

text \<open>Bytes are written as if the device had byte access.\<close>

lemma WriteBlock_law:
  assumes "inv s" "Start + Len \<le> bcount s * bsize s" "Len < 2147483648" "Len \<le> length Buffer" "length tmp = bsize s"
  shows "\<exists>s'. DrvUtil_WriteBlock Start Len Buffer rd wr (bsize s) tmp s = Some (Len, s') \<and>
    inv s' \<and> disk s' = overwrite (disk s) Start (take Len Buffer) \<and> bsize s' = bsize s \<and> bcount s' = bcount s"
proof -
  let ?bs = "bsize s"
  define block off where "block = Start div ?bs" and "off = Start mod ?bs"
  have pos: "0 < ?bs" using bsize_pos assms(1) by blast
  have st: "Start = block * ?bs + off" "off < ?bs" "Start - block * ?bs = off"
    using pos by (simp_all add: block_def off_def minus_div_mult_eq_mod)
  show ?thesis
  proof (cases "off = 0")
    case True
    have "Len = 0 + Len div ?bs * ?bs + Len mod ?bs" by simp
    from write_rest_law [OF assms(1) this _ assms(3), of block Buffer tmp "?bs - off"] show ?thesis
      using True st pos assms by (simp add: DrvUtil_WriteBlock_def flip: block_def)
  next
    case False
    define lead where "lead = (if ?bs - off > Len then Len else ?bs - off)"
    have lead: "lead \<le> Len" "off + lead \<le> ?bs" using st(2) by (auto simp: lead_def)
    have "block + 1 \<le> bcount s"
      using blocks_fit(2) [OF pos, of block 0 off "bcount s"] assms(2) st(1) False by simp
    from patch_law [OF assms(1) this, of off "take lead Buffer" tmp] lead assms(4,5) obtain s1 s2 where
      p: "rd block 1 tmp s = Some (1, span (disk s) (block * ?bs) ?bs, s1)"
        "wr block 1 (blit (span (disk s) (block * ?bs) ?bs) off (take lead Buffer)) s1 = Some (1, s2)"
        "inv s2" "disk s2 = overwrite (disk s) Start (take lead Buffer)" "bsize s2 = ?bs" "bcount s2 = bcount s"
      using st(1) by auto
    define T where "T = blit (span (disk s) (block * ?bs) ?bs) off (take lead Buffer)"
    have T: "length T = ?bs" using lead assms(4,5) by (simp add: T_def blit_length)
    show ?thesis
    proof (cases "lead = Len")
      case True
      then show ?thesis using False st p by (simp add: DrvUtil_WriteBlock_def lead_def flip: block_def)
    next
      case False2: False
      define num where "num = (Len - lead) div ?bs"
      have l: "lead = ?bs - off" using False2 by (simp add: lead_def split: if_splits)
      obtain t where t: "Len - num * ?bs - lead = t" "Len = lead + num * ?bs + t" "t < ?bs" "num * ?bs + t = Len - lead"
        using split_rest [OF pos lead(1) num_def] .
      have next_block: "(block + 1) * ?bs = Start + lead" using st l by simp
      then have "(block + 1) * ?bs + num * ?bs + t \<le> bcount s * ?bs" using t(2) assms(2) by simp
      from write_rest_law [of s2, unfolded p, OF _ t(2,3) assms(3) this, of "drop lead Buffer" T lead]
      obtain s' where "write_rest rd wr ?bs Len lead (block + 1) num t T (drop lead Buffer) s2 = Some (Len, s')"
        "inv s'" "disk s' = overwrite (overwrite (disk s) Start (take lead Buffer)) (Start + lead) (take (Len - lead) (drop lead Buffer))"
        "bsize s' = ?bs" "bcount s' = bcount s"
        using p(3) T diff_le_mono [OF assms(4), of lead] unfolding next_block t(4) length_drop by auto
      moreover have "overwrite (overwrite (disk s) Start (take lead Buffer)) (Start + lead) (take (Len - lead) (drop lead Buffer)) =
          overwrite (disk s) Start (take Len Buffer)"
        using overwrite_append [of "disk s" Start "take lead Buffer" "take (Len - lead) (drop lead Buffer)"]
          take_add [of lead "Len - lead" Buffer] lead assms(4) by simp
      ultimately show ?thesis
        using False False2 st p t(1)
        by (simp add: DrvUtil_WriteBlock_def T_def flip: block_def lead_def num_def)
    qed
  qed
qed

end

end
