(* ===== verification/IO_Cache.thy ===== *)
theory IO_Cache
  imports Byte_Lists
begin

text \<open>
  The sector cache of \<open>drv/iocache.c\<close>, in the form that keeps whole pages (\<open>IOCACHE_USE_PAGES\<close>). A
  page owns its physical memory, so its contents are part of the page. The write callback with its
  argument is a function on the state of the device; the result it returns is never looked at. The
  time of an access and the contents of a newly allocated page are arguments; the code does not test
  whether it got memory for a page, and in the model it always does.
\<close>

unbundle bit_operations_syntax

abbreviation PAGE_SIZE :: nat where "PAGE_SIZE \<equiv> 4096"

datatype eIOCache_Modess = IOCACHE_WRITEBACK | IOCACHE_DELAYWRITE | IOCACHE_VIRTUAL

record tIOCache_PageInfo =
  LastAccess :: int
  PageData :: bytes
  BaseOffset :: nat
  PresentSectors :: "32 word"
  DirtySectors :: "32 word"

record tIOCache =
  SectorSize :: nat
  Mode :: eIOCache_Modess
  CacheSize :: int
  CacheUsed :: int
  Pages :: "tIOCache_PageInfo list"

type_synonym 'd write_callback = "nat \<Rightarrow> bytes \<Rightarrow> 'd \<Rightarrow> 'd"

section \<open>Operations\<close>

text \<open>The flag says whether \<open>calloc\<close> finds memory.\<close>

definition IOCache_Create :: "bool \<Rightarrow> int \<Rightarrow> int \<Rightarrow> tIOCache option" where
  "IOCache_Create ok sectorSize cacheSize =
     (if cacheSize < 1 \<or> sectorSize < 512 \<or> sectorSize > int PAGE_SIZE \<or> \<not> ok then None
      else Some \<lparr>SectorSize = nat sectorSize, Mode = IOCACHE_WRITEBACK, CacheSize = cacheSize, CacheUsed = 0, Pages = []\<rparr>)"

text \<open>
  The search in the sorted list: the index of the page, or the index behind the predecessor of the
  place where it is missing.
\<close>

fun find_page :: "nat \<Rightarrow> tIOCache_PageInfo list \<Rightarrow> nat \<Rightarrow> bool \<times> nat" where
  "find_page w [] i = (False, i)"
| "find_page w (page # ps) i =
     (if BaseOffset page < w then find_page w ps (i + 1)
      else if BaseOffset page > w then (False, i)
      else (True, i))"

definition wanted_base :: "tIOCache \<Rightarrow> nat \<Rightarrow> nat" where
  "wanted_base c Sector = align_down PAGE_SIZE (u64 (Sector * SectorSize c))"

definition sector_offset :: "tIOCache \<Rightarrow> nat \<Rightarrow> nat" where
  "sector_offset c Sector = u64 (Sector * SectorSize c) mod PAGE_SIZE"

definition IOCache_int_GetPage :: "tIOCache \<Rightarrow> nat \<Rightarrow> bool \<times> nat" where
  "IOCache_int_GetPage c Sector = find_page (wanted_base c Sector) (Pages c) 0"

definition sector_mask :: "tIOCache \<Rightarrow> nat \<Rightarrow> 32 word" where
  "sector_mask c Sector = push_bit (sector_offset c Sector div SectorSize c) 1"

text \<open>Is there a page with the sector?\<close>

definition IOCache_Has :: "tIOCache \<Rightarrow> nat \<Rightarrow> bool" where
  "IOCache_Has c Sector =
     (let (found, i) = IOCache_int_GetPage c Sector
      in found \<and> PresentSectors (Pages c ! i) AND sector_mask c Sector \<noteq> 0)"

text \<open>The result, the bytes stored into the buffer and the cache.\<close>

definition IOCache_Read :: "int \<Rightarrow> nat \<Rightarrow> tIOCache \<Rightarrow> int \<times> bytes \<times> tIOCache" where
  "IOCache_Read now Sector c =
     (if CacheSize c = 0 then (- 1, [], c)
      else let (found, i) = IOCache_int_GetPage c Sector in
        if found \<and> PresentSectors (Pages c ! i) AND sector_mask c Sector \<noteq> 0
        then (1, slice (PageData (Pages c ! i)) (sector_offset c Sector) (SectorSize c),
              c\<lparr>Pages := (Pages c)[i := (Pages c ! i)\<lparr>LastAccess := now\<rparr>]\<rparr>)
        else (0, [], c))"

definition flush_page :: "'d write_callback \<Rightarrow> tIOCache \<Rightarrow> tIOCache_PageInfo \<Rightarrow> 'd \<Rightarrow> 'd" where
  "flush_page Write c page d =
     (if DirtySectors page \<noteq> 0 \<and> Mode c \<noteq> IOCACHE_VIRTUAL
      then fold (\<lambda>i. Write (BaseOffset page div SectorSize c + i) (slice (PageData page) (i * SectorSize c) (SectorSize c)))
             [0..<PAGE_SIZE div SectorSize c] d
      else d)"

text \<open>The index of the first page with the least time of access.\<close>

fun oldest_page :: "tIOCache_PageInfo list \<Rightarrow> nat \<Rightarrow> nat \<Rightarrow> int \<Rightarrow> nat" where
  "oldest_page [] i k t = k"
| "oldest_page (ent # ps) i k t =
     (if LastAccess ent < t then oldest_page ps (i + 1) i (LastAccess ent) else oldest_page ps (i + 1) k t)"

text \<open>
  Taking over the oldest page. The search leaves \<open>prev\<close> at the last page: the page is linked behind
  that one, or behind itself when it was the last, and then the list has lost it. Without any page
  the code follows a null pointer.
\<close>

definition evict :: "'d write_callback \<Rightarrow> tIOCache \<Rightarrow> tIOCache_PageInfo \<Rightarrow> (bytes \<Rightarrow> bytes) \<Rightarrow> 'd \<Rightarrow> (tIOCache \<times> 'd) option" where
  "evict Write c new fill d =
     (case Pages c of [] \<Rightarrow> None
      | p # ps \<Rightarrow>
        let k = oldest_page (p # ps) 0 0 (LastAccess p); old = Pages c ! k;
            rest = take k (Pages c) @ drop (k + 1) (Pages c);
            page = new\<lparr>PageData := fill (PageData old)\<rparr>;
            pages = (if k + 1 = length (Pages c) then rest else rest @ [page])
        in Some (c\<lparr>Pages := pages\<rparr>, flush_page Write c old d))"

definition IOCache_Add ::
  "'d write_callback \<Rightarrow> int \<Rightarrow> bytes \<Rightarrow> nat \<Rightarrow> bytes \<Rightarrow> tIOCache \<Rightarrow> 'd \<Rightarrow> (int \<times> tIOCache \<times> 'd) option" where
  "IOCache_Add Write now fresh Sector Buffer c d =
     (if CacheSize c = 0 then Some (- 1, c, d)
      else let (found, i) = IOCache_int_GetPage c Sector; offset = sector_offset c Sector;
               fill = (\<lambda>data. blit data offset (take (SectorSize c) Buffer));
               new = \<lparr>LastAccess = now, PageData = fill fresh, BaseOffset = wanted_base c Sector,
                      PresentSectors = 0, DirtySectors = 0\<rparr>
        in if found then
             (if PresentSectors (Pages c ! i) AND sector_mask c Sector \<noteq> 0 then Some (0, c, d)
              else let page = Pages c ! i
                in Some (1, c\<lparr>Pages := (Pages c)[i := page\<lparr>PageData := fill (PageData page),
                      PresentSectors := PresentSectors page OR sector_mask c Sector\<rparr>]\<rparr>, d))
           else if CacheUsed c \<le> CacheSize c then
             Some (1, c\<lparr>Pages := take i (Pages c) @ [new] @ drop i (Pages c)\<rparr>, d)
           else map_option (\<lambda>(c, d). (1, c, d)) (evict Write c new fill d))"

definition IOCache_Write ::
  "'d write_callback \<Rightarrow> int \<Rightarrow> nat \<Rightarrow> bytes \<Rightarrow> tIOCache \<Rightarrow> 'd \<Rightarrow> int \<times> tIOCache \<times> 'd" where
  "IOCache_Write Write now Sector Buffer c d =
     (if CacheSize c = 0 then (- 1, c, d)
      else let (found, i) = IOCache_int_GetPage c Sector; offset = sector_offset c Sector in
        if found \<and> PresentSectors (Pages c ! i) AND sector_mask c Sector \<noteq> 0
        then let page = (Pages c ! i)\<lparr>LastAccess := now,
                   PageData := blit (PageData (Pages c ! i)) offset (take (SectorSize c) Buffer)\<rparr>
          in if Mode c = IOCACHE_WRITEBACK
             then (1, c\<lparr>Pages := (Pages c)[i := page]\<rparr>, Write Sector (take (SectorSize c) Buffer) d)
             else (1, c\<lparr>Pages := (Pages c)[i := page\<lparr>DirtySectors := DirtySectors page OR sector_mask c Sector\<rparr>]\<rparr>, d)
        else (0, c, d))"

definition IOCache_Flush :: "'d write_callback \<Rightarrow> tIOCache \<Rightarrow> 'd \<Rightarrow> 'd" where
  "IOCache_Flush Write c d =
     (if Mode c = IOCACHE_VIRTUAL \<or> CacheSize c = 0 then d else fold (flush_page Write c) (Pages c) d)"

section \<open>Coherence\<close>

text \<open>
  A page is coherent with a disk when each sector it claims to have holds the bytes of the disk; a
  cache when its pages are sorted and coherent and none is dirty.
\<close>

definition page_ok :: "(nat \<Rightarrow> 8 word) \<Rightarrow> nat \<Rightarrow> tIOCache_PageInfo \<Rightarrow> bool" where
  "page_ok disk ss p \<longleftrightarrow> PAGE_SIZE dvd BaseOffset p \<and> length (PageData p) = PAGE_SIZE \<and> DirtySectors p = 0 \<and>
     (\<forall>k < PAGE_SIZE div ss. bit (PresentSectors p) k \<longrightarrow>
        slice (PageData p) (k * ss) ss = span disk (BaseOffset p + k * ss) ss)"

definition cache_ok :: "(nat \<Rightarrow> 8 word) \<Rightarrow> tIOCache \<Rightarrow> bool" where
  "cache_ok disk c \<longleftrightarrow> 512 \<le> SectorSize c \<and> SectorSize c dvd PAGE_SIZE \<and> 0 < CacheSize c \<and> CacheUsed c \<le> CacheSize c \<and>
     Mode c = IOCACHE_WRITEBACK \<and> sorted_wrt (<) (map BaseOffset (Pages c)) \<and> (\<forall>p \<in> set (Pages c). page_ok disk (SectorSize c) p)"

lemma find_page_found: "find_page w ps i = (True, j) \<Longrightarrow> \<exists>k < length ps. j = i + k \<and> BaseOffset (ps ! k) = w"
proof (induction ps arbitrary: i)
  case (Cons p ps)
  show ?case
  proof (cases "BaseOffset p < w")
    case True
    with Cons.IH [of "i + 1"] Cons.prems obtain k where "k < length ps" "j = i + 1 + k" "BaseOffset (ps ! k) = w" by auto
    then show ?thesis by (intro exI [of _ "Suc k"]) simp
  next
    case False
    then show ?thesis using Cons.prems by (intro exI [of _ 0]) (auto split: if_splits)
  qed
qed simp

lemma find_page_missing:
  "sorted_wrt (<) (map BaseOffset ps) \<Longrightarrow> find_page w ps i = (False, j) \<Longrightarrow>
   \<exists>k \<le> length ps. j = i + k \<and> (\<forall>p \<in> set (take k ps). BaseOffset p < w) \<and> (\<forall>p \<in> set (drop k ps). w < BaseOffset p)"
proof (induction ps arbitrary: i)
  case (Cons p ps)
  show ?case
  proof (cases "BaseOffset p < w")
    case True
    with Cons.IH [of "i + 1"] Cons.prems obtain k where "k \<le> length ps" "j = i + 1 + k"
      "\<forall>p \<in> set (take k ps). BaseOffset p < w" "\<forall>p \<in> set (drop k ps). w < BaseOffset p" by auto
    then show ?thesis using True by (intro exI [of _ "Suc k"]) simp
  next
    case False
    then show ?thesis using Cons.prems by (intro exI [of _ 0]) (auto split: if_splits)
  qed
qed simp

text \<open>Where a sector lies in its page.\<close>

lemma sector_place:
  assumes "512 \<le> SectorSize c" "SectorSize c dvd PAGE_SIZE" "Sector * SectorSize c < 2 ^ 64"
  shows "wanted_base c Sector + sector_offset c Sector = Sector * SectorSize c"
    "sector_offset c Sector = sector_offset c Sector div SectorSize c * SectorSize c"
    "sector_offset c Sector div SectorSize c < PAGE_SIZE div SectorSize c"
    "sector_offset c Sector + SectorSize c \<le> PAGE_SIZE"
    "PAGE_SIZE div SectorSize c \<le> 8"
    "PAGE_SIZE dvd wanted_base c Sector"
proof -
  obtain q where q: "PAGE_SIZE = SectorSize c * q" using assms(2) by (metis dvdE)
  have off: "sector_offset c Sector = Sector * SectorSize c mod PAGE_SIZE"
    using assms(3) by (simp add: sector_offset_def u64_id)
  have "Sector * SectorSize c mod (SectorSize c * q) = Sector mod q * SectorSize c"
    by (metis mod_mult_mult1 mult.commute)
  then have off2: "sector_offset c Sector = Sector mod q * SectorSize c" using off q by simp
  have pos: "0 < SectorSize c" "0 < q" using assms(1) q by (auto intro: gr0I)
  show "wanted_base c Sector + sector_offset c Sector = Sector * SectorSize c"
    using assms(3) by (simp add: wanted_base_def sector_offset_def align_down_def u64_id)
  show "sector_offset c Sector = sector_offset c Sector div SectorSize c * SectorSize c" using off2 pos by simp
  have less: "Sector mod q < q" using pos by simp
  have "PAGE_SIZE div SectorSize c = q" unfolding q using pos by simp
  then show "sector_offset c Sector div SectorSize c < PAGE_SIZE div SectorSize c" using off2 less pos by simp
  have "Sector mod q * SectorSize c + SectorSize c = Suc (Sector mod q) * SectorSize c" by simp
  also have "\<dots> \<le> q * SectorSize c" using less by (intro mult_le_mono1) simp
  finally show "sector_offset c Sector + SectorSize c \<le> PAGE_SIZE" using off2 q by (simp add: mult.commute)
  show "PAGE_SIZE div SectorSize c \<le> 8" using assms(1) div_le_mono2 [of 512 "SectorSize c" PAGE_SIZE] by simp
  show "PAGE_SIZE dvd wanted_base c Sector" by (simp add: wanted_base_def)
qed

lemma mask_bit:
  assumes "512 \<le> SectorSize c" "SectorSize c dvd PAGE_SIZE" "Sector * SectorSize c < 2 ^ 64"
  shows "w AND sector_mask c Sector \<noteq> 0 \<longleftrightarrow> bit w (sector_offset c Sector div SectorSize c)"
  by (simp add: sector_mask_def push_bit_of_1 and_exp_eq_0_iff_not_bit)

lemma offset_distinct:
  assumes "sorted_wrt (<) (map BaseOffset ps)" "i < length ps" "j < length ps" "BaseOffset (ps ! i) = BaseOffset (ps ! j)"
  shows "i = j"
proof -
  have "i < j \<Longrightarrow> BaseOffset (ps ! i) < BaseOffset (ps ! j)" "j < i \<Longrightarrow> BaseOffset (ps ! j) < BaseOffset (ps ! i)"
    using sorted_wrt_nth_less [OF assms(1)] assms(2,3) by force+
  then show ?thesis using assms(4) by (cases i j rule: linorder_cases) auto
qed

lemma offset_unique:
  assumes "sorted_wrt (<) (map BaseOffset ps)" "i < length ps" "p \<in> set ps" "BaseOffset p = BaseOffset (ps ! i)"
  shows "p = ps ! i"
  using assms(3,4) offset_distinct [OF assms(1,2)] by (metis in_set_conv_nth)

lemma Has_iff:
  assumes "cache_ok disk c" "Sector * SectorSize c < 2 ^ 64"
  shows "IOCache_Has c Sector \<longleftrightarrow>
    (\<exists>p \<in> set (Pages c). BaseOffset p = wanted_base c Sector \<and> bit (PresentSectors p) (sector_offset c Sector div SectorSize c))"
proof -
  obtain f i where fi: "find_page (wanted_base c Sector) (Pages c) 0 = (f, i)" by fastforce
  have mask: "w AND sector_mask c Sector \<noteq> 0 \<longleftrightarrow> bit w (sector_offset c Sector div SectorSize c)" for w
    using mask_bit [of c Sector w] assms by (simp add: cache_ok_def)
  have sorted: "sorted_wrt (<) (map BaseOffset (Pages c))" using assms(1) by (simp add: cache_ok_def)
  show ?thesis
  proof (cases f)
    case True
    with find_page_found fi have i: "i < length (Pages c)" "BaseOffset (Pages c ! i) = wanted_base c Sector" by fastforce+
    then show ?thesis
      using True fi mask offset_unique [OF sorted i(1)] nth_mem [OF i(1)]
      by (auto simp: IOCache_Has_def IOCache_int_GetPage_def)
  next
    case False
    then obtain k where k: "\<forall>p \<in> set (take k (Pages c)). BaseOffset p < wanted_base c Sector"
      "\<forall>p \<in> set (drop k (Pages c)). wanted_base c Sector < BaseOffset p"
      using find_page_missing [OF sorted, of "wanted_base c Sector" 0 i] fi by auto
    have "set (Pages c) = set (take k (Pages c)) \<union> set (drop k (Pages c))"
      by (metis append_take_drop_id set_append)
    then have "BaseOffset p \<noteq> wanted_base c Sector" if "p \<in> set (Pages c)" for p
      using that k by auto
    then show ?thesis using False fi by (auto simp: IOCache_Has_def IOCache_int_GetPage_def)
  qed
qed

text \<open>A cached sector is read as the disk has it; another one is reported as missing.\<close>

lemma cache_ok_update:
  assumes "cache_ok disk c" "i < length (Pages c)" "BaseOffset p = BaseOffset (Pages c ! i)" "page_ok disk (SectorSize c) p"
  shows "cache_ok disk (c\<lparr>Pages := (Pages c)[i := p]\<rparr>)"
proof -
  have "map BaseOffset ((Pages c)[i := p]) = map BaseOffset (Pages c)"
    using assms(2,3) by (simp add: map_update list_update_same_conv)
  then show ?thesis using assms by (auto simp: cache_ok_def dest: subsetD [OF set_update_subset_insert])
qed

lemma Read_coherent:
  assumes "cache_ok disk c" "Sector * SectorSize c < 2 ^ 64"
  shows "IOCache_Has c Sector \<Longrightarrow> \<exists>c'. IOCache_Read now Sector c = (1, span disk (Sector * SectorSize c) (SectorSize c), c') \<and>
      cache_ok disk c' \<and> SectorSize c' = SectorSize c"
    "\<not> IOCache_Has c Sector \<Longrightarrow> IOCache_Read now Sector c = (0, [], c)"
proof -
  obtain f i where fi: "find_page (wanted_base c Sector) (Pages c) 0 = (f, i)" by fastforce
  have size: "CacheSize c \<noteq> 0" "512 \<le> SectorSize c" "SectorSize c dvd PAGE_SIZE" using assms(1) by (auto simp: cache_ok_def)
  note place = sector_place [OF size(2,3) assms(2)]
  show "IOCache_Read now Sector c = (0, [], c)" if "\<not> IOCache_Has c Sector"
    using that size by (auto simp: IOCache_Read_def IOCache_Has_def split: prod.splits)
  assume has: "IOCache_Has c Sector"
  then have f: "f" and bit: "bit (PresentSectors (Pages c ! i)) (sector_offset c Sector div SectorSize c)"
    using fi mask_bit [OF size(2,3) assms(2)] by (auto simp: IOCache_Has_def IOCache_int_GetPage_def)
  have i: "i < length (Pages c)" "BaseOffset (Pages c ! i) = wanted_base c Sector"
    using find_page_found [of "wanted_base c Sector" "Pages c" 0 i] fi f by auto
  then have page: "page_ok disk (SectorSize c) (Pages c ! i)" using assms(1) by (auto simp: cache_ok_def)
  then have "slice (PageData (Pages c ! i)) (sector_offset c Sector) (SectorSize c) =
      span disk (wanted_base c Sector + sector_offset c Sector) (SectorSize c)"
    using bit place(2,3) i(2) by (metis page_ok_def)
  moreover have "cache_ok disk (c\<lparr>Pages := (Pages c)[i := (Pages c ! i)\<lparr>LastAccess := now\<rparr>]\<rparr>)"
    using page by (intro cache_ok_update [OF assms(1) i(1)]) (simp_all add: page_ok_def)
  ultimately show "\<exists>c'. IOCache_Read now Sector c = (1, span disk (Sector * SectorSize c) (SectorSize c), c') \<and>
      cache_ok disk c' \<and> SectorSize c' = SectorSize c"
    using has fi size place(1) by (auto simp: IOCache_Read_def IOCache_Has_def IOCache_int_GetPage_def)
qed

text \<open>
  Adding a sector with the bytes of the disk keeps the cache coherent and does not touch the device.
  The sector is found afterwards only when its page was there before.
\<close>

lemma page_ok_fill:
  assumes "page_ok disk ss p" "0 < ss" "k < PAGE_SIZE div ss" "k * ss + ss \<le> PAGE_SIZE" "length data = ss"
    "data = span disk (BaseOffset p + k * ss) ss"
  shows "page_ok disk ss (p\<lparr>PageData := blit (PageData p) (k * ss) data, PresentSectors := PresentSectors p OR push_bit k 1\<rparr>)"
proof -
  have "slice (blit (PageData p) (k * ss) data) (j * ss) ss = span disk (BaseOffset p + j * ss) ss"
    if j: "j < PAGE_SIZE div ss" "bit (PresentSectors p OR push_bit k 1) j" for j
  proof (cases "j = k")
    case True
    then show ?thesis
      using assms slice_blit_same [of "k * ss" "PageData p" data] by (simp add: page_ok_def)
  next
    case False
    then have "bit (PresentSectors p) j" using j(2) by (auto simp: bit_simps)
    moreover have "j * ss + ss \<le> k * ss \<or> k * ss + ss \<le> j * ss"
      using False mult_le_mono1 [of "Suc j" k ss] mult_le_mono1 [of "Suc k" j ss] by (auto simp: neq_iff Suc_le_eq)
    moreover have "Suc j * ss \<le> PAGE_SIZE div ss * ss" using j(1) by (intro mult_le_mono1) simp
    then have "j * ss + ss \<le> PAGE_SIZE"
      using order_trans [OF _ div_times_less_eq_dividend [of PAGE_SIZE ss]] by (simp add: add.commute)
    ultimately show ?thesis
      using assms j(1) slice_blit_other [of "k * ss" data "PageData p" "j * ss" ss] by (simp add: page_ok_def)
  qed
  then show ?thesis using assms by (simp add: page_ok_def blit_length)
qed

lemma Add_coherent:
  assumes "cache_ok disk c" "Sector * SectorSize c < 2 ^ 64" "length fresh = PAGE_SIZE" "\<not> IOCache_Has c Sector"
    "length Buffer = SectorSize c" "Buffer = span disk (Sector * SectorSize c) (SectorSize c)"
  shows "\<exists>c'. IOCache_Add Write now fresh Sector Buffer c d = Some (1, c', d) \<and> cache_ok disk c' \<and> SectorSize c' = SectorSize c \<and>
    (IOCache_Has c' Sector \<longleftrightarrow> (\<exists>p \<in> set (Pages c). BaseOffset p = wanted_base c Sector))"
proof -
  obtain f i where fi: "find_page (wanted_base c Sector) (Pages c) 0 = (f, i)" by fastforce
  have size: "CacheSize c \<noteq> 0" "512 \<le> SectorSize c" "SectorSize c dvd PAGE_SIZE" "CacheUsed c \<le> CacheSize c"
    "sorted_wrt (<) (map BaseOffset (Pages c))" using assms(1) by (auto simp: cache_ok_def)
  note place = sector_place [OF size(2,3) assms(2)]
  define k where "k = sector_offset c Sector div SectorSize c"
  have off: "sector_offset c Sector = k * SectorSize c" "sector_mask c Sector = push_bit k 1"
    using place(2) by (simp_all add: k_def sector_mask_def)
  show ?thesis
  proof (cases f)
    case True
    then have i: "i < length (Pages c)" "BaseOffset (Pages c ! i) = wanted_base c Sector"
      using find_page_found [of "wanted_base c Sector" "Pages c" 0 i] fi by auto
    define p1 where "p1 = (Pages c ! i)\<lparr>PageData := blit (PageData (Pages c ! i)) (k * SectorSize c) Buffer,
      PresentSectors := PresentSectors (Pages c ! i) OR push_bit k 1\<rparr>"
    define c1 where "c1 = c\<lparr>Pages := (Pages c)[i := p1]\<rparr>"
    have "page_ok disk (SectorSize c) (Pages c ! i)" using assms(1) i by (auto simp: cache_ok_def)
    then have "page_ok disk (SectorSize c) p1"
      unfolding p1_def using size place assms(5,6) i(2) by (intro page_ok_fill) (simp_all flip: k_def off)
    then have c1: "cache_ok disk c1" unfolding c1_def by (intro cache_ok_update [OF assms(1) i(1)]) (simp_all add: p1_def)
    have "wanted_base c1 Sector = BaseOffset p1" "sector_offset c1 Sector div SectorSize c1 = k" "SectorSize c1 = SectorSize c"
      using i(2) by (simp_all add: c1_def wanted_base_def sector_offset_def k_def p1_def)
    moreover have "p1 \<in> set (Pages c1)" using i(1) by (simp add: c1_def set_update_memI)
    moreover have "k < 32" using place(3,5) by (simp add: k_def)
    then have "bit (PresentSectors p1) k" by (simp add: p1_def bit_simps)
    ultimately have has: "IOCache_Has c1 Sector" using Has_iff [OF c1, of Sector] assms(2) by auto
    have "PresentSectors (Pages c ! i) AND push_bit k 1 = 0"
      using assms(4) fi True by (simp add: IOCache_Has_def IOCache_int_GetPage_def off)
    then have "IOCache_Add Write now fresh Sector Buffer c d = Some (1, c1, d)"
      using fi True size assms(5)
      by (simp add: IOCache_Add_def IOCache_int_GetPage_def off Let_def c1_def p1_def del: push_bit_of_1)
    then show ?thesis using c1 has i nth_mem [OF i(1)] by (auto simp: c1_def)
  next
    case False
    then obtain j where j: "i = j" "j \<le> length (Pages c)"
      "\<forall>p \<in> set (take j (Pages c)). BaseOffset p < wanted_base c Sector"
      "\<forall>p \<in> set (drop j (Pages c)). wanted_base c Sector < BaseOffset p"
      using find_page_missing [OF size(5), of "wanted_base c Sector" 0 i] fi by auto
    define new where "new = \<lparr>LastAccess = now, PageData = blit fresh (sector_offset c Sector) Buffer,
      BaseOffset = wanted_base c Sector, PresentSectors = 0, DirtySectors = 0\<rparr>"
    have new: "page_ok disk (SectorSize c) new" "BaseOffset new = wanted_base c Sector"
      using place assms(3,5) by (simp_all add: new_def page_ok_def blit_length)
    define c' where "c' = c\<lparr>Pages := take i (Pages c) @ [new] @ drop i (Pages c)\<rparr>"
    have "sorted_wrt (<) (map BaseOffset (take i (Pages c)) @ map BaseOffset (drop i (Pages c)))"
      using size(5) by (simp flip: map_append)
    then have "sorted_wrt (<) (map BaseOffset (Pages c'))"
      using j new(2) unfolding sorted_wrt_append by (auto simp: c'_def sorted_wrt_append)
    moreover have "\<forall>p \<in> set (Pages c'). page_ok disk (SectorSize c) p"
      using assms(1) new(1) unfolding c'_def by (auto simp: cache_ok_def dest: in_set_takeD in_set_dropD)
    ultimately have "cache_ok disk c'" using assms(1) unfolding cache_ok_def by (simp add: c'_def)
    moreover have "IOCache_Add Write now fresh Sector Buffer c d = Some (1, c', d)"
      using fi False size assms(5) by (simp add: IOCache_Add_def IOCache_int_GetPage_def c'_def new_def)
    moreover have "\<not> IOCache_Has c' Sector" "\<forall>p \<in> set (Pages c). BaseOffset p \<noteq> wanted_base c Sector"
    proof -
      have "set (Pages c) = set (take j (Pages c)) \<union> set (drop j (Pages c))"
        by (metis append_take_drop_id set_append)
      then show *: "\<forall>p \<in> set (Pages c). BaseOffset p \<noteq> wanted_base c Sector" using j by auto
      have "wanted_base c' Sector = wanted_base c Sector" "SectorSize c' = SectorSize c"
        by (simp_all add: c'_def wanted_base_def)
      then show "\<not> IOCache_Has c' Sector"
        using Has_iff [OF \<open>cache_ok disk c'\<close>, of Sector] assms(2) *
        by (auto simp: c'_def new_def dest: in_set_takeD in_set_dropD)
    qed
    ultimately show ?thesis by (auto simp: c'_def)
  qed
qed

lemma Add_keeps_coherence:
  assumes "cache_ok disk c" "Sector * SectorSize c < 2 ^ 64" "length fresh = PAGE_SIZE"
    "Buffer = span disk (Sector * SectorSize c) (SectorSize c)"
  shows "\<exists>r c'. IOCache_Add Write now fresh Sector Buffer c d = Some (r, c', d) \<and> cache_ok disk c' \<and> SectorSize c' = SectorSize c"
proof (cases "IOCache_Has c Sector")
  case True
  then have "IOCache_Add Write now fresh Sector Buffer c d = Some (0, c, d)"
    using assms(1) by (auto simp: IOCache_Add_def IOCache_Has_def cache_ok_def split: prod.splits)
  then show ?thesis using assms(1) by blast
next
  case False
  then show ?thesis using Add_coherent [OF assms(1-3) False _ assms(4)] assms(4) by fastforce
qed

text \<open>
  A write to a cached sector reaches the device and keeps the cache coherent with the changed disk; a
  write to another sector changes nothing.
\<close>

lemma page_ok_overwrite:
  assumes "page_ok disk ss p" "0 < ss" "a + length data \<le> BaseOffset p \<or> BaseOffset p + PAGE_SIZE \<le> a"
  shows "page_ok (overwrite disk a data) ss p"
proof -
  have "span (overwrite disk a data) (BaseOffset p + k * ss) ss = span disk (BaseOffset p + k * ss) ss" if "k < PAGE_SIZE div ss" for k
  proof (rule span_overwrite_other)
    have "Suc k * ss \<le> PAGE_SIZE div ss * ss" using that by (intro mult_le_mono1) simp
    then have "k * ss + ss \<le> PAGE_SIZE"
      using order_trans [OF _ div_times_less_eq_dividend [of PAGE_SIZE ss]] by (simp add: add.commute)
    then show "BaseOffset p + k * ss + ss \<le> a \<or> a + length data \<le> BaseOffset p + k * ss" using assms(3) by linarith
  qed
  then show ?thesis using assms(1) by (simp add: page_ok_def)
qed

lemma page_ok_write:
  assumes "page_ok disk ss p" "0 < ss" "k < PAGE_SIZE div ss" "k * ss + ss \<le> PAGE_SIZE" "length data = ss"
    "bit (PresentSectors p) k"
  shows "page_ok (overwrite disk (BaseOffset p + k * ss) data) ss (p\<lparr>LastAccess := t, PageData := blit (PageData p) (k * ss) data\<rparr>)"
proof -
  have "slice (blit (PageData p) (k * ss) data) (j * ss) ss = span (overwrite disk (BaseOffset p + k * ss) data) (BaseOffset p + j * ss) ss"
    if j: "j < PAGE_SIZE div ss" "bit (PresentSectors p) j" for j
  proof (cases "j = k")
    case True
    then show ?thesis
      using assms slice_blit_same [of "k * ss" "PageData p" data] by (simp add: page_ok_def span_overwrite_same)
  next
    case False
    have *: "j * ss + ss \<le> k * ss \<or> k * ss + ss \<le> j * ss"
      using False mult_le_mono1 [of "Suc j" k ss] mult_le_mono1 [of "Suc k" j ss] by (auto simp: neq_iff Suc_le_eq)
    have "Suc j * ss \<le> PAGE_SIZE div ss * ss" using j(1) by (intro mult_le_mono1) simp
    then have "j * ss + ss \<le> PAGE_SIZE"
      using order_trans [OF _ div_times_less_eq_dividend [of PAGE_SIZE ss]] by (simp add: add.commute)
    moreover have "span (overwrite disk (BaseOffset p + k * ss) data) (BaseOffset p + j * ss) ss = span disk (BaseOffset p + j * ss) ss"
      using * assms(5) by (intro span_overwrite_other) auto
    ultimately show ?thesis
      using assms j * slice_blit_other [of "k * ss" data "PageData p" "j * ss" ss] by (simp add: page_ok_def)
  qed
  then show ?thesis using assms by (simp add: page_ok_def blit_length)
qed

lemma Write_missing: "0 < CacheSize c \<Longrightarrow> \<not> IOCache_Has c Sector \<Longrightarrow> IOCache_Write Write now Sector Buffer c d = (0, c, d)"
  by (auto simp: IOCache_Write_def IOCache_Has_def split: prod.splits)

lemma Write_coherent:
  assumes "cache_ok disk c" "Sector * SectorSize c < 2 ^ 64" "IOCache_Has c Sector" "length Buffer = SectorSize c"
  shows "\<exists>c'. IOCache_Write Write now Sector Buffer c d = (1, c', Write Sector Buffer d) \<and>
    cache_ok (overwrite disk (Sector * SectorSize c) Buffer) c' \<and> SectorSize c' = SectorSize c"
proof -
  obtain f i where fi: "find_page (wanted_base c Sector) (Pages c) 0 = (f, i)" by fastforce
  have size: "CacheSize c \<noteq> 0" "512 \<le> SectorSize c" "SectorSize c dvd PAGE_SIZE" "Mode c = IOCACHE_WRITEBACK"
    "sorted_wrt (<) (map BaseOffset (Pages c))" "\<forall>p \<in> set (Pages c). page_ok disk (SectorSize c) p"
    using assms(1) by (auto simp: cache_ok_def)
  note place = sector_place [OF size(2,3) assms(2)]
  define k where "k = sector_offset c Sector div SectorSize c"
  have off: "sector_offset c Sector = k * SectorSize c" using place(2) by (simp add: k_def)
  have f: "f" and bit: "bit (PresentSectors (Pages c ! i)) k"
    and here: "PresentSectors (Pages c ! i) AND sector_mask c Sector \<noteq> 0"
    using assms(3) fi mask_bit [OF size(2,3) assms(2)] by (auto simp: IOCache_Has_def IOCache_int_GetPage_def k_def)
  have i: "i < length (Pages c)" "BaseOffset (Pages c ! i) = wanted_base c Sector"
    using find_page_found [of "wanted_base c Sector" "Pages c" 0 i] fi f by auto
  define p' where "p' = (Pages c ! i)\<lparr>LastAccess := now, PageData := blit (PageData (Pages c ! i)) (sector_offset c Sector) Buffer\<rparr>"
  let ?disk = "overwrite disk (Sector * SectorSize c) Buffer"
  have p': "page_ok ?disk (SectorSize c) p'" "BaseOffset p' = BaseOffset (Pages c ! i)"
    using page_ok_write [of disk "SectorSize c" "Pages c ! i" k Buffer now] size place assms(4) bit i
    by (simp_all add: p'_def off flip: k_def)
  have other: "page_ok ?disk (SectorSize c) (Pages c ! j)" if j: "j < length (Pages c)" "j \<noteq> i" for j
  proof (rule page_ok_overwrite)
    have "BaseOffset (Pages c ! j) \<noteq> wanted_base c Sector" using offset_distinct [OF size(5) i(1) j(1)] j(2) i(2) by auto
    moreover have "PAGE_SIZE dvd BaseOffset (Pages c ! j)" using j(1) size(6) by (auto simp: page_ok_def)
    ultimately have "BaseOffset (Pages c ! j) + PAGE_SIZE \<le> wanted_base c Sector \<or> wanted_base c Sector + PAGE_SIZE \<le> BaseOffset (Pages c ! j)"
      using place(6) by (auto elim!: dvdE)
    then show "Sector * SectorSize c + length Buffer \<le> BaseOffset (Pages c ! j) \<or> BaseOffset (Pages c ! j) + PAGE_SIZE \<le> Sector * SectorSize c"
      using place(1,4) assms(4) by linarith
  qed (use size j in auto)
  have "page_ok ?disk (SectorSize c) p" if mem: "p \<in> set ((Pages c)[i := p'])" for p
  proof -
    obtain j where "j < length (Pages c)" "p = (Pages c)[i := p'] ! j" using mem by (auto simp: in_set_conv_nth)
    then show ?thesis using other p'(1) by (cases "j = i") auto
  qed
  moreover have "map BaseOffset ((Pages c)[i := p']) = map BaseOffset (Pages c)"
    using i(1) p'(2) by (simp add: map_update list_update_same_conv)
  ultimately have "cache_ok ?disk (c\<lparr>Pages := (Pages c)[i := p']\<rparr>)"
    using assms(1) by (simp add: cache_ok_def)
  then show ?thesis
    using fi f here size assms(4) by (simp add: IOCache_Write_def IOCache_int_GetPage_def Let_def p'_def)
qed

text \<open>A new cache is coherent with every disk. A sector that is added with its page is not found afterwards.\<close>

lemma Create_coherent:
  "IOCache_Create ok ss n = Some c \<Longrightarrow> nat ss dvd PAGE_SIZE \<Longrightarrow> cache_ok disk c \<and> SectorSize c = nat ss \<and> (\<forall>i. \<not> IOCache_Has c i)"
  by (auto simp: IOCache_Create_def cache_ok_def IOCache_Has_def IOCache_int_GetPage_def split: if_splits)

end
