(* ===== verification/Logical_Volumes.thy ===== *)
theory Logical_Volumes
  imports Disk_Util IO_Cache
begin

text \<open>
  The logical volume manager, \<open>Modules/Storage/LVM\<close>: volumes on top of a storage driver, read through
  the sector cache, and the partitions (sub-volumes) found in the master boot record.

  A driver is its table of functions \<open>tLVM_VolType\<close>, as in the code; the state of the device it drives
  is the type variable. \<open>Read\<close> returns its result and the bytes it stored, \<open>Write\<close> its result. What the
  manager relies on is the predicate \<open>drives\<close>. For every block the environment has the time at which
  it is looked up and the former contents of a page allocated for it.
\<close>

record 'd tLVM_VolType =
  vt_Read :: "nat \<Rightarrow> nat \<Rightarrow> 'd \<Rightarrow> int \<times> bytes \<times> 'd"
  vt_Write :: "nat \<Rightarrow> nat \<Rightarrow> bytes \<Rightarrow> 'd \<Rightarrow> int \<times> 'd"

record tLVM_SubVolume =
  sv_FirstBlock :: nat
  sv_BlockCount :: nat

record 'd tLVM_Vol =
  Ptr :: 'd
  Type :: "'d tLVM_VolType"
  BlockSize :: nat
  BlockCount :: nat
  nSubVolumes :: nat
  SubVolumes :: "tLVM_SubVolume option list"
  CacheHandle :: "tIOCache option"

record io_env =
  env_now :: "nat \<Rightarrow> int"
  env_fresh :: "nat \<Rightarrow> nat \<Rightarrow> 8 word"

section \<open>Blocks of a volume\<close>

definition LVM_int_CacheWriteback :: "'d tLVM_VolType \<Rightarrow> nat \<Rightarrow> bytes \<Rightarrow> 'd \<Rightarrow> 'd" where
  "LVM_int_CacheWriteback T Sector Buffer d = snd (vt_Write T Sector 1 Buffer d)"

text \<open>The blocks that are in the cache, copied from there.\<close>

function hit_run :: "io_env \<Rightarrow> nat \<Rightarrow> nat \<Rightarrow> nat \<Rightarrow> nat \<Rightarrow> bytes \<Rightarrow> tIOCache \<Rightarrow> nat \<times> bytes \<times> tIOCache" where
  "hit_run e bs BlockNum n done Dest c =
     (if done < n then
        (let (r, data, c) = IOCache_Read (env_now e (BlockNum + done)) (BlockNum + done) c
         in if r = 1 then hit_run e bs BlockNum n (done + 1) (blit Dest (done * bs) data) c else (done, Dest, c))
      else (done, Dest, c))"
  by pat_completeness auto

termination by (relation "measure (\<lambda>(e, bs, b, n, k, D, c). n - k)") auto

declare hit_run.simps [simp del]

text \<open>The number of blocks after the following ones that are not. A miss leaves buffer and cache as they are.\<close>

function miss_run :: "io_env \<Rightarrow> nat \<Rightarrow> nat \<Rightarrow> nat \<Rightarrow> tIOCache \<Rightarrow> nat" where
  "miss_run e BlockNum n done c =
     (if done < n \<and> fst (IOCache_Read (env_now e (BlockNum + done)) (BlockNum + done) c) = 0
      then miss_run e BlockNum n (done + 1) c else done)"
  by pat_completeness auto

termination by (relation "measure (\<lambda>(e, b, n, k, c). n - k)") auto

declare miss_run.simps [simp del]

fun add_run :: "io_env \<Rightarrow> 'd tLVM_VolType \<Rightarrow> nat \<Rightarrow> nat \<Rightarrow> nat \<Rightarrow> nat \<Rightarrow> bytes \<Rightarrow> tIOCache \<Rightarrow> 'd \<Rightarrow> (tIOCache \<times> 'd) option" where
  "add_run e T bs BlockNum first 0 Dest c d = Some (c, d)"
| "add_run e T bs BlockNum first (Suc count) Dest c d = do {
     (r, c, d) \<leftarrow> IOCache_Add (LVM_int_CacheWriteback T) (env_now e (BlockNum + first))
       (span (env_fresh e (BlockNum + first)) 0 PAGE_SIZE) (BlockNum + first) (slice Dest (first * bs) bs) c d;
     add_run e T bs BlockNum (first + 1) count Dest c d
   }"

text \<open>
  The outer loop. It makes no progress when the cache answers with an error. The result of the driver
  is not looked at.
\<close>

partial_function (option) volume_loop ::
  "io_env \<Rightarrow> 'd tLVM_VolType \<Rightarrow> nat \<Rightarrow> nat \<Rightarrow> nat \<Rightarrow> nat \<Rightarrow> bytes \<Rightarrow> tIOCache \<Rightarrow> 'd \<Rightarrow> (nat \<times> bytes \<times> tIOCache \<times> 'd) option" where
  "volume_loop e T bs BlockNum n done Dest c d =
     (if done < n then
        (let (done, Dest, c) = hit_run e bs BlockNum n done Dest c;
             first = done; done = miss_run e BlockNum n done c
         in if done - first \<noteq> 0
            then (let (r, data, d) = vt_Read T (BlockNum + first) (done - first) d; Dest = blit Dest (first * bs) data
                  in Option.bind (add_run e T bs BlockNum first (done - first) Dest c d)
                       (\<lambda>(c, d). volume_loop e T bs BlockNum n done Dest c d))
            else volume_loop e T bs BlockNum n done Dest c d)
      else Some (done, Dest, c, d))"

definition LVM_int_ReadVolume :: "io_env \<Rightarrow> 'd tLVM_Vol read_blocks" where
  "LVM_int_ReadVolume e BlockNum n Dest v =
     (case CacheHandle v of
        Some c \<Rightarrow> map_option (\<lambda>(done, Dest, c, d). (done, Dest, v\<lparr>CacheHandle := Some c, Ptr := d\<rparr>))
          (volume_loop e (Type v) (BlockSize v) BlockNum n 0 Dest c (Ptr v))
      | None \<Rightarrow> let (r, data, d) = vt_Read (Type v) BlockNum n (Ptr v)
          in Some (nat (r mod 4294967296), blit Dest 0 data, v\<lparr>Ptr := d\<rparr>))"

fun write_run :: "io_env \<Rightarrow> 'd tLVM_VolType \<Rightarrow> nat \<Rightarrow> nat \<Rightarrow> nat \<Rightarrow> bytes \<Rightarrow> tIOCache \<Rightarrow> 'd \<Rightarrow> tIOCache \<times> 'd" where
  "write_run e T bs BlockNum 0 Src c d = (c, d)"
| "write_run e T bs BlockNum (Suc n) Src c d =
     (let (r, c, d) = IOCache_Write (LVM_int_CacheWriteback T) (env_now e BlockNum) BlockNum (take bs Src) c d
      in write_run e T bs (BlockNum + 1) n (drop bs Src) c d)"

definition LVM_int_WriteVolume :: "io_env \<Rightarrow> 'd tLVM_Vol write_blocks" where
  "LVM_int_WriteVolume e BlockNum n Src v =
     (case CacheHandle v of
        Some c \<Rightarrow> let (c, d) = write_run e (Type v) (BlockSize v) BlockNum n Src c (Ptr v)
          in Some (n, v\<lparr>CacheHandle := Some c, Ptr := d\<rparr>)
      | None \<Rightarrow> let (r, d) = vt_Write (Type v) BlockNum n Src (Ptr v)
          in Some (nat (r mod 4294967296), v\<lparr>Ptr := d\<rparr>))"

section \<open>Bytes of volumes and partitions\<close>

definition LVM_int_DrvUtil_ReadBlock :: "io_env \<Rightarrow> 'd tLVM_Vol read_blocks" where
  "LVM_int_DrvUtil_ReadBlock e Address Count Buffer v = LVM_int_ReadVolume e Address Count Buffer v"

definition LVM_int_DrvUtil_WriteBlock :: "io_env \<Rightarrow> 'd tLVM_Vol write_blocks" where
  "LVM_int_DrvUtil_WriteBlock e Address Count Buffer v = LVM_int_WriteVolume e Address Count Buffer v"

text \<open>How an access is cut at the end; \<^const>\<open>None\<close> when it starts behind it.\<close>

definition clip :: "nat \<Rightarrow> nat \<Rightarrow> nat \<Rightarrow> nat option" where
  "clip byte_size Offset Len =
     (if Offset > byte_size then None
      else let Len = (if Len > byte_size then byte_size else Len)
        in Some (if u64 (Offset + Len) > byte_size then byte_size - Offset else Len))"

definition LVM_Vol_Read ::
  "io_env \<Rightarrow> nat \<Rightarrow> nat \<Rightarrow> bytes \<Rightarrow> bytes \<Rightarrow> 'd tLVM_Vol \<Rightarrow> (nat \<times> bytes \<times> 'd tLVM_Vol) option" where
  "LVM_Vol_Read e Offset Len Buffer tmp v =
     (case clip (u64 (BlockCount v * BlockSize v)) Offset Len of
        None \<Rightarrow> Some (0, Buffer, v)
      | Some Len \<Rightarrow> DrvUtil_ReadBlock Offset Len Buffer (LVM_int_DrvUtil_ReadBlock e) (BlockSize v) tmp v)"

definition LVM_Vol_Write :: "nat \<Rightarrow> nat \<Rightarrow> bytes \<Rightarrow> 'd tLVM_Vol \<Rightarrow> nat \<times> 'd tLVM_Vol" where
  "LVM_Vol_Write Offset Len Buffer v = (0, v)"

definition LVM_SubVol_Read ::
  "io_env \<Rightarrow> tLVM_SubVolume \<Rightarrow> nat \<Rightarrow> nat \<Rightarrow> bytes \<Rightarrow> bytes \<Rightarrow> 'd tLVM_Vol \<Rightarrow> (nat \<times> bytes \<times> 'd tLVM_Vol) option" where
  "LVM_SubVol_Read e sv Offset Len Buffer tmp v =
     (case clip (u64 (sv_BlockCount sv * BlockSize v)) Offset Len of
        None \<Rightarrow> Some (0, Buffer, v)
      | Some Len \<Rightarrow> DrvUtil_ReadBlock (u64 (Offset + sv_FirstBlock sv * BlockSize v)) Len Buffer
          (LVM_int_DrvUtil_ReadBlock e) (BlockSize v) tmp v)"

definition LVM_SubVol_Write ::
  "io_env \<Rightarrow> tLVM_SubVolume \<Rightarrow> nat \<Rightarrow> nat \<Rightarrow> bytes \<Rightarrow> bytes \<Rightarrow> 'd tLVM_Vol \<Rightarrow> (nat \<times> 'd tLVM_Vol) option" where
  "LVM_SubVol_Write e sv Offset Len Buffer tmp v =
     (case clip (u64 (sv_BlockCount sv * BlockSize v)) Offset Len of
        None \<Rightarrow> Some (0, v)
      | Some Len \<Rightarrow> DrvUtil_WriteBlock (u64 (Offset + sv_FirstBlock sv * BlockSize v)) Len Buffer
          (LVM_int_DrvUtil_ReadBlock e) (LVM_int_DrvUtil_WriteBlock e) (BlockSize v) tmp v)"

section \<open>Partitions\<close>

text \<open>Adding sub-volume \<open>Index\<close>; the flag says whether \<open>malloc\<close> finds memory.\<close>

definition LVM_int_SetSubvolume_Anon :: "bool \<Rightarrow> nat \<Rightarrow> nat \<Rightarrow> nat \<Rightarrow> 'd tLVM_Vol \<Rightarrow> 'd tLVM_Vol" where
  "LVM_int_SetSubvolume_Anon ok Index First Count v =
     (if Index \<ge> nSubVolumes v \<or> SubVolumes v ! Index \<noteq> None \<or> \<not> ok then v
      else v\<lparr>SubVolumes := (SubVolumes v)[Index := Some \<lparr>sv_FirstBlock = First, sv_BlockCount = Count\<rparr>]\<rparr>)"

text \<open>The fields of entry \<open>i\<close> of the table in a boot record.\<close>

definition le_bytes :: "bytes \<Rightarrow> nat \<Rightarrow> nat \<Rightarrow> nat" where
  "le_bytes bs a n = foldr (\<lambda>b acc. unat b + 256 * acc) (slice bs a n) 0"

definition mbr_Boot :: "bytes \<Rightarrow> nat \<Rightarrow> nat" where "mbr_Boot b i = le_bytes b (0x1BE + 16 * i) 1"
definition mbr_StartHi :: "bytes \<Rightarrow> nat \<Rightarrow> nat" where "mbr_StartHi b i = le_bytes b (0x1BE + 16 * i + 2) 2"
definition mbr_SystemID :: "bytes \<Rightarrow> nat \<Rightarrow> nat" where "mbr_SystemID b i = le_bytes b (0x1BE + 16 * i + 4) 1"
definition mbr_LengthHi :: "bytes \<Rightarrow> nat \<Rightarrow> nat" where "mbr_LengthHi b i = le_bytes b (0x1BE + 16 * i + 6) 2"
definition mbr_LBAStart :: "bytes \<Rightarrow> nat \<Rightarrow> nat" where "mbr_LBAStart b i = le_bytes b (0x1BE + 16 * i + 8) 4"
definition mbr_LBALength :: "bytes \<Rightarrow> nat \<Rightarrow> nat" where "mbr_LBALength b i = le_bytes b (0x1BE + 16 * i + 12) 4"
definition mbr_BootFlag :: "bytes \<Rightarrow> nat" where "mbr_BootFlag b = le_bytes b 0x1FE 2"

text \<open>
  Start and length of entry \<open>i\<close> in blocks, with 28 or 48 bits; \<^const>\<open>None\<close> for another kind. The upper
  16 bits are shifted as an \<open>int\<close> and joined with the lower 32 bits.
\<close>

definition mbr_range :: "bytes \<Rightarrow> nat \<Rightarrow> (nat \<times> nat) option" where
  "mbr_range b i =
     (if mbr_Boot b i = 0 \<or> mbr_Boot b i = 0x80 then Some (mbr_LBAStart b i, mbr_LBALength b i)
      else if mbr_Boot b i = 1 \<or> mbr_Boot b i = 0x81
      then Some (or (push_bit 16 (mbr_StartHi b i)) (mbr_LBAStart b i), or (push_bit 16 (mbr_LengthHi b i)) (mbr_LBALength b i))
      else None)"

definition is_extended :: "bytes \<Rightarrow> nat \<Rightarrow> bool" where
  "is_extended b i \<longleftrightarrow> mbr_SystemID b i = 0xF \<or> mbr_SystemID b i = 5"

abbreviation ext_error :: nat where "ext_error \<equiv> 0xFFFFFFFFFFFFFFFF"

text \<open>The entries of an extended boot record: the link, and whether and where a partition is.\<close>

fun ext_scan :: "bytes \<Rightarrow> nat \<Rightarrow> nat list \<Rightarrow> nat \<Rightarrow> (nat \<times> nat) option \<Rightarrow> (nat \<times> (nat \<times> nat) option)" where
  "ext_scan b Addr [] link part = ((if part = None then ext_error else link), part)"
| "ext_scan b Addr (i # is) link part =
     (if mbr_SystemID b i = 0 then ext_scan b Addr is link part
      else case mbr_range b i of None \<Rightarrow> (ext_error, part)
      | Some (base, len) \<Rightarrow>
        if is_extended b i then (if link \<noteq> 0 then (ext_error, part) else ext_scan b Addr is base part)
        else if part \<noteq> None then (ext_error, part)
        else ext_scan b Addr is link (Some (u64 (Addr + base), len)))"

text \<open>The next record and the partition found; \<open>mbr\<close> is the local record before it is read.\<close>

definition LVM_MBR_int_ReadExt ::
  "io_env \<Rightarrow> bytes \<Rightarrow> 'd tLVM_Vol \<Rightarrow> nat \<Rightarrow> (nat \<times> (nat \<times> nat) option \<times> 'd tLVM_Vol) option" where
  "LVM_MBR_int_ReadExt e mbr v Addr = do {
     (r, mbr, v) \<leftarrow> LVM_int_ReadVolume e Addr 1 mbr v;
     if r \<noteq> 0 then Some (ext_error, None, v)
     else let (link, part) = ext_scan mbr Addr [0..<4] 0 None in Some (link, part, v)
   }"

text \<open>The partitions of the table itself and the first extended one, which is \<open>0\<close> when there is none.\<close>

fun primary_scan :: "bytes \<Rightarrow> nat list \<Rightarrow> nat \<Rightarrow> (nat \<times> nat) list \<times> nat" where
  "primary_scan b [] ext = ([], ext)"
| "primary_scan b (i # is) ext =
     (if mbr_SystemID b i = 0 then primary_scan b is ext
      else case mbr_range b i of None \<Rightarrow> primary_scan b is ext
      | Some (base, len) \<Rightarrow>
        if is_extended b i then primary_scan b is (if ext \<noteq> 0 then ext else base)
        else let (ps, ext) = primary_scan b is ext in ((base, len) # ps, ext))"

partial_function (option) count_ext :: "io_env \<Rightarrow> bytes \<Rightarrow> 'd tLVM_Vol \<Rightarrow> nat \<Rightarrow> nat \<Rightarrow> (nat \<times> 'd tLVM_Vol) option" where
  "count_ext e mbr v ext num =
     (if ext \<noteq> 0 then
        Option.bind (LVM_MBR_int_ReadExt e mbr v ext) (\<lambda>(ext, part, v).
          if ext = ext_error then Some (num, v) else count_ext e mbr v ext (num + 1))
      else Some (num, v))"

definition LVM_MBR_CountSubvolumes :: "io_env \<Rightarrow> bytes \<Rightarrow> bytes \<Rightarrow> 'd tLVM_Vol \<Rightarrow> (nat \<times> 'd tLVM_Vol) option" where
  "LVM_MBR_CountSubvolumes e mbr FirstSector v =
     (let (ps, ext) = primary_scan FirstSector [0..<4] 0 in count_ext e mbr v ext (length ps))"

fun set_parts :: "(nat \<Rightarrow> bool) \<Rightarrow> nat \<Rightarrow> (nat \<times> nat) list \<Rightarrow> 'd tLVM_Vol \<Rightarrow> nat \<times> 'd tLVM_Vol" where
  "set_parts ok j [] v = (j, v)"
| "set_parts ok j ((base, len) # ps) v = set_parts ok (j + 1) ps (LVM_int_SetSubvolume_Anon (ok j) j base len v)"

text \<open>Without a partition \<open>base\<close> and \<open>len\<close> keep what they had.\<close>

partial_function (option) populate_ext ::
  "io_env \<Rightarrow> (nat \<Rightarrow> bool) \<Rightarrow> bytes \<Rightarrow> 'd tLVM_Vol \<Rightarrow> nat \<Rightarrow> nat \<Rightarrow> nat \<times> nat \<Rightarrow> 'd tLVM_Vol option" where
  "populate_ext e ok mbr v ext j bl =
     (if ext \<noteq> 0 then
        Option.bind (LVM_MBR_int_ReadExt e mbr v ext) (\<lambda>(ext, part, v).
          let bl = (case part of None \<Rightarrow> bl | Some p \<Rightarrow> p)
          in if ext = ext_error then Some v
             else populate_ext e ok mbr (LVM_int_SetSubvolume_Anon (ok j) j (fst bl) (snd bl) v) ext (j + 1) bl)
      else Some v)"

definition LVM_MBR_PopulateSubvolumes ::
  "io_env \<Rightarrow> (nat \<Rightarrow> bool) \<Rightarrow> bytes \<Rightarrow> bytes \<Rightarrow> 'd tLVM_Vol \<Rightarrow> 'd tLVM_Vol option" where
  "LVM_MBR_PopulateSubvolumes e ok mbr FirstSector v =
     (let (ps, ext) = primary_scan FirstSector [0..<4] 0; (j, v) = set_parts ok 0 ps v
      in populate_ext e ok mbr v ext j (0, 0))"

text \<open>Which of the allocations of \<open>LVM_AddVolume\<close> succeed.\<close>

record lvm_memory =
  ok_block :: bool
  ok_volume :: bool
  ok_cache :: bool
  ok_sub :: "nat \<Rightarrow> bool"

text \<open>
  The outer option is about returning, the inner one is the pointer returned. The first block is read
  before there is a volume, into a buffer with the contents \<open>block\<close>. What is left out is the name,
  the two VFS nodes inside the volume, and the last step, which links the volume into the global list.
\<close>

definition LVM_AddVolume ::
  "io_env \<Rightarrow> lvm_memory \<Rightarrow> bytes \<Rightarrow> bytes \<Rightarrow> 'd tLVM_VolType \<Rightarrow> 'd \<Rightarrow> nat \<Rightarrow> nat \<Rightarrow> 'd tLVM_Vol option option" where
  "LVM_AddVolume e mm block mbr T ptr bs count =
     (if count = 0 \<or> bs = 0 \<or> \<not> ok_block mm then Some None
      else let (r, data, ptr) = vt_Read T 0 1 ptr; block = blit block 0 data;
               dummy = \<lparr>Ptr = ptr, Type = T, BlockSize = bs, BlockCount = count, nSubVolumes = 0, SubVolumes = [], CacheHandle = None\<rparr>
        in if r \<noteq> 1 then Some None
           else do {
             (n, dummy) \<leftarrow> LVM_MBR_CountSubvolumes e mbr block dummy;
             if \<not> ok_volume mm then Some None
             else map_option Some (LVM_MBR_PopulateSubvolumes e (ok_sub mm) mbr block
               (dummy\<lparr>nSubVolumes := n, SubVolumes := replicate n None,
                      CacheHandle := IOCache_Create (ok_cache mm) (int bs) 1024\<rparr>))
           })"

section \<open>A volume is a block device\<close>

text \<open>
  The bytes of a device are what its driver returns for single blocks. A driver is right when it
  reads whole blocks of them, leaving them as they are, and when a write replaces whole blocks.
\<close>

definition dev_image :: "'d tLVM_VolType \<Rightarrow> nat \<Rightarrow> nat \<Rightarrow> 'd \<Rightarrow> nat \<Rightarrow> 8 word" where
  "dev_image T bs bc d i = (if i < bc * bs then fst (snd (vt_Read T (i div bs) 1 d)) ! (i mod bs) else 0)"

definition drives :: "'d tLVM_VolType \<Rightarrow> nat \<Rightarrow> nat \<Rightarrow> bool" where
  "drives T bs bc \<longleftrightarrow>
     (\<forall>d b n. b + n \<le> bc \<and> n < 2147483648 \<longrightarrow>
        (\<exists>d'. vt_Read T b n d = (int n, span (dev_image T bs bc d) (b * bs) (n * bs), d') \<and> dev_image T bs bc d' = dev_image T bs bc d)) \<and>
     (\<forall>d b n data. b + n \<le> bc \<and> n < 2147483648 \<and> length data = n * bs \<longrightarrow>
        (\<exists>d'. vt_Write T b n data d = (int n, d') \<and> dev_image T bs bc d' = overwrite (dev_image T bs bc d) (b * bs) data))"

definition vol_image :: "'d tLVM_Vol \<Rightarrow> nat \<Rightarrow> 8 word" where
  "vol_image v = dev_image (Type v) (BlockSize v) (BlockCount v) (Ptr v)"

definition vol_ok :: "'d tLVM_Vol \<Rightarrow> bool" where
  "vol_ok v \<longleftrightarrow> 0 < BlockSize v \<and> BlockCount v * BlockSize v \<le> 2 ^ 64 \<and> drives (Type v) (BlockSize v) (BlockCount v) \<and>
     (\<forall>c. CacheHandle v = Some c \<longrightarrow> cache_ok (vol_image v) c \<and> SectorSize c = BlockSize v)"

lemma drives_read:
  assumes "drives T bs bc" "b + n \<le> bc" "n < 2147483648"
  obtains d' where "vt_Read T b n d = (int n, span (dev_image T bs bc d) (b * bs) (n * bs), d')"
    "dev_image T bs bc d' = dev_image T bs bc d"
  using assms unfolding drives_def by blast

lemma drives_write:
  assumes "drives T bs bc" "b + n \<le> bc" "n < 2147483648" "length data = n * bs"
  obtains d' where "vt_Write T b n data d = (int n, d')"
    "dev_image T bs bc d' = overwrite (dev_image T bs bc d) (b * bs) data"
  using assms unfolding drives_def by blast

text \<open>The buffer when \<open>k\<close> blocks from block \<open>b\<close> on have been read.\<close>

definition filled :: "(nat \<Rightarrow> 8 word) \<Rightarrow> nat \<Rightarrow> nat \<Rightarrow> bytes \<Rightarrow> nat \<Rightarrow> bytes" where
  "filled img bs b D k = span img (b * bs) (k * bs) @ drop (k * bs) D"

lemma filled_0 [simp]: "filled img bs b D 0 = D"
  by (simp add: filled_def)

lemma filled_step:
  assumes "(k + j) * bs \<le> length D"
  shows "blit (filled img bs b D k) (k * bs) (span img ((b + k) * bs) (j * bs)) = filled img bs b D (k + j)"
  using span_append [of img "b * bs" "k * bs" "j * bs"] assms
  by (simp add: filled_def blit_def add_mult_distrib add.commute)

lemma filled_block:
  assumes "k < n" "n * bs \<le> length D"
  shows "slice (filled img bs b D n) (k * bs) bs = span img ((b + k) * bs) bs"
proof -
  have "Suc k * bs \<le> n * bs" using assms(1) by (intro mult_le_mono1) simp
  then have "k * bs + bs \<le> n * bs" by simp
  then show ?thesis
    using slice_span [of "k * bs" bs "n * bs" img "b * bs"] by (simp add: filled_def slice_def add_mult_distrib)
qed

lemma sector_in_range:
  assumes "0 < bs" "b + n \<le> (bc::nat)" "bc * bs \<le> 2 ^ 64" "k < n"
  shows "(b + k) * bs < 2 ^ 64"
proof -
  have "(b + k) * bs < bc * bs" using assms by (intro mult_less_mono1) auto
  then show ?thesis using assms(3) by linarith
qed

lemma hit_run_spec:
  assumes "cache_ok img c" "SectorSize c = bs" "0 < bs" "b + n \<le> bc" "bc * bs \<le> 2 ^ 64" "k \<le> n" "n * bs \<le> length D"
  shows "\<exists>k' c'. hit_run e bs b n k (filled img bs b D k) c = (k', filled img bs b D k', c') \<and> k \<le> k' \<and> k' \<le> n \<and>
    cache_ok img c' \<and> SectorSize c' = bs \<and> (k' < n \<longrightarrow> \<not> IOCache_Has c' (b + k'))"
  using assms
proof (induction "n - k" arbitrary: k c)
  case 0
  then have "k = n" by simp
  then show ?case using "0.prems" by (simp add: hit_run.simps [of e bs b n n])
next
  case (Suc m)
  then have k: "k < n" by simp
  have range: "(b + k) * SectorSize c < 2 ^ 64" using sector_in_range [OF Suc.prems(3-5) k] Suc.prems(2) by simp
  show ?case
  proof (cases "IOCache_Has c (b + k)")
    case True
    obtain c1 where c1: "IOCache_Read (env_now e (b + k)) (b + k) c = (1, span img ((b + k) * bs) bs, c1)"
      "cache_ok img c1" "SectorSize c1 = bs"
      using Read_coherent(1) [OF Suc.prems(1) range True] Suc.prems(2) by auto
    have "Suc k * bs \<le> n * bs" using k by (intro mult_le_mono1) simp
    then have "blit (filled img bs b D k) (k * bs) (span img ((b + k) * bs) bs) = filled img bs b D (k + 1)"
      using filled_step [of k 1 bs D img b] Suc.prems(7) by simp
    moreover have "m = n - (k + 1)" using Suc.hyps(2) by simp
    moreover obtain k' c' where "hit_run e bs b n (k + 1) (filled img bs b D (k + 1)) c1 = (k', filled img bs b D k', c')"
      "k + 1 \<le> k'" "k' \<le> n" "cache_ok img c'" "SectorSize c' = bs" "k' < n \<longrightarrow> \<not> IOCache_Has c' (b + k')"
      using Suc.hyps(1) [OF \<open>m = n - (k + 1)\<close> c1(2,3) Suc.prems(3-5) _ Suc.prems(7)] k by auto
    ultimately show ?thesis using k c1(1) by (simp add: hit_run.simps [of e bs b n k])
  next
    case False
    then show ?thesis
      using Read_coherent(2) [OF Suc.prems(1) range False] Suc.prems k by (simp add: hit_run.simps [of e bs b n k])
  qed
qed

lemma miss_run_spec:
  assumes "k \<le> n"
  shows "k \<le> miss_run e b n k c \<and> miss_run e b n k c \<le> n"
  using assms
proof (induction "n - k" arbitrary: k)
  case 0
  then have "k = n" by simp
  then show ?case by (simp add: miss_run.simps [of e b n n])
next
  case (Suc m)
  then have "m = n - (k + 1)" "k + 1 \<le> n" by simp_all
  from Suc.hyps(1) [OF this] Suc.prems show ?case by (simp add: miss_run.simps [of e b n k])
qed

lemma miss_run_progress:
  assumes "cache_ok img c" "(b + k) * SectorSize c < 2 ^ 64" "k < n" "\<not> IOCache_Has c (b + k)"
  shows "k < miss_run e b n k c"
  using Read_coherent(2) [OF assms(1,2,4)] miss_run_spec [of "k + 1" n e b c] assms(3)
  by (simp add: miss_run.simps [of e b n k])

lemma add_run_spec:
  assumes "cache_ok img c" "SectorSize c = bs" "0 < bs" "b + n \<le> bc" "bc * bs \<le> 2 ^ 64" "k + j \<le> n" "n * bs \<le> length D"
  shows "\<exists>c'. add_run e T bs b k j (filled img bs b D (k + j)) c d = Some (c', d) \<and> cache_ok img c' \<and> SectorSize c' = bs"
  using assms
proof (induction j arbitrary: k c)
  case (Suc j)
  have "Suc (k + j) * bs \<le> n * bs" using Suc.prems(6) by (intro mult_le_mono1) simp
  then have buf: "slice (filled img bs b D (k + Suc j)) (k * bs) bs = span img ((b + k) * SectorSize c) (SectorSize c)"
    using filled_block [of k "k + Suc j" bs D img b] Suc.prems(2,7) by simp
  have "(b + k) * SectorSize c < 2 ^ 64" using sector_in_range [OF Suc.prems(3-5), of k] Suc.prems(2,6) by simp
  from Add_keeps_coherence [OF Suc.prems(1) this span_length buf, of "LVM_int_CacheWriteback T" "env_now e (b + k)"
      "env_fresh e (b + k)" 0 d] obtain r c1 where
    c1: "IOCache_Add (LVM_int_CacheWriteback T) (env_now e (b + k)) (span (env_fresh e (b + k)) 0 PAGE_SIZE) (b + k)
        (slice (filled img bs b D (k + Suc j)) (k * bs) bs) c d = Some (r, c1, d)"
      "cache_ok img c1" "SectorSize c1 = bs" using Suc.prems(2) by auto
  then show ?case using Suc.IH [of c1 "k + 1"] Suc.prems by simp
qed simp

lemma volume_loop_spec:
  assumes "cache_ok img c" "SectorSize c = bs" "0 < bs" "b + n \<le> bc" "bc * bs \<le> 2 ^ 64" "k \<le> n" "n * bs \<le> length D"
    "drives T bs bc" "dev_image T bs bc d = img" "n < 2147483648"
  shows "\<exists>c' d'. volume_loop e T bs b n k (filled img bs b D k) c d = Some (n, filled img bs b D n, c', d') \<and>
    cache_ok img c' \<and> SectorSize c' = bs \<and> dev_image T bs bc d' = img"
  using assms(1,2,6,9)
proof (induction "n - k" arbitrary: k c d rule: less_induct)
  case less
  show ?case
  proof (cases "k < n")
    case True
    obtain k1 c1 where h: "hit_run e bs b n k (filled img bs b D k) c = (k1, filled img bs b D k1, c1)" "k \<le> k1" "k1 \<le> n"
      "cache_ok img c1" "SectorSize c1 = bs" "k1 < n \<longrightarrow> \<not> IOCache_Has c1 (b + k1)"
      using hit_run_spec [OF less.prems(1,2) assms(3-5) less.prems(3) assms(7)] by blast
    define k2 where "k2 = miss_run e b n k1 c1"
    have k2: "k1 \<le> k2" "k2 \<le> n" using miss_run_spec [OF h(3)] by (simp_all add: k2_def)
    show ?thesis
    proof (cases "k1 < n")
      case True2: True
      have "k1 < k2"
        using miss_run_progress [OF h(4) _ True2] sector_in_range [OF assms(3-5) True2] h(5,6) True2 by (simp add: k2_def)
      have "b + k1 + (k2 - k1) \<le> bc" "k2 - k1 < 2147483648" using k2 assms(4,10) by simp_all
      from drives_read [OF assms(8) this, of d] obtain d1 where
        d1: "vt_Read T (b + k1) (k2 - k1) d = (int (k2 - k1), span img ((b + k1) * bs) ((k2 - k1) * bs), d1)"
          "dev_image T bs bc d1 = img" using less.prems(4) by metis
      have "(k1 + (k2 - k1)) * bs \<le> length D" using k2 order_trans [OF mult_le_mono1 [OF k2(2), of bs] assms(7)] by simp
      from filled_step [OF this, of img b] k2 have fill:
        "blit (filled img bs b D k1) (k1 * bs) (span img ((b + k1) * bs) ((k2 - k1) * bs)) = filled img bs b D k2" by simp
      obtain c2 where c2: "add_run e T bs b k1 (k2 - k1) (filled img bs b D k2) c1 d1 = Some (c2, d1)"
          "cache_ok img c2" "SectorSize c2 = bs"
        using add_run_spec [OF h(4,5) assms(3-5) _ assms(7), of k1 "k2 - k1" e T d1] k2 by auto
      have "volume_loop e T bs b n k (filled img bs b D k) c d = volume_loop e T bs b n k2 (filled img bs b D k2) c2 d1"
        using True h(1) \<open>k1 < k2\<close> d1(1) fill c2(1) by (simp add: volume_loop.simps [of e T bs b n k] flip: k2_def)
      then show ?thesis using less.hyps [of k2 c2 d1] c2 d1(2) k2 h(2) \<open>k1 < k2\<close> True by simp
    next
      case False
      then have n: "k1 = n" "miss_run e b n n c1 = n" using h(3) k2 by (simp_all add: k2_def)
      have "volume_loop e T bs b n k (filled img bs b D k) c d = Some (n, filled img bs b D n, c1, d)"
        using True h(1) n by (simp add: volume_loop.simps [of e T bs b n k] volume_loop.simps [of e T bs b n n])
      then show ?thesis using h less.prems(4) by blast
    qed
  next
    case False
    then have "k = n" using less.prems(3) by simp
    then show ?thesis using less.prems by (simp add: volume_loop.simps [of e T bs b n n])
  qed
qed

lemma ReadVolume_law:
  assumes "vol_ok v" "b + n \<le> BlockCount v" "n < 2147483648" "n * BlockSize v \<le> length buf"
  shows "\<exists>v'. LVM_int_DrvUtil_ReadBlock e b n buf v =
      Some (n, span (vol_image v) (b * BlockSize v) (n * BlockSize v) @ drop (n * BlockSize v) buf, v') \<and>
    vol_ok v' \<and> vol_image v' = vol_image v \<and> BlockSize v' = BlockSize v \<and> BlockCount v' = BlockCount v \<and>
    (CacheHandle v' = None \<longleftrightarrow> CacheHandle v = None)"
proof (cases "CacheHandle v")
  case None
  from assms drives_read [of "Type v" "BlockSize v" "BlockCount v" b n "Ptr v"] obtain d' where
    "vt_Read (Type v) b n (Ptr v) = (int n, span (vol_image v) (b * BlockSize v) (n * BlockSize v), d')"
    "dev_image (Type v) (BlockSize v) (BlockCount v) d' = vol_image v"
    unfolding vol_ok_def vol_image_def by metis
  then show ?thesis
    using None assms by (auto simp: LVM_int_DrvUtil_ReadBlock_def LVM_int_ReadVolume_def vol_ok_def vol_image_def blit_def)
next
  case (Some c)
  with assms(1) have "cache_ok (vol_image v) c" "SectorSize c = BlockSize v" "0 < BlockSize v"
    "BlockCount v * BlockSize v \<le> 2 ^ 64" "drives (Type v) (BlockSize v) (BlockCount v)" by (auto simp: vol_ok_def)
  from volume_loop_spec [OF this(1-3) assms(2) this(4) _ assms(4) this(5) _ assms(3), of 0 "Ptr v" e] obtain c' d' where
    "volume_loop e (Type v) (BlockSize v) b n 0 buf c (Ptr v) = Some (n, filled (vol_image v) (BlockSize v) b buf n, c', d')"
    "cache_ok (vol_image v) c'" "SectorSize c' = BlockSize v" "dev_image (Type v) (BlockSize v) (BlockCount v) d' = vol_image v"
    by (auto simp: vol_image_def)
  then show ?thesis
    using Some assms(1)
    by (auto simp: LVM_int_DrvUtil_ReadBlock_def LVM_int_ReadVolume_def filled_def vol_ok_def vol_image_def)
qed

lemma WriteVolume_uncached:
  assumes "vol_ok v" "CacheHandle v = None" "b + n \<le> BlockCount v" "n < 2147483648" "length data = n * BlockSize v"
  shows "\<exists>v'. LVM_int_DrvUtil_WriteBlock e b n data v = Some (n, v') \<and> vol_ok v' \<and> CacheHandle v' = None \<and>
    vol_image v' = overwrite (vol_image v) (b * BlockSize v) data \<and> BlockSize v' = BlockSize v \<and> BlockCount v' = BlockCount v"
proof -
  from assms drives_write [of "Type v" "BlockSize v" "BlockCount v" b n data "Ptr v"] obtain d' where
    "vt_Write (Type v) b n data (Ptr v) = (int n, d')"
    "dev_image (Type v) (BlockSize v) (BlockCount v) d' = overwrite (vol_image v) (b * BlockSize v) data"
    unfolding vol_ok_def vol_image_def by metis
  then show ?thesis
    using assms by (auto simp: LVM_int_DrvUtil_WriteBlock_def LVM_int_WriteVolume_def vol_ok_def vol_image_def)
qed

text \<open>Reading works with and without a cache, writing without.\<close>

interpretation cached: block_source vol_ok vol_image BlockSize BlockCount "LVM_int_DrvUtil_ReadBlock e" for e
proof
  show "vol_ok s \<Longrightarrow> 0 < BlockSize s" for s by (simp add: vol_ok_def)
qed (use ReadVolume_law in blast)

interpretation uncached: block_device "\<lambda>v. vol_ok v \<and> CacheHandle v = None" vol_image BlockSize BlockCount
  "LVM_int_DrvUtil_ReadBlock e" "LVM_int_DrvUtil_WriteBlock e" for e
proof
  show "vol_ok s \<and> CacheHandle s = None \<Longrightarrow> 0 < BlockSize s" for s by (simp add: vol_ok_def)
qed (use ReadVolume_law WriteVolume_uncached in blast)+

section \<open>What happens to writes through the cache\<close>

lemma write_run_missing:
  assumes "0 < CacheSize c" "\<forall>i. b \<le> i \<and> i < b + n \<longrightarrow> \<not> IOCache_Has c i"
  shows "write_run e T bs b n Src c d = (c, d)"
  using assms
proof (induction n arbitrary: b Src)
  case (Suc n)
  have "\<not> IOCache_Has c b" using Suc.prems(2) by simp
  with Write_missing [OF Suc.prems(1) this, of "LVM_int_CacheWriteback T"] Suc.IH [of "b + 1"] Suc.prems show ?case by simp
qed simp

section \<open>Partitions are found\<close>

lemma ReadExt_fails:
  assumes "vol_ok v" "Addr + 1 \<le> BlockCount v" "BlockSize v \<le> length mbr"
  shows "\<exists>v'. LVM_MBR_int_ReadExt e mbr v Addr = Some (ext_error, None, v') \<and> vol_ok v' \<and> vol_image v' = vol_image v \<and>
    BlockSize v' = BlockSize v \<and> BlockCount v' = BlockCount v"
  using ReadVolume_law [OF assms(1,2), of mbr e] assms(3)
  by (auto simp: LVM_MBR_int_ReadExt_def LVM_int_DrvUtil_ReadBlock_def)

text \<open>Reading leaves the list of sub-volumes alone.\<close>

lemma ReadExt_fields:
  assumes "LVM_MBR_int_ReadExt e mbr v Addr = Some (r, p, v')"
  shows "nSubVolumes v' = nSubVolumes v \<and> SubVolumes v' = SubVolumes v \<and> Type v' = Type v \<and> (CacheHandle v = None \<longrightarrow> CacheHandle v' = None)"
  using assms
  by (auto simp: LVM_MBR_int_ReadExt_def LVM_int_ReadVolume_def bind_eq_Some_conv split: option.splits prod.splits if_splits)

lemma set_parts_spec:
  assumes "length (SubVolumes v) = nSubVolumes v" "j + length ps \<le> nSubVolumes v"
    "\<forall>i. j \<le> i \<and> i < nSubVolumes v \<longrightarrow> SubVolumes v ! i = None" "\<forall>i. ok i"
  shows "set_parts ok j ps v = (j + length ps,
    v\<lparr>SubVolumes := take j (SubVolumes v) @ map (\<lambda>(f, n). Some \<lparr>sv_FirstBlock = f, sv_BlockCount = n\<rparr>) ps @ drop (j + length ps) (SubVolumes v)\<rparr>)"
  using assms
proof (induction ps arbitrary: j v)
  case (Cons p ps)
  obtain f n where p: "p = (f, n)" by fastforce
  define v1 where "v1 = LVM_int_SetSubvolume_Anon (ok j) j f n v"
  have j: "j < length (SubVolumes v)" using Cons.prems by simp
  have v1: "v1 = v\<lparr>SubVolumes := (SubVolumes v)[j := Some \<lparr>sv_FirstBlock = f, sv_BlockCount = n\<rparr>]\<rparr>"
    using Cons.prems j by (simp add: v1_def LVM_int_SetSubvolume_Anon_def)
  have "set_parts ok (j + 1) ps v1 = (j + 1 + length ps,
    v1\<lparr>SubVolumes := take (j + 1) (SubVolumes v1) @ map (\<lambda>(f, n). Some \<lparr>sv_FirstBlock = f, sv_BlockCount = n\<rparr>) ps @
      drop (j + 1 + length ps) (SubVolumes v1)\<rparr>)"
    using Cons.prems v1 by (intro Cons.IH) simp_all
  then show ?case using j by (simp add: p v1 take_Suc_conv_app_nth flip: v1_def)
qed simp

end
