(* ===== verification/Storage_Theorems.thy ===== *)
theory Storage_Theorems
  imports Logical_Volumes
begin

text \<open>
  The properties of the storage path: byte access to partitions through the volume manager, the
  sector cache and the block helpers, the partitions found on a disk, and the fate of writes.
\<close>

section \<open>Reading a partition\<close>

definition sv_inside :: "tLVM_SubVolume \<Rightarrow> 'd tLVM_Vol \<Rightarrow> bool" where
  "sv_inside sv v \<longleftrightarrow> sv_FirstBlock sv + sv_BlockCount sv \<le> BlockCount v"

lemma clip_inside:
  assumes "sv_inside sv v" "BlockCount v * BlockSize v \<le> 2 ^ 63" "Offset \<le> sv_BlockCount sv * BlockSize v" "Len < 2147483648"
  shows "clip (u64 (sv_BlockCount sv * BlockSize v)) Offset Len = Some (min Len (sv_BlockCount sv * BlockSize v - Offset))"
proof -
  define k where "k = sv_BlockCount sv * BlockSize v"
  have "k \<le> BlockCount v * BlockSize v"
    unfolding k_def using assms(1) by (intro mult_le_mono1) (simp add: sv_inside_def)
  then have "k \<le> 2 ^ 63" "Offset \<le> k" using assms(3) order_trans [OF _ assms(2)] by (simp_all add: k_def)
  then show ?thesis using assms(4) by (auto simp: clip_def u64_def min_def simp flip: k_def)
qed

lemma inside_bytes:
  assumes "sv_inside sv v" "n \<le> sv_BlockCount sv * BlockSize v - Offset" "Offset \<le> sv_BlockCount sv * BlockSize v"
  shows "Offset + sv_FirstBlock sv * BlockSize v + n \<le> BlockCount v * BlockSize v"
proof -
  have "(sv_FirstBlock sv + sv_BlockCount sv) * BlockSize v \<le> BlockCount v * BlockSize v"
    using assms(1) by (intro mult_le_mono1) (simp add: sv_inside_def)
  then show ?thesis using assms(2,3) by (simp add: add_mult_distrib)
qed

text \<open>
  C24: a read from a partition returns the bytes of the device at that place of the partition, cut at
  its end, whatever part of them is in the sector cache and however the range lies to the blocks; the
  device stays as it is and the cache stays coherent with it.
\<close>

theorem LVM_SubVol_Read_exact:
  assumes "vol_ok v" "sv_inside sv v" "BlockCount v * BlockSize v \<le> 2 ^ 63" "Offset \<le> sv_BlockCount sv * BlockSize v"
    "Len < 2147483648" "Len \<le> length Buffer" "length tmp = BlockSize v"
  defines "n \<equiv> min Len (sv_BlockCount sv * BlockSize v - Offset)"
  shows "\<exists>v'. LVM_SubVol_Read e sv Offset Len Buffer tmp v =
      Some (n, span (vol_image v) (sv_FirstBlock sv * BlockSize v + Offset) n @ drop n Buffer, v') \<and>
    vol_ok v' \<and> vol_image v' = vol_image v"
proof -
  have fits: "Offset + sv_FirstBlock sv * BlockSize v + n \<le> BlockCount v * BlockSize v"
    using inside_bytes [OF assms(2) _ assms(4)] by (simp add: n_def)
  have "clip (u64 (sv_BlockCount sv * BlockSize v)) Offset Len = Some n"
    using clip_inside [OF assms(2-5)] by (simp add: n_def)
  moreover have "u64 (Offset + sv_FirstBlock sv * BlockSize v) = Offset + sv_FirstBlock sv * BlockSize v"
    using fits assms(3) by (simp add: u64_def)
  moreover have "n < 2147483648" "n \<le> length Buffer" using assms(5,6) by (simp_all add: n_def)
  ultimately show ?thesis
    using cached.ReadBlock_law [OF assms(1) fits _ _ assms(7), of Buffer e]
    by (auto simp: LVM_SubVol_Read_def add.commute)
qed

text \<open>A disk of four blocks whose driver works on the bytes themselves.\<close>

definition sample_type :: "(nat \<Rightarrow> 8 word) tLVM_VolType" where
  "sample_type = \<lparr>vt_Read = (\<lambda>b n d. (int n, span d (b * 512) (n * 512), d)),
     vt_Write = (\<lambda>b n data d. (int n, overwrite d (b * 512) data))\<rparr>"

lemma sample_image: "dev_image sample_type 512 bc d = (\<lambda>i. if i < bc * 512 then d i else 0)"
  by (auto simp: dev_image_def sample_type_def fun_eq_iff)

lemma sample_drives: "drives sample_type 512 bc"
proof -
  have in_range: "b * 512 + k < bc * 512" if "b + n \<le> bc" "k < n * 512" for b n k :: nat
    using that mult_le_mono1 [OF that(1), of 512] by simp
  have "span (\<lambda>i. if i < bc * 512 then d i else 0) (b * 512) (n * 512) = span d (b * 512) (n * 512)"
    if "b + n \<le> bc" for b n and d :: "nat \<Rightarrow> 8 word"
    using in_range [OF that] by (intro nth_equalityI) simp_all
  moreover have "(\<lambda>i. if i < bc * 512 then overwrite d (b * 512) data i else 0) =
      overwrite (\<lambda>i. if i < bc * 512 then d i else 0) (b * 512) data"
    if "b + n \<le> bc" "length data = n * 512" for b n data and d :: "nat \<Rightarrow> 8 word"
  proof
    fix i
    have "i < bc * 512" if "b * 512 \<le> i" "i < b * 512 + length data"
      using in_range [OF \<open>b + n \<le> bc\<close>, of "i - b * 512"] \<open>length data = n * 512\<close> that by simp
    then show "(if i < bc * 512 then overwrite d (b * 512) data i else 0) =
        overwrite (\<lambda>i. if i < bc * 512 then d i else 0) (b * 512) data i" by (auto simp: overwrite_def)
  qed
  ultimately show ?thesis unfolding drives_def sample_image by (simp add: sample_type_def) blast
qed

definition sample_vol :: "tIOCache option \<Rightarrow> (nat \<Rightarrow> 8 word) tLVM_Vol" where
  "sample_vol c = \<lparr>Ptr = word_of_nat, Type = sample_type, BlockSize = 512, BlockCount = 4, nSubVolumes = 1,
     SubVolumes = [Some \<lparr>sv_FirstBlock = 1, sv_BlockCount = 2\<rparr>], CacheHandle = c\<rparr>"

definition sample_sv :: tLVM_SubVolume where
  "sample_sv = \<lparr>sv_FirstBlock = 1, sv_BlockCount = 2\<rparr>"

definition sample_cache :: tIOCache where
  "sample_cache = the (IOCache_Create True 512 1024)"

lemma sample_cache_empty: "cache_ok disk sample_cache" "SectorSize sample_cache = 512" "CacheSize sample_cache = 1024"
    "\<not> IOCache_Has sample_cache i"
  by (simp_all add: sample_cache_def IOCache_Create_def cache_ok_def IOCache_Has_def IOCache_int_GetPage_def)

lemma sample_vol_ok: "vol_ok (sample_vol None)" "vol_ok (sample_vol (Some sample_cache))"
  using sample_drives [of 4] sample_cache_empty by (simp_all add: vol_ok_def sample_vol_def)

lemma sample_vol_image: "vol_image (sample_vol c) = (\<lambda>i. if i < 2048 then word_of_nat i else 0)"
  by (simp add: vol_image_def sample_vol_def sample_image)

definition sample_io :: io_env where
  "sample_io = \<lparr>env_now = (\<lambda>_. 0), env_fresh = (\<lambda>_ _. 0)\<rparr>"

theorem LVM_SubVol_Read_exact_witness:
  "\<exists>v'. LVM_SubVol_Read sample_io sample_sv 511 3 [9, 9, 9, 9] (replicate 512 0) (sample_vol (Some sample_cache)) =
    Some (3, [255, 0, 1, 9], v')"
proof -
  have "sv_inside sample_sv (sample_vol (Some sample_cache))" by (simp add: sv_inside_def sample_sv_def sample_vol_def)
  from LVM_SubVol_Read_exact [OF sample_vol_ok(2) this, of 511 3 "[9, 9, 9, 9]" "replicate 512 0" sample_io]
  have "\<exists>v'. LVM_SubVol_Read sample_io sample_sv 511 3 [9, 9, 9, 9] (replicate 512 0) (sample_vol (Some sample_cache)) =
      Some (3, span (vol_image (sample_vol (Some sample_cache))) 1023 3 @ [9], v')"
    by (auto simp: sample_sv_def sample_vol_def)
  moreover have "span (vol_image (sample_vol (Some sample_cache))) 1023 3 = [255, 0, 1]"
    unfolding sample_vol_image by (simp add: span_def upt_rec)
  ultimately show ?thesis by simp
qed

section \<open>Reading ends\<close>

text \<open>A cache that is in use never answers with an error, and an addition neither fails nor changes its sizes.\<close>

definition cache_live :: "tIOCache \<Rightarrow> bool" where
  "cache_live c \<longleftrightarrow> CacheSize c \<noteq> 0 \<and> CacheUsed c \<le> CacheSize c"

lemma Read_live: "cache_live c \<Longrightarrow> IOCache_Read t i c = (r, data, c') \<Longrightarrow> cache_live c' \<and> (r = 1 \<or> r = 0 \<and> c' = c)"
  by (auto simp: IOCache_Read_def cache_live_def Let_def split: prod.splits if_splits)

lemma Add_live: "cache_live c \<Longrightarrow> \<exists>r c'. IOCache_Add W t fresh i B c d = Some (r, c', d) \<and> cache_live c'"
  by (auto simp: IOCache_Add_def cache_live_def Let_def split: prod.splits if_splits)

lemma add_run_live: "cache_live c \<Longrightarrow> \<exists>c'. add_run e T bs b k j D c d = Some (c', d) \<and> cache_live c'"
proof (induction j arbitrary: k c)
  case (Suc j)
  obtain r c1 where "IOCache_Add (LVM_int_CacheWriteback T) (env_now e (b + k)) (span (env_fresh e (b + k)) 0 PAGE_SIZE) (b + k)
      (slice D (k * bs) bs) c d = Some (r, c1, d)" "cache_live c1" 
    using Add_live [OF Suc.prems, of "LVM_int_CacheWriteback T" "env_now e (b + k)" "span (env_fresh e (b + k)) 0 PAGE_SIZE" "b + k"
      "slice D (k * bs) bs" d] by blast
  then show ?case using Suc.IH [of c1 "k + 1"] by simp
qed simp

lemma hit_run_live:
  "cache_live c \<Longrightarrow> k \<le> n \<Longrightarrow> hit_run e bs b n k D c = (k', D', c') \<Longrightarrow>
   k \<le> k' \<and> k' \<le> n \<and> cache_live c' \<and> (k' < n \<longrightarrow> fst (IOCache_Read (env_now e (b + k')) (b + k') c') = 0)"
proof (induction e bs b n k D c rule: hit_run.induct)
  case (1 e bs b n k D c)
  obtain r data c1 where r: "IOCache_Read (env_now e (b + k)) (b + k) c = (r, data, c1)" by (cases "IOCache_Read (env_now e (b + k)) (b + k) c") auto
  have live: "cache_live c1" "r = 1 \<or> r = 0 \<and> c1 = c" using Read_live [OF "1.prems"(1) r] by auto
  show ?case
  proof (cases "k < n \<and> r = 1")
    case True
    then have "hit_run e bs b n (k + 1) (blit D (k * bs) data) c1 = (k', D', c')"
      using "1.prems"(3) r by (simp add: hit_run.simps [of e bs b n k])
    then show ?thesis using "1.IH" [OF _ r [symmetric] refl] True live(1) by auto
  next
    case False
    then show ?thesis using "1.prems" live r by (auto simp: hit_run.simps [of e bs b n k] split: if_splits)
  qed
qed

lemma volume_loop_ends:
  "cache_live c \<Longrightarrow> k \<le> n \<Longrightarrow> \<exists>D' c' d'. volume_loop e T bs b n k D c d = Some (n, D', c', d') \<and> cache_live c'"
proof (induction "n - k" arbitrary: k D c d rule: less_induct)
  case less
  show ?case
  proof (cases "k < n")
    case True
    obtain k1 D1 c1 where h: "hit_run e bs b n k D c = (k1, D1, c1)" by (cases "hit_run e bs b n k D c") auto
    define k2 where "k2 = miss_run e b n k1 c1"
    have k1: "k \<le> k1" "k1 \<le> n" "cache_live c1" "k1 < n \<longrightarrow> fst (IOCache_Read (env_now e (b + k1)) (b + k1) c1) = 0"
      using hit_run_live [OF less.prems h] by auto
    have k2: "k1 \<le> k2" "k2 \<le> n" "k < k2"
      using miss_run_spec [OF k1(2), of e b c1] miss_run_spec [of "k1 + 1" n e b c1] k1 True
      by (auto simp: k2_def miss_run.simps [of e b n k1])
    obtain r data d1 where rd: "vt_Read T (b + k1) (k2 - k1) d = (r, data, d1)" by (cases "vt_Read T (b + k1) (k2 - k1) d") auto
    obtain c2 where "add_run e T bs b k1 (k2 - k1) (blit D1 (k1 * bs) data) c1 d1 = Some (c2, d1)" "cache_live c2"
      using add_run_live [OF k1(3), of e T bs b k1 "k2 - k1" "blit D1 (k1 * bs) data" d1] by blast
    then have "\<exists>D' c' d'. volume_loop e T bs b n k D c d = volume_loop e T bs b n k2 D' c' d' \<and> cache_live c'"
      using True h rd k1(3) by (auto simp: volume_loop.simps [of e T bs b n k] Let_def simp flip: k2_def)
    then show ?thesis using less.hyps [of k2] k2 True by force
  next
    case False
    then have "k = n" using less.prems(2) by simp
    then show ?thesis using less.prems by (simp add: volume_loop.simps [of e T bs b n n])
  qed
qed

text \<open>
  C27: reading blocks of a volume through its sector cache ends for every driver, also one that reports
  errors or stores nothing, and always returns the number of blocks that were asked for.
\<close>

theorem LVM_int_ReadVolume_returns:
  assumes "CacheHandle v = Some c" "CacheSize c \<noteq> 0" "CacheUsed c \<le> CacheSize c"
  shows "\<exists>D' v'. LVM_int_ReadVolume e b n D v = Some (n, D', v')"
  using volume_loop_ends [of c 0 n e "Type v" "BlockSize v" b D "Ptr v"] assms
  by (auto simp: LVM_int_ReadVolume_def cache_live_def)

theorem LVM_int_ReadVolume_returns_witness:
  "\<exists>D' v'. LVM_int_ReadVolume sample_io 1 2 [] (sample_vol (Some sample_cache)\<lparr>Type :=
     \<lparr>vt_Read = (\<lambda>b n d. (- 5, [], d)), vt_Write = (\<lambda>b n data d. (- 5, d))\<rparr>\<rparr>) = Some (2, D', v')"
  by (rule LVM_int_ReadVolume_returns [of _ sample_cache])
    (simp_all add: sample_vol_def sample_cache_def IOCache_Create_def)

section \<open>Writing\<close>

text \<open>
  C25: without a sector cache, a write to a partition stores exactly the given bytes, cut at the end of
  the partition, and changes no other byte of the device, in particular none outside the partition.
\<close>

theorem LVM_SubVol_Write_exact:
  assumes "vol_ok v" "CacheHandle v = None" "sv_inside sv v" "BlockCount v * BlockSize v \<le> 2 ^ 63"
    "Offset \<le> sv_BlockCount sv * BlockSize v" "Len < 2147483648" "Len \<le> length Buffer" "length tmp = BlockSize v"
  defines "n \<equiv> min Len (sv_BlockCount sv * BlockSize v - Offset)"
  shows "\<exists>v'. LVM_SubVol_Write e sv Offset Len Buffer tmp v = Some (n, v') \<and> vol_ok v' \<and>
    vol_image v' = overwrite (vol_image v) (sv_FirstBlock sv * BlockSize v + Offset) (take n Buffer) \<and>
    (\<forall>i. i < sv_FirstBlock sv * BlockSize v \<or> (sv_FirstBlock sv + sv_BlockCount sv) * BlockSize v \<le> i \<longrightarrow>
       vol_image v' i = vol_image v i)"
proof -
  have fits: "Offset + sv_FirstBlock sv * BlockSize v + n \<le> BlockCount v * BlockSize v"
    using inside_bytes [OF assms(3) _ assms(5)] by (simp add: n_def)
  have "clip (u64 (sv_BlockCount sv * BlockSize v)) Offset Len = Some n"
    using clip_inside [OF assms(3-6)] by (simp add: n_def)
  moreover have "u64 (Offset + sv_FirstBlock sv * BlockSize v) = Offset + sv_FirstBlock sv * BlockSize v"
    using fits assms(4) by (simp add: u64_def)
  moreover have "n < 2147483648" "n \<le> length Buffer" using assms(6,7) by (simp_all add: n_def)
  ultimately obtain v' where v': "LVM_SubVol_Write e sv Offset Len Buffer tmp v = Some (n, v')" "vol_ok v'"
      "vol_image v' = overwrite (vol_image v) (sv_FirstBlock sv * BlockSize v + Offset) (take n Buffer)"
    using uncached.WriteBlock_law [OF _ fits _ _ assms(8), of Buffer e] assms(1,2)
    by (auto simp: LVM_SubVol_Write_def add.commute)
  moreover have "vol_image v' i = vol_image v i"
    if "i < sv_FirstBlock sv * BlockSize v \<or> (sv_FirstBlock sv + sv_BlockCount sv) * BlockSize v \<le> i" for i
    using that assms(5) by (auto simp: v'(3) overwrite_def n_def add_mult_distrib)
  ultimately show ?thesis by blast
qed

theorem LVM_SubVol_Write_exact_witness:
  "\<exists>v'. LVM_SubVol_Write sample_io sample_sv 1023 2 [77, 78] (replicate 512 0) (sample_vol None) = Some (1, v') \<and>
    vol_image v' 1535 = 77 \<and> vol_image v' 1536 = 0 \<and> vol_image v' 1537 = 1"
proof -
  have "sv_inside sample_sv (sample_vol None)" by (simp add: sv_inside_def sample_sv_def sample_vol_def)
  from LVM_SubVol_Write_exact [OF sample_vol_ok(1) _ this, of 1023 2 "[77, 78]" "replicate 512 0" sample_io]
  show ?thesis unfolding sample_vol_image by (auto simp: sample_sv_def sample_vol_def overwrite_def)
qed

text \<open>
  With a sector cache, a write to blocks of which none is in the cache reports that all blocks
  have been written, but changes neither the device nor the cache: the data is lost.
\<close>

theorem LVM_int_WriteVolume_loses_data:
  assumes "CacheHandle v = Some c" "0 < CacheSize c" "\<forall>i. b \<le> i \<and> i < b + n \<longrightarrow> \<not> IOCache_Has c i"
  shows "LVM_int_WriteVolume e b n Src v = Some (n, v)"
  using assms(1) by (cases v) (simp add: LVM_int_WriteVolume_def write_run_missing [OF assms(2,3)])

theorem LVM_int_WriteVolume_loses_data_witness:
  "LVM_int_WriteVolume sample_io 1 2 (replicate 1024 7) (sample_vol (Some sample_cache)) = Some (2, sample_vol (Some sample_cache)) \<and>
   vol_image (sample_vol (Some sample_cache)) 512 = 0"
proof -
  have "CacheHandle (sample_vol (Some sample_cache)) = Some sample_cache" by (simp add: sample_vol_def)
  from LVM_int_WriteVolume_loses_data [OF this, of 1 2 sample_io "replicate 1024 7"] show ?thesis
    using sample_cache_empty(3,4) by (simp add: sample_vol_image)
qed

section \<open>The partitions of a disk\<close>

lemma count_fails:
  assumes "vol_ok v" "ext < BlockCount v" "ext \<noteq> 0 \<Longrightarrow> BlockSize v \<le> length mbr" "CacheHandle v = None"
  shows "\<exists>v'. count_ext e mbr v ext n = Some (n, v') \<and> vol_ok v' \<and> vol_image v' = vol_image v \<and>
    Type v' = Type v \<and> BlockSize v' = BlockSize v \<and> BlockCount v' = BlockCount v \<and> CacheHandle v' = None"
proof (cases "ext = 0")
  case True
  then show ?thesis using assms by (simp add: count_ext.simps [of e mbr v])
next
  case False
  obtain v' where "LVM_MBR_int_ReadExt e mbr v ext = Some (ext_error, None, v')" "vol_ok v'" "vol_image v' = vol_image v"
    "BlockSize v' = BlockSize v" "BlockCount v' = BlockCount v"
    using ReadExt_fails [OF assms(1) _ assms(3) [OF False], of ext e] assms(2) by auto
  then show ?thesis using False ReadExt_fields [of e mbr v ext ext_error None v'] assms(4) by (simp add: count_ext.simps [of e mbr v])
qed

lemma populate_fails:
  assumes "vol_ok v" "ext < BlockCount v" "ext \<noteq> 0 \<Longrightarrow> BlockSize v \<le> length mbr"
  shows "\<exists>v'. populate_ext e ok mbr v ext j bl = Some v' \<and> vol_ok v' \<and> vol_image v' = vol_image v \<and> SubVolumes v' = SubVolumes v"
proof (cases "ext = 0")
  case True
  then show ?thesis using assms by (simp add: populate_ext.simps [of e ok mbr v])
next
  case False
  obtain v' where "LVM_MBR_int_ReadExt e mbr v ext = Some (ext_error, None, v')" "vol_ok v'" "vol_image v' = vol_image v"
    using ReadExt_fails [OF assms(1) _ assms(3) [OF False], of ext e] assms(2) by auto
  then show ?thesis using False ReadExt_fields [of e mbr v ext ext_error None v'] by (simp add: populate_ext.simps [of e ok mbr v])
qed

lemma AddVolume_scan:
  fixes T :: "'d tLVM_VolType"
  assumes T: "drives T bs bc" "0 < bc" "0 < bs" "bc * bs \<le> 2 ^ 64" "bs dvd PAGE_SIZE"
    and bufs: "length block = bs" "ext \<noteq> 0 \<Longrightarrow> bs \<le> length mbr" and mm: "ok_block mm" "ok_volume mm" "\<forall>i. ok_sub mm i"
    and scan: "primary_scan (span (dev_image T bs bc d) 0 bs) [0..<4] 0 = (ps, ext)" "ext < bc"
  shows "\<exists>v. LVM_AddVolume e mm block mbr T d bs bc = Some (Some v) \<and> vol_ok v \<and> vol_image v = dev_image T bs bc d \<and>
    SubVolumes v = map (\<lambda>(f, n). Some \<lparr>sv_FirstBlock = f, sv_BlockCount = n\<rparr>) ps"
proof -
  let ?img = "dev_image T bs bc d"
  obtain d1 where d1: "vt_Read T 0 1 d = (1, span ?img 0 bs, d1)" "dev_image T bs bc d1 = ?img"
    using drives_read [OF T(1), of 0 1 d] T(2) by auto
  define v0 where "v0 = \<lparr>Ptr = d1, Type = T, BlockSize = bs, BlockCount = bc, nSubVolumes = 0, SubVolumes = [], CacheHandle = None\<rparr>"
  have v0: "vol_ok v0" "vol_image v0 = ?img" using T d1(2) by (simp_all add: v0_def vol_ok_def vol_image_def)
  obtain v1 where v1: "count_ext e mbr v0 ext (length ps) = Some (length ps, v1)" "vol_ok v1" "vol_image v1 = ?img"
      "Type v1 = T" "BlockSize v1 = bs" "BlockCount v1 = bc" "CacheHandle v1 = None"
    using count_fails [OF v0(1), of ext mbr e "length ps"] bufs(2) scan(2) v0(2) by (auto simp: v0_def)
  define v2 where "v2 = v1\<lparr>nSubVolumes := length ps, SubVolumes := replicate (length ps) None, CacheHandle := IOCache_Create (ok_cache mm) (int bs) 1024\<rparr>"
  define v3 where "v3 = v2\<lparr>SubVolumes := map (\<lambda>(f, n). Some \<lparr>sv_FirstBlock = f, sv_BlockCount = n\<rparr>) ps\<rparr>"
  have parts: "set_parts (ok_sub mm) 0 ps v2 = (length ps, v3)"
    using set_parts_spec [of v2 0 ps "ok_sub mm"] mm(3) by (simp add: v2_def v3_def)
  have "cache_ok ?img c \<and> SectorSize c = bs" if "IOCache_Create (ok_cache mm) (int bs) 1024 = Some c" for c
    using Create_coherent [OF that, of ?img] T(5) by simp
  moreover have "vol_image v3 = ?img" using v1 by (simp add: v3_def v2_def vol_image_def)
  ultimately have v3: "vol_ok v3" "vol_image v3 = ?img" using v1(2,5) by (auto simp: vol_ok_def v3_def v2_def)
  obtain v4 where "populate_ext e (ok_sub mm) mbr v3 ext (length ps) (0, 0) = Some v4" "vol_ok v4" "vol_image v4 = ?img"
      "SubVolumes v4 = SubVolumes v3"
    using populate_fails [OF v3(1), of ext mbr e "ok_sub mm" "length ps" "(0, 0)"] bufs(2) scan(2) v1(5,6) v3(2)
    by (auto simp: v3_def v2_def)
  then have "LVM_AddVolume e mm block mbr T d bs bc = Some (Some v4)"
    using d1(1) v1(1) parts T(2,3) bufs(1) mm(1,2) scan(1)
    by (simp add: LVM_AddVolume_def LVM_MBR_CountSubvolumes_def LVM_MBR_PopulateSubvolumes_def flip: v0_def v2_def)
  then show ?thesis using \<open>vol_ok v4\<close> \<open>vol_image v4 = ?img\<close> \<open>SubVolumes v4 = SubVolumes v3\<close> by (simp add: v3_def)
qed

text \<open>
  The partition table of a disk, read off its bytes: four entries of 16 bytes from byte 446 on. The
  first byte of an entry is its flag, the fifth its type, where 0 marks an entry that is not in use
  and 5 and 15 an extended partition; start and length in blocks are 32-bit numbers, the lowest byte
  first, in the bytes from the ninth and from the thirteenth on.
\<close>

definition number_at :: "(nat \<Rightarrow> 8 word) \<Rightarrow> nat \<Rightarrow> nat" where
  "number_at img a = unat (img a) + 2 ^ 8 * unat (img (a + 1)) + 2 ^ 16 * unat (img (a + 2)) + 2 ^ 24 * unat (img (a + 3))"

definition entry_start :: "(nat \<Rightarrow> 8 word) \<Rightarrow> nat \<Rightarrow> nat" where
  "entry_start img i = number_at img (446 + 16 * i + 8)"

definition entry_length :: "(nat \<Rightarrow> 8 word) \<Rightarrow> nat \<Rightarrow> nat" where
  "entry_length img i = number_at img (446 + 16 * i + 12)"

definition entry_flag :: "(nat \<Rightarrow> 8 word) \<Rightarrow> nat \<Rightarrow> 8 word" where
  "entry_flag img i = img (446 + 16 * i)"

definition entry_type :: "(nat \<Rightarrow> 8 word) \<Rightarrow> nat \<Rightarrow> 8 word" where
  "entry_type img i = img (446 + 16 * i + 4)"

definition holds_partition :: "(nat \<Rightarrow> 8 word) \<Rightarrow> nat \<Rightarrow> bool" where
  "holds_partition img i \<longleftrightarrow> entry_flag img i \<in> {0, 0x80} \<and> entry_type img i \<notin> {0, 5, 15}"

definition holds_extended :: "(nat \<Rightarrow> 8 word) \<Rightarrow> nat \<Rightarrow> bool" where
  "holds_extended img i \<longleftrightarrow> entry_flag img i \<in> {0, 0x80} \<and> entry_type img i \<in> {5, 15}"

lemma le_bytes_span: "a + n \<le> k \<Longrightarrow> le_bytes (span d 0 k) a n = foldr (\<lambda>b acc. unat b + 256 * acc) (span d a n) 0"
  by (simp add: le_bytes_def slice_span)

lemma span_4: "span d a 4 = [d a, d (a + 1), d (a + 2), d (a + 3)]"
  by (simp add: span_def upt_rec numeral_eq_Suc)

lemma mbr_fields:
  fixes img :: "nat \<Rightarrow> 8 word"
  assumes "512 \<le> bs" "i < 4"
  defines "b \<equiv> span img 0 bs"
  shows "mbr_Boot b i = unat (entry_flag img i)" "mbr_SystemID b i = unat (entry_type img i)"
    "mbr_LBAStart b i = entry_start img i" "mbr_LBALength b i = entry_length img i"
proof -
  have one: "le_bytes b a 1 = unat (img a)" if "a < 512" for a
    using that assms(1) unfolding b_def by (subst le_bytes_span) (simp_all add: span_def)
  have four: "le_bytes b a 4 = number_at img a" if "a + 4 \<le> 512" for a
    using that assms(1) unfolding b_def by (subst le_bytes_span) (simp_all add: span_4 number_at_def)
  show "mbr_Boot b i = unat (entry_flag img i)" "mbr_SystemID b i = unat (entry_type img i)"
    "mbr_LBAStart b i = entry_start img i" "mbr_LBALength b i = entry_length img i"
    using one four assms(2)
    by (simp_all add: mbr_Boot_def mbr_SystemID_def mbr_LBAStart_def mbr_LBALength_def entry_flag_def entry_type_def
      entry_start_def entry_length_def)
qed

lemma primary_scan_table:
  fixes img :: "nat \<Rightarrow> 8 word"
  assumes "512 \<le> bs" "\<forall>i \<in> set is. i < 4 \<and> (entry_type img i \<noteq> 0 \<longrightarrow> entry_flag img i \<notin> {1, 0x81})"
  defines "scan \<equiv> primary_scan (span img 0 bs)"
  shows "fst (scan is ext) = map (\<lambda>i. (entry_start img i, entry_length img i)) (filter (holds_partition img) is) \<and>
    (snd (scan is ext) = ext \<or> (\<exists>i \<in> set is. holds_extended img i \<and> snd (scan is ext) = entry_start img i))"
  using assms(2)
proof (induction "is" arbitrary: ext)
  case (Cons i "is")
  let ?b = "span img 0 bs"
  have i: "i < 4" "entry_type img i \<noteq> 0 \<Longrightarrow> entry_flag img i \<notin> {1, 0x81}" using Cons.prems by auto
  note f = mbr_fields [OF assms(1) i(1), of img]
  have t: "mbr_SystemID ?b i = 0 \<longleftrightarrow> entry_type img i = 0" "is_extended ?b i \<longleftrightarrow> entry_type img i \<in> {5, 15}"
    unfolding is_extended_def f by (auto simp: word_unat_eq_iff)
  have r: "entry_type img i \<noteq> 0 \<Longrightarrow> mbr_range ?b i =
      (if entry_flag img i \<in> {0, 0x80} then Some (entry_start img i, entry_length img i) else None)"
    using i(2) unfolding mbr_range_def f by (auto simp: word_unat_eq_iff)
  have IH: "fst (scan is ext) = map (\<lambda>i. (entry_start img i, entry_length img i)) (filter (holds_partition img) is) \<and>
      (snd (scan is ext) = ext \<or> (\<exists>i \<in> set is. holds_extended img i \<and> snd (scan is ext) = entry_start img i))" for ext
    using Cons by simp
  have step: "scan (i # is) ext =
      (if holds_partition img i then (let (ps, ext) = scan is ext in ((entry_start img i, entry_length img i) # ps, ext))
       else if holds_extended img i then scan is (if ext \<noteq> 0 then ext else entry_start img i) else scan is ext)"
    using t r by (auto simp: scan_def holds_partition_def holds_extended_def)
  consider "holds_partition img i" | "\<not> holds_partition img i" "holds_extended img i" "ext = 0"
    | "\<not> holds_partition img i" "\<not> holds_extended img i \<or> ext \<noteq> 0" by blast
  then show ?case
  proof cases
    case 1
    then have "scan (i # is) ext = ((entry_start img i, entry_length img i) # fst (scan is ext), snd (scan is ext))"
      by (simp add: step split_beta)
    then show ?thesis using IH [of ext] 1 by auto
  next
    case 2
    then have "scan (i # is) ext = scan is (entry_start img i)" unfolding step by simp
    then show ?thesis using IH [of "entry_start img i"] 2 by auto
  next
    case 3
    then have "scan (i # is) ext = scan is ext" by (auto simp: step)
    then show ?thesis using IH [of ext] 3(1) by auto
  qed
qed (simp add: scan_def)

text \<open>
  C26: adding a disk whose blocks have a size of 512, 1024, 2048 or 4096 bytes yields a volume with the
  contents of the disk, a coherent cache, and one partition for each entry of the table in the first
  block that is in use, is not an extended partition and has one of the flags \<open>0\<close> and \<open>0x80\<close>, in the
  order of the table, with the start and length that the entry gives. Entries with other flags are
  skipped, except that the flags \<open>1\<close> and \<open>0x81\<close>, which mark 48-bit addresses and are decoded wrongly, are
  assumed not to occur in an entry in use. Partitions inside extended ones are not found; those are
  assumed to start on the disk, and to occur with blocks of 512 bytes only (a larger block overruns
  the record it is read into). Memory is assumed not to run out.
\<close>

theorem LVM_AddVolume_partitions:
  fixes T :: "'d tLVM_VolType" and d :: 'd
  assumes "drives T bs bc" "0 < bc" "bc * bs \<le> 2 ^ 64" "bs \<in> {512, 1024, 2048, 4096}" "length block = bs" "length mbr = 512"
    "ok_block mm" "ok_volume mm" "\<forall>i. ok_sub mm i"
  defines "img \<equiv> dev_image T bs bc d"
  assumes "\<forall>i < 4. entry_type img i \<noteq> 0 \<longrightarrow> entry_flag img i \<notin> {1, 0x81}"
    "\<forall>i < 4. holds_extended img i \<longrightarrow> entry_start img i < bc \<and> bs = 512"
  shows "\<exists>v. LVM_AddVolume e mm block mbr T d bs bc = Some (Some v) \<and> vol_ok v \<and> vol_image v = img \<and>
    SubVolumes v = map (\<lambda>i. Some \<lparr>sv_FirstBlock = entry_start img i, sv_BlockCount = entry_length img i\<rparr>)
      (filter (holds_partition img) [0, 1, 2, 3])"
proof -
  obtain ps ext where scan: "primary_scan (span img 0 bs) [0..<4] 0 = (ps, ext)" by (metis surj_pair)
  have is4: "[0..<4] = [0, 1, 2, 3 :: nat]" by (simp add: upt_rec numeral_eq_Suc)
  have bs: "512 \<le> bs" "0 < bs" "bs dvd PAGE_SIZE" using assms(4) by auto
  have "\<forall>i \<in> set [0..<4]. i < 4 \<and> (entry_type img i \<noteq> 0 \<longrightarrow> entry_flag img i \<notin> {1, 0x81})" using assms(11) by simp
  note tab = primary_scan_table [OF bs(1) this, of 0, unfolded scan fst_conv snd_conv]
  then have ext: "ext < bc" "ext \<noteq> 0 \<Longrightarrow> bs \<le> length mbr" using assms(2,6,12) by auto
  have "map (\<lambda>(f, n). Some \<lparr>sv_FirstBlock = f, sv_BlockCount = n\<rparr>) ps =
      map (\<lambda>i. Some \<lparr>sv_FirstBlock = entry_start img i, sv_BlockCount = entry_length img i\<rparr>) (filter (holds_partition img) [0, 1, 2, 3])"
    using tab unfolding is4 by simp
  with AddVolume_scan [OF assms(1,2) bs(2) assms(3) bs(3) assms(5) ext(2) assms(7-9) scan [unfolded img_def] ext(1)]
  show ?thesis by (simp add: img_def)
qed

definition sample_disk :: "nat \<Rightarrow> 8 word" where
  "sample_disk = overwrite (\<lambda>_. 0) 446 ([0x80, 0, 0, 0, 0x83, 0, 0, 0, 1, 0, 0, 0, 2, 0, 0, 0] @ [0, 0, 0, 0, 5, 0, 0, 0, 3, 0, 0, 0, 1, 0, 0, 0])"

lemma sample_table:
  defines "img \<equiv> dev_image sample_type 512 4 sample_disk"
  shows "entry_type img 0 = 0x83" "entry_type img 1 = 5" "entry_type img 2 = 0" "entry_type img 3 = 0"
    "entry_flag img 0 = 0x80" "entry_flag img 1 = 0" "entry_flag img 2 = 0" "entry_flag img 3 = 0"
    "entry_start img 0 = 1" "entry_length img 0 = 2" "entry_start img 1 = 3"
  unfolding img_def sample_image
  by (simp_all add: entry_type_def entry_flag_def entry_start_def entry_length_def number_at_def sample_disk_def overwrite_def)

theorem LVM_AddVolume_partitions_witness:
  "\<exists>v. LVM_AddVolume sample_io \<lparr>ok_block = True, ok_volume = True, ok_cache = True, ok_sub = (\<lambda>_. True)\<rparr> (replicate 512 0)
      (replicate 512 0) sample_type sample_disk 512 4 = Some (Some v) \<and>
    SubVolumes v = [Some \<lparr>sv_FirstBlock = 1, sv_BlockCount = 2\<rparr>]"
proof -
  have four: "(\<forall>i < 4. P i) \<longleftrightarrow> P 0 \<and> P 1 \<and> P 2 \<and> P (3 :: nat)" for P
    by (auto simp: numeral_eq_Suc less_Suc_eq)
  show ?thesis
    using LVM_AddVolume_partitions [OF sample_drives, of 4 "replicate 512 0" "replicate 512 0"
      "\<lparr>ok_block = True, ok_volume = True, ok_cache = True, ok_sub = (\<lambda>_. True)\<rparr>" sample_disk sample_io]
    unfolding four by (auto simp: holds_partition_def holds_extended_def sample_table sample_table [unfolded One_nat_def])
qed

end
