(* ===== verification/Physical_Map.thy ===== *)
theory Physical_Map
  imports Prelude "HOL-Library.Multiset"
begin

text \<open>
  The map of physical memory that the boot code hands to the memory manager, \<open>pmemmap.c\<close>: an array of
  ranges with a type and a NUMA domain, the first \<open>NEnts\<close> of \<open>MaxEnts\<close> entries in use. The array is a
  function from indices to entries, so that a store behind its end can be seen.
\<close>

datatype ePMemMapEntType = PMEMTYPE_FREE | PMEMTYPE_USED | PMEMTYPE_RESERVED | PMEMTYPE_NVRAM | PMEMTYPE_UNMAPPED

record tPMemMapEnt =
  pm_Start :: nat
  pm_Length :: nat
  pm_Type :: ePMemMapEntType
  pm_NUMADomain :: "16 word"

type_synonym pmap = "nat \<Rightarrow> tPMemMapEnt"

section \<open>Operations\<close>

text \<open>\<open>memmove(&map[d], &map[s], n*sizeof(mp[0]))\<close>\<close>

definition move_ents :: "pmap \<Rightarrow> nat \<Rightarrow> nat \<Rightarrow> nat \<Rightarrow> pmap" where
  "move_ents mp d s n = (\<lambda>i. if d \<le> i \<and> i < d + n then mp (s + (i - d)) else mp i)"

definition PMemMap_SplitBlock :: "pmap \<Rightarrow> nat \<Rightarrow> nat \<Rightarrow> nat \<Rightarrow> nat \<Rightarrow> nat \<times> pmap" where
  "PMemMap_SplitBlock mp NEnts MaxEnts Block Offset =
     (let len = pm_Length (mp Block);
          mp = mp(Block := (mp Block)\<lparr>pm_Length := Offset\<rparr>)
      in if NEnts = MaxEnts then (NEnts, mp)
         else let mp = (if Block < NEnts then move_ents mp (Block + 2) (Block + 1) (NEnts - Block) else mp)
           in (NEnts + 1, mp(Block + 1 :=
                \<lparr>pm_Start = u64 (pm_Start (mp Block) + Offset), pm_Length = sub64 len Offset,
                 pm_Type = pm_Type (mp Block), pm_NUMADomain = pm_NUMADomain (mp Block)\<rparr>)))"

function compact_loop :: "pmap \<Rightarrow> nat \<Rightarrow> nat \<Rightarrow> nat \<times> pmap" where
  "compact_loop mp NEnts i =
     (if i < NEnts then
        (if u64 (pm_Start (mp (i - 1)) + pm_Length (mp (i - 1))) < pm_Start (mp i) \<or> pm_Type (mp (i - 1)) \<noteq> pm_Type (mp i) \<or>
            pm_NUMADomain (mp (i - 1)) \<noteq> pm_NUMADomain (mp i)
         then compact_loop mp NEnts (i + 1)
         else let mp = mp(i - 1 := (mp (i - 1))\<lparr>pm_Length := u64 (pm_Length (mp (i - 1)) + pm_Length (mp i))\<rparr>)
           in compact_loop (move_ents mp i (i + 1) (NEnts - (i + 1))) (NEnts - 1) i)
      else (NEnts, mp))"
  by pat_completeness auto

termination by (relation "measure (\<lambda>(mp, n, i). n - i)") auto

declare compact_loop.simps [simp del]

definition PMemMap_CompactMap :: "pmap \<Rightarrow> nat \<Rightarrow> nat \<times> pmap" where
  "PMemMap_CompactMap mp NEnts = compact_loop mp NEnts 1"

text \<open>The selection sort: the index of the first least start from \<open>j\<close> on, and one round for each \<open>i\<close>.\<close>

function select_min :: "pmap \<Rightarrow> nat \<Rightarrow> nat \<Rightarrow> nat \<Rightarrow> nat" where
  "select_min mp NEnts sel j =
     (if j < NEnts then select_min mp NEnts (if pm_Start (mp j) < pm_Start (mp sel) then j else sel) (j + 1) else sel)"
  by pat_completeness auto

termination by (relation "measure (\<lambda>(mp, n, sel, j). n - j)") auto

declare select_min.simps [simp del]

function sort_loop :: "pmap \<Rightarrow> nat \<Rightarrow> nat \<Rightarrow> pmap" where
  "sort_loop mp NEnts i =
     (if i < NEnts then
        let sel = select_min mp NEnts i (i + 1)
        in sort_loop (if sel \<noteq> i then mp(i := mp sel, sel := mp i) else mp) NEnts (i + 1)
      else mp)"
  by pat_completeness auto

termination by (relation "measure (\<lambda>(mp, n, i). n - i)") auto

declare sort_loop.simps [simp del]

definition PMemMap_ValidateMap :: "pmap \<Rightarrow> nat \<Rightarrow> nat \<times> pmap" where
  "PMemMap_ValidateMap mp NEnts =
     (let mp = (if \<exists>i \<in> {1..<NEnts}. pm_Start (mp (i - 1)) > pm_Start (mp i) then sort_loop mp NEnts 0 else mp)
      in PMemMap_CompactMap mp NEnts)"

fun find_first :: "pmap \<Rightarrow> nat list \<Rightarrow> nat \<Rightarrow> nat option" where
  "find_first mp [] Base = None"
| "find_first mp (i # is) Base =
     (if u64 (pm_Start (mp i) + pm_Length (mp i)) > Base then Some i else find_first mp is Base)"

text \<open>The range \<open>first\<close> is cut so that it starts at \<open>Base\<close>, and so that it has \<open>Size\<close> bytes.\<close>

definition split_before :: "pmap \<Rightarrow> nat \<Rightarrow> nat \<Rightarrow> nat \<Rightarrow> nat \<Rightarrow> nat \<times> nat \<times> pmap" where
  "split_before mp NEnts MaxEnts first Base =
     (if pm_Start (mp first) < Base
      then let (NEnts, mp) = PMemMap_SplitBlock mp NEnts MaxEnts first (Base - pm_Start (mp first)) in (first + 1, NEnts, mp)
      else (first, NEnts, mp))"

definition split_after :: "pmap \<Rightarrow> nat \<Rightarrow> nat \<Rightarrow> nat \<Rightarrow> nat \<Rightarrow> nat \<times> pmap" where
  "split_after mp NEnts MaxEnts first Size =
     (if pm_Length (mp first) > Size then PMemMap_SplitBlock mp NEnts MaxEnts first Size else (NEnts, mp))"

definition PMemMap_MarkRangeUsed :: "pmap \<Rightarrow> nat \<Rightarrow> nat \<Rightarrow> nat \<Rightarrow> nat \<Rightarrow> nat \<times> pmap" where
  "PMemMap_MarkRangeUsed mp NEnts MaxEnts Base Size =
     (let Size = align_down 4096 (u64 (Size + 0xFFF)); Base = align_down 4096 Base
      in case find_first mp [0..<NEnts] Base of None \<Rightarrow> (NEnts, mp)
      | Some first \<Rightarrow>
        if pm_Start (mp first) > Base then (NEnts, mp)
        else if pm_Start (mp first) \<le> Base \<and> u64 (Base + Size) \<le> u64 (pm_Start (mp first) + pm_Length (mp first)) then
          (if pm_Start (mp first) < Base \<and> NEnts = MaxEnts then (NEnts, mp)
           else let (first, NEnts, mp) = split_before mp NEnts MaxEnts first Base
                in if pm_Length (mp first) > Size \<and> NEnts = MaxEnts then (NEnts, mp)
                   else let (NEnts, mp) = split_after mp NEnts MaxEnts first Size
                        in PMemMap_CompactMap (mp(first := (mp first)\<lparr>pm_Type := PMEMTYPE_USED\<rparr>)) NEnts)
        else (NEnts, mp))"

section \<open>What the map says about an address\<close>

definition entries :: "pmap \<Rightarrow> nat \<Rightarrow> tPMemMapEnt list" where
  "entries mp n = map mp [0..<n]"

abbreviation pm_end :: "tPMemMapEnt \<Rightarrow> nat" where
  "pm_end e \<equiv> pm_Start e + pm_Length e"

fun mem_at :: "tPMemMapEnt list \<Rightarrow> nat \<Rightarrow> (ePMemMapEntType \<times> 16 word) option" where
  "mem_at [] x = None"
| "mem_at (e # es) x = (if pm_Start e \<le> x \<and> x < pm_end e then Some (pm_Type e, pm_NUMADomain e) else mem_at es x)"

text \<open>Ascending ranges that do not overlap, below \<open>2^64\<close>.\<close>

definition pm_ordered :: "tPMemMapEnt list \<Rightarrow> bool" where
  "pm_ordered es \<longleftrightarrow> sorted_wrt (\<lambda>a b. pm_end a \<le> pm_Start b) es \<and> (\<forall>e \<in> set es. pm_end e < 2 ^ 64)"

lemma mem_at_append: "mem_at (es @ fs) x = (case mem_at es x of None \<Rightarrow> mem_at fs x | Some t \<Rightarrow> Some t)"
  by (induction es) auto

lemma mem_at_None: "(\<forall>e \<in> set es. x < pm_Start e \<or> pm_end e \<le> x) \<Longrightarrow> mem_at es x = None"
  by (induction es) auto

lemma entries_length [simp]: "length (entries mp n) = n"
  by (simp add: entries_def)

lemma entries_nth [simp]: "i < n \<Longrightarrow> entries mp n ! i = mp i"
  by (simp add: entries_def)

lemma entries_eqI: "length es = n \<Longrightarrow> (\<And>i. i < n \<Longrightarrow> mp i = es ! i) \<Longrightarrow> entries mp n = es"
  by (simp add: list_eq_iff_nth_eq)

text \<open>The operations on the list of the entries in use.\<close>

lemma split_entries:
  assumes "Block < NEnts" "NEnts < MaxEnts" "Offset \<le> pm_Length (mp Block)" "pm_end (mp Block) < 2 ^ 64"
    "PMemMap_SplitBlock mp NEnts MaxEnts Block Offset = (n, mp')"
  shows "n = NEnts + 1 \<and> entries mp' n = take Block (entries mp NEnts) @
    [(mp Block)\<lparr>pm_Length := Offset\<rparr>, (mp Block)\<lparr>pm_Start := pm_Start (mp Block) + Offset, pm_Length := pm_Length (mp Block) - Offset\<rparr>] @
    drop (Block + 1) (entries mp NEnts)"
proof -
  have n: "n = NEnts + 1" using assms(2,5) by (auto simp: PMemMap_SplitBlock_def Let_def)
  have new: "\<lparr>pm_Start = u64 (pm_Start (mp Block) + Offset), pm_Length = sub64 (pm_Length (mp Block)) Offset, pm_Type = pm_Type (mp Block),
      pm_NUMADomain = pm_NUMADomain (mp Block)\<rparr> =
      (mp Block)\<lparr>pm_Start := pm_Start (mp Block) + Offset, pm_Length := pm_Length (mp Block) - Offset\<rparr>"
    using assms(3,4) by (intro tPMemMapEnt.equality) (simp_all add: sub64_id u64_id)
  have mp': "mp' = (move_ents (mp(Block := (mp Block)\<lparr>pm_Length := Offset\<rparr>)) (Block + 2) (Block + 1) (NEnts - Block))
      (Block + 1 := (mp Block)\<lparr>pm_Start := pm_Start (mp Block) + Offset, pm_Length := pm_Length (mp Block) - Offset\<rparr>)"
    using assms(1,2,5) new by (auto simp: PMemMap_SplitBlock_def Let_def move_ents_def)
  have idx: "Suc (i - 2) = i - 1" if "Suc Block < i" for i using that by simp
  show ?thesis
    unfolding n mp' using assms(1)
    by (auto intro!: entries_eqI simp: nth_append min_def nth_Cons' move_ents_def idx)
qed

section \<open>Splitting, joining and retyping ranges\<close>

lemma pm_ordered_append:
  "pm_ordered (xs @ ys) \<longleftrightarrow> pm_ordered xs \<and> pm_ordered ys \<and> (\<forall>a \<in> set xs. \<forall>b \<in> set ys. pm_end a \<le> pm_Start b)"
  by (auto simp: pm_ordered_def sorted_wrt_append)

lemma pm_ordered_Cons: "pm_ordered (a # ys) \<longleftrightarrow> pm_end a < 2 ^ 64 \<and> (\<forall>b \<in> set ys. pm_end a \<le> pm_Start b) \<and> pm_ordered ys"
  by (auto simp: pm_ordered_def)

lemma pm_ordered_Nil [simp]: "pm_ordered []"
  by (simp add: pm_ordered_def)

lemmas pm_ordered_simps = pm_ordered_append pm_ordered_Cons

lemma split_range:
  assumes "pm_ordered (xs @ [e] @ ys)" "off \<le> pm_Length e"
  defines "zs \<equiv> xs @ [e\<lparr>pm_Length := off\<rparr>, e\<lparr>pm_Start := pm_Start e + off, pm_Length := pm_Length e - off\<rparr>] @ ys"
  shows "pm_ordered zs" "mem_at zs = mem_at (xs @ [e] @ ys)"
proof -
  show "pm_ordered zs" using assms(1,2) by (auto simp: zs_def pm_ordered_simps)
  show "mem_at zs = mem_at (xs @ [e] @ ys)"
    using assms(2) by (auto simp: zs_def mem_at_append fun_eq_iff split: option.splits)
qed

lemma join_ranges:
  assumes "pm_ordered (xs @ [a, b] @ ys)" "pm_Start b \<le> pm_end a" "pm_Type a = pm_Type b" "pm_NUMADomain a = pm_NUMADomain b"
  defines "zs \<equiv> xs @ [a\<lparr>pm_Length := pm_Length a + pm_Length b\<rparr>] @ ys"
  shows "pm_ordered zs" "mem_at zs = mem_at (xs @ [a, b] @ ys)" "pm_Length a + pm_Length b < 2 ^ 64"
proof -
  have ab: "pm_end a = pm_Start b" using assms(1,2) by (auto simp: pm_ordered_simps)
  then have e: "pm_Start a + (pm_Length a + pm_Length b) = pm_end b" by simp
  show "pm_ordered zs" using assms(1) e by (auto simp: zs_def pm_ordered_simps)
  show "mem_at zs = mem_at (xs @ [a, b] @ ys)"
    using ab e assms(3,4) by (auto simp: zs_def mem_at_append fun_eq_iff split: option.splits)
  show "pm_Length a + pm_Length b < 2 ^ 64" using assms(1) e by (simp add: pm_ordered_simps)
qed

lemma retype_range:
  assumes "pm_ordered (xs @ [e] @ ys)"
  shows "pm_ordered (xs @ [e\<lparr>pm_Type := t\<rparr>] @ ys)"
    "mem_at (xs @ [e\<lparr>pm_Type := t\<rparr>] @ ys) x =
      (if pm_Start e \<le> x \<and> x < pm_end e then Some (t, pm_NUMADomain e) else mem_at (xs @ [e] @ ys) x)"
proof -
  show "pm_ordered (xs @ [e\<lparr>pm_Type := t\<rparr>] @ ys)" using assms by (auto simp: pm_ordered_simps)
  have "mem_at xs x = None" if "pm_Start e \<le> x"
    using assms that by (intro mem_at_None) (auto simp: pm_ordered_simps)
  then show "mem_at (xs @ [e\<lparr>pm_Type := t\<rparr>] @ ys) x =
      (if pm_Start e \<le> x \<and> x < pm_end e then Some (t, pm_NUMADomain e) else mem_at (xs @ [e] @ ys) x)"
    by (auto simp: mem_at_append split: option.splits)
qed

section \<open>Joining the map\<close>

lemma entries_split1: "j < n \<Longrightarrow> entries mp n = take j (entries mp n) @ [mp j] @ drop (j + 1) (entries mp n)"
  by (metis append_Cons append_Nil entries_length entries_nth id_take_nth_drop Suc_eq_plus1)

lemma entries_split2:
  assumes "0 < i" "i < n"
  shows "entries mp n = take (i - 1) (entries mp n) @ [mp (i - 1), mp i] @ drop (i + 1) (entries mp n)"
proof -
  have "drop (i - 1) (entries mp n) = mp (i - 1) # mp i # drop (i + 1) (entries mp n)"
    using assms Cons_nth_drop_Suc [of "i - 1" "entries mp n"] Cons_nth_drop_Suc [of i "entries mp n"] by simp
  then show ?thesis using append_take_drop_id [of "i - 1" "entries mp n"] by simp
qed

lemma compact_loop_spec:
  "0 < i \<Longrightarrow> pm_ordered (entries mp n) \<Longrightarrow> compact_loop mp n i = (n', mp') \<Longrightarrow>
   pm_ordered (entries mp' n') \<and> mem_at (entries mp' n') = mem_at (entries mp n) \<and> n' \<le> n"
proof (induction mp n i rule: compact_loop.induct)
  case (1 mp n i)
  let ?skip = "u64 (pm_end (mp (i - 1))) < pm_Start (mp i) \<or> pm_Type (mp (i - 1)) \<noteq> pm_Type (mp i) \<or>
    pm_NUMADomain (mp (i - 1)) \<noteq> pm_NUMADomain (mp i)"
  show ?case
  proof (cases "i < n \<and> \<not> ?skip")
    case True
    define m1 where "m1 = mp(i - 1 := (mp (i - 1))\<lparr>pm_Length := u64 (pm_Length (mp (i - 1)) + pm_Length (mp i))\<rparr>)"
    define m2 where "m2 = move_ents m1 i (i + 1) (n - (i + 1))"
    let ?xs = "take (i - 1) (entries mp n)" and ?ys = "drop (i + 1) (entries mp n)"
    have es: "entries mp n = ?xs @ [mp (i - 1), mp i] @ ?ys" using entries_split2 "1.prems"(1) True by blast
    with "1.prems"(2) have ord: "pm_ordered (?xs @ [mp (i - 1), mp i] @ ?ys)" by simp
    then have "pm_end (mp (i - 1)) < 2 ^ 64" by (simp add: pm_ordered_simps)
    then have le: "pm_Start (mp i) \<le> pm_end (mp (i - 1))" using True by (simp add: u64_id)
    note j = join_ranges [OF ord le] True
    have "entries m2 (n - 1) = ?xs @ [(mp (i - 1))\<lparr>pm_Length := pm_Length (mp (i - 1)) + pm_Length (mp i)\<rparr>] @ ?ys"
      using j "1.prems"(1) by (intro entries_eqI) (auto simp: m2_def m1_def move_ents_def nth_append u64_id nth_Cons')
    moreover have "compact_loop m2 (n - 1) i = (n', mp')"
      using "1.prems"(3) True by (simp add: compact_loop.simps [of mp n i] m2_def m1_def Let_def)
    ultimately show ?thesis
      using "1.IH"(2) [of m1] True "1.prems"(1) j es by (auto simp: m2_def m1_def)
  next
    case False
    then show ?thesis using 1 by (auto simp: compact_loop.simps [of mp n i] split: if_splits)
  qed
qed

section \<open>Marking a range\<close>

lemma find_first_spec:
  assumes "pm_ordered (entries mp n)" "j < n" "pm_Start (mp j) \<le> B" "B < pm_end (mp j)"
  shows "find_first mp [0..<n] B = Some j"
proof -
  have less: "pm_end (mp i) < 2 ^ 64" if "i < n" for i
    using assms(1) that nth_mem [of i "entries mp n"] by (auto simp: pm_ordered_def)
  have before: "pm_end (mp i) \<le> B" if "i < j" for i
  proof -
    have "pm_end (entries mp n ! i) \<le> pm_Start (entries mp n ! j)"
      using assms(1,2) that by (intro sorted_wrt_nth_less [of "\<lambda>a b. pm_end a \<le> pm_Start b"]) (simp_all add: pm_ordered_def)
    then show ?thesis using that assms(2,3) by simp
  qed
  have "find_first mp is B = None" if "set is \<subseteq> {..<j}" for "is"
    using that by (induction "is") (use before less assms(2) in \<open>auto simp: u64_id not_less\<close>)
  moreover have "find_first mp (is @ js) B = (case find_first mp is B of None \<Rightarrow> find_first mp js B | Some i \<Rightarrow> Some i)" for "is" js
    by (induction "is") auto
  moreover have "[0..<n] = [0..<j] @ j # [Suc j..<n]" using assms(2) by (metis le_add1 upt_add_eq_append upt_conv_Cons add_0 less_imp_le_nat le_add_diff_inverse)
  moreover have "set [0..<j] \<subseteq> {..<j}" by auto
  ultimately show ?thesis using less [OF assms(2)] assms(4) by (simp add: u64_id)
qed

text \<open>A split on the array, with what it does to the list.\<close>

lemma split_step:
  assumes "pm_ordered (entries mp n)" "j < n" "n < MaxEnts" "off \<le> pm_Length (mp j)"
  obtains mp' xs ys where "PMemMap_SplitBlock mp n MaxEnts j off = (n + 1, mp')" "length xs = j"
    "entries mp' (n + 1) = xs @ [(mp j)\<lparr>pm_Length := off\<rparr>, mp' (j + 1)] @ ys"
    "mp' (j + 1) = (mp j)\<lparr>pm_Start := pm_Start (mp j) + off, pm_Length := pm_Length (mp j) - off\<rparr>"
    "mp' j = (mp j)\<lparr>pm_Length := off\<rparr>"
    "pm_ordered (entries mp' (n + 1))" "mem_at (entries mp' (n + 1)) = mem_at (entries mp n)"
proof -
  obtain k mp' where r: "PMemMap_SplitBlock mp n MaxEnts j off = (k, mp')" by fastforce
  let ?xs = "take j (entries mp n)" and ?ys = "drop (j + 1) (entries mp n)"
  have es: "entries mp n = ?xs @ [mp j] @ ?ys" using entries_split1 [OF assms(2)] .
  have "pm_end (mp j) < 2 ^ 64" using assms(1) es by (metis pm_ordered_append pm_ordered_Cons)
  note sp = split_entries [OF assms(2-4) this r]
  define a where "a = (mp j)\<lparr>pm_Length := off\<rparr>"
  define b where "b = (mp j)\<lparr>pm_Start := pm_Start (mp j) + off, pm_Length := pm_Length (mp j) - off\<rparr>"
  have k: "k = n + 1" and en: "entries mp' (n + 1) = ?xs @ [a, b] @ ?ys" using sp unfolding a_def b_def by auto
  have rg: "pm_ordered (entries mp' (n + 1))" "mem_at (entries mp' (n + 1)) = mem_at (entries mp n)"
    using split_range [of ?xs "mp j" ?ys off, folded es, OF assms(1,4)] unfolding en a_def b_def by simp_all
  have "entries mp' (n + 1) ! j = a" "entries mp' (n + 1) ! (j + 1) = b"
    unfolding en using assms(2) by (simp_all add: nth_append)
  then have ab: "mp' j = a" "mp' (j + 1) = b" using assms(2) by simp_all
  show ?thesis
    using that [of mp' ?xs ?ys] r k en rg ab assms(2) unfolding a_def b_def by simp
qed

lemma split_before_spec:
  assumes "pm_ordered (entries mp n)" "j < n" "n < MaxEnts" "pm_Start (mp j) \<le> B" "B \<le> pm_end (mp j)"
  obtains j1 n1 m1 where "split_before mp n MaxEnts j B = (j1, n1, m1)" "j1 < n1" "n1 \<le> n + 1" "pm_ordered (entries m1 n1)"
    "mem_at (entries m1 n1) = mem_at (entries mp n)" "pm_Start (m1 j1) = B" "pm_end (m1 j1) = pm_end (mp j)"
    "pm_NUMADomain (m1 j1) = pm_NUMADomain (mp j)"
proof (cases "pm_Start (mp j) < B")
  case True
  have "B - pm_Start (mp j) \<le> pm_Length (mp j)" using assms(4,5) by simp
  from split_step [OF assms(1-3) this] obtain mp' where
    "PMemMap_SplitBlock mp n MaxEnts j (B - pm_Start (mp j)) = (n + 1, mp')"
    "mp' (j + 1) = (mp j)\<lparr>pm_Start := pm_Start (mp j) + (B - pm_Start (mp j)), pm_Length := pm_Length (mp j) - (B - pm_Start (mp j))\<rparr>"
    "pm_ordered (entries mp' (n + 1))" "mem_at (entries mp' (n + 1)) = mem_at (entries mp n)" .
  then show ?thesis using that [of "j + 1" "n + 1" mp'] True assms(2,4,5) by (simp add: split_before_def)
next
  case False
  then show ?thesis using that [of j n mp] assms by (simp add: split_before_def)
qed

lemma split_after_spec:
  assumes "pm_ordered (entries mp n)" "j < n" "n < MaxEnts" "S \<le> pm_Length (mp j)"
  obtains n1 m1 where "split_after mp n MaxEnts j S = (n1, m1)" "j < n1" "n1 \<le> n + 1" "pm_ordered (entries m1 n1)"
    "mem_at (entries m1 n1) = mem_at (entries mp n)" "pm_Start (m1 j) = pm_Start (mp j)" "pm_Length (m1 j) = S"
    "pm_NUMADomain (m1 j) = pm_NUMADomain (mp j)"
proof (cases "pm_Length (mp j) > S")
  case True
  from split_step [OF assms] obtain mp' where "PMemMap_SplitBlock mp n MaxEnts j S = (n + 1, mp')"
    "mp' j = (mp j)\<lparr>pm_Length := S\<rparr>" "pm_ordered (entries mp' (n + 1))" "mem_at (entries mp' (n + 1)) = mem_at (entries mp n)" .
  with True assms(2) show ?thesis by (intro that [of "n + 1" mp']) (simp_all add: split_after_def)
next
  case False
  with assms show ?thesis by (intro that [of n mp]) (simp_all add: split_after_def)
qed

text \<open>
  When a range of the map contains the pages, the addresses in them become used memory and all others
  stay what they were.
\<close>

lemma MarkRangeUsed_spec:
  assumes "pm_ordered (entries mp n)" "n + 2 \<le> MaxEnts" "j < n"
    "B = align_down 4096 Base" "S = align_down 4096 (u64 (Size + 0xFFF))" "0 < S"
    "pm_Start (mp j) \<le> B" "B + S \<le> pm_end (mp j)"
    "PMemMap_MarkRangeUsed mp n MaxEnts Base Size = (n', mp')"
  shows "pm_ordered (entries mp' n') \<and> n' \<le> n + 2 \<and>
    (\<forall>x. mem_at (entries mp' n') x =
      (if B \<le> x \<and> x < B + S then Some (PMEMTYPE_USED, pm_NUMADomain (mp j)) else mem_at (entries mp n) x))"
proof -
  have e: "pm_end (mp j) < 2 ^ 64" using assms(1,3) nth_mem [of j "entries mp n"] by (auto simp: pm_ordered_def)
  have first: "find_first mp [0..<n] B = Some j" using find_first_spec [OF assms(1,3,7)] assms(6,8) by simp
  obtain j1 n1 m1 where s1: "split_before mp n MaxEnts j B = (j1, n1, m1)" "j1 < n1" "n1 \<le> n + 1" "pm_ordered (entries m1 n1)"
    "mem_at (entries m1 n1) = mem_at (entries mp n)" "pm_Start (m1 j1) = B" "pm_end (m1 j1) = pm_end (mp j)"
    "pm_NUMADomain (m1 j1) = pm_NUMADomain (mp j)"
    using split_before_spec [OF assms(1,3) _ assms(7), of MaxEnts] assms(2,8) by auto
  have "n1 < MaxEnts" "S \<le> pm_Length (m1 j1)" using s1(3,6,7) assms(2,8) by simp_all
  from split_after_spec [OF s1(4,2) this] obtain n2 m2 where
    s2: "split_after m1 n1 MaxEnts j1 S = (n2, m2)" "j1 < n2" "n2 \<le> n1 + 1" "pm_ordered (entries m2 n2)"
      "mem_at (entries m2 n2) = mem_at (entries m1 n1)" "pm_Start (m2 j1) = pm_Start (m1 j1)" "pm_Length (m2 j1) = S"
      "pm_NUMADomain (m2 j1) = pm_NUMADomain (m1 j1)" .
  define m3 where "m3 = m2(j1 := (m2 j1)\<lparr>pm_Type := PMEMTYPE_USED\<rparr>)"
  let ?xs = "take j1 (entries m2 n2)" and ?ys = "drop (j1 + 1) (entries m2 n2)"
  have es: "entries m2 n2 = ?xs @ [m2 j1] @ ?ys" using entries_split1 [OF s2(2)] .
  have en: "entries m3 n2 = ?xs @ [(m2 j1)\<lparr>pm_Type := PMEMTYPE_USED\<rparr>] @ ?ys"
    using s2(2) by (intro entries_eqI) (auto simp: m3_def nth_append nth_Cons')
  note ret = retype_range [of ?xs "m2 j1" ?ys PMEMTYPE_USED, folded es en, OF s2(4)]
  have "compact_loop m3 n2 1 = (n', mp')"
    using assms(2,6-9) first e s1(1) s2(1) \<open>n1 < MaxEnts\<close>
    by (simp add: PMemMap_MarkRangeUsed_def PMemMap_CompactMap_def u64_id m3_def Let_def flip: assms(4,5))
  from compact_loop_spec [OF _ ret(1) this] show ?thesis using ret(2) s1 s2 by auto
qed

section \<open>Sorting the map\<close>

lemma select_min_spec:
  "sel < j \<Longrightarrow> j \<le> n \<Longrightarrow> select_min mp n sel j < n \<and> (select_min mp n sel j = sel \<or> j \<le> select_min mp n sel j) \<and>
   pm_Start (mp (select_min mp n sel j)) \<le> pm_Start (mp sel) \<and>
   (\<forall>k. j \<le> k \<and> k < n \<longrightarrow> pm_Start (mp (select_min mp n sel j)) \<le> pm_Start (mp k))"
proof (induction mp n sel j rule: select_min.induct)
  case (1 mp n sel j)
  show ?case
  proof (cases "j < n")
    case True
    define s where "s = (if pm_Start (mp j) < pm_Start (mp sel) then j else sel)"
    let ?r = "select_min mp n s (j + 1)"
    have r: "?r < n" "?r = s \<or> j + 1 \<le> ?r" "pm_Start (mp ?r) \<le> pm_Start (mp s)"
      "\<forall>k. j + 1 \<le> k \<and> k < n \<longrightarrow> pm_Start (mp ?r) \<le> pm_Start (mp k)"
      using "1.IH" [OF True] "1.prems" True unfolding s_def by (auto split: if_splits)
    have s: "pm_Start (mp s) \<le> pm_Start (mp sel)" "pm_Start (mp s) \<le> pm_Start (mp j)" "s = sel \<or> s = j" by (auto simp: s_def)
    have "pm_Start (mp ?r) \<le> pm_Start (mp k)" if "j \<le> k" "k < n" for k
      using r(3,4) s(2) that by (cases "k = j") (auto intro: order_trans)
    moreover have "select_min mp n sel j = ?r" using True by (simp add: select_min.simps [of mp n sel j] s_def)
    ultimately show ?thesis using r s by (auto intro: order_trans)
  next
    case False
    then have "select_min mp n sel j = sel" by (simp add: select_min.simps [of mp n sel j])
    then show ?thesis using "1.prems" False by simp
  qed
qed

lemma swap_entries:
  assumes "i < n" "s < n"
  shows "mset (entries (mp(i := mp s, s := mp i)) n) = mset (entries mp n)"
proof -
  have "entries (mp(i := mp s, s := mp i)) n = (entries mp n)[i := entries mp n ! s, s := entries mp n ! i]"
    using assms by (intro entries_eqI) (auto simp: nth_list_update)
  then show ?thesis using mset_swap [of s "entries mp n" i] assms by (simp only: entries_length)
qed

definition pm_sorted :: "pmap \<Rightarrow> nat \<Rightarrow> nat \<Rightarrow> bool" where
  "pm_sorted mp n i \<longleftrightarrow> (\<forall>a b. a < i \<and> a \<le> b \<and> b < n \<longrightarrow> pm_Start (mp a) \<le> pm_Start (mp b))"

lemma sort_loop_spec:
  "i \<le> n \<Longrightarrow> pm_sorted mp n i \<Longrightarrow> mset (entries (sort_loop mp n i) n) = mset (entries mp n) \<and> pm_sorted (sort_loop mp n i) n n"
proof (induction mp n i rule: sort_loop.induct)
  case (1 mp n i)
  show ?case
  proof (cases "i < n")
    case True
    define sel where "sel = select_min mp n i (i + 1)"
    define m1 where "m1 = mp(i := mp sel, sel := mp i)"
    have sel: "sel < n" "i \<le> sel" "\<forall>k. i \<le> k \<and> k < n \<longrightarrow> pm_Start (mp sel) \<le> pm_Start (mp k)"
      using select_min_spec [of i "i + 1" n mp] True unfolding sel_def
      by (auto simp: Suc_le_eq) (metis le_neq_implies_less order_refl)+
    have step: "sort_loop mp n i = sort_loop m1 n (i + 1)"
      using True by (simp add: sort_loop.simps [of mp n i] m1_def Let_def sel_def [symmetric, simplified])
    have "pm_sorted m1 n (i + 1)"
      using "1.prems"(2) sel True unfolding pm_sorted_def m1_def by (auto simp: less_Suc_eq)
    moreover have m1: "(if sel \<noteq> i then mp(i := mp sel, sel := mp i) else mp) = m1" by (simp add: m1_def)
    ultimately show ?thesis
      using "1.IH" [OF True sel_def, unfolded m1] step True swap_entries [OF True sel(1), of mp, folded m1_def] by simp
  next
    case False
    then have "i = n" using "1.prems"(1) by simp
    then show ?thesis using "1.prems" by (simp add: sort_loop.simps [of mp n n])
  qed
qed

text \<open>Ranges that are not empty, lie below \<open>2^64\<close> and do not overlap.\<close>

definition pm_apart :: "tPMemMapEnt \<Rightarrow> tPMemMapEnt \<Rightarrow> bool" where
  "pm_apart a b \<longleftrightarrow> pm_end a \<le> pm_Start b \<or> pm_end b \<le> pm_Start a"

definition pm_disjoint :: "tPMemMapEnt list \<Rightarrow> bool" where
  "pm_disjoint es \<longleftrightarrow> (\<forall>e \<in> set es. 0 < pm_Length e \<and> pm_end e < 2 ^ 64) \<and> sorted_wrt pm_apart es"

lemma mem_at_disjoint:
  "pm_disjoint es \<Longrightarrow>
   mem_at es x = Some t \<longleftrightarrow> (\<exists>e \<in> set es. pm_Start e \<le> x \<and> x < pm_end e \<and> t = (pm_Type e, pm_NUMADomain e))"
proof (induction es)
  case (Cons e es)
  then have "\<not> (pm_Start f \<le> x \<and> x < pm_end f)" if "f \<in> set es" "pm_Start e \<le> x" "x < pm_end e" for f
    using that by (fastforce simp: pm_disjoint_def pm_apart_def)
  then show ?case using Cons by (auto simp: pm_disjoint_def)
qed simp

lemma sorted_wrt_mset:
  assumes "\<And>a b. R a b \<Longrightarrow> R b a" "mset es = mset fs" "sorted_wrt R es"
  shows "sorted_wrt R fs"
  using assms(2,3)
proof (induction fs arbitrary: es)
  case (Cons f fs)
  then obtain as bs where es: "es = as @ f # bs" by (metis list.set_intros(1) mset_eq_setD split_list)
  then have "mset (as @ bs) = mset fs" using Cons.prems(1) by simp
  moreover have "sorted_wrt R (as @ bs)" using Cons.prems(2) es by (simp add: sorted_wrt_append)
  moreover have "\<forall>x \<in> set (as @ bs). R f x" using Cons.prems(2) es assms(1) by (auto simp: sorted_wrt_append)
  ultimately show ?case using Cons.IH by (metis mset_eq_setD sorted_wrt.simps(2))
qed simp

lemma pm_disjoint_mset:
  assumes "mset es = mset fs" "pm_disjoint es"
  shows "pm_disjoint fs" "mem_at fs = mem_at es"
proof -
  have set: "set fs = set es" using assms(1) by (metis set_mset_mset)
  show d: "pm_disjoint fs"
    using sorted_wrt_mset [of pm_apart es fs] assms set by (auto simp: pm_disjoint_def pm_apart_def)
  have "mem_at fs x = Some t \<longleftrightarrow> mem_at es x = Some t" for x t
    using mem_at_disjoint [OF d] mem_at_disjoint [OF assms(2)] set by simp
  then show "mem_at fs = mem_at es" by (metis ext option.exhaust)
qed

lemma sorted_disjoint_ordered:
  assumes "pm_disjoint (entries mp n)" "pm_sorted mp n n"
  shows "pm_ordered (entries mp n)"
proof -
  have "pm_end (mp i) \<le> pm_Start (mp j)" if "i < j" "j < n" for i j
  proof -
    have "pm_Start (mp i) \<le> pm_Start (mp j)" using assms(2) that by (simp add: pm_sorted_def)
    moreover have "pm_end (mp i) \<le> pm_Start (mp j) \<or> pm_end (mp j) \<le> pm_Start (mp i)"
      using assms(1) that sorted_wrt_nth_less [of pm_apart "entries mp n" i j] by (simp add: pm_disjoint_def pm_apart_def)
    moreover have "0 < pm_Length (mp j)" using assms(1) that nth_mem [of j "entries mp n"] by (auto simp: pm_disjoint_def)
    ultimately show ?thesis by linarith
  qed
  then show ?thesis using assms(1) by (auto simp: pm_ordered_def sorted_wrt_iff_nth_less pm_disjoint_def)
qed

lemma ValidateMap_spec:
  assumes "pm_disjoint (entries mp n)" "PMemMap_ValidateMap mp n = (n', mp')"
  shows "pm_ordered (entries mp' n') \<and> mem_at (entries mp' n') = mem_at (entries mp n) \<and> n' \<le> n"
proof -
  define m1 where "m1 = (if \<exists>i \<in> {1..<n}. pm_Start (mp (i - 1)) > pm_Start (mp i) then sort_loop mp n 0 else mp)"
  have "pm_sorted m1 n n \<and> mset (entries m1 n) = mset (entries mp n)"
  proof (cases "\<exists>i \<in> {1..<n}. pm_Start (mp (i - 1)) > pm_Start (mp i)")
    case True
    then show ?thesis using sort_loop_spec [of 0 n mp] by (simp add: m1_def pm_sorted_def)
  next
    case False
    then have adj: "pm_Start (mp k) \<le> pm_Start (mp (Suc k))" if "Suc k < n" for k using that by (force simp: not_less)
    have "pm_Start (mp a) \<le> pm_Start (mp b)" if "a \<le> b" "b < n" for a b
      using that by (induction b rule: dec_induct) (use adj in \<open>auto intro: order_trans\<close>)
    then show ?thesis using False by (simp add: m1_def pm_sorted_def)
  qed
  then have "pm_ordered (entries m1 n)" "mem_at (entries m1 n) = mem_at (entries mp n)"
    using pm_disjoint_mset [of "entries mp n" "entries m1 n"] assms(1) sorted_disjoint_ordered [of m1 n] by auto
  moreover have "compact_loop m1 n 1 = (n', mp')" using assms(2) by (simp add: PMemMap_ValidateMap_def PMemMap_CompactMap_def m1_def Let_def)
  ultimately show ?thesis using compact_loop_spec [of 1 m1 n n' mp'] by simp
qed

text \<open>With one free entry left, splitting a range stores to the entry behind the end of the array.\<close>

lemma SplitBlock_overruns:
  assumes "Block < NEnts" "NEnts + 1 = MaxEnts" "PMemMap_SplitBlock mp NEnts MaxEnts Block Offset = (n, mp')" "Block + 1 \<noteq> NEnts"
  shows "mp' MaxEnts = mp NEnts"
  using assms by (auto simp: PMemMap_SplitBlock_def Let_def move_ents_def)

end
