(* ===== verification/Memory_Theorems.thy ===== *)
theory Memory_Theorems
  imports Physical_Map
begin

text \<open>
  The properties of the map of physical memory.
\<close>

section \<open>The map at boot\<close>

text \<open>
  C28: sorting and joining the map of physical memory gives ascending ranges without overlap and says
  the same about every address, for every map of ranges that are not empty and do not overlap.
\<close>

theorem PMemMap_ValidateMap_correct:
  assumes "pm_disjoint (entries mp n)" "PMemMap_ValidateMap mp n = (n', mp')"
  shows "pm_ordered (entries mp' n') \<and> mem_at (entries mp' n') = mem_at (entries mp n) \<and> n' \<le> n"
  using assms by (rule ValidateMap_spec)

definition sample_ents :: "tPMemMapEnt list" where
  "sample_ents =
     [\<lparr>pm_Start = 0x100000, pm_Length = 0x10000, pm_Type = PMEMTYPE_FREE, pm_NUMADomain = 0\<rparr>,
      \<lparr>pm_Start = 0, pm_Length = 0x8000, pm_Type = PMEMTYPE_FREE, pm_NUMADomain = 0\<rparr>,
      \<lparr>pm_Start = 0x8000, pm_Length = 0x8000, pm_Type = PMEMTYPE_FREE, pm_NUMADomain = 0\<rparr>]"

definition sample_map :: pmap where
  "sample_map i = sample_ents ! i"

lemma sample_entries_map: "entries sample_map 3 = sample_ents"
  by (rule entries_eqI) (simp_all add: sample_map_def sample_ents_def)

theorem PMemMap_ValidateMap_correct_witness:
  "pm_disjoint (entries sample_map 3) \<and> pm_ordered (entries (snd (PMemMap_ValidateMap sample_map 3)) (fst (PMemMap_ValidateMap sample_map 3))) \<and>
   mem_at (entries (snd (PMemMap_ValidateMap sample_map 3)) (fst (PMemMap_ValidateMap sample_map 3))) 0x9000 = Some (PMEMTYPE_FREE, 0)"
proof -
  have d: "pm_disjoint (entries sample_map 3)"
    by (simp add: sample_entries_map pm_disjoint_def pm_apart_def sample_ents_def)
  from PMemMap_ValidateMap_correct [OF this prod.collapse [symmetric]] show ?thesis
    using d by (simp add: sample_entries_map sample_ents_def)
qed

text \<open>The addresses of the pages that hold a byte of the range.\<close>

definition in_pages :: "nat \<Rightarrow> nat \<Rightarrow> nat \<Rightarrow> bool" where
  "in_pages Base Size x \<longleftrightarrow> (\<exists>y. Base \<le> y \<and> y < Base + Size \<and> x div 4096 = y div 4096)"

lemma in_pages_bounds:
  assumes "0 < Size"
  shows "in_pages Base Size x \<longleftrightarrow> Base div 4096 \<le> x div 4096 \<and> x div 4096 \<le> (Base + Size - 1) div 4096"
proof
  assume "in_pages Base Size x"
  then obtain y where "Base \<le> y" "y \<le> Base + Size - 1" "x div 4096 = y div 4096" by (auto simp: in_pages_def)
  then show "Base div 4096 \<le> x div 4096 \<and> x div 4096 \<le> (Base + Size - 1) div 4096" by (auto intro: div_le_mono)
next
  assume r: "Base div 4096 \<le> x div 4096 \<and> x div 4096 \<le> (Base + Size - 1) div 4096"
  define y where "y = min (Base + Size - 1) (max Base x)"
  have "x div 4096 = y div 4096" using r div_le_mono [of x Base 4096] div_le_mono [of "Base + Size - 1" x 4096]
    by (auto simp: y_def min_def max_def)
  then show "in_pages Base Size x" using assms by (intro exI [of _ y] iffD2 [OF in_pages_def]) (auto simp: y_def)
qed

text \<open>The rounding of the code, against the pages of the range.\<close>

lemma align_down_div: "align_down d n = d * (n div d)"
  by (simp add: align_down_def minus_mod_eq_mult_div)

lemma rounded_size:
  assumes "0 < Size" "Size + 0xFFF < 2 ^ 64"
  shows "align_down 4096 (u64 (Size + 0xFFF)) = 4096 * ((Size - 1) div 4096 + 1)"
proof -
  have "(Size + 0xFFF) div 4096 = (Size - 1 + 4096) div 4096" using assms(1) by simp
  also have "\<dots> = (Size - 1) div 4096 + 1" by simp
  finally show ?thesis using assms(2) by (simp add: align_down_div u64_id)
qed

lemma page_split:
  fixes Base Size :: nat
  assumes "0 < Size"
  obtains b c k r where "Base = 4096 * b + c" "c < 4096" "Size = 4096 * k + r + 1" "r < 4096"
    "Base div 4096 = b" "Base mod 4096 = c" "(Size - 1) div 4096 = k" "(Size - 1) mod 4096 = r"
proof
  show "Base = 4096 * (Base div 4096) + Base mod 4096" by simp
  show "Size = 4096 * ((Size - 1) div 4096) + (Size - 1) mod 4096 + 1" using assms by simp
qed simp_all

lemma rounded:
  fixes Base Size :: nat
  assumes "0 < Size" "Size + 0xFFF < 2 ^ 64"
  defines "B \<equiv> align_down 4096 Base" and "S \<equiv> align_down 4096 (u64 (Size + 0xFFF))"
  shows "0 < S" and "Base mod 4096 + (Size - 1) mod 4096 < 4096 \<Longrightarrow> in_pages Base Size x \<longleftrightarrow> B \<le> x \<and> x < B + S"
    and "4096 \<le> Base mod 4096 + (Size - 1) mod 4096 \<Longrightarrow> B + S \<le> Base + Size - 1"
proof -
  obtain b c k r where e: "Base = 4096 * b + c" "c < 4096" "Size = 4096 * k + r + 1" "r < 4096"
    "Base div 4096 = b" "Base mod 4096 = c" "(Size - 1) div 4096 = k" "(Size - 1) mod 4096 = r" using page_split [OF assms(1)] .
  have eq: "B = 4096 * b" "S = 4096 * (k + 1)"
    using rounded_size [OF assms(1,2)] e(5,7) by (simp_all add: B_def S_def align_down_div)
  have last: "Base + Size - 1 = 4096 * (b + k) + (c + r)" using e(1,3) by simp
  show "0 < S" by (simp add: eq)
  show "in_pages Base Size x \<longleftrightarrow> B \<le> x \<and> x < B + S" if "Base mod 4096 + (Size - 1) mod 4096 < 4096"
  proof -
    have "c + r < 4096" using that unfolding e(6,8) .
    then have "(Base + Size - 1) div 4096 = b + k" unfolding last by (subst div_mult_self4) simp_all
    then have "in_pages Base Size x \<longleftrightarrow> b \<le> x div 4096 \<and> x div 4096 \<le> b + k" unfolding in_pages_bounds [OF assms(1)] e(5) by simp
    also have "\<dots> \<longleftrightarrow> 4096 * b \<le> x \<and> x < 4096 * b + 4096 * (k + 1)"
      using less_eq_div_iff_mult_less_eq [of 4096 b x] div_less_iff_less_mult [of 4096 x "b + k + 1"]
      by (simp add: less_Suc_eq_le algebra_simps)
    finally show ?thesis unfolding eq .
  qed
  show "B + S \<le> Base + Size - 1" if "4096 \<le> Base mod 4096 + (Size - 1) mod 4096"
    using that unfolding last eq e(6,8) by simp
qed

lemma rounded_inside:
  fixes Base Size :: nat
  assumes "0 < Size" "\<forall>x. in_pages Base Size x \<longrightarrow> a \<le> x \<and> x < e" "e < 2 ^ 64"
  defines "B \<equiv> align_down 4096 Base" and "S \<equiv> align_down 4096 (u64 (Size + 0xFFF))"
  shows "Size + 0xFFF < 2 ^ 64" "a \<le> B" "B + S \<le> e"
proof -
  obtain b c k r where e: "Base = 4096 * b + c" "c < 4096" "Size = 4096 * k + r + 1" "r < 4096"
    "Base div 4096 = b" "Base mod 4096 = c" "(Size - 1) div 4096 = k" "(Size - 1) mod 4096 = r" using page_split [OF assms(1)] .
  define p where "p = (Base + Size - 1) div 4096"
  have "4096 * (b + k) \<le> Base + Size - 1" using e(1,3) by simp
  then have le: "b + k \<le> p" using div_le_mono [of "4096 * (b + k)" "Base + Size - 1" 4096] by (simp add: p_def)
  have "in_pages Base Size (4096 * b)" "in_pages Base Size (4096 * p + 4095)"
    unfolding in_pages_bounds [OF assms(1)] e(5) p_def [symmetric] using le by simp_all
  then have q: "a \<le> 4096 * b" "4096 * p + 4095 < e" using assms(2) by blast+
  show "a \<le> B" using q(1) e(5) by (simp add: B_def align_down_div)
  have "4096 * (k + 1) < 4096 * (2 :: nat) ^ 52" using q(2) le assms(3) by simp
  then have "k + 1 < (2 :: nat) ^ 52" by (simp only: mult_less_cancel1)
  then show m: "Size + 0xFFF < 2 ^ 64" using e(3,4) by simp
  show "B + S \<le> e" using q(2) le rounded_size [OF assms(1) m] e(5,7) by (simp add: B_def S_def align_down_div)
qed

text \<open>
  C29: marking a range whose pages all lie inside one range of the map makes exactly the addresses of
  these pages used memory of the same domain and leaves the rest of memory as it was, while the map
  has two free entries. The start is on a page boundary, or the offset of the start in its page and
  that of the end do not add up to another page: the code rounds the size without regard to the
  offset of the start, and \<open>PMemMap_MarkRangeUsed_misses_page\<close> says what happens otherwise.
\<close>

theorem PMemMap_MarkRangeUsed_correct:
  assumes "pm_ordered (entries mp n)" "n + 2 \<le> MaxEnts" "j < n"
    "\<forall>x. in_pages Base Size x \<longrightarrow> pm_Start (mp j) \<le> x \<and> x < pm_Start (mp j) + pm_Length (mp j)"
    "0 < Size" "Base mod 4096 + (Size - 1) mod 4096 < 4096"
    "PMemMap_MarkRangeUsed mp n MaxEnts Base Size = (n', mp')"
  shows "pm_ordered (entries mp' n') \<and> n' \<le> n + 2 \<and>
    (\<forall>x. mem_at (entries mp' n') x =
      (if in_pages Base Size x then Some (PMEMTYPE_USED, pm_NUMADomain (mp j)) else mem_at (entries mp n) x))"
proof -
  have "pm_Start (mp j) + pm_Length (mp j) < 2 ^ 64" using assms(1,3) by (auto simp: pm_ordered_def entries_def)
  note r = rounded_inside [OF assms(5,4) this]
  show ?thesis
    using MarkRangeUsed_spec [OF assms(1-3) refl refl rounded(1) [OF assms(5) r(1)] r(2,3) assms(7)]
    unfolding rounded(2) [OF assms(5) r(1) assms(6)] .
qed

definition sample_map2 :: pmap where
  "sample_map2 _ = \<lparr>pm_Start = 0x100000, pm_Length = 0x10000, pm_Type = PMEMTYPE_FREE, pm_NUMADomain = 0\<rparr>"

lemma sample_map2_entries: "entries sample_map2 1 = [sample_map2 0]"
  by (rule entries_eqI) simp_all

lemma sample_map2_ordered: "pm_ordered (entries sample_map2 1)"
  unfolding sample_map2_entries by (simp add: pm_ordered_def sample_map2_def)

theorem PMemMap_MarkRangeUsed_correct_witness:
  "\<exists>n' mp'. PMemMap_MarkRangeUsed sample_map2 1 16 0x103010 0xFF0 = (n', mp') \<and> n' \<le> 3 \<and>
    mem_at (entries mp' n') 0x102FFF = Some (PMEMTYPE_FREE, 0) \<and> mem_at (entries mp' n') 0x103000 = Some (PMEMTYPE_USED, 0) \<and>
    mem_at (entries mp' n') 0x104FFF = Some (PMEMTYPE_FREE, 0)"
proof -
  obtain n' mp' where r: "PMemMap_MarkRangeUsed sample_map2 1 16 0x103010 0xFF0 = (n', mp')" by fastforce
  have p: "in_pages 0x103010 0xFF0 x \<longleftrightarrow> x div 4096 = 0x103" for x
    unfolding in_pages_bounds [of "0xFF0" "0x103010", simplified] by auto
  have "\<forall>x. in_pages 0x103010 0xFF0 x \<longrightarrow> 0x100000 \<le> x \<and> x < 0x110000" unfolding p by auto
  with PMemMap_MarkRangeUsed_correct [OF sample_map2_ordered _ _ _ _ _ r, of 0] r show ?thesis
    unfolding sample_map2_entries by (auto simp: sample_map2_def p)
qed

text \<open>
  Otherwise the last page of the range is left as it was, whatever the map says about it.
\<close>

theorem PMemMap_MarkRangeUsed_misses_page:
  assumes "pm_ordered (entries mp n)" "n + 2 \<le> MaxEnts" "j < n"
    "\<forall>x. in_pages Base Size x \<longrightarrow> pm_Start (mp j) \<le> x \<and> x < pm_Start (mp j) + pm_Length (mp j)"
    "0 < Size" "4096 \<le> Base mod 4096 + (Size - 1) mod 4096"
    "PMemMap_MarkRangeUsed mp n MaxEnts Base Size = (n', mp')"
  shows "mem_at (entries mp' n') (Base + Size - 1) = mem_at (entries mp n) (Base + Size - 1)"
proof -
  have "pm_Start (mp j) + pm_Length (mp j) < 2 ^ 64" using assms(1,3) by (auto simp: pm_ordered_def entries_def)
  note r = rounded_inside [OF assms(5,4) this]
  show ?thesis
    using MarkRangeUsed_spec [OF assms(1-3) refl refl rounded(1) [OF assms(5) r(1)] r(2,3) assms(7)]
      rounded(3) [OF assms(5) r(1) assms(6)] by simp
qed

theorem PMemMap_MarkRangeUsed_misses_page_witness:
  "\<exists>n' mp'. PMemMap_MarkRangeUsed sample_map2 1 16 0x103010 0x1000 = (n', mp') \<and>
    mem_at (entries mp' n') 0x10400F = Some (PMEMTYPE_FREE, 0)"
proof -
  obtain n' mp' where r: "PMemMap_MarkRangeUsed sample_map2 1 16 0x103010 0x1000 = (n', mp')" by fastforce
  have "in_pages 0x103010 0x1000 x \<longrightarrow> 0x100000 \<le> x \<and> x < 0x110000" for x
    unfolding in_pages_bounds [of "0x1000" "0x103010", simplified]
    using mult_div_mod_eq [of 4096 x] mod_less_divisor [of 4096 x] by simp linarith
  with PMemMap_MarkRangeUsed_misses_page [OF sample_map2_ordered _ _ _ _ _ r, of 0] r show ?thesis
    unfolding sample_map2_entries by (auto simp: sample_map2_def)
qed

end
