(* ===== verification/VFS_Path.thy ===== *)
theory VFS_Path
  imports Kernel_Lib Byte_Lists "HOL-Library.Monad_Syntax" "HOL-Library.Sublist"
begin

text \<open>
  \<open>VFS_GetAbsPath\<close> of \<open>vfs/open.c\<close>, which makes an absolute path without empty parts and without \<open>.\<close>
  and \<open>..\<close> from a path of a process. The path is built in the block that \<open>malloc\<close> has returned, over
  byte addressed memory; it is taken apart and overwrite together again in place.
\<close>

section \<open>The routine\<close>

abbreviation slash :: "8 word" where "slash \<equiv> 47"
abbreviation dot :: "8 word" where "dot \<equiv> 46"

abbreviation MAX_PATH_SLASHES :: nat where "MAX_PATH_SLASHES \<equiv> 256"

text \<open>The addresses behind the slashes, in reverse; \<^const>\<open>None\<close> inside for too many elements.\<close>

partial_function (option) find_comps :: "memory \<Rightarrow> addr \<Rightarrow> addr list \<Rightarrow> addr list option option" where
  "find_comps m tmpStr acc =
     (if m tmpStr = 0 then Some (Some (rev acc))
      else if m tmpStr = slash then
        (if length acc + 1 = MAX_PATH_SLASHES then Some None else find_comps m (tmpStr + 1) ((tmpStr + 1) # acc))
      else find_comps m (tmpStr + 1) acc)"

definition is_dotdot :: "memory \<Rightarrow> addr \<Rightarrow> bool" where
  "is_dotdot m p \<longleftrightarrow> m p = dot \<and> m (p + 1) = dot \<and> (m (p + 2) = slash \<or> m (p + 2) = 0)"

definition is_dot :: "memory \<Rightarrow> addr \<Rightarrow> bool" where
  "is_dot m p \<longleftrightarrow> m p = dot \<and> (m (p + 1) = slash \<or> m (p + 1) = 0)"

definition is_empty :: "memory \<Rightarrow> addr \<Rightarrow> bool" where
  "is_empty m p \<longleftrightarrow> m p = slash \<or> m p = 0"

text \<open>The elements that stay, the last one first.\<close>

fun clean_comps :: "memory \<Rightarrow> addr list \<Rightarrow> addr list \<Rightarrow> addr list" where
  "clean_comps m [] st = rev st"
| "clean_comps m (c # cs) st =
     (if is_dotdot m c then clean_comps m cs (tl st)
      else if is_dot m c \<or> is_empty m c then clean_comps m cs st
      else clean_comps m cs (c # st))"

partial_function (option) copy_comp :: "memory \<Rightarrow> addr \<Rightarrow> addr \<Rightarrow> (memory \<times> addr) option" where
  "copy_comp m tmpStr pos =
     (if m tmpStr \<noteq> 0 \<and> m tmpStr \<noteq> slash then copy_comp (m(pos := m tmpStr)) (tmpStr + 1) (pos + 1) else Some (m, pos))"

fun build_path :: "memory \<Rightarrow> addr list \<Rightarrow> addr \<Rightarrow> (memory \<times> addr) option" where
  "build_path m [] pos = Some (m, pos)"
| "build_path m (c # cs) pos = do { (m, pos) \<leftarrow> copy_comp m c pos; build_path (m(pos := slash)) cs (pos + 1) }"

text \<open>
  \<open>chroot\<close> and \<open>cwd\<close> are the strings of the process or null, \<open>root\<close> is the address of the literal that
  stands in for a missing working directory, \<open>ret\<close> is what \<open>malloc\<close> returns.
\<close>

definition chroot_len :: "memory \<Rightarrow> addr \<Rightarrow> nat option" where
  "chroot_len m chroot =
     (if chroot = 0 then Some 0
      else map_option (\<lambda>n. if n \<noteq> 0 \<and> m (chroot + n - 1) = slash then n - 1 else n) (strlen m chroot))"

definition place_path :: "memory \<Rightarrow> nat \<Rightarrow> addr \<Rightarrow> addr \<Rightarrow> addr \<Rightarrow> memory option" where
  "place_path m chrootLen cwd Path ret =
     (if m Path = slash then map_option fst (strcpy m (ret + chrootLen) Path)
      else do {
        cwdLen \<leftarrow> strlen m cwd;
        (m, e) \<leftarrow> strcpy m (ret + chrootLen) cwd;
        let m = m(ret + cwdLen := slash);
        (m, e) \<leftarrow> strcpy m (ret + chrootLen + cwdLen + 1) Path;
        Some m
      })"

text \<open>From the placed path to the result; too many elements give null.\<close>

definition rebuild_path :: "memory \<Rightarrow> addr \<Rightarrow> nat \<Rightarrow> addr \<Rightarrow> (addr \<times> memory) option" where
  "rebuild_path m chroot chrootLen ret = do {
     comps \<leftarrow> find_comps m (ret + chrootLen + 1) [ret + chrootLen + 1];
     case comps of None \<Rightarrow> Some (0, m)
     | Some cs \<Rightarrow> do {
         (m, pos) \<leftarrow> build_path (m(ret := slash)) (clean_comps m cs []) (ret + chrootLen + 1);
         let m = (if pos - ret > 1 then m(pos - 1 := 0) else m(pos := 0));
         Some (ret, if chrootLen \<noteq> 0 then memcpy_x86 m ret chroot chrootLen else m)
       }
   }"

definition VFS_GetAbsPath :: "memory \<Rightarrow> addr \<Rightarrow> addr \<Rightarrow> addr \<Rightarrow> addr \<Rightarrow> addr \<Rightarrow> (addr \<times> memory) option" where
  "VFS_GetAbsPath m chroot cwd root Path ret =
     (if m Path = 36 then (if ret = 0 then Some (0, m) else map_option (\<lambda>(m, e). (ret, m)) (strcpy m ret Path))
      else do {
        chrootLen \<leftarrow> chroot_len m chroot;
        if m Path = slash \<and> ret = 0 then Some (0, m)
        else do {
          m \<leftarrow> place_path m chrootLen (if cwd = 0 then root else cwd) Path ret;
          rebuild_path m chroot chrootLen ret
        }
      })"

section \<open>Parts of a path\<close>

text \<open>The parts between slashes, with the address of each when the text is at \<open>a\<close>.\<close>

fun parts_at :: "addr \<Rightarrow> 8 word list \<Rightarrow> (addr \<times> 8 word list) list" where
  "parts_at a [] = [(a, [])]"
| "parts_at a (x # xs) =
     (if x = slash then (a, []) # parts_at (a + 1) xs
      else case parts_at (a + 1) xs of (b, s) # ps \<Rightarrow> (a, x # s) # ps | [] \<Rightarrow> [(a, [x])])"

text \<open>What remains of a list of parts: a part \<open>..\<close> takes away the one before it.\<close>

fun clean_parts :: "('a \<times> 8 word list) list \<Rightarrow> ('a \<times> 8 word list) list \<Rightarrow> ('a \<times> 8 word list) list" where
  "clean_parts [] st = rev st"
| "clean_parts (p # ps) st =
     (if snd p = [dot, dot] then clean_parts ps (tl st)
      else if snd p = [dot] \<or> snd p = [] then clean_parts ps st
      else clean_parts ps (p # st))"

fun normal :: "8 word list list \<Rightarrow> 8 word list list \<Rightarrow> 8 word list list" where
  "normal [] st = rev st"
| "normal (p # ps) st =
     (if p = [dot, dot] then normal ps (tl st)
      else if p = [dot] \<or> p = [] then normal ps st
      else normal ps (p # st))"

lemma clean_parts_normal: "map snd (clean_parts ps st) = normal (map snd ps) (map snd st)"
  by (induction ps st rule: clean_parts.induct) (simp_all add: rev_map map_tl)

definition comp_at :: "memory \<Rightarrow> addr \<times> 8 word list \<Rightarrow> bool" where
  "comp_at m p \<longleftrightarrow> (\<forall>i < length (snd p). m (fst p + i) = snd p ! i \<and> snd p ! i \<noteq> slash \<and> snd p ! i \<noteq> 0) \<and>
     (m (fst p + length (snd p)) = slash \<or> m (fst p + length (snd p)) = 0)"

definition before :: "addr \<times> 8 word list \<Rightarrow> addr \<times> 8 word list \<Rightarrow> bool" where
  "before p q \<longleftrightarrow> fst p + length (snd p) + 1 \<le> fst q"

lemma parts_at_hd: "\<exists>s ps. parts_at a xs = (a, s) # ps"
  by (cases xs) (auto split: list.splits)

lemma parts_at_Cons:
  obtains s ps where "parts_at (Suc a) xs = (Suc a, s) # ps"
    "parts_at a (x # xs) = (if x = slash then (a, []) # (Suc a, s) # ps else (a, x # s) # ps)"
proof -
  obtain s ps where "parts_at (Suc a) xs = (Suc a, s) # ps" using parts_at_hd by blast
  then show ?thesis using that by simp
qed

lemma parts_at_split: "map snd (parts_at a xs) = split_on slash xs"
proof (induction xs arbitrary: a)
  case (Cons x xs)
  obtain s ps where p: "parts_at (Suc a) xs = (Suc a, s) # ps"
      "parts_at a (x # xs) = (if x = slash then (a, []) # (Suc a, s) # ps else (a, x # s) # ps)"
    by (rule parts_at_Cons)
  show ?case using Cons.IH [of "Suc a", symmetric] unfolding p by simp
qed simp

lemma parts_at_addrs: "map fst (parts_at a xs) = a # part_addrs slash a xs"
proof (induction xs arbitrary: a)
  case (Cons x xs)
  obtain s ps where p: "parts_at (Suc a) xs = (Suc a, s) # ps"
      "parts_at a (x # xs) = (if x = slash then (a, []) # (Suc a, s) # ps else (a, x # s) # ps)"
    by (rule parts_at_Cons)
  show ?case using Cons.IH [of "Suc a"] unfolding p by simp
qed simp

lemma parts_at_bounds: "\<forall>q \<in> set (parts_at a xs). a \<le> fst q \<and> fst q + length (snd q) \<le> a + length xs"
proof (induction xs arbitrary: a)
  case (Cons x xs)
  obtain s ps where p: "parts_at (Suc a) xs = (Suc a, s) # ps"
      "parts_at a (x # xs) = (if x = slash then (a, []) # (Suc a, s) # ps else (a, x # s) # ps)"
    by (rule parts_at_Cons)
  show ?case using Cons.IH [of "Suc a"] unfolding p by (auto dest: Suc_leD)
qed simp

lemma parts_at_before: "sorted_wrt before (parts_at a xs)"
proof (induction xs arbitrary: a)
  case (Cons x xs)
  obtain s ps where p: "parts_at (Suc a) xs = (Suc a, s) # ps"
      "parts_at a (x # xs) = (if x = slash then (a, []) # (Suc a, s) # ps else (a, x # s) # ps)"
    by (rule parts_at_Cons)
  have ih: "sorted_wrt before ps" "\<forall>q \<in> set ps. before (Suc a, s) q" using Cons.IH [of "Suc a"] unfolding p by simp_all
  have "\<forall>q \<in> set ps. before (a, []) q \<and> before (a, x # s) q" using ih(2) by (auto simp: before_def)
  moreover have "before (a, []) (Suc a, s)" by (simp add: before_def)
  ultimately show ?case using ih unfolding p by simp
qed simp

lemma parts_at_comp: "cstr m a xs \<Longrightarrow> \<forall>q \<in> set (parts_at a xs). comp_at m q"
proof (induction xs arbitrary: a)
  case (Cons x xs)
  obtain s ps where p: "parts_at (Suc a) xs = (Suc a, s) # ps"
      "parts_at a (x # xs) = (if x = slash then (a, []) # (Suc a, s) # ps else (a, x # s) # ps)"
    by (rule parts_at_Cons)
  have ih: "comp_at m (Suc a, s)" "\<forall>q \<in> set ps. comp_at m q" using Cons.IH [of "Suc a"] Cons.prems unfolding p by simp_all
  have "comp_at m (a, x # s)" if "x \<noteq> slash"
    using ih(1) Cons.prems that by (auto simp: comp_at_def nth_Cons' less_Suc_eq_0_disj)
  moreover have "comp_at m (a, [])" if "x = slash" using Cons.prems that by (simp add: comp_at_def)
  ultimately show ?case using ih unfolding p by simp
qed (simp add: comp_at_def)

section \<open>Taking apart\<close>

lemma find_comps_spec:
  "cstr m p xs \<Longrightarrow> length acc + length (part_addrs slash p xs) < MAX_PATH_SLASHES \<Longrightarrow>
   find_comps m p acc = Some (Some (rev acc @ part_addrs slash p xs))"
proof (induction xs arbitrary: p acc)
  case Nil
  then show ?case by (simp add: find_comps.simps [of m p])
next
  case (Cons x xs)
  then show ?case
    using Cons.IH [of "p + 1" acc] Cons.IH [of "p + 1" "(p + 1) # acc"] by (auto simp: find_comps.simps [of m p])
qed

lemma comp_at_nth: "comp_at m (a, s) \<Longrightarrow> i < length s \<Longrightarrow> m (a + i) = s ! i \<and> s ! i \<noteq> slash \<and> s ! i \<noteq> 0"
  by (simp add: comp_at_def)

lemma comp_at_end: "comp_at m (a, s) \<Longrightarrow> m (a + length s) = slash \<or> m (a + length s) = 0"
  by (simp add: comp_at_def)

lemma comp_kind:
  assumes "comp_at m (a, s)"
  shows "is_dotdot m a \<longleftrightarrow> s = [dot, dot]" "is_dot m a \<longleftrightarrow> s = [dot]" "is_empty m a \<longleftrightarrow> s = []"
proof -
  consider "s = []" | x where "s = [x]" | x y where "s = [x, y]" | x y z t where "s = x # y # z # t"
    by (metis list.exhaust)
  then have "(is_dotdot m a \<longleftrightarrow> s = [dot, dot]) \<and> (is_dot m a \<longleftrightarrow> s = [dot]) \<and> (is_empty m a \<longleftrightarrow> s = [])"
  proof cases
    case 1
    then show ?thesis using comp_at_end [OF assms] by (auto simp: is_dotdot_def is_dot_def is_empty_def)
  next
    case 2
    then show ?thesis using comp_at_end [OF assms] comp_at_nth [OF assms, of 0]
      by (auto simp: is_dotdot_def is_dot_def is_empty_def)
  next
    case 3
    then show ?thesis using comp_at_end [OF assms] comp_at_nth [OF assms, of 0] comp_at_nth [OF assms, of 1]
      by (auto simp: is_dotdot_def is_dot_def is_empty_def)
  next
    case 4
    then show ?thesis using comp_at_nth [OF assms, of 0] comp_at_nth [OF assms, of 1] comp_at_nth [OF assms, of 2]
      by (auto simp: is_dotdot_def is_dot_def is_empty_def)
  qed
  then show "is_dotdot m a \<longleftrightarrow> s = [dot, dot]" "is_dot m a \<longleftrightarrow> s = [dot]" "is_empty m a \<longleftrightarrow> s = []" by simp_all
qed

lemma clean_comps_parts:
  "\<forall>q \<in> set ps. comp_at m q \<Longrightarrow> clean_comps m (map fst ps) (map fst st) = map fst (clean_parts ps st)"
proof (induction ps st rule: clean_parts.induct)
  case (1 st)
  then show ?case by (simp add: rev_map)
next
  case (2 p ps st)
  have "comp_at m (fst p, snd p)" using "2.prems" by simp
  then show ?case using "2.IH" "2.prems" comp_kind [of m "fst p" "snd p"] by (simp add: map_tl [symmetric])
qed

text \<open>The remaining parts keep their order, so the parts still to be copied lie behind what is written.\<close>

lemma clean_parts_subseq: "subseq (clean_parts ps st) (rev st @ ps)"
proof (induction ps st rule: clean_parts.induct)
  case (2 p ps st)
  have "subseq (rev (tl st) @ ps) (rev st @ p # ps)"
    by (cases st) (auto intro!: list_emb_append_mono subseq_append')
  moreover have "subseq (rev st @ ps) (rev st @ p # ps)" by (auto intro: list_emb_append_mono)
  ultimately show ?case using "2.IH" by (auto intro: subseq_order.trans)
qed simp

lemma sorted_wrt_subseq: "subseq xs ys \<Longrightarrow> sorted_wrt P ys \<Longrightarrow> sorted_wrt P xs"
  by (induction rule: list_emb.induct) (auto dest: list_emb_set)

section \<open>Putting together\<close>

lemma overwrite_Cons: "overwrite m a (x # s) = overwrite (m(a := x)) (Suc a) s"
  by (auto simp: overwrite_def fun_eq_iff nth_Cons')

lemma overwrite_other: "x < a \<or> a + length s \<le> x \<Longrightarrow> overwrite m a s x = m x"
  by (auto simp: overwrite_def)

lemma overwrite_one: "(overwrite m a s)(a + length s := c) = overwrite m a (s @ [c])"
  by (auto simp: overwrite_def fun_eq_iff nth_append)

text \<open>A part is copied to its own place or to a lower one.\<close>

lemma copy_comp_spec:
  "comp_at m (a, s) \<Longrightarrow> pos \<le> a \<Longrightarrow> copy_comp m a pos = Some (overwrite m pos s, pos + length s)"
proof (induction s arbitrary: m a pos)
  case Nil
  then show ?case using comp_at_end [OF Nil.prems(1)] by (auto simp: copy_comp.simps [of m a])
next
  case (Cons x s)
  have x: "m a = x" "x \<noteq> slash" "x \<noteq> 0" using comp_at_nth [OF Cons.prems(1), of 0] by simp_all
  define m1 where "m1 = m(pos := x)"
  have same: "m1 (Suc a + i) = m (Suc a + i)" for i using Cons.prems(2) by (simp add: m1_def)
  have "m (Suc a + i) = s ! i \<and> s ! i \<noteq> slash \<and> s ! i \<noteq> 0" if "i < length s" for i
    using comp_at_nth [OF Cons.prems(1), of "Suc i"] that by simp
  then have "comp_at m1 (Suc a, s)" using comp_at_end [OF Cons.prems(1)] same by (simp add: comp_at_def)
  from Cons.IH [OF this, of "Suc pos"] have "copy_comp m1 (Suc a) (Suc pos) = Some (overwrite m1 (Suc pos) s, Suc pos + length s)"
    using Cons.prems(2) by simp
  moreover have "copy_comp m a pos = copy_comp m1 (Suc a) (Suc pos)"
    using x by (simp add: copy_comp.simps [of m a] m1_def)
  ultimately show ?case by (simp add: overwrite_Cons m1_def)
qed

definition joined :: "(addr \<times> 8 word list) list \<Rightarrow> 8 word list" where
  "joined ps = concat (map (\<lambda>p. snd p @ [slash]) ps)"

lemma joined_simps [simp]: "joined [] = []" "joined (p # ps) = snd p @ slash # joined ps"
  by (simp_all add: joined_def)

lemma build_path_spec:
  "\<forall>q \<in> set ps. comp_at m q \<Longrightarrow> sorted_wrt before ps \<Longrightarrow> \<forall>q \<in> set ps. pos \<le> fst q \<Longrightarrow>
   build_path m (map fst ps) pos = Some (overwrite m pos (joined ps), pos + length (joined ps))"
proof (induction ps arbitrary: m pos)
  case (Cons p ps)
  define m1 where "m1 = overwrite m pos (snd p @ [slash])"
  have "comp_at m (fst p, snd p)" "pos \<le> fst p" using Cons.prems by simp_all
  from copy_comp_spec [OF this] have "copy_comp m (fst p) pos = Some (overwrite m pos (snd p), pos + length (snd p))"
    .
  then have step: "build_path m (map fst (p # ps)) pos = build_path m1 (map fst ps) (pos + length (snd p @ [slash]))"
    by (simp add: m1_def overwrite_one)
  have behind: "pos + length (snd p) + 1 \<le> fst q" if "q \<in> set ps" for q
    using Cons.prems that \<open>pos \<le> fst p\<close> by (auto simp: before_def)
  have "comp_at m1 q" if "q \<in> set ps" for q
  proof -
    have "m1 (fst q + i) = m (fst q + i)" for i using behind [OF that] unfolding m1_def by (simp add: overwrite_other)
    then show ?thesis using Cons.prems that unfolding comp_at_def by simp
  qed
  then have "build_path m1 (map fst ps) (pos + length (snd p @ [slash])) =
      Some (overwrite m1 (pos + length (snd p @ [slash])) (joined ps), pos + length (snd p @ [slash]) + length (joined ps))"
    using Cons.prems behind by (intro Cons.IH) simp_all
  then show ?case unfolding step m1_def overwrite_append by simp
qed simp

lemma joined_bound:
  "sorted_wrt before ps \<Longrightarrow> \<forall>q \<in> set ps. pos \<le> fst q \<and> fst q + length (snd q) \<le> e \<Longrightarrow> pos \<le> e + 1 \<Longrightarrow>
   pos + length (joined ps) \<le> e + 1"
proof (induction ps arbitrary: pos)
  case (Cons p ps)
  have p: "pos \<le> fst p" "fst p + length (snd p) \<le> e" using Cons.prems(2) by simp_all
  have "fst p + length (snd p) + 1 \<le> fst r" if "r \<in> set ps" for r
    using Cons.prems(1) that by (simp add: before_def)
  then have "\<forall>r \<in> set ps. pos + length (snd p) + 1 \<le> fst r \<and> fst r + length (snd r) \<le> e"
    using p(1) Cons.prems(2) by fastforce
  moreover have "sorted_wrt before ps" using Cons.prems(1) by simp
  ultimately have "pos + length (snd p) + 1 + length (joined ps) \<le> e + 1" using p by (intro Cons.IH) simp_all
  then show ?case by simp
qed simp

text \<open>The text of an absolute path below \<open>base\<close>.\<close>

definition path_text :: "8 word list list \<Rightarrow> 8 word list" where
  "path_text ps = concat (map (\<lambda>s. slash # s) ps)"

definition abs_text :: "8 word list \<Rightarrow> 8 word list list \<Rightarrow> 8 word list" where
  "abs_text base ps = (if base = [] \<and> ps = [] then [slash] else base @ path_text ps)"

lemma joined_text: "slash # joined ps = path_text (map snd ps) @ [slash]"
  by (induction ps) (simp_all add: path_text_def)

lemma cstr_overwrite: "0 \<notin> set w \<Longrightarrow> cstr (overwrite m a (w @ [0])) a w"
proof -
  assume "0 \<notin> set w"
  moreover have "overwrite m a (w @ [0]) (a + i) = (w @ [0]) ! i" if "i \<le> length w" for i
    using that by (simp add: overwrite_def)
  ultimately show ?thesis using cstr_append [of "overwrite m a (w @ [0])" a w "[]"] by (simp add: nth_append) (metis nth_mem)
qed

lemma overwrite_end: "(overwrite m a (w @ [x]))(a + length w := y) = overwrite m a (w @ [y])"
  by (auto simp: overwrite_def fun_eq_iff nth_append)

definition ended :: "memory \<Rightarrow> addr \<Rightarrow> addr \<Rightarrow> memory" where
  "ended m ret pos = (if pos - ret > 1 then m(pos - 1 := 0) else m(pos := 0))"

lemma ended_text:
  fixes L :: nat
  assumes "m (ret + L) = slash" "\<forall>p \<in> set ps. 0 \<notin> set (snd p)" "length (joined ps) \<le> e + 1"
  defines "m' \<equiv> ended (overwrite m (ret + L + 1) (joined ps)) ret (ret + L + 1 + length (joined ps))"
  shows "cstr m' (ret + L) (if L = 0 \<and> ps = [] then [slash] else path_text (map snd ps))"
    and "x < ret + L \<or> ret + L + e + 2 \<le> x \<Longrightarrow> m' x = m x"
proof -
  have "cstr m' (ret + L) (if L = 0 \<and> ps = [] then [slash] else path_text (map snd ps)) \<and>
      (x < ret + L \<or> ret + L + e + 2 \<le> x \<longrightarrow> m' x = m x)"
  proof (cases "ps = []")
    case True
    then show ?thesis using assms(1) by (auto simp: m'_def ended_def path_text_def)
  next
    case False
    then obtain w where t: "path_text (map snd ps) = slash # w" by (cases ps) (simp_all add: path_text_def)
    then have w: "joined ps = w @ [slash]" using joined_text [of ps] by simp
    have "0 \<notin> set (path_text (map snd ps))" using assms(2) by (auto simp: path_text_def)
    then have nz: "0 \<notin> set w" using t by simp
    have "m' = (overwrite m (ret + L + 1) (w @ [slash]))(ret + L + 1 + length w := 0)" by (simp add: m'_def ended_def w)
    then have m': "m' = overwrite m (ret + L + 1) (w @ [0])" unfolding overwrite_end .
    have "m' (ret + L) = slash" using assms(1) unfolding m' by (simp add: overwrite_other)
    moreover have "cstr m' (ret + L + 1) w" unfolding m' by (rule cstr_overwrite [OF nz])
    ultimately show ?thesis using False assms(3) unfolding t m' w by (auto simp: overwrite_other)
  qed
  then show "cstr m' (ret + L) (if L = 0 \<and> ps = [] then [slash] else path_text (map snd ps))"
    "x < ret + L \<or> ret + L + e + 2 \<le> x \<Longrightarrow> m' x = m x" by simp_all
qed

lemma comp_at_no_zero: "comp_at m p \<Longrightarrow> 0 \<notin> set (snd p) \<and> slash \<notin> set (snd p)"
  by (auto simp: comp_at_def in_set_conv_nth)

text \<open>The parts of the result have no slash, are not empty, and are neither \<open>.\<close> nor \<open>..\<close>.\<close>

definition plain_part :: "8 word list \<Rightarrow> bool" where
  "plain_part s \<longleftrightarrow> s \<noteq> [] \<and> s \<noteq> [dot] \<and> s \<noteq> [dot, dot] \<and> slash \<notin> set s"

lemma split_on_no_sep: "s \<in> set (split_on c xs) \<Longrightarrow> c \<notin> set s"
proof (induction xs arbitrary: s)
  case (Cons x xs)
  then show ?case by (cases "split_on c xs") (auto split: if_splits)
qed simp

lemma normal_plain:
  "\<forall>s \<in> set ps. slash \<notin> set s \<Longrightarrow> \<forall>s \<in> set st. plain_part s \<Longrightarrow> \<forall>s \<in> set (normal ps st). plain_part s"
proof (induction ps arbitrary: st)
  case (Cons p ps)
  have p: "slash \<notin> set p" and ps: "\<forall>s \<in> set ps. slash \<notin> set s" using Cons.prems(1) by simp_all
  note ih = Cons.IH [OF ps]
  consider "p = [dot, dot]" | "p \<noteq> [dot, dot]" "p = [dot] \<or> p = []" | "p \<noteq> [dot, dot]" "p \<noteq> [dot]" "p \<noteq> []" by blast
  then show ?case
  proof cases
    case 1
    have "\<forall>s \<in> set (tl st). plain_part s" using Cons.prems(2) list.set_sel(2) [of st] by (cases st) simp_all
    from ih [OF this] show ?thesis unfolding normal.simps if_P [OF 1] .
  next
    case 2
    from ih [OF Cons.prems(2)] show ?thesis unfolding normal.simps if_not_P [OF 2(1)] if_P [OF 2(2)] .
  next
    case 3
    then have "plain_part p" using p by (simp add: plain_part_def)
    then have "\<forall>s \<in> set (p # st). plain_part s" using Cons.prems(2) by simp
    from ih [OF this] 3 show ?thesis unfolding normal.simps by simp
  qed
qed simp

lemma normal_id: "\<forall>s \<in> set ps. plain_part s \<Longrightarrow> normal ps st = rev st @ ps"
  by (induction ps arbitrary: st) (simp_all add: plain_part_def)

section \<open>The whole routine\<close>

lemma find_comps_many:
  "cstr m p xs \<Longrightarrow> length acc < MAX_PATH_SLASHES \<Longrightarrow> MAX_PATH_SLASHES \<le> length acc + length (part_addrs slash p xs) \<Longrightarrow>
   find_comps m p acc = Some None"
proof (induction xs arbitrary: p acc)
  case (Cons x xs)
  then show ?case
    using Cons.IH [of "p + 1" acc] Cons.IH [of "p + 1" "(p + 1) # acc"] by (auto simp: find_comps.simps [of m p])
qed simp

lemma parts_count: "length (split_on slash xs) = length (part_addrs slash a xs) + 1"
  using arg_cong [OF parts_at_split [of a xs], of length] arg_cong [OF parts_at_addrs [of a xs], of length] by simp

lemma kept_parts:
  assumes "cstr m a ys"
  defines "ps \<equiv> clean_parts (parts_at a ys) []"
  shows "\<forall>q \<in> set ps. comp_at m q" "sorted_wrt before ps"
    "\<forall>q \<in> set ps. a \<le> fst q \<and> fst q + length (snd q) \<le> a + length ys"
    "clean_comps m (map fst (parts_at a ys)) [] = map fst ps"
proof -
  have sub: "subseq ps (parts_at a ys)" using clean_parts_subseq [of "parts_at a ys" "[]"] by (simp add: ps_def)
  then have mem: "q \<in> set (parts_at a ys)" if "q \<in> set ps" for q using that by (auto dest: list_emb_set)
  show "\<forall>q \<in> set ps. comp_at m q" using mem parts_at_comp [OF assms(1)] by blast
  show "\<forall>q \<in> set ps. a \<le> fst q \<and> fst q + length (snd q) \<le> a + length ys" using mem parts_at_bounds by blast
  show "sorted_wrt before ps" by (rule sorted_wrt_subseq [OF sub parts_at_before])
  show "clean_comps m (map fst (parts_at a ys)) [] = map fst ps"
    using clean_comps_parts [of "parts_at a ys" m "[]"] parts_at_comp [OF assms(1)] by (simp add: ps_def)
qed

lemma rebuild_path_run:
  fixes L :: nat and a :: addr
  assumes ys: "cstr m a ys" and a: "a = ret + L + 1" and few: "length (split_on slash ys) < MAX_PATH_SLASHES"
  defines "ps \<equiv> clean_parts (parts_at a ys) []"
  defines "m3 \<equiv> ended (overwrite (m(ret := slash)) a (joined ps)) ret (a + length (joined ps))"
  shows "rebuild_path m chroot L ret = Some (ret, memcpy m3 ret chroot L)"
proof -
  define m2 where "m2 = m(ret := slash)"
  note kept = kept_parts [OF ys, folded ps_def]
  have "length (part_addrs slash a ys) + 1 < MAX_PATH_SLASHES" using few by (simp add: parts_count [of ys a])
  then have fc: "find_comps m a [a] = Some (Some (map fst (parts_at a ys)))"
    using find_comps_spec [OF ys, of "[a]"] by (simp add: parts_at_addrs)
  have "comp_at m2 q" if "q \<in> set ps" for q
  proof -
    have "m2 (fst q + i) = m (fst q + i)" for i using kept(3) that by (auto simp: m2_def a)
    then show ?thesis using kept(1) that by (simp add: comp_at_def)
  qed
  then have "build_path m2 (map fst ps) a = Some (overwrite m2 a (joined ps), a + length (joined ps))"
    using kept(2,3) by (intro build_path_spec) simp_all
  then show ?thesis using fc kept(4) unfolding rebuild_path_def a [symmetric]
    by (simp add: m2_def [symmetric] m3_def ended_def memcpy_x86_bytes Let_def)
qed

lemma rebuild_path_spec:
  assumes placed: "cstr m (ret + length base) (slash # ys)" and few: "length (split_on slash ys) < MAX_PATH_SLASHES"
    and base: "\<forall>i < length base. m (chroot + i) = base ! i \<and> base ! i \<noteq> 0"
    and free: "apart chroot (length base) ret (length base + length ys + 2)"
  shows "\<exists>m'. rebuild_path m chroot (length base) ret = Some (ret, m') \<and>
    cstr m' ret (abs_text base (normal (split_on slash ys) [])) \<and>
    changed_at_most m m' ret (length base + length ys + 2)"
proof -
  define L a ps where "L = length base" and "a = ret + L + 1" and "ps = clean_parts (parts_at a ys) []"
  define m2 where "m2 = m(ret := slash)"
  define m3 where "m3 = ended (overwrite m2 a (joined ps)) ret (a + length (joined ps))"
  define m' where "m' = memcpy m3 ret chroot L"
  define t where "t = (if L = 0 \<and> ps = [] then [slash] else path_text (map snd ps))"
  have ys: "cstr m a ys" "m2 (ret + L) = slash" using placed by (simp_all add: a_def L_def m2_def)
  note kept = kept_parts [OF ys(1), folded ps_def]
  have run: "rebuild_path m chroot L ret = Some (ret, m')"
    using rebuild_path_run [OF ys(1) a_def few, folded ps_def] by (simp add: m'_def m3_def m2_def)
  have "a + length (joined ps) \<le> a + length ys + 1" using kept(2,3) by (intro joined_bound) simp_all
  then have len: "length (joined ps) \<le> length ys + 1" by simp
  have nz: "\<forall>p \<in> set ps. 0 \<notin> set (snd p)" using kept(1) comp_at_no_zero by blast
  note m3 = ended_text [of m2 ret L ps "length ys", OF ys(2) nz len, folded a_def, folded m3_def t_def]
  have names: "map snd ps = normal (split_on slash ys) []"
    using clean_parts_normal [of "parts_at a ys" "[]"] by (simp add: ps_def parts_at_split)
  have t: "base @ t = abs_text base (normal (split_on slash ys) [])"
    using names by (auto simp: t_def abs_text_def L_def path_text_def)
  have keep: "m' x = m3 x" if "x < ret \<or> ret + L \<le> x" for x using that by (simp add: m'_def memcpy_outside)
  have head: "m' (ret + i) = base ! i \<and> base ! i \<noteq> 0" if "i < length base" for i
  proof -
    have out: "chroot + i < ret \<or> ret + L + length ys + 2 \<le> chroot + i"
      using apart_left [OF free, of "chroot + i"] that by (simp add: L_def add.assoc)
    have "m' (ret + i) = m3 (chroot + i)"
      using that free unfolding m'_def by (intro memcpy_apply) (auto simp: L_def apart_def)
    also have "\<dots> = m2 (chroot + i)" using out by (intro m3(2)) auto
    finally show ?thesis using base that out by (auto simp: m2_def)
  qed
  have "cstr m' (ret + L) t = cstr m3 (ret + L) t" using keep by (intro cstr_cong) simp
  then have "cstr m' ret (base @ t)" using m3(1) head by (simp add: cstr_append L_def)
  moreover have "changed_at_most m m' ret (L + length ys + 2)"
    unfolding changed_at_most_def
  proof (intro allI impI)
    fix x
    assume x: "x < ret \<or> ret + (L + length ys + 2) \<le> x"
    then have "m' x = m3 x" by (intro keep) auto
    also have "\<dots> = m2 x" using x by (intro m3(2)) auto
    finally show "m' x = m x" using x by (auto simp: m2_def)
  qed
  ultimately show ?thesis using run unfolding t L_def by blast
qed

text \<open>Where the trailing slash of the root directory of the process ends.\<close>

definition trimmed :: "8 word list \<Rightarrow> 8 word list" where
  "trimmed xs = (if xs \<noteq> [] \<and> last xs = slash then butlast xs else xs)"

definition root_is :: "memory \<Rightarrow> addr \<Rightarrow> 8 word list \<Rightarrow> bool" where
  "root_is m chroot rs \<longleftrightarrow> (if chroot = 0 then rs = [] else cstr m chroot rs)"

lemma trimmed_prefix: "length (trimmed rs) \<le> length rs \<and> (\<forall>i < length (trimmed rs). trimmed rs ! i = rs ! i)"
  by (simp add: trimmed_def nth_butlast)

lemma chroot_len_spec: "root_is m chroot rs \<Longrightarrow> chroot_len m chroot = Some (length (trimmed rs))"
proof (cases "chroot = 0 \<or> rs = []")
  case False
  assume "root_is m chroot rs"
  with False have c: "cstr m chroot rs" by (simp add: root_is_def)
  have "m (chroot + (length rs - 1)) = rs ! (length rs - 1)" using False by (intro cstr_nth [OF c]) simp
  then have "m (chroot + length rs - 1) = last rs" using False by (simp add: last_conv_nth add_diff_assoc Suc_leI)
  then show ?thesis using False by (simp add: chroot_len_def strlen_cstr [OF c] trimmed_def)
qed (auto simp: root_is_def chroot_len_def trimmed_def strlen_cstr [of m chroot "[]"])

lemma root_bytes:
  assumes "root_is m chroot rs" "\<And>i. i < length rs \<Longrightarrow> m' (chroot + i) = m (chroot + i)"
  shows "\<forall>i < length (trimmed rs). m' (chroot + i) = trimmed rs ! i \<and> trimmed rs ! i \<noteq> 0"
proof (intro allI impI)
  fix i
  assume i: "i < length (trimmed rs)"
  then have i': "i < length rs" "trimmed rs ! i = rs ! i" using trimmed_prefix [of rs] by auto
  then have c: "cstr m chroot rs" using assms(1) by (auto simp: root_is_def split: if_splits)
  show "m' (chroot + i) = trimmed rs ! i \<and> trimmed rs ! i \<noteq> 0"
    using cstr_nth [OF c i'(1)] cstr_no_zero [OF c] nth_mem [OF i'(1)] assms(2) [OF i'(1)] i'(2) by auto
qed

lemma cstr_kept:
  assumes "cstr m p xs" "changed_at_most m m' d n" "apart p (length xs + 1) d n"
  shows "cstr m' p xs"
proof -
  have "m' (p + i) = m (p + i)" if "i \<le> length xs" for i
    using apart_left [OF assms(3), of "p + i"] assms(2) that by (auto simp: changed_at_most_def)
  then show ?thesis using assms(1) cstr_cong [of xs m' p m] by simp
qed

lemma changed_trans: "changed_at_most m m1 d n \<Longrightarrow> changed_at_most m1 m2 d n \<Longrightarrow> changed_at_most m m2 d n"
  by (simp add: changed_at_most_def)

lemma changed_more: "changed_at_most m m1 e k \<Longrightarrow> d \<le> e \<Longrightarrow> e + k \<le> d + n \<Longrightarrow> changed_at_most m m1 d n"
  by (simp add: changed_at_most_def)

text \<open>Where the working directory and the path end up.\<close>

lemma place_absolute:
  assumes "cstr m Path (slash # xs)" "apart Path (length xs + 2) ret (L + length xs + 2)"
  shows "\<exists>m'. place_path m L cwd Path ret = Some m' \<and> cstr m' (ret + L) (slash # xs) \<and>
    changed_at_most m m' ret (L + length xs + 2)"
proof -
  have "Path + length (slash # xs) < ret + L \<or> ret + L + length (slash # xs) < Path"
    using assms(2) by (auto simp: apart_def)
  from strcpy_cstr [OF assms(1) this] obtain m' where
    "strcpy m (ret + L) Path = Some (m', ret + L + length (slash # xs))" "cstr m' (ret + L) (slash # xs)"
    "changed_at_most m m' (ret + L) (length (slash # xs) + 1)" by blast
  then show ?thesis using assms(1) by (simp add: place_path_def changed_at_most_def)
qed

text \<open>
  The slash behind the working directory is written at \<open>ret[cwdLen]\<close>. This is the place behind the
  directory only when the root directory of the process is empty; it is before it when the root
  directory is longer, and the working directory then ends where it ended.
\<close>

lemma place_relative:
  assumes "cstr m cwd ws" "cstr m Path xs" "m Path \<noteq> slash"
    and "apart cwd (length ws + 1) ret (L + length ws + length xs + 2)"
    and "apart Path (length xs + 1) ret (L + length ws + length xs + 2)"
    and "L = 0 \<or> length ws < L"
  shows "\<exists>m'. place_path m L cwd Path ret = Some m' \<and>
    cstr m' (ret + L) (if L = 0 then ws @ slash # xs else ws) \<and> changed_at_most m m' ret (L + length ws + length xs + 2)"
proof -
  define e where "e = ret + L + length ws + 1"
  have "cwd + length ws < ret + L \<or> ret + L + length ws < cwd" using assms(4) by (auto simp: apart_def)
  from strcpy_cstr [OF assms(1) this] obtain m1 where m1: "strcpy m (ret + L) cwd = Some (m1, ret + L + length ws)"
    "cstr m1 (ret + L) ws" "changed_at_most m m1 (ret + L) (length ws + 1)" by blast
  define m2 where "m2 = m1(ret + length ws := slash)"
  have "changed_at_most m m2 ret (L + length ws + length xs + 2)"
    using m1(3) by (auto simp: m2_def changed_at_most_def)
  then have "cstr m2 Path xs" using cstr_kept [OF assms(2)] assms(5) by blast
  moreover have "Path + length xs < e \<or> e + length xs < Path" using assms(5) by (auto simp: apart_def e_def)
  ultimately obtain m' where m': "strcpy m2 e Path = Some (m', e + length xs)" "cstr m' e xs"
      "changed_at_most m2 m' e (length xs + 1)" using strcpy_cstr by blast
  have run: "place_path m L cwd Path ret = Some m'"
    using assms(3) m1(1) m'(1) unfolding e_def by (simp add: place_path_def strlen_cstr [OF assms(1)] m2_def)
  have low: "m' x = m2 x" if "x < e" for x using m'(3) that by (simp add: changed_at_most_def)
  have "cstr m' (ret + L) (if L = 0 then ws @ slash # xs else ws)"
  proof (cases "L = 0")
    case True
    have "ws ! i \<noteq> 0" if "i < length ws" for i using cstr_no_zero [OF m1(2)] nth_mem [OF that] by metis
    then have "m' (ret + i) = ws ! i \<and> ws ! i \<noteq> 0" if "i < length ws" for i
      using low [of "ret + i"] that cstr_nth [OF m1(2) that] True by (simp add: m2_def e_def)
    moreover have "m' (ret + length ws) = slash" using low [of "ret + length ws"] by (simp add: m2_def e_def)
    ultimately show ?thesis using True m'(2) by (simp add: cstr_append e_def)
  next
    case False
    have "cstr m' (ret + L) ws = cstr m1 (ret + L) ws"
      using low assms(6) False by (intro cstr_cong) (auto simp: m2_def e_def)
    then show ?thesis using False m1(2) by simp
  qed
  moreover have "changed_at_most m m' ret (L + length ws + length xs + 2)"
    using m'(3) m1(3) by (auto simp: changed_at_most_def m2_def e_def)
  ultimately show ?thesis using run by blast
qed

lemma split_on_append: "split_on c (xs @ c # ys) = split_on c xs @ split_on c ys"
proof (induction xs)
  case (Cons x xs)
  then show ?case by (cases "split_on c xs") simp_all
qed simp

lemma placed_then_rebuilt:
  assumes root: "root_is m chroot rs" "apart chroot (length rs + 1) ret n"
    and placed: "place_path m (length (trimmed rs)) (if cwd = 0 then root else cwd) Path ret = Some m1"
      "cstr m1 (ret + length (trimmed rs)) (slash # ys)" "changed_at_most m m1 ret n"
    and few: "length (split_on slash ys) < MAX_PATH_SLASHES"
    and path: "m Path \<noteq> 36" "ret \<noteq> 0" and room: "length (trimmed rs) + length ys + 2 \<le> n"
  shows "\<exists>m'. VFS_GetAbsPath m chroot cwd root Path ret = Some (ret, m') \<and>
    cstr m' ret (abs_text (trimmed rs) (normal (split_on slash ys) [])) \<and> changed_at_most m m' ret n"
proof -
  have kept: "m1 (chroot + i) = m (chroot + i)" if "i < length rs" for i
    using apart_left [OF root(2), of "chroot + i"] placed(3) that by (auto simp: changed_at_most_def)
  have "apart chroot (length (trimmed rs)) ret (length (trimmed rs) + length ys + 2)"
    using root(2) room trimmed_prefix [of rs] by (auto simp: apart_def)
  from rebuild_path_spec [OF placed(2) few root_bytes [OF root(1) kept] this] obtain m' where
    m': "rebuild_path m1 chroot (length (trimmed rs)) ret = Some (ret, m')"
    "cstr m' ret (abs_text (trimmed rs) (normal (split_on slash ys) []))"
    "changed_at_most m1 m' ret (length (trimmed rs) + length ys + 2)" by blast
  have "changed_at_most m m' ret n"
    using changed_trans [OF placed(3) changed_more [OF m'(3)]] room by simp
  then show ?thesis using m' placed(1) path by (simp add: VFS_GetAbsPath_def chroot_len_spec [OF root(1)])
qed

lemma placed_too_many:
  assumes "root_is m chroot rs"
    and placed: "place_path m (length (trimmed rs)) (if cwd = 0 then root else cwd) Path ret = Some m1"
      "cstr m1 (ret + length (trimmed rs)) (slash # ys)"
    and many: "MAX_PATH_SLASHES \<le> length (split_on slash ys)" and path: "m Path \<noteq> 36" "ret \<noteq> 0"
  shows "VFS_GetAbsPath m chroot cwd root Path ret = Some (0, m1)"
proof -
  define a where "a = ret + length (trimmed rs) + 1"
  have "cstr m1 a ys" using placed(2) by (simp add: a_def)
  then have "find_comps m1 a [a] = Some None" using many by (intro find_comps_many) (simp_all add: parts_count [of ys a])
  then show ?thesis using placed(1) path unfolding a_def
    by (simp add: VFS_GetAbsPath_def chroot_len_spec [OF assms(1)] rebuild_path_def)
qed

end
