(* ===== verification/Inode_Cache.thy ===== *)
theory Inode_Cache
  imports Prelude
begin

text \<open>
  The node cache of the file systems, \<open>vfs/nodecache.c\<close>: a list of nodes sorted by inode, with a
  reference count in each. The filesystem's part of a node is the type parameter; the address of an
  entry is the one \<open>malloc\<close> gives, which the code does not compare with null. The reference count is a
  C \<open>int\<close>, kept as its 32 bits: it is only counted up and down and compared with zero. The size
  that \<open>Inode_CacheNodeEx\<close> copies is that of the node with the filesystem's part, so the assertion on it
  holds and is left out.
\<close>

section \<open>The cache\<close>

record 'a tVFS_Node =
  Inode :: "64 word"
  ReferenceCount :: "32 word"
  Fields :: 'a

record 'a tCachedInode =
  At :: addr
  Node :: "'a tVFS_Node"

record 'a tInodeCache =
  FirstNode :: "'a tCachedInode list"
  MaxCached :: "64 word"

text \<open>The list of all caches, by address.\<close>

type_synonym 'a caches = "(addr \<times> 'a tInodeCache) list"

definition Inode_GetHandle :: "addr \<Rightarrow> 'a caches \<Rightarrow> addr \<times> 'a caches" where
  "Inode_GetHandle ent cs = (ent, (ent, \<lparr> FirstNode = [], MaxCached = 0 \<rparr>) # cs)"

definition ref_up :: "'a tCachedInode \<Rightarrow> 'a tCachedInode" where
  "ref_up e = e\<lparr>Node := (Node e)\<lparr>ReferenceCount := ReferenceCount (Node e) + 1\<rparr>\<rparr>"

definition ref_down :: "'a tCachedInode \<Rightarrow> 'a tCachedInode" where
  "ref_down e = e\<lparr>Node := (Node e)\<lparr>ReferenceCount := ReferenceCount (Node e) - 1\<rparr>\<rparr>"

text \<open>The search of \<open>Inode_GetCache\<close>: the address found or null, and the list.\<close>

fun get_search :: "'a tCachedInode list \<Rightarrow> 64 word \<Rightarrow> addr \<times> 'a tCachedInode list" where
  "get_search [] i = (0, [])"
| "get_search (ent # es) i =
     (if Inode (Node ent) < i then (let (r, es') = get_search es i in (r, ent # es'))
      else if Inode (Node ent) > i then (0, ent # es)
      else (At ent, ref_up ent # es))"

definition Inode_GetCache :: "'a tInodeCache \<Rightarrow> 64 word \<Rightarrow> addr \<times> 'a tInodeCache" where
  "Inode_GetCache c i =
     (if i > MaxCached c then (0, c) else let (r, es) = get_search (FirstNode c) i in (r, c\<lparr>FirstNode := es\<rparr>))"

text \<open>The search of \<open>Inode_CacheNodeEx\<close>, which puts a copy at \<open>newEnt\<close> when there is none.\<close>

fun put_search :: "'a tCachedInode list \<Rightarrow> 'a tVFS_Node \<Rightarrow> addr \<Rightarrow> addr \<times> 'a tCachedInode list" where
  "put_search [] n newEnt = (newEnt, [\<lparr> At = newEnt, Node = n\<lparr>ReferenceCount := 1\<rparr> \<rparr>])"
| "put_search (ent # es) n newEnt =
     (if Inode (Node ent) < Inode n then (let (r, es') = put_search es n newEnt in (r, ent # es'))
      else if Inode (Node ent) = Inode n then (At ent, ref_up ent # es)
      else (newEnt, \<lparr> At = newEnt, Node = n\<lparr>ReferenceCount := 1\<rparr> \<rparr> # ent # es))"

definition Inode_CacheNodeEx :: "'a tInodeCache \<Rightarrow> 'a tVFS_Node \<Rightarrow> addr \<Rightarrow> addr \<times> 'a tInodeCache" where
  "Inode_CacheNodeEx c n newEnt =
     (let c = (if Inode n > MaxCached c then c\<lparr>MaxCached := Inode n\<rparr> else c);
          (r, es) = put_search (FirstNode c) n newEnt
      in (r, c\<lparr>FirstNode := es\<rparr>))"

text \<open>Where \<open>Inode_UncacheNode\<close> stops: the entries before, the last of them first, and the rest.\<close>

fun drop_search :: "'a tCachedInode list \<Rightarrow> 'a tCachedInode list \<Rightarrow> 64 word \<Rightarrow>
    ('a tCachedInode list \<times> 'a tCachedInode \<times> 'a tCachedInode list) option" where
  "drop_search prev [] i = None"
| "drop_search prev (ent # es) i =
     (if Inode (Node ent) < i then drop_search (ent # prev) es i
      else if Inode (Node ent) > i then None
      else Some (prev, ent, es))"

text \<open>The result, the cache, and the node that was cleaned up and freed, if any.\<close>

definition Inode_UncacheNode :: "'a tInodeCache \<Rightarrow> 64 word \<Rightarrow> int \<times> 'a tInodeCache \<times> 'a tVFS_Node option" where
  "Inode_UncacheNode c i =
     (if i > MaxCached c then (- 1, c, None)
      else case drop_search [] (FirstNode c) i of
        None \<Rightarrow> (- 1, c, None)
      | Some (prev, ent, es) \<Rightarrow>
          let ent = ref_down ent in
          if ReferenceCount (Node ent) = 0 then
            (let c = c\<lparr>FirstNode := rev prev @ es\<rparr>;
                 c = (if Inode (Node ent) = MaxCached c then
                        (if (FirstNode c = [] \<or> At ent \<noteq> At (hd (FirstNode c))) \<and> prev \<noteq> []
                         then c\<lparr>MaxCached := Inode (Node (hd prev))\<rparr> else c\<lparr>MaxCached := 0\<rparr>)
                      else c)
             in (1, c, Some (Node ent)))
          else (0, c\<lparr>FirstNode := rev prev @ ent # es\<rparr>, None))"

text \<open>What removing a cache does to a node: a driver with a \<open>Close\<close> gets the node, else it is freed.\<close>

datatype 'a cleared = Closed "'a tVFS_Node" | Freed addr

fun clear_nodes :: "('a tVFS_Node \<Rightarrow> bool) \<Rightarrow> 'a tCachedInode list \<Rightarrow> 'a cleared list" where
  "clear_nodes hasClose [] = []"
| "clear_nodes hasClose (ent # es) =
     (let n = (Node ent)\<lparr>ReferenceCount := 1\<rparr>
      in (if hasClose n then Closed n else Freed (At ent)) # clear_nodes hasClose es)"

fun Inode_ClearCache :: "('a tVFS_Node \<Rightarrow> bool) \<Rightarrow> addr \<Rightarrow> 'a caches \<Rightarrow> 'a cleared list \<times> 'a caches" where
  "Inode_ClearCache hasClose c [] = ([], [])"
| "Inode_ClearCache hasClose c (p # cs) =
     (if fst p = c then (clear_nodes hasClose (FirstNode (snd p)), cs)
      else let (l, cs') = Inode_ClearCache hasClose c cs in (l, p # cs'))"

section \<open>The invariant\<close>

abbreviation inode_of :: "'a tCachedInode \<Rightarrow> 64 word" where
  "inode_of e \<equiv> Inode (Node e)"

abbreviation refs_of :: "'a tCachedInode \<Rightarrow> nat" where
  "refs_of e \<equiv> unat (ReferenceCount (Node e))"

definition cache_wf :: "'a tInodeCache \<Rightarrow> bool" where
  "cache_wf c \<longleftrightarrow> sorted_wrt (<) (map inode_of (FirstNode c)) \<and> distinct (map At (FirstNode c)) \<and>
     (\<forall>e \<in> set (FirstNode c). At e \<noteq> 0 \<and> 0 < refs_of e) \<and>
     MaxCached c = (if FirstNode c = [] then 0 else inode_of (last (FirstNode c)))"

text \<open>The cache as a map from inodes to entries.\<close>

definition cached :: "'a tInodeCache \<Rightarrow> 64 word \<Rightarrow> 'a tCachedInode option" where
  "cached c i = find (\<lambda>e. inode_of e = i) (FirstNode c)"

lemma ref_up_simps [simp]: "At (ref_up e) = At e" "inode_of (ref_up e) = inode_of e"
  "Fields (Node (ref_up e)) = Fields (Node e)" "ReferenceCount (Node (ref_up e)) = ReferenceCount (Node e) + 1"
  by (simp_all add: ref_up_def)

lemma ref_down_simps [simp]: "At (ref_down e) = At e" "inode_of (ref_down e) = inode_of e"
  "Fields (Node (ref_down e)) = Fields (Node e)" "ReferenceCount (Node (ref_down e)) = ReferenceCount (Node e) - 1"
  by (simp_all add: ref_down_def)

lemma find_above: "\<forall>e \<in> set es. i < inode_of e \<Longrightarrow> find (\<lambda>e. inode_of e = i) es = None"
  by (induction es) auto

lemma sorted_below_last:
  "sorted_wrt (<) (map inode_of es) \<Longrightarrow> e \<in> set es \<Longrightarrow> inode_of e \<le> inode_of (last es)"
proof (induction es)
  case (Cons a es)
  then show ?case using last_in_set [of es] by (cases "es = []") (auto intro: less_imp_le)
qed simp

lemma cached_None_above: "cache_wf c \<Longrightarrow> MaxCached c < i \<Longrightarrow> cached c i = None"
  by (auto simp: cache_wf_def cached_def find_None_iff dest!: sorted_below_last split: if_splits)

text \<open>The searches stop in the right place.\<close>

lemma split_at:
  assumes "sorted_wrt (<) (map inode_of es)" "find (\<lambda>e. inode_of e = i) es = Some e"
  obtains ps qs where "es = ps @ e # qs" "\<forall>x \<in> set ps. inode_of x < i" "inode_of e = i" "\<forall>x \<in> set qs. i < inode_of x"
  using assms
proof (induction es arbitrary: thesis)
  case (Cons a es)
  show ?case
  proof (cases "inode_of a = i")
    case True
    then show ?thesis using Cons.prems(1) [of "[]" es] Cons.prems(2,3) by simp
  next
    case False
    then have f: "find (\<lambda>e. inode_of e = i) es = Some e" using Cons.prems(3) by simp
    then have "inode_of a < i" using Cons.prems(2) by (auto simp: find_Some_iff)
    obtain ps qs where "es = ps @ e # qs" "\<forall>x \<in> set ps. inode_of x < i" "inode_of e = i" "\<forall>x \<in> set qs. i < inode_of x"
      using Cons.IH [OF _ _ f] Cons.prems(2) by auto
    then show ?thesis using Cons.prems(1) [of "a # ps" qs] \<open>inode_of a < i\<close> by simp
  qed
qed simp

lemma get_search_hit:
  "\<forall>x \<in> set ps. inode_of x < i \<Longrightarrow> inode_of e = i \<Longrightarrow> get_search (ps @ e # qs) i = (At e, ps @ ref_up e # qs)"
  by (induction ps) auto

lemma get_search_miss: "find (\<lambda>e. inode_of e = i) es = None \<Longrightarrow> get_search es i = (0, es)"
  by (induction es) (auto split: if_splits)

lemma put_search_hit:
  "\<forall>x \<in> set ps. inode_of x < Inode n \<Longrightarrow> inode_of e = Inode n \<Longrightarrow> put_search (ps @ e # qs) n a = (At e, ps @ ref_up e # qs)"
  by (induction ps) auto

lemma put_search_miss:
  "sorted_wrt (<) (map inode_of es) \<Longrightarrow> find (\<lambda>e. inode_of e = Inode n) es = None \<Longrightarrow>
   \<exists>ps qs. es = ps @ qs \<and> (\<forall>x \<in> set ps. inode_of x < Inode n) \<and> (\<forall>x \<in> set qs. Inode n < inode_of x) \<and>
     put_search es n a = (a, ps @ \<lparr> At = a, Node = n\<lparr>ReferenceCount := 1\<rparr> \<rparr> # qs)"
proof (induction es)
  case (Cons e es)
  consider "inode_of e < Inode n" | "Inode n < inode_of e" using Cons.prems(2) by (cases "inode_of e" "Inode n" rule: linorder_cases) auto
  then show ?case
  proof cases
    case 1
    from Cons obtain ps qs where "es = ps @ qs" "\<forall>x \<in> set ps. inode_of x < Inode n" "\<forall>x \<in> set qs. Inode n < inode_of x"
      "put_search es n a = (a, ps @ \<lparr> At = a, Node = n\<lparr>ReferenceCount := 1\<rparr> \<rparr> # qs)" by (auto split: if_splits)
    then show ?thesis using 1 by (intro exI [of _ "e # ps"] exI [of _ qs]) simp
  next
    case 2
    then show ?thesis using Cons.prems(1) by (intro exI [of _ "[]"] exI [of _ "e # es"]) auto
  qed
qed simp

lemma drop_search_hit:
  "\<forall>x \<in> set ps. inode_of x < i \<Longrightarrow> inode_of e = i \<Longrightarrow> drop_search pr (ps @ e # qs) i = Some (rev ps @ pr, e, qs)"
  by (induction ps arbitrary: pr) auto

lemma drop_search_miss: "find (\<lambda>e. inode_of e = i) es = None \<Longrightarrow> drop_search pr es i = None"
  by (induction es arbitrary: pr) (auto split: if_splits)

lemma find_replace:
  "inode_of e' = inode_of e \<Longrightarrow> \<forall>x \<in> set ps. inode_of x \<noteq> inode_of e \<Longrightarrow>
   find (\<lambda>x. inode_of x = j) (ps @ e' # qs) = (if j = inode_of e then Some e' else find (\<lambda>x. inode_of x = j) (ps @ e # qs))"
  by (induction ps) auto

lemma find_insert:
  "\<forall>x \<in> set ps. inode_of x \<noteq> inode_of e \<Longrightarrow>
   find (\<lambda>x. inode_of x = j) (ps @ e # qs) = (if j = inode_of e then Some e else find (\<lambda>x. inode_of x = j) (ps @ qs))"
  by (induction ps) auto

lemma find_remove:
  "\<forall>x \<in> set ps. inode_of x \<noteq> inode_of e \<Longrightarrow> \<forall>x \<in> set qs. inode_of x \<noteq> inode_of e \<Longrightarrow>
   find (\<lambda>x. inode_of x = j) (ps @ qs) = (if j = inode_of e then None else find (\<lambda>x. inode_of x = j) (ps @ e # qs))"
  by (induction ps) (auto simp: find_None_iff)

lemma cached_split:
  assumes "cache_wf c" "cached c i = Some e"
  obtains ps qs where "FirstNode c = ps @ e # qs" "\<forall>x \<in> set ps. inode_of x < i" "inode_of e = i" "\<forall>x \<in> set qs. i < inode_of x"
  using split_at [of "FirstNode c" i e] assms unfolding cache_wf_def cached_def by blast

lemma cached_bound: "cache_wf c \<Longrightarrow> cached c i = Some e \<Longrightarrow> i \<le> MaxCached c"
  using cached_None_above [of c i] by (cases "i \<le> MaxCached c") auto

lemma wf_replace:
  assumes "cache_wf c" "FirstNode c = ps @ e # qs" "At e' = At e" "inode_of e' = inode_of e" "0 < refs_of e'"
  shows "cache_wf (c\<lparr>FirstNode := ps @ e' # qs\<rparr>)"
proof -
  have "inode_of (last (ps @ e' # qs)) = inode_of (last (ps @ e # qs))" using assms(4) by simp
  moreover have "map inode_of (ps @ e' # qs) = map inode_of (ps @ e # qs)" "map At (ps @ e' # qs) = map At (ps @ e # qs)"
    using assms(3,4) by simp_all
  ultimately show ?thesis using assms(1,5) unfolding cache_wf_def assms(2) by (simp add: assms(3))
qed

section \<open>The laws of the operations\<close>

text \<open>Where the node of an inode is, how many references it has, and its fields.\<close>

definition entry :: "'a tInodeCache \<Rightarrow> 64 word \<Rightarrow> (addr \<times> nat \<times> 'a) option" where
  "entry c i = map_option (\<lambda>e. (At e, refs_of e, Fields (Node e))) (cached c i)"

lemma entry_Some:
  assumes "entry c i = Some (p, k, d)"
  obtains e where "cached c i = Some e" "At e = p" "refs_of e = k" "Fields (Node e) = d"
  using assms by (auto simp: entry_def)

lemma entry_None: "entry c i = None \<longleftrightarrow> cached c i = None"
  by (simp add: entry_def)

lemma refs_positive: "cache_wf c \<Longrightarrow> entry c i = Some (p, k, d) \<Longrightarrow> 0 < k \<and> p \<noteq> 0"
  by (auto simp: cache_wf_def entry_def cached_def find_Some_iff nth_mem)

lemma refs_up: "refs_of e + 1 < 2 ^ 32 \<Longrightarrow> refs_of (ref_up e) = refs_of e + 1"
  by (simp add: unat_word_ariths(1))

lemma refs_down: "0 < refs_of e \<Longrightarrow> refs_of (ref_down e) = refs_of e - 1"
  by (simp add: unat_sub word_le_nat_alt Suc_leI)

lemma replaced_entry:
  assumes "FirstNode c = ps @ e # qs" "\<forall>x \<in> set ps. inode_of x < i" "inode_of e = i" "inode_of e' = i"
  shows "entry (c\<lparr>FirstNode := ps @ e' # qs\<rparr>) = (entry c)(i \<mapsto> (At e', refs_of e', Fields (Node e')))"
proof
  fix j
  have "\<forall>x \<in> set ps. inode_of x \<noteq> inode_of e" using assms(2,3) by auto
  from find_replace [OF _ this, of e' j qs]
  show "entry (c\<lparr>FirstNode := ps @ e' # qs\<rparr>) j = ((entry c)(i \<mapsto> (At e', refs_of e', Fields (Node e')))) j"
    using assms by (simp add: entry_def cached_def)
qed

lemma get_miss: "cache_wf c \<Longrightarrow> entry c i = None \<Longrightarrow> Inode_GetCache c i = (0, c)"
  using get_search_miss [of i "FirstNode c"] by (simp add: Inode_GetCache_def entry_None cached_def)

lemma get_hit:
  assumes "cache_wf c" "entry c i = Some (p, k, d)" "k + 1 < 2 ^ 32"
  shows "\<exists>c'. Inode_GetCache c i = (p, c') \<and> cache_wf c' \<and> entry c' = (entry c)(i \<mapsto> (p, k + 1, d))"
proof -
  obtain e where e: "cached c i = Some e" "At e = p" "refs_of e = k" "Fields (Node e) = d" using assms(2) by (rule entry_Some)
  obtain ps qs where s: "FirstNode c = ps @ e # qs" "\<forall>x \<in> set ps. inode_of x < i" "inode_of e = i"
    using cached_split [OF assms(1) e(1)] by metis
  have up: "refs_of (ref_up e) = k + 1" using refs_up [of e] assms(3) e(3) by simp
  have "Inode_GetCache c i = (p, c\<lparr>FirstNode := ps @ ref_up e # qs\<rparr>)"
    using get_search_hit [OF s(2,3)] leD [OF cached_bound [OF assms(1) e(1)]] e(2) by (simp add: Inode_GetCache_def s(1))
  moreover have "cache_wf (c\<lparr>FirstNode := ps @ ref_up e # qs\<rparr>)" using up by (intro wf_replace [OF assms(1) s(1)]) simp_all
  moreover have "entry (c\<lparr>FirstNode := ps @ ref_up e # qs\<rparr>) = (entry c)(i \<mapsto> (p, k + 1, d))"
    using replaced_entry [OF s, of "ref_up e"] up e s(3) by simp
  ultimately show ?thesis by blast
qed

lemma put_hit:
  assumes "cache_wf c" "entry c (Inode n) = Some (p, k, d)" "k + 1 < 2 ^ 32"
  shows "\<exists>c'. Inode_CacheNodeEx c n a = (p, c') \<and> cache_wf c' \<and> entry c' = (entry c)(Inode n \<mapsto> (p, k + 1, d))"
proof -
  obtain e where e: "cached c (Inode n) = Some e" "At e = p" "refs_of e = k" "Fields (Node e) = d" using assms(2) by (rule entry_Some)
  obtain ps qs where s: "FirstNode c = ps @ e # qs" "\<forall>x \<in> set ps. inode_of x < Inode n" "inode_of e = Inode n"
    using cached_split [OF assms(1) e(1)] by metis
  have up: "refs_of (ref_up e) = k + 1" using refs_up [of e] assms(3) e(3) by simp
  have "Inode_CacheNodeEx c n a = (p, c\<lparr>FirstNode := ps @ ref_up e # qs\<rparr>)"
    using put_search_hit [OF s(2,3)] leD [OF cached_bound [OF assms(1) e(1)]] e(2) by (simp add: Inode_CacheNodeEx_def s(1))
  moreover have "cache_wf (c\<lparr>FirstNode := ps @ ref_up e # qs\<rparr>)" using up by (intro wf_replace [OF assms(1) s(1)]) simp_all
  moreover have "entry (c\<lparr>FirstNode := ps @ ref_up e # qs\<rparr>) = (entry c)(Inode n \<mapsto> (p, k + 1, d))"
    using replaced_entry [OF s, of "ref_up e"] up e s(3) by simp
  ultimately show ?thesis by blast
qed

lemma wf_insert:
  assumes "cache_wf c" "FirstNode c = ps @ qs" "\<forall>x \<in> set ps. inode_of x < inode_of e" "\<forall>x \<in> set qs. inode_of e < inode_of x"
    and "At e \<noteq> 0" "At e \<notin> At ` set (FirstNode c)" "0 < refs_of e"
  shows "cache_wf (c\<lparr>FirstNode := ps @ e # qs, MaxCached := max (MaxCached c) (inode_of e)\<rparr>)"
proof -
  have "max (MaxCached c) (inode_of e) = inode_of (last (ps @ e # qs))"
  proof (cases "qs = []")
    case True
    have "MaxCached c \<le> inode_of e"
      using assms(1,3) last_in_set [of ps] True by (auto simp: cache_wf_def assms(2) intro: less_imp_le)
    then show ?thesis using True by simp
  next
    case False
    then have "inode_of e < MaxCached c" using assms(1,4) by (simp add: cache_wf_def assms(2))
    then show ?thesis using False assms(1) by (simp add: cache_wf_def assms(2))
  qed
  moreover have "sorted_wrt (<) (map inode_of (ps @ e # qs))"
    using assms(1,3,4) by (auto simp: cache_wf_def assms(2) sorted_wrt_append)
  moreover have "distinct (map At (ps @ e # qs))" using assms(1,6) by (auto simp: cache_wf_def assms(2))
  ultimately show ?thesis using assms(1,5,7) by (auto simp: cache_wf_def assms(2))
qed

lemma put_miss:
  assumes "cache_wf c" "entry c (Inode n) = None" "a \<noteq> 0" "a \<notin> At ` set (FirstNode c)"
  shows "\<exists>c'. Inode_CacheNodeEx c n a = (a, c') \<and> cache_wf c' \<and> entry c' = (entry c)(Inode n \<mapsto> (a, 1, Fields n))"
proof -
  define e where "e = \<lparr> At = a, Node = n\<lparr>ReferenceCount := 1\<rparr> \<rparr>"
  have "sorted_wrt (<) (map inode_of (FirstNode c))" using assms(1) by (simp add: cache_wf_def)
  then obtain ps qs where s: "FirstNode c = ps @ qs" "\<forall>x \<in> set ps. inode_of x < Inode n" "\<forall>x \<in> set qs. Inode n < inode_of x"
    "put_search (FirstNode c) n a = (a, ps @ e # qs)"
    using put_search_miss [of "FirstNode c" n a] assms(2) unfolding entry_None cached_def e_def by blast
  define c' where "c' = c\<lparr>FirstNode := ps @ e # qs, MaxCached := max (MaxCached c) (Inode n)\<rparr>"
  have e: "inode_of e = Inode n" "At e = a" "refs_of e = 1" "Fields (Node e) = Fields n" by (simp_all add: e_def)
  have "Inode_CacheNodeEx c n a = (a, c')" using s(4) by (simp add: Inode_CacheNodeEx_def c'_def max_def)
  moreover have "cache_wf c'"
    unfolding c'_def e(1) [symmetric] using s assms(3,4) e by (intro wf_insert [OF assms(1) s(1)]) simp_all
  moreover have "entry c' = (entry c)(Inode n \<mapsto> (a, 1, Fields n))"
  proof
    fix j
    have "\<forall>x \<in> set ps. inode_of x \<noteq> inode_of e" using s(2) e(1) by auto
    from find_insert [OF this, of j qs] show "entry c' j = ((entry c)(Inode n \<mapsto> (a, 1, Fields n))) j"
      using e by (simp add: entry_def cached_def c'_def s(1))
  qed
  ultimately show ?thesis by blast
qed

lemma drop_miss: "cache_wf c \<Longrightarrow> entry c i = None \<Longrightarrow> Inode_UncacheNode c i = (- 1, c, None)"
  using drop_search_miss [of i "FirstNode c" "[]"] by (simp add: Inode_UncacheNode_def entry_None cached_def)

lemma drop_more:
  assumes "cache_wf c" "entry c i = Some (p, k, d)" "1 < k"
  shows "\<exists>c'. Inode_UncacheNode c i = (0, c', None) \<and> cache_wf c' \<and> entry c' = (entry c)(i \<mapsto> (p, k - 1, d))"
proof -
  obtain e where e: "cached c i = Some e" "At e = p" "refs_of e = k" "Fields (Node e) = d" using assms(2) by (rule entry_Some)
  obtain ps qs where s: "FirstNode c = ps @ e # qs" "\<forall>x \<in> set ps. inode_of x < i" "inode_of e = i"
    using cached_split [OF assms(1) e(1)] by metis
  have down: "refs_of (ref_down e) = k - 1" using refs_down [of e] assms(3) e(3) by simp
  then have "ReferenceCount (Node (ref_down e)) \<noteq> 0" using assms(3) by (metis unat_0 zero_less_diff less_irrefl)
  then have "Inode_UncacheNode c i = (0, c\<lparr>FirstNode := ps @ ref_down e # qs\<rparr>, None)"
    using drop_search_hit [OF s(2,3), of "[]"] leD [OF cached_bound [OF assms(1) e(1)]] by (simp add: Inode_UncacheNode_def s(1))
  moreover have "cache_wf (c\<lparr>FirstNode := ps @ ref_down e # qs\<rparr>)"
    using down assms(3) by (intro wf_replace [OF assms(1) s(1)]) simp_all
  moreover have "entry (c\<lparr>FirstNode := ps @ ref_down e # qs\<rparr>) = (entry c)(i \<mapsto> (p, k - 1, d))"
    using replaced_entry [OF s, of "ref_down e"] down e s(3) by simp
  ultimately show ?thesis by blast
qed

lemma wf_remove:
  assumes "cache_wf c" "FirstNode c = ps @ e # qs"
  defines "mx \<equiv> (if inode_of e = MaxCached c then if ps = [] then 0 else inode_of (last ps) else MaxCached c)"
  shows "cache_wf (c\<lparr>FirstNode := ps @ qs, MaxCached := mx\<rparr>)"
proof -
  have srt: "sorted_wrt (<) (map inode_of (ps @ e # qs))" using assms(1) by (simp add: cache_wf_def assms(2))
  have "mx = (if ps @ qs = [] then 0 else inode_of (last (ps @ qs)))"
  proof (cases "qs = []")
    case True
    then have "MaxCached c = inode_of e" using assms(1) by (simp add: cache_wf_def assms(2))
    then show ?thesis using True by (simp add: mx_def)
  next
    case False
    then have "MaxCached c = inode_of (last qs)" using assms(1) by (simp add: cache_wf_def assms(2))
    moreover have "inode_of e < inode_of (last qs)" using srt last_in_set [OF False] by (simp add: sorted_wrt_append)
    ultimately show ?thesis using False by (auto simp: mx_def)
  qed
  then show ?thesis using assms(1) srt by (simp add: cache_wf_def assms(2) sorted_wrt_append)
qed

lemma drop_last:
  assumes "cache_wf c" "entry c i = Some (p, 1, d)"
  shows "\<exists>c' n. Inode_UncacheNode c i = (1, c', Some n) \<and> Inode n = i \<and> Fields n = d \<and> cache_wf c' \<and> entry c' = (entry c)(i := None)"
proof -
  obtain e where e: "cached c i = Some e" "At e = p" "refs_of e = 1" "Fields (Node e) = d" using assms(2) by (rule entry_Some)
  obtain ps qs where s: "FirstNode c = ps @ e # qs" "\<forall>x \<in> set ps. inode_of x < i" "inode_of e = i" "\<forall>x \<in> set qs. i < inode_of x"
    using assms(1) e(1) by (rule cached_split)
  define mx where "mx = (if inode_of e = MaxCached c then if ps = [] then 0 else inode_of (last ps) else MaxCached c)"
  define c' where "c' = c\<lparr>FirstNode := ps @ qs, MaxCached := mx\<rparr>"
  have gone: "ReferenceCount (Node (ref_down e)) = 0" using refs_down [of e] e(3) by (simp add: unat_eq_zero)
  have "At e \<notin> At ` set (ps @ qs)" using assms(1) by (auto simp: cache_wf_def s(1))
  then have "ps @ qs = [] \<or> At e \<noteq> At (hd (ps @ qs))" by (metis hd_in_set image_eqI)
  then have "Inode_UncacheNode c i = (1, c', Some (Node (ref_down e)))"
    using drop_search_hit [OF s(2,3), of "[]" qs] leD [OF cached_bound [OF assms(1) e(1)]] gone
    by (auto simp: Inode_UncacheNode_def s(1) c'_def mx_def hd_rev Let_def)
  moreover have "cache_wf c'" using wf_remove [OF assms(1) s(1)] by (simp add: c'_def mx_def)
  moreover have "entry c' = (entry c)(i := None)"
  proof
    fix j
    have "\<forall>x \<in> set ps. inode_of x \<noteq> inode_of e" "\<forall>x \<in> set qs. inode_of x \<noteq> inode_of e" using s(2-4) by auto
    from find_remove [OF this, of j] show "entry c' j = ((entry c)(i := None)) j"
      using s(3) by (simp add: entry_def cached_def c'_def s(1))
  qed
  ultimately show ?thesis using e(4) s(3) by (intro exI [of _ c'] exI [of _ "Node (ref_down e)"]) simp
qed

lemma fresh_cache: "cache_wf \<lparr> FirstNode = [], MaxCached = 0 \<rparr>" "entry \<lparr> FirstNode = [], MaxCached = 0 \<rparr> i = None"
  by (simp_all add: cache_wf_def entry_def cached_def)

section \<open>The contract\<close>

text \<open>
  What a file system relies on: taking and giving back references counts them, and the node goes with
  the last one.
\<close>

locale node_refs =
  fixes wf :: "'c \<Rightarrow> bool" and look :: "'c \<Rightarrow> 'i \<Rightarrow> ('p \<times> nat \<times> 'd) option"
    and get :: "'c \<Rightarrow> 'i \<Rightarrow> 'p \<times> 'c" and give :: "'c \<Rightarrow> 'i \<Rightarrow> int \<times> 'c \<times> 'n option" and limit :: nat
  assumes get_law: "wf c \<Longrightarrow> look c i = Some (p, k, d) \<Longrightarrow> k + 1 < limit \<Longrightarrow>
      \<exists>c'. get c i = (p, c') \<and> wf c' \<and> look c' = (look c)(i \<mapsto> (p, k + 1, d))"
    and more_law: "wf c \<Longrightarrow> look c i = Some (p, k, d) \<Longrightarrow> 1 < k \<Longrightarrow>
      \<exists>c'. give c i = (0, c', None) \<and> wf c' \<and> look c' = (look c)(i \<mapsto> (p, k - 1, d))"
    and last_law: "wf c \<Longrightarrow> look c i = Some (p, 1, d) \<Longrightarrow>
      \<exists>c' n. give c i = (1, c', Some n) \<and> wf c' \<and> look c' = (look c)(i := None)"
begin

abbreviation gets :: "nat \<Rightarrow> 'i \<Rightarrow> 'c \<Rightarrow> 'c" where
  "gets n i c \<equiv> ((\<lambda>c. snd (get c i)) ^^ n) c"

abbreviation gives :: "nat \<Rightarrow> 'i \<Rightarrow> 'c \<Rightarrow> 'c" where
  "gives n i c \<equiv> ((\<lambda>c. fst (snd (give c i))) ^^ n) c"

lemma many_gets:
  "wf c \<Longrightarrow> look c i = Some (p, k, d) \<Longrightarrow> k + n < limit \<Longrightarrow>
   wf (gets n i c) \<and> look (gets n i c) = (look c)(i \<mapsto> (p, k + n, d))"
proof (induction n)
  case 0
  then show ?case by (auto simp: fun_eq_iff)
next
  case (Suc n)
  have "k + n < limit" using Suc.prems(3) by simp
  note ih = conjunct1 [OF Suc.IH [OF Suc.prems(1,2) this]] conjunct2 [OF Suc.IH [OF Suc.prems(1,2) this]]
  obtain c' where "get (gets n i c) i = (p, c')" "wf c'" "look c' = (look (gets n i c))(i \<mapsto> (p, k + n + 1, d))"
    using get_law [of "gets n i c" i p "k + n" d] ih Suc.prems by auto
  then show ?case by (auto simp: ih fun_eq_iff)
qed

lemma many_gives:
  "wf c \<Longrightarrow> look c i = Some (p, k, d) \<Longrightarrow> n < k \<Longrightarrow>
   wf (gives n i c) \<and> look (gives n i c) = (look c)(i \<mapsto> (p, k - n, d))"
proof (induction n)
  case 0
  then show ?case by (auto simp: fun_eq_iff)
next
  case (Suc n)
  have "n < k" "1 < k - n" using Suc.prems(3) by simp_all
  note ih = conjunct1 [OF Suc.IH [OF Suc.prems(1,2) this(1)]] conjunct2 [OF Suc.IH [OF Suc.prems(1,2) this(1)]]
  obtain c' where "give (gives n i c) i = (0, c', None)" "wf c'" "look c' = (look (gives n i c))(i \<mapsto> (p, k - n - 1, d))"
    using more_law [of "gives n i c" i p "k - n" d] ih \<open>1 < k - n\<close> by auto
  then show ?case by (auto simp: ih fun_eq_iff)
qed

lemma lives_with_references:
  assumes "wf c" "look c i = Some (p, k, d)" "0 < k" "k + n < limit"
  defines "c1 \<equiv> gives (k + n - 1) i (gets n i c)"
  shows "look c1 = (look c)(i \<mapsto> (p, 1, d))"
    "\<exists>c2 nd. give c1 i = (1, c2, Some nd) \<and> wf c2 \<and> look c2 = (look c)(i := None)"
proof -
  have g: "wf (gets n i c)" "look (gets n i c) = (look c)(i \<mapsto> (p, k + n, d))"
    using many_gets [OF assms(1,2,4)] by simp_all
  have "wf c1 \<and> look c1 = (look (gets n i c))(i \<mapsto> (p, k + n - (k + n - 1), d))"
    unfolding c1_def using g assms(3) by (intro many_gives) simp_all
  then have c1: "wf c1" "look c1 = (look c)(i \<mapsto> (p, 1, d))" using g assms(3) by simp_all
  then show "look c1 = (look c)(i \<mapsto> (p, 1, d))" by simp
  show "\<exists>c2 nd. give c1 i = (1, c2, Some nd) \<and> wf c2 \<and> look c2 = (look c)(i := None)"
    using last_law [OF c1(1), of i p d] c1(2) by auto
qed

end

interpretation nodes: node_refs cache_wf entry Inode_GetCache Inode_UncacheNode "2 ^ 32"
proof unfold_locales
  show "\<exists>c' n. Inode_UncacheNode c i = (1, c', Some n) \<and> cache_wf c' \<and> entry c' = (entry c)(i := None)"
    if "cache_wf c" "entry c i = Some (p, 1, d)" for c :: "'a tInodeCache" and i p d
    using drop_last [OF that] by blast
qed (rule get_hit drop_more; assumption)+

end
