(* ===== verification/VFS_ACL.thy ===== *)
theory VFS_ACL
  imports Prelude
begin

unbundle bit_operations_syntax

text \<open>
  Access control lists: \<open>vfs/acls.c\<close>. The fields of an entry keep their widths, one bit and 31 bits;
  user and group numbers have 32 bits.
\<close>

section \<open>Entries\<close>

record tVFS_ACL_Ent =
  Group :: bool
  ID :: "31 word"

record tVFS_ACL_Perm =
  Inv :: bool
  Perms :: "31 word"

record tVFS_ACL =
  Ent :: tVFS_ACL_Ent
  Perm :: tVFS_ACL_Perm

abbreviation VFS_PERM_READ :: "31 word" where "VFS_PERM_READ \<equiv> 1"
abbreviation VFS_PERM_WRITE :: "31 word" where "VFS_PERM_WRITE \<equiv> 2"
abbreviation VFS_PERM_EXEC :: "31 word" where "VFS_PERM_EXEC \<equiv> 8"
abbreviation VFS_PERM_ALL :: "31 word" where "VFS_PERM_ALL \<equiv> 0x7FFFFFFF"
abbreviation VFS_ACLENT_ALL :: "31 word" where "VFS_ACLENT_ALL \<equiv> 0x7FFFFFFF"

definition gVFS_ACL_EveryoneRWX :: tVFS_ACL where
  "gVFS_ACL_EveryoneRWX = \<lparr> Ent = \<lparr> Group = True, ID = VFS_ACLENT_ALL \<rparr>, Perm = \<lparr> Inv = False, Perms = VFS_PERM_ALL \<rparr> \<rparr>"

definition gVFS_ACL_EveryoneRW :: tVFS_ACL where
  "gVFS_ACL_EveryoneRW =
     \<lparr> Ent = \<lparr> Group = True, ID = VFS_ACLENT_ALL \<rparr>, Perm = \<lparr> Inv = False, Perms = VFS_PERM_ALL XOR VFS_PERM_EXEC \<rparr> \<rparr>"

definition gVFS_ACL_EveryoneRX :: tVFS_ACL where
  "gVFS_ACL_EveryoneRX =
     \<lparr> Ent = \<lparr> Group = True, ID = VFS_ACLENT_ALL \<rparr>, Perm = \<lparr> Inv = False, Perms = VFS_PERM_READ OR VFS_PERM_EXEC \<rparr> \<rparr>"

definition gVFS_ACL_EveryoneRO :: tVFS_ACL where
  "gVFS_ACL_EveryoneRO =
     \<lparr> Ent = \<lparr> Group = True, ID = VFS_ACLENT_ALL \<rparr>, Perm = \<lparr> Inv = False, Perms = VFS_PERM_READ \<rparr> \<rparr>"

section \<open>Checks\<close>

text \<open>Whether an entry is looked at for a user and a group: entries with \<open>Inv\<close> are passed over.\<close>

definition acl_applies :: "tVFS_ACL \<Rightarrow> 32 word \<Rightarrow> 32 word \<Rightarrow> bool" where
  "acl_applies a UID GID \<longleftrightarrow> \<not> Inv (Perm a) \<and>
     (ID (Ent a) = VFS_ACLENT_ALL \<or> (if Group (Ent a) then ucast (ID (Ent a)) = GID else ucast (ID (Ent a)) = UID))"

fun VFS_int_CheckACLs :: "tVFS_ACL list \<Rightarrow> bool \<Rightarrow> 32 word \<Rightarrow> 32 word \<Rightarrow> 32 word \<Rightarrow> 32 word" where
  "VFS_int_CheckACLs [] bDeny Permissions UID GID = (if bDeny then 0 else Permissions)"
| "VFS_int_CheckACLs (a # as) bDeny Permissions UID GID =
     (if \<not> acl_applies a UID GID then VFS_int_CheckACLs as bDeny Permissions UID GID
      else if bDeny \<and> ucast (Perms (Perm a)) AND Permissions \<noteq> 0 then ucast (Perms (Perm a)) AND Permissions
      else if \<not> bDeny \<and> ucast (Perms (Perm a)) AND Permissions = Permissions then 0
      else VFS_int_CheckACLs as bDeny Permissions UID GID)"

text \<open>
  The \<open>return 0\<close> behind the first test is not part of its \<open>if\<close>, which has no braces: what follows it
  is never run.
\<close>

definition VFS_CheckACL :: "tVFS_ACL list \<Rightarrow> 32 word \<Rightarrow> 32 word \<Rightarrow> 32 word \<Rightarrow> int" where
  "VFS_CheckACL ACLs Permissions uid gid =
     (if uid = 0 then 1
      else if ACLs = [] then 0
      else let rv = VFS_int_CheckACLs ACLs True Permissions uid gid in 0)"

text \<open>\<open>h\<close> is the list of the node of the handle, if there is a handle. The result has the changed \<open>Dest\<close>.\<close>

fun find_entry :: "tVFS_ACL list \<Rightarrow> tVFS_ACL_Ent \<Rightarrow> tVFS_ACL_Perm option" where
  "find_entry [] e = None"
| "find_entry (a # as) e =
     (if Group (Ent a) \<noteq> Group e then find_entry as e
      else if ID (Ent a) \<noteq> ID e then find_entry as e
      else Some (Perm a))"

definition VFS_GetACL :: "tVFS_ACL list option \<Rightarrow> tVFS_ACL \<Rightarrow> int \<times> tVFS_ACL" where
  "VFS_GetACL h Dest =
     (case h of None \<Rightarrow> (- 1, Dest)
      | Some ACLs \<Rightarrow>
          if \<not> Group (Ent Dest) \<and> ID (Ent Dest) = 0 then (1, Dest\<lparr>Perm := \<lparr> Inv = False, Perms = VFS_PERM_ALL \<rparr>\<rparr>)
          else if ACLs = [] then (0, Dest\<lparr>Perm := \<lparr> Inv = False, Perms = 0 \<rparr>\<rparr>)
          else (case find_entry ACLs (Ent Dest) of
                  Some p \<Rightarrow> (1, Dest\<lparr>Perm := p\<rparr>)
                | None \<Rightarrow> (0, Dest\<lparr>Perm := \<lparr> Inv = False, Perms = 0 \<rparr>\<rparr>)))"

section \<open>From the modes of Unix\<close>

text \<open>One entry: \<open>r\<close>, \<open>w\<close> and \<open>x\<close> are the masks of its class of the mode.\<close>

definition mode_perms :: "32 word \<Rightarrow> 32 word \<Rightarrow> 32 word \<Rightarrow> 32 word \<Rightarrow> 31 word" where
  "mode_perms Mode r w x =
     (let p = (0 :: 31 word);
          p = (if Mode AND r \<noteq> 0 then p OR VFS_PERM_READ else p);
          p = (if Mode AND w \<noteq> 0 then p OR VFS_PERM_WRITE else p)
      in if Mode AND x \<noteq> 0 then p OR VFS_PERM_EXEC else p)"

text \<open>\<open>room\<close> tells whether \<open>malloc\<close> gives the three entries. The identities lose their highest bit.\<close>

definition VFS_UnixToAcessACL :: "bool \<Rightarrow> 32 word \<Rightarrow> 32 word \<Rightarrow> 32 word \<Rightarrow> tVFS_ACL list option" where
  "VFS_UnixToAcessACL room Mode Owner Grp =
     (if \<not> room then None
      else Some
        [\<lparr> Ent = \<lparr> Group = False, ID = ucast Owner \<rparr>, Perm = \<lparr> Inv = False, Perms = mode_perms Mode 0x100 0x80 0x40 \<rparr> \<rparr>,
         \<lparr> Ent = \<lparr> Group = True, ID = ucast Grp \<rparr>, Perm = \<lparr> Inv = False, Perms = mode_perms Mode 0x20 0x10 0x8 \<rparr> \<rparr>,
         \<lparr> Ent = \<lparr> Group = True, ID = VFS_ACLENT_ALL \<rparr>, Perm = \<lparr> Inv = False, Perms = mode_perms Mode 0x4 0x2 0x1 \<rparr> \<rparr>])"

section \<open>What the checks compute\<close>

text \<open>An entry that applies and grants everything that is asked for.\<close>

definition acl_grants :: "tVFS_ACL \<Rightarrow> 32 word \<Rightarrow> 32 word \<Rightarrow> 32 word \<Rightarrow> bool" where
  "acl_grants a Permissions UID GID \<longleftrightarrow> acl_applies a UID GID \<and> ucast (Perms (Perm a)) AND Permissions = Permissions"

lemma check_allow: "VFS_int_CheckACLs as False p u g = (if \<exists>a \<in> set as. acl_grants a p u g then 0 else p)"
  by (induction as) (auto simp: acl_grants_def)

lemma check_deny: "VFS_int_CheckACLs as True p u g = 0 \<longleftrightarrow>
  (\<forall>a \<in> set as. acl_applies a u g \<longrightarrow> ucast (Perms (Perm a)) AND p = 0)"
  by (induction as) auto

lemma find_entry_first:
  "find_entry as e = map_option Perm (find (\<lambda>a. Group (Ent a) = Group e \<and> ID (Ent a) = ID e) as)"
  by (induction as) auto

text \<open>The permissions of a class, read back from the entry.\<close>

lemma mode_perms_bits:
  "mode_perms Mode r w x AND 1 \<noteq> 0 \<longleftrightarrow> Mode AND r \<noteq> 0"
  "mode_perms Mode r w x AND 2 \<noteq> 0 \<longleftrightarrow> Mode AND w \<noteq> 0"
  "mode_perms Mode r w x AND 8 \<noteq> 0 \<longleftrightarrow> Mode AND x \<noteq> 0"
  by (simp_all add: mode_perms_def)

text \<open>What an entry made from a mode acl_grants.\<close>

lemma mode_perms_ucast:
  "(ucast (mode_perms Mode r w x) :: 32 word) =
     (if Mode AND r \<noteq> 0 then 1 else 0) OR (if Mode AND w \<noteq> 0 then 2 else 0) OR (if Mode AND x \<noteq> 0 then 8 else 0)"
  by (simp add: mode_perms_def)

end
