(* ===== verification/VFS_Files.thy ===== *)
theory VFS_Files
  imports Errno VFS_ACL
begin

text \<open>
  Open files: the handle tables of \<open>vfs/handle.c\<close>, and what \<open>vfs/open.c\<close> does with handles. The
  methods of a node type are functions on the whole state, since a driver may change nodes and memory.
  The pointer to the type of a node is null or valid. \<^const>\<open>Panicked\<close> stands for an access through a
  null pointer or outside an array, for a failed assertion and for the end of the running thread.
  A descriptor is looked up in the table of user handles also when its pages are not mapped, where the
  code would fault on the missing page.
\<close>

section \<open>Nodes, handles and the state\<close>

record tVFS_FileNode =
  n_Type :: addr
  n_ImplPtr :: addr
  n_ReferenceCount :: int
  n_Inode :: nat
  n_Size :: nat
  n_Flags :: "32 word"
  n_ATime :: int
  n_MTime :: int
  n_CTime :: int
  n_UID :: "32 word"
  n_GID :: "32 word"
  n_ACLs :: "tVFS_ACL list"

record tVFS_Handle =
  h_Node :: addr
  h_Mount :: addr
  h_Position :: nat
  h_Mode :: "32 word"

record tVFS_MarshalledHandle =
  Magic :: nat
  AllocTime :: int
  m_Handle :: tVFS_Handle

text \<open>The handles of the running process and of the kernel; the number of user handles is its \<open>MaxFD\<close>.\<close>

record vfs =
  v_mem :: memory
  v_errno :: libc_eErrorNumbers
  v_nodes :: "addr \<Rightarrow> tVFS_FileNode"
  OpenHandleCount :: "addr \<Rightarrow> int"
  Identifier :: "addr \<Rightarrow> nat"
  gaUserHandles :: "tVFS_Handle list"
  gaKernelHandles :: "tVFS_Handle list"
  user_mapped :: bool
  kernel_mapped :: bool
  gaVFS_MarshalledHandles :: "tVFS_MarshalledHandle list"

text \<open>A read or write method: absent, a pointer to nothing, or the code.\<close>

datatype io_method = No_method | Junk | Method "addr \<Rightarrow> nat \<Rightarrow> nat \<Rightarrow> addr \<Rightarrow> nat \<Rightarrow> vfs \<Rightarrow> nat \<times> vfs"

record tVFS_NodeType =
  t_Flags :: "32 word"
  t_Reference :: "(addr \<Rightarrow> vfs \<Rightarrow> vfs) option"
  t_Close :: "(addr \<Rightarrow> vfs \<Rightarrow> vfs) option"
  t_Read :: io_method
  t_Write :: io_method
  t_Truncate :: "(addr \<Rightarrow> nat \<Rightarrow> vfs \<Rightarrow> nat \<times> vfs) option"
  t_IOCtl :: "(addr \<Rightarrow> int \<Rightarrow> addr \<Rightarrow> vfs \<Rightarrow> int \<times> vfs) option"

text \<open>The node types by address; there is none at null.\<close>

type_synonym types = "addr \<Rightarrow> tVFS_NodeType option"

definition type_of :: "types \<Rightarrow> vfs \<Rightarrow> addr \<Rightarrow> tVFS_NodeType option" where
  "type_of T s n = T (n_Type (v_nodes s n))"

definition free_handle :: tVFS_Handle where
  "free_handle = \<lparr> h_Node = 0, h_Mount = 0, h_Position = 0, h_Mode = 0 \<rparr>"

abbreviation MAX_KERNEL_FILES :: nat where "MAX_KERNEL_FILES \<equiv> 128"
abbreviation MAX_MARSHALLED_HANDLES :: nat where "MAX_MARSHALLED_HANDLES \<equiv> 16"
abbreviation VFS_KERNEL_FLAG :: int where "VFS_KERNEL_FLAG \<equiv> 0x40000000"

abbreviation VFS_OPENFLAG_EXEC :: "32 word" where "VFS_OPENFLAG_EXEC \<equiv> 1"
abbreviation VFS_OPENFLAG_READ :: "32 word" where "VFS_OPENFLAG_READ \<equiv> 2"
abbreviation VFS_OPENFLAG_WRITE :: "32 word" where "VFS_OPENFLAG_WRITE \<equiv> 4"
abbreviation VFS_OPENFLAG_NONBLOCK :: "32 word" where "VFS_OPENFLAG_NONBLOCK \<equiv> 0x100"
abbreviation VFS_OPENFLAG_USER :: "32 word" where "VFS_OPENFLAG_USER \<equiv> 0x8000"

unbundle bit_operations_syntax

section \<open>The tables\<close>

text \<open>A place in one of the two tables stands for the pointer to the handle.\<close>

datatype slot = User nat | Kernel nat

fun handle :: "vfs \<Rightarrow> slot \<Rightarrow> tVFS_Handle" where
  "handle s (User i) = gaUserHandles s ! i"
| "handle s (Kernel i) = gaKernelHandles s ! i"

fun set_handle :: "slot \<Rightarrow> tVFS_Handle \<Rightarrow> vfs \<Rightarrow> vfs" where
  "set_handle (User i) h s = s\<lparr>gaUserHandles := (gaUserHandles s)[i := h]\<rparr>"
| "set_handle (Kernel i) h s = s\<lparr>gaKernelHandles := (gaKernelHandles s)[i := h]\<rparr>"

definition kernel_fd :: "int \<Rightarrow> bool" where
  "kernel_fd FD \<longleftrightarrow> FD div VFS_KERNEL_FLAG mod 2 = 1"

text \<open>The tests on a descriptor, an \<open>int\<close>, that both routines make first.\<close>

definition fd_slot :: "vfs \<Rightarrow> int \<Rightarrow> slot option" where
  "fd_slot s FD =
     (if FD < 0 then None
      else if kernel_fd FD then
        (let FD = FD mod VFS_KERNEL_FLAG in if FD \<ge> int MAX_KERNEL_FILES then None else Some (Kernel (nat FD)))
      else if FD \<ge> int (length (gaUserHandles s)) then None
      else Some (User (nat FD)))"

definition VFS_GetHandle :: "vfs \<Rightarrow> int \<Rightarrow> slot option" where
  "VFS_GetHandle s FD =
     (case fd_slot s FD of None \<Rightarrow> None | Some l \<Rightarrow> if h_Node (handle s l) = 0 then None else Some l)"

text \<open>The flag of a kernel descriptor is not in the result.\<close>

definition VFS_SetHandle :: "int \<Rightarrow> addr \<Rightarrow> 32 word \<Rightarrow> vfs \<Rightarrow> int \<times> vfs" where
  "VFS_SetHandle FD Node Mode s =
     (case fd_slot s FD of None \<Rightarrow> (- 1, s)
      | Some l \<Rightarrow> (if kernel_fd FD then FD mod VFS_KERNEL_FLAG else FD,
                   set_handle l ((handle s l)\<lparr>h_Node := Node, h_Mode := Mode\<rparr>) s))"

fun first_free :: "tVFS_Handle list \<Rightarrow> nat \<Rightarrow> nat option" where
  "first_free [] i = None"
| "first_free (h # hs) i = (if h_Node h \<noteq> 0 then first_free hs (i + 1) else Some i)"

text \<open>
  \<open>ok k\<close> is the outcome of the request for the page number \<open>k\<close>. The loop for the user handles steps by
  one byte of the table and not by one page.
\<close>

abbreviation sizeof_tVFS_Handle :: nat where "sizeof_tVFS_Handle \<equiv> 20"

definition map_user :: "(nat \<Rightarrow> bool) \<Rightarrow> vfs \<Rightarrow> vfs outcome" where
  "map_user ok s =
     (if user_mapped s then Ret s
      else if \<forall>k \<in> {..<length (gaUserHandles s) * sizeof_tVFS_Handle}. ok k
      then Ret (s\<lparr>user_mapped := True, gaUserHandles := replicate (length (gaUserHandles s)) free_handle\<rparr>)
      else Panicked)"

definition map_kernel :: "(nat \<Rightarrow> bool) \<Rightarrow> vfs \<Rightarrow> vfs outcome" where
  "map_kernel ok s =
     (if kernel_mapped s then Ret s
      else if ok 0 then Ret (s\<lparr>kernel_mapped := True, gaKernelHandles := replicate MAX_KERNEL_FILES free_handle\<rparr>)
      else Panicked)"

definition take_slot :: "(nat \<Rightarrow> slot) \<Rightarrow> int \<Rightarrow> addr \<Rightarrow> 32 word \<Rightarrow> nat option \<Rightarrow> vfs \<Rightarrow> int \<times> vfs" where
  "take_slot f flag Node Mode i s =
     (case i of None \<Rightarrow> (- 1, s)
      | Some i \<Rightarrow> (int i + flag, set_handle (f i) ((handle s (f i))\<lparr>h_Node := Node, h_Position := 0, h_Mode := Mode\<rparr>) s))"

definition VFS_AllocHandle :: "(nat \<Rightarrow> bool) \<Rightarrow> bool \<Rightarrow> addr \<Rightarrow> 32 word \<Rightarrow> vfs \<Rightarrow> (int \<times> vfs) outcome" where
  "VFS_AllocHandle ok bIsUser Node Mode s =
     (if bIsUser
      then bind_outcome (map_user ok s) (\<lambda>s. Ret (take_slot User 0 Node Mode (first_free (gaUserHandles s) 0) s))
      else bind_outcome (map_kernel ok s)
             (\<lambda>s. Ret (take_slot Kernel VFS_KERNEL_FLAG Node Mode (first_free (gaKernelHandles s) 0) s)))"

section \<open>References\<close>

definition CloseNode :: "types \<Rightarrow> addr \<Rightarrow> vfs \<Rightarrow> vfs" where
  "CloseNode T n s =
     (if n = 0 then s
      else case type_of T s n of None \<Rightarrow> s
      | Some t \<Rightarrow> (case t_Close t of None \<Rightarrow> s | Some close \<Rightarrow> close n s))"

definition ReferenceNode :: "types \<Rightarrow> addr \<Rightarrow> vfs \<Rightarrow> vfs" where
  "ReferenceNode T n s =
     (case type_of T s n of None \<Rightarrow> s
      | Some t \<Rightarrow> (case t_Reference t of Some ref \<Rightarrow> ref n s
          | None \<Rightarrow> s\<lparr>v_nodes := (v_nodes s)(n := (v_nodes s n)\<lparr>n_ReferenceCount := s32 (n_ReferenceCount (v_nodes s n) + 1)\<rparr>)\<rparr>))"

definition ReferenceMount :: "addr \<Rightarrow> vfs \<Rightarrow> vfs outcome" where
  "ReferenceMount mnt s =
     (if mnt = 0 then Panicked
      else Ret (s\<lparr>OpenHandleCount := (OpenHandleCount s)(mnt := OpenHandleCount s mnt + 1)\<rparr>))"

definition DereferenceMount :: "addr \<Rightarrow> vfs \<Rightarrow> vfs outcome" where
  "DereferenceMount mnt s =
     (if mnt = 0 then Panicked
      else if \<not> OpenHandleCount s mnt > 0 then Panicked
      else Ret (s\<lparr>OpenHandleCount := (OpenHandleCount s)(mnt := OpenHandleCount s mnt - 1)\<rparr>))"

section \<open>Opening, closing and copying handles\<close>

definition open_perms :: "32 word \<Rightarrow> 32 word" where
  "open_perms Mode =
     (if Mode AND VFS_OPENFLAG_EXEC \<noteq> 0 then ucast VFS_PERM_EXEC else 0) OR
     (if Mode AND VFS_OPENFLAG_READ \<noteq> 0 then ucast VFS_PERM_READ else 0) OR
     (if Mode AND VFS_OPENFLAG_WRITE \<noteq> 0 then ucast VFS_PERM_WRITE else 0)"

definition VFS_int_CreateHandle ::
    "types \<Rightarrow> (nat \<Rightarrow> bool) \<Rightarrow> 32 word \<Rightarrow> 32 word \<Rightarrow> addr \<Rightarrow> addr \<Rightarrow> 32 word \<Rightarrow> vfs \<Rightarrow> (int \<times> vfs) outcome" where
  "VFS_int_CreateHandle T ok uid gid Node Mount Mode s =
     (if VFS_CheckACL (n_ACLs (v_nodes s Node)) (open_perms Mode) uid gid = 0
      then Ret (- 1, (CloseNode T Node s)\<lparr>v_errno := EACCES\<rparr>)
      else if type_of T s Node = None then Ret (- 1, s\<lparr>v_errno := EINTERNAL\<rparr>)
      else bind_outcome (VFS_AllocHandle ok (Mode AND VFS_OPENFLAG_USER \<noteq> 0) Node Mode s) (\<lambda>(i, s).
        if i < 0 then Ret (- 1, s\<lparr>v_errno := ENFILE\<rparr>)
        else case VFS_GetHandle s i of None \<Rightarrow> Panicked
             | Some l \<Rightarrow> Ret (i, set_handle l ((handle s l)\<lparr>h_Mount := Mount\<rparr>) s)))"

definition VFS_Close :: "types \<Rightarrow> int \<Rightarrow> vfs \<Rightarrow> vfs outcome" where
  "VFS_Close T FD s =
     (case VFS_GetHandle s FD of None \<Rightarrow> Ret (s\<lparr>v_errno := EINVAL\<rparr>)
      | Some l \<Rightarrow>
          let s = CloseNode T (h_Node (handle s l)) s in
          bind_outcome (if h_Mount (handle s l) \<noteq> 0 then DereferenceMount (h_Mount (handle s l)) s else Ret s)
            (\<lambda>s. Ret (set_handle l ((handle s l)\<lparr>h_Node := 0\<rparr>) s)))"

text \<open>The result of neither routine that finds a place for the copy is looked at.\<close>

definition copy_handle :: "types \<Rightarrow> slot \<Rightarrow> int \<Rightarrow> vfs \<Rightarrow> (int \<times> vfs) outcome" where
  "copy_handle T src DstFD s =
     bind_outcome (ReferenceMount (h_Mount (handle s src)) s) (\<lambda>s.
       let s = ReferenceNode T (h_Node (handle s src)) s in
       case VFS_GetHandle s DstFD of None \<Rightarrow> Panicked
       | Some dst \<Rightarrow> Ret (DstFD, set_handle dst (handle s src) s))"

definition VFS_DuplicateFD :: "types \<Rightarrow> (nat \<Rightarrow> bool) \<Rightarrow> int \<Rightarrow> int \<Rightarrow> vfs \<Rightarrow> (int \<times> vfs) outcome" where
  "VFS_DuplicateFD T ok SrcFD DstFD s =
     (let isUser = \<not> kernel_fd SrcFD in
      case VFS_GetHandle s SrcFD of None \<Rightarrow> Ret (- 1, s)
      | Some src \<Rightarrow>
          if DstFD = - 1
          then bind_outcome (VFS_AllocHandle ok isUser (h_Node (handle s src)) (h_Mode (handle s src)) s)
                 (\<lambda>(DstFD, s). copy_handle T src DstFD s)
          else if VFS_GetHandle s DstFD \<noteq> None then Ret (- 1, s)
          else copy_handle T src DstFD (snd (VFS_SetHandle DstFD (h_Node (handle s src)) (h_Mode (handle s src)) s)))"

definition VFS_SetFDFlags :: "int \<Rightarrow> 32 word \<Rightarrow> 32 word \<Rightarrow> vfs \<Rightarrow> int \<times> vfs" where
  "VFS_SetFDFlags FD Mask Value s =
     (case VFS_GetHandle s FD of None \<Rightarrow> (- 1, s\<lparr>v_errno := EBADF\<rparr>)
      | Some l \<Rightarrow>
          let h = handle s l; ret = sint (h_Mode h); Value = Value AND Mask;
              h = h\<lparr>h_Mode := h_Mode h AND NOT Mask\<rparr>; h = h\<lparr>h_Mode := h_Mode h OR Value\<rparr>
          in (ret, set_handle l h s))"

section \<open>Handing over handles\<close>

text \<open>The scan for a free place goes on behind the first one, and takes every free place.\<close>

fun marshal_scan :: "addr \<Rightarrow> int \<Rightarrow> nat \<Rightarrow> int \<Rightarrow> tVFS_MarshalledHandle list \<Rightarrow> int \<times> tVFS_MarshalledHandle list" where
  "marshal_scan Node now i ret [] = (ret, [])"
| "marshal_scan Node now i ret (mh # mhs) =
     (let (ret, mh) = (if h_Node (m_Handle mh) = 0
                       then (int i, mh\<lparr>m_Handle := (m_Handle mh)\<lparr>h_Node := Node\<rparr>, AllocTime := now\<rparr>)
                       else (ret, mh));
          (ret, mhs) = marshal_scan Node now (i + 1) ret mhs
      in (ret, mh # mhs))"

text \<open>\<open>now\<close> is the time and \<open>rand\<close> the random number of the call; the result is unsigned, of 64 bits.\<close>

definition VFS_MarshalHandle :: "types \<Rightarrow> int \<Rightarrow> nat \<Rightarrow> int \<Rightarrow> vfs \<Rightarrow> (nat \<times> vfs) outcome" where
  "VFS_MarshalHandle T now rand FD s =
     (case VFS_GetHandle s FD of None \<Rightarrow> Ret (2 ^ 64 - 1, s\<lparr>v_errno := EBADF\<rparr>)
      | Some l \<Rightarrow>
          let h = handle s l;
              (ret, mhs) = marshal_scan (h_Node h) now 0 (- 1) (gaVFS_MarshalledHandles s);
              s = s\<lparr>gaVFS_MarshalledHandles := mhs\<rparr>
          in if ret < 0 then Ret (2 ^ 64 - 1, s\<lparr>v_errno := EAGAIN\<rparr>)
             else let i = nat ret;
                      s = s\<lparr>gaVFS_MarshalledHandles := mhs[i := (mhs ! i)\<lparr>m_Handle := h\<rparr>]\<rparr>
                  in bind_outcome (ReferenceMount (h_Mount h) s) (\<lambda>s.
                       let s = ReferenceNode T (h_Node h) s;
                           mhs = gaVFS_MarshalledHandles s;
                           s = s\<lparr>gaVFS_MarshalledHandles := mhs[i := (mhs ! i)\<lparr>Magic := u32 rand\<rparr>]\<rparr>
                       in Ret (u32 rand * 2 ^ 32 + i, s)))"

text \<open>The place is an \<open>int\<close>, so a number of \<open>2 ^ 31\<close> or more passes the range check and is negative.\<close>

definition VFS_UnmarshalHandle :: "(nat \<Rightarrow> bool) \<Rightarrow> nat \<Rightarrow> vfs \<Rightarrow> (int \<times> vfs) outcome" where
  "VFS_UnmarshalHandle ok Handle s =
     (let magic = Handle div 2 ^ 32;
          n = Handle mod 2 ^ 32;
          id = (if n < 2 ^ 31 then int n else int n - 2 ^ 32)
      in if id \<ge> int MAX_MARSHALLED_HANDLES then Ret (- 1, s\<lparr>v_errno := EINVAL\<rparr>)
         else if id < 0 then Panicked
         else let mh = gaVFS_MarshalledHandles s ! nat id in
           if h_Node (m_Handle mh) = 0 then Ret (- 1, s\<lparr>v_errno := EINVAL\<rparr>)
           else if Magic mh \<noteq> magic then Ret (- 1, s\<lparr>v_errno := EACCES\<rparr>)
           else bind_outcome (VFS_AllocHandle ok True (h_Node (m_Handle mh)) (h_Mode (m_Handle mh)) s) (\<lambda>(ret, s).
             let s = s\<lparr>gaVFS_MarshalledHandles := (gaVFS_MarshalledHandles s)[nat id := mh\<lparr>m_Handle := (m_Handle mh)\<lparr>h_Node := 0\<rparr>\<rparr>]\<rparr>
             in if ret = - 1 then Ret (- 1, s\<lparr>v_errno := ENFILE\<rparr>) else Ret (ret, s)))"

section \<open>The handles of a process as a whole\<close>

text \<open>The fork of a process: its handles count twice.\<close>

fun reference_all :: "types \<Rightarrow> tVFS_Handle list \<Rightarrow> vfs \<Rightarrow> vfs outcome" where
  "reference_all T [] s = Ret s"
| "reference_all T (h # hs) s =
     (if h_Node h = 0 then reference_all T hs s
      else bind_outcome (ReferenceMount (h_Mount h) (ReferenceNode T (h_Node h) s)) (reference_all T hs))"

definition VFS_ReferenceUserHandles :: "types \<Rightarrow> vfs \<Rightarrow> vfs outcome" where
  "VFS_ReferenceUserHandles T s = (if \<not> user_mapped s then Ret s else reference_all T (gaUserHandles s) s)"

text \<open>The end of a process, with its handles in the state; the count of the mount stays as it is.\<close>

abbreviation PAGE_SIZE :: nat where "PAGE_SIZE \<equiv> 4096"

fun close_all :: "types \<Rightarrow> nat \<Rightarrow> nat \<Rightarrow> vfs \<Rightarrow> vfs" where
  "close_all T i 0 s = s"
| "close_all T i (Suc n) s =
     (let h = gaUserHandles s ! i in
      if h_Node h = 0 then close_all T (i + 1) n s
      else let s = CloseNode T (h_Node h) s
           in close_all T (i + 1) n (set_handle (User i) ((gaUserHandles s ! i)\<lparr>h_Node := 0\<rparr>) s))"

definition VFS_CloseAllUserHandles :: "types \<Rightarrow> vfs \<Rightarrow> vfs outcome" where
  "VFS_CloseAllUserHandles T s =
     (let max_handles = length (gaUserHandles s) in
      if max_handles \<ge> PAGE_SIZE div sizeof_tVFS_Handle then Panicked
      else if \<not> user_mapped s then Ret s
      else Ret (close_all T 0 max_handles s))"

text \<open>The copies of the handles for a new process; a descriptor that is not open gives null.\<close>

fun copy_fds :: "vfs \<Rightarrow> int list \<Rightarrow> tVFS_Handle list option" where
  "copy_fds s [] = Some []"
| "copy_fds s (fd # fds) =
     (if fd < - 1 then map_option (\<lambda>hs. free_handle # hs) (copy_fds s fds)
      else case VFS_GetHandle s (fd mod VFS_KERNEL_FLAG) of None \<Rightarrow> None
           | Some l \<Rightarrow> map_option (\<lambda>hs. handle s l # hs) (copy_fds s fds))"

text \<open>
  The block that \<open>malloc\<close> returns, or none, is an argument, with the contents it had. It has room for
  the number of handles asked for; the number copied is capped, what lies behind them stays.
\<close>

definition VFS_SaveHandles ::
    "types \<Rightarrow> tVFS_Handle list option \<Rightarrow> nat \<Rightarrow> int list option \<Rightarrow> vfs \<Rightarrow> (tVFS_Handle list option \<times> vfs) outcome" where
  "VFS_SaveHandles T block NumFDs FDs s =
     (if \<not> user_mapped s then Ret (None, s)
      else case block of None \<Rightarrow> Ret (None, s)
      | Some old \<Rightarrow>
        let NumFDs = min NumFDs (length (gaUserHandles s)) in
        (case (case FDs of None \<Rightarrow> Some (take NumFDs (gaUserHandles s)) | Some fds \<Rightarrow> copy_fds s (take NumFDs fds)) of
           None \<Rightarrow> Ret (None, s)
         | Some ret \<Rightarrow> bind_outcome (reference_all T ret s) (\<lambda>s. Ret (Some (ret @ drop (length ret) old), s))))"

fun release_all :: "types \<Rightarrow> tVFS_Handle list \<Rightarrow> vfs \<Rightarrow> vfs outcome" where
  "release_all T [] s = Ret s"
| "release_all T (h # hs) s =
     (if h_Node h = 0 then release_all T hs s
      else bind_outcome (DereferenceMount (h_Mount h) (CloseNode T (h_Node h) s)) (release_all T hs))"

text \<open>Nothing caps the number here. One above the size of the block reads behind the block.\<close>

definition VFS_FreeSavedHandles :: "types \<Rightarrow> nat \<Rightarrow> tVFS_Handle list option \<Rightarrow> vfs \<Rightarrow> vfs outcome" where
  "VFS_FreeSavedHandles T NumFDs Handles s =
     (case Handles of None \<Rightarrow> Ret s
      | Some hs \<Rightarrow> if NumFDs > length hs then Panicked else release_all T (take NumFDs hs) s)"

text \<open>The handles that were there are closed first, with no test of the count of the mount.\<close>

fun drop_handles :: "types \<Rightarrow> nat \<Rightarrow> nat \<Rightarrow> vfs \<Rightarrow> vfs outcome" where
  "drop_handles T i 0 s = Ret s"
| "drop_handles T i (Suc n) s =
     (let h = gaUserHandles s ! i in
      if h_Node h = 0 then drop_handles T (i + 1) n s
      else let s = CloseNode T (h_Node h) s in
        if h_Mount h = 0 then Panicked
        else drop_handles T (i + 1) n (s\<lparr>OpenHandleCount := (OpenHandleCount s)(h_Mount h := OpenHandleCount s (h_Mount h) - 1)\<rparr>))"

definition VFS_RestoreHandles :: "types \<Rightarrow> (nat \<Rightarrow> bool) \<Rightarrow> nat \<Rightarrow> tVFS_Handle list option \<Rightarrow> vfs \<Rightarrow> vfs outcome" where
  "VFS_RestoreHandles T ok NumFDs Handles s =
     (let max_handles = length (gaUserHandles s) in
      case Handles of None \<Rightarrow> Ret s
      | Some hs \<Rightarrow>
          let NumFDs = min NumFDs max_handles in
          if NumFDs > 0 \<and> \<not> user_mapped s \<and> \<not> ok 0 then Ret s
          else let s = (if NumFDs > 0 \<and> \<not> user_mapped s
                        then s\<lparr>user_mapped := True, gaUserHandles := replicate max_handles free_handle\<rparr> else s)
            in if NumFDs > length hs then Panicked
               else bind_outcome (drop_handles T 0 NumFDs s) (\<lambda>s.
                 let s = s\<lparr>gaUserHandles := take NumFDs hs @ drop NumFDs (gaUserHandles s)\<rparr> in
                 bind_outcome (reference_all T (take NumFDs hs) s) (\<lambda>s.
                   Ret (s\<lparr>gaUserHandles := take NumFDs (gaUserHandles s) @
                           map (\<lambda>h. h\<lparr>h_Node := 0\<rparr>) (drop NumFDs (gaUserHandles s))\<rparr>))))"

section \<open>The tables as maps\<close>

definition tables_wf :: "vfs \<Rightarrow> bool" where
  "tables_wf s \<longleftrightarrow> length (gaKernelHandles s) = MAX_KERNEL_FILES \<and>
     length (gaVFS_MarshalledHandles s) = MAX_MARSHALLED_HANDLES \<and> length (gaUserHandles s) \<le> 2 ^ 30"

fun slot_ok :: "vfs \<Rightarrow> slot \<Rightarrow> bool" where
  "slot_ok s (User i) = (i < length (gaUserHandles s))"
| "slot_ok s (Kernel i) = (i < length (gaKernelHandles s))"

fun slot_fd :: "slot \<Rightarrow> int" where
  "slot_fd (User i) = int i"
| "slot_fd (Kernel i) = int i + VFS_KERNEL_FLAG"

lemma fd_slot_ok: "tables_wf s \<Longrightarrow> fd_slot s FD = Some l \<Longrightarrow> slot_ok s l"
  by (auto simp: fd_slot_def kernel_fd_def tables_wf_def Let_def split: if_splits)

lemma slot_fd_slot: "tables_wf s \<Longrightarrow> slot_ok s l \<Longrightarrow> fd_slot s (slot_fd l) = Some l"
  by (cases l) (auto simp: fd_slot_def kernel_fd_def tables_wf_def)

lemma handle_set: "slot_ok s l \<Longrightarrow> handle (set_handle l h s) k = (if k = l then h else handle s k)"
  by (cases l; cases k) auto

lemma set_handle_same [simp]:
  "slot_ok (set_handle l h s) k = slot_ok s k" "tables_wf (set_handle l h s) = tables_wf s"
  "fd_slot (set_handle l h s) FD = fd_slot s FD" "OpenHandleCount (set_handle l h s) = OpenHandleCount s"
  "v_nodes (set_handle l h s) = v_nodes s" "v_mem (set_handle l h s) = v_mem s"
  "gaVFS_MarshalledHandles (set_handle l h s) = gaVFS_MarshalledHandles s"
  by (cases l; cases k; simp add: tables_wf_def fd_slot_def)+

lemma GetHandle_iff: "VFS_GetHandle s FD = Some l \<longleftrightarrow> fd_slot s FD = Some l \<and> h_Node (handle s l) \<noteq> 0"
  by (auto simp: VFS_GetHandle_def split: option.splits)

lemma first_free_None: "first_free hs i = None \<longleftrightarrow> (\<forall>h \<in> set hs. h_Node h \<noteq> 0)"
  by (induction hs arbitrary: i) auto

lemma first_free_Some:
  "first_free hs i = Some k \<Longrightarrow>
   \<exists>j. k = i + j \<and> j < length hs \<and> h_Node (hs ! j) = 0 \<and> (\<forall>j' < j. h_Node (hs ! j') \<noteq> 0)"
proof (induction hs arbitrary: i)
  case (Cons h hs)
  show ?case
  proof (cases "h_Node h = 0")
    case True
    then show ?thesis using Cons.prems by (intro exI [of _ 0]) simp
  next
    case False
    then obtain j where "k = i + 1 + j" "j < length hs" "h_Node (hs ! j) = 0" "\<forall>j' < j. h_Node (hs ! j') \<noteq> 0"
      using Cons.IH [of "i + 1"] Cons.prems by auto
    then show ?thesis using False by (intro exI [of _ "Suc j"]) (auto simp: less_Suc_eq_0_disj)
  qed
qed simp

text \<open>The table of a process or of the kernel, once it is there.\<close>

definition mapped :: "bool \<Rightarrow> vfs \<Rightarrow> bool" where
  "mapped bIsUser s = (if bIsUser then user_mapped s else kernel_mapped s)"

definition table :: "bool \<Rightarrow> vfs \<Rightarrow> tVFS_Handle list" where
  "table bIsUser s = (if bIsUser then gaUserHandles s else gaKernelHandles s)"

definition place :: "bool \<Rightarrow> nat \<Rightarrow> slot" where
  "place bIsUser i = (if bIsUser then User i else Kernel i)"

lemma place_simps: "handle s (place u i) = table u s ! i" "slot_ok s (place u i) \<longleftrightarrow> i < length (table u s)"
  by (cases u; simp add: place_def table_def)+

lemma AllocHandle_run:
  assumes "mapped u s"
  shows "VFS_AllocHandle ok u n md s = Ret (case first_free (table u s) 0 of None \<Rightarrow> (- 1, s)
    | Some i \<Rightarrow> (slot_fd (place u i),
        set_handle (place u i) ((handle s (place u i))\<lparr>h_Node := n, h_Position := 0, h_Mode := md\<rparr>) s))"
  using assms by (cases u)
    (simp_all add: VFS_AllocHandle_def map_user_def map_kernel_def mapped_def table_def place_def take_slot_def split: option.splits)

section \<open>Counting the users of a mount\<close>

definition uses :: "addr \<Rightarrow> tVFS_Handle \<Rightarrow> nat" where
  "uses m h = (if h_Node h \<noteq> 0 \<and> h_Mount h = m then 1 else 0)"

definition handles_on :: "addr \<Rightarrow> tVFS_Handle list \<Rightarrow> nat" where
  "handles_on m hs = sum_list (map (uses m) hs)"

definition users :: "addr \<Rightarrow> vfs \<Rightarrow> nat" where
  "users m s = handles_on m (gaUserHandles s) + handles_on m (gaKernelHandles s) + handles_on m (map m_Handle (gaVFS_MarshalledHandles s))"

definition accounted :: "vfs \<Rightarrow> bool" where
  "accounted s \<longleftrightarrow> tables_wf s \<and> (\<forall>m. m \<noteq> 0 \<longrightarrow> OpenHandleCount s m = int (users m s))"

lemma handles_on_update: "i < length hs \<Longrightarrow> handles_on m (hs[i := h]) + uses m (hs ! i) = handles_on m hs + uses m h"
  by (induction hs arbitrary: i) (auto simp: handles_on_def nth_Cons' split: nat.splits)

lemma users_set: "slot_ok s l \<Longrightarrow> users m (set_handle l h s) + uses m (handle s l) = users m s + uses m h"
  using handles_on_update [of _ "gaUserHandles s" m h] handles_on_update [of _ "gaKernelHandles s" m h]
  by (cases l) (force simp: users_def)+

lemma handles_on_member: "i < length hs \<Longrightarrow> uses m (hs ! i) \<le> handles_on m hs"
proof (induction hs arbitrary: i)
  case (Cons h hs)
  then show ?case using Cons.IH [of "i - 1"] by (cases i) (auto simp: handles_on_def intro: trans_le_add2)
qed simp

lemma users_handle: "slot_ok s l \<Longrightarrow> uses m (handle s l) \<le> users m s"
  using handles_on_member [of _ "gaUserHandles s" m] handles_on_member [of _ "gaKernelHandles s" m]
  by (cases l) (force simp: users_def intro: le_trans)+

text \<open>What the methods of a node type leave alone.\<close>

definition same_tables :: "vfs \<Rightarrow> vfs \<Rightarrow> bool" where
  "same_tables s s' \<longleftrightarrow> gaUserHandles s' = gaUserHandles s \<and> gaKernelHandles s' = gaKernelHandles s \<and>
     gaVFS_MarshalledHandles s' = gaVFS_MarshalledHandles s \<and> OpenHandleCount s' = OpenHandleCount s"

definition polite :: "types \<Rightarrow> bool" where
  "polite T \<longleftrightarrow> (\<forall>p t. T p = Some t \<longrightarrow>
     (\<forall>f. t_Close t = Some f \<longrightarrow> (\<forall>n s. same_tables s (f n s))) \<and>
     (\<forall>f. t_Reference t = Some f \<longrightarrow> (\<forall>n s. same_tables s (f n s))))"

lemma same_refl [simp]: "same_tables s s"
  by (simp add: same_tables_def)

lemma same_handle: "same_tables s s' \<Longrightarrow> handle s' l = handle s l \<and> slot_ok s' l = slot_ok s l"
  by (cases l) (simp_all add: same_tables_def)

lemma same_slot: "same_tables s s' \<Longrightarrow> fd_slot s' FD = fd_slot s FD \<and> VFS_GetHandle s' FD = VFS_GetHandle s FD"
  using same_handle [of s s'] by (simp add: fd_slot_def VFS_GetHandle_def same_tables_def split: option.splits)

lemma same_users: "same_tables s s' \<Longrightarrow> users m s' = users m s \<and> tables_wf s' = tables_wf s \<and> accounted s' = accounted s"
  by (simp add: same_tables_def users_def tables_wf_def accounted_def)

lemma polite_close: "polite T \<Longrightarrow> same_tables s (CloseNode T n s)"
  by (auto simp: polite_def CloseNode_def type_of_def split: option.splits)

lemma polite_reference: "polite T \<Longrightarrow> same_tables s (ReferenceNode T n s)"
  by (auto simp: polite_def ReferenceNode_def type_of_def same_tables_def [of s "s\<lparr>v_nodes := _\<rparr>"] split: option.splits)

lemma same_trans: "same_tables s1 s2 \<Longrightarrow> same_tables s2 s3 \<Longrightarrow> same_tables s1 s3"
  by (simp add: same_tables_def)

lemma count_update [simp]:
  "handle (s\<lparr>OpenHandleCount := f\<rparr>) k = handle s k" "slot_ok (s\<lparr>OpenHandleCount := f\<rparr>) k = slot_ok s k"
  "fd_slot (s\<lparr>OpenHandleCount := f\<rparr>) FD = fd_slot s FD" "users m (s\<lparr>OpenHandleCount := f\<rparr>) = users m s"
  "tables_wf (s\<lparr>OpenHandleCount := f\<rparr>) = tables_wf s"
  by (cases k; simp add: fd_slot_def users_def tables_wf_def)+

text \<open>Closing a handle never fails its assertion when the counts are right, and keeps them right.\<close>

lemma Close_accounted:
  assumes "polite T" "accounted s" "VFS_GetHandle s FD = Some l"
  shows "\<exists>s'. VFS_Close T FD s = Ret s' \<and> accounted s' \<and> VFS_GetHandle s' FD = None \<and>
    (\<forall>k. handle s' k = (if k = l then (handle s l)\<lparr>h_Node := 0\<rparr> else handle s k))"
proof -
  define h s1 where "h = handle s l" and "s1 = CloseNode T (h_Node h) s"
  define s2 where "s2 = (if h_Mount h \<noteq> 0 then s1\<lparr>OpenHandleCount := (OpenHandleCount s1)(h_Mount h := OpenHandleCount s1 (h_Mount h) - 1)\<rparr> else s1)"
  define s' where "s' = set_handle l (h\<lparr>h_Node := 0\<rparr>) s2"
  have fd: "fd_slot s FD = Some l" and open_h: "h_Node h \<noteq> 0" using assms(3) by (simp_all add: GetHandle_iff h_def)
  have ok: "slot_ok s l" using fd_slot_ok [OF _ fd] assms(2) by (simp add: accounted_def)
  have same: "same_tables s s1" unfolding s1_def by (rule polite_close [OF assms(1)])
  note at1 = same_handle [OF same] same_slot [OF same] same_users [OF same]
  have at2: "handle s2 k = handle s k" "slot_ok s2 k = slot_ok s k" "fd_slot s2 FD = fd_slot s FD"
      "users m s2 = users m s" "tables_wf s2" for k m
    using at1 assms(2) by (simp_all add: s2_def accounted_def)
  have use: "uses m h = (if m = h_Mount h then 1 else 0)" for m using open_h by (simp add: uses_def)
  have "0 < OpenHandleCount s1 (h_Mount h)" if "h_Mount h \<noteq> 0"
    using users_handle [OF ok, of "h_Mount h"] assms(2) that same
    by (simp add: use h_def [symmetric] accounted_def same_tables_def)
  then have run: "VFS_Close T FD s = Ret s'"
    using assms(3) at1 at2(1) by (auto simp: VFS_Close_def Let_def DereferenceMount_def h_def s1_def s2_def s'_def)
  have cnt: "int (users m s') = OpenHandleCount s' m" if "m \<noteq> 0" for m
  proof -
    have "users m s' + uses m h = users m s" using users_set [of s2 l m "h\<lparr>h_Node := 0\<rparr>"] at2 ok by (simp add: s'_def h_def uses_def)
    moreover have "OpenHandleCount s' m = OpenHandleCount s m - int (uses m h)"
      using that same by (auto simp: s'_def s2_def use same_tables_def)
    ultimately show ?thesis using assms(2) that by (simp add: accounted_def)
  qed
  have "handle s' k = (if k = l then h\<lparr>h_Node := 0\<rparr> else handle s k)" for k using handle_set [of s2 l] at2 ok by (simp add: s'_def)
  moreover from this have "VFS_GetHandle s' FD = None" using fd at2(3) by (simp add: VFS_GetHandle_def s'_def)
  ultimately show ?thesis using run cnt at2(5) by (simp add: accounted_def h_def s'_def)
qed

text \<open>Where a copy of a handle goes: to the first free place, or to the one that is asked for.\<close>

definition copy_place :: "vfs \<Rightarrow> int \<Rightarrow> int \<Rightarrow> (slot \<times> int) option" where
  "copy_place s SrcFD DstFD =
     (let u = \<not> kernel_fd SrcFD in
      if DstFD = - 1
      then (if mapped u s then map_option (\<lambda>i. (place u i, slot_fd (place u i))) (first_free (table u s) 0) else None)
      else case fd_slot s DstFD of None \<Rightarrow> None | Some l \<Rightarrow> if h_Node (handle s l) = 0 then Some (l, DstFD) else None)"

lemma copy_place_free:
  assumes "tables_wf s" "copy_place s SrcFD DstFD = Some (l, fd)"
  shows "slot_ok s l" "h_Node (handle s l) = 0" "fd_slot s fd = Some l"
proof -
  have "slot_ok s l \<and> h_Node (handle s l) = 0 \<and> fd_slot s fd = Some l"
  proof (cases "DstFD = - 1")
    case True
    then obtain u i where "first_free (table u s) 0 = Some i" and l: "l = place u i" "fd = slot_fd l"
      using assms(2) by (auto simp: copy_place_def Let_def split: if_splits)
    then show ?thesis using first_free_Some [of "table u s" 0 i] slot_fd_slot [OF assms(1), of l]
      by (simp add: place_simps)
  next
    case False
    then show ?thesis using assms fd_slot_ok [OF assms(1), of fd l]
      by (auto simp: copy_place_def split: option.splits if_splits)
  qed
  then show "slot_ok s l" "h_Node (handle s l) = 0" "fd_slot s fd = Some l" by simp_all
qed

lemma DuplicateFD_run:
  assumes "VFS_GetHandle s SrcFD = Some src" "copy_place s SrcFD DstFD = Some (dst, fd)" "slot_ok s dst"
  shows "\<exists>h. h_Node h = h_Node (handle s src) \<and> VFS_DuplicateFD T ok SrcFD DstFD s = copy_handle T src fd (set_handle dst h s)"
proof (cases "DstFD = - 1")
  case True
  define u where "u = (\<not> kernel_fd SrcFD)"
  obtain i where i: "mapped u s" "first_free (table u s) 0 = Some i" "dst = place u i" "fd = slot_fd dst"
    using assms(2) True by (auto simp: copy_place_def Let_def u_def split: if_splits)
  then show ?thesis using True assms(1) AllocHandle_run [OF i(1)]
    by (intro exI [of _ "(handle s dst)\<lparr>h_Node := h_Node (handle s src), h_Position := 0, h_Mode := h_Mode (handle s src)\<rparr>"])
      (simp add: VFS_DuplicateFD_def u_def Let_def)
next
  case False
  then have d: "fd_slot s DstFD = Some dst" "h_Node (handle s dst) = 0" "fd = DstFD"
    using assms(2) by (auto simp: copy_place_def split: option.splits if_splits)
  then have "VFS_GetHandle s DstFD = None" by (simp add: VFS_GetHandle_def)
  then show ?thesis using False assms(1) d
    by (intro exI [of _ "(handle s dst)\<lparr>h_Node := h_Node (handle s src), h_Mode := h_Mode (handle s src)\<rparr>"])
      (simp add: VFS_DuplicateFD_def VFS_SetHandle_def Let_def)
qed

lemma DuplicateFD_accounted:
  assumes "polite T" "accounted s" "VFS_GetHandle s SrcFD = Some src" "h_Mount (handle s src) \<noteq> 0"
    and "copy_place s SrcFD DstFD = Some (dst, fd)"
  shows "\<exists>s'. VFS_DuplicateFD T ok SrcFD DstFD s = Ret (fd, s') \<and> accounted s' \<and> VFS_GetHandle s' fd = Some dst \<and>
    (\<forall>k. handle s' k = (if k = dst then handle s src else handle s k))"
proof -
  have wf: "tables_wf s" using assms(2) by (simp add: accounted_def)
  note dst = copy_place_free [OF wf assms(5)]
  have node: "h_Node (handle s src) \<noteq> 0" using assms(3) by (simp add: GetHandle_iff)
  then have ne: "src \<noteq> dst" using dst(2) by auto
  obtain h where h: "h_Node h = h_Node (handle s src)"
      and run: "VFS_DuplicateFD T ok SrcFD DstFD s = copy_handle T src fd (set_handle dst h s)"
    using DuplicateFD_run [OF assms(3,5) dst(1)] by blast
  define mnt where "mnt = h_Mount (handle s src)"
  define s2 where "s2 = (set_handle dst h s)\<lparr>OpenHandleCount := (OpenHandleCount s)(mnt := OpenHandleCount s mnt + 1)\<rparr>"
  define s3 where "s3 = ReferenceNode T (h_Node (handle s src)) s2"
  define s' where "s' = set_handle dst (handle s src) s3"
  have h2: "handle s2 k = (if k = dst then h else handle s k)" for k using handle_set [OF dst(1)] by (simp add: s2_def)
  have same: "same_tables s2 s3" unfolding s3_def by (rule polite_reference [OF assms(1)])
  have h3: "handle s3 k = (if k = dst then h else handle s k)" "slot_ok s3 k = slot_ok s k" for k
    using same_handle [OF same] h2 by (simp_all add: s2_def)
  have g3: "VFS_GetHandle s3 fd = Some dst"
    using same_slot [OF same, of fd] dst(3) h3 h node by (simp add: VFS_GetHandle_def s2_def)
  have "VFS_DuplicateFD T ok SrcFD DstFD s = Ret (fd, s')"
    unfolding run using ne assms(4) g3 h3 handle_set [OF dst(1), of h src] h2
    by (simp add: copy_handle_def Let_def ReferenceMount_def mnt_def [symmetric] s2_def [symmetric] s3_def [symmetric] s'_def)
  moreover have hs': "handle s' k = (if k = dst then handle s src else handle s k)" for k
    using handle_set [of s3 dst] h3 dst(1) by (simp add: s'_def)
  moreover have "VFS_GetHandle s' fd = Some dst"
    using same_slot [OF same, of fd] dst(3) hs' node by (simp add: VFS_GetHandle_def s'_def s2_def)
  moreover have "OpenHandleCount s' m = int (users m s')" if "m \<noteq> 0" for m
  proof -
    have "users m s' + uses m h = users m s3 + uses m (handle s src)"
      using users_set [of s3 dst m "handle s src"] h3 dst(1) by (simp add: s'_def)
    moreover have "users m s3 + uses m (handle s dst) = users m s + uses m h"
      using users_set [OF dst(1), of m h] same_users [OF same] by (simp add: s2_def)
    moreover have "uses m (handle s dst) = 0" using dst(2) by (simp add: uses_def)
    moreover have "OpenHandleCount s' m = OpenHandleCount s m + int (uses m (handle s src))"
      using same node by (auto simp: s'_def s2_def same_tables_def uses_def mnt_def)
    ultimately show ?thesis using assms(2) that by (simp add: accounted_def)
  qed
  moreover have "tables_wf s'" using wf same_users [OF same] by (simp add: s'_def s2_def)
  ultimately show ?thesis by (simp add: accounted_def)
qed

section \<open>Sizes of the tables\<close>

lemma tables_wf_errno [simp]: "tables_wf (s\<lparr>v_errno := e\<rparr>) = tables_wf s"
  by (simp add: tables_wf_def)

lemma SetHandle_wf: "tables_wf s \<Longrightarrow> tables_wf (snd (VFS_SetHandle FD n md s))"
  by (simp add: VFS_SetHandle_def split: option.split)

lemma SetFDFlags_wf: "tables_wf s \<Longrightarrow> tables_wf (snd (VFS_SetFDFlags FD Mask Value s))"
  by (simp add: VFS_SetFDFlags_def Let_def split: option.split)

lemma Close_wf:
  assumes "polite T" "tables_wf s" "VFS_Close T FD s = Ret s'"
  shows "tables_wf s'"
proof (cases "VFS_GetHandle s FD")
  case None
  then show ?thesis using assms(2,3) by (auto simp: VFS_Close_def)
next
  case (Some l)
  have "tables_wf (CloseNode T (h_Node (handle s l)) s)" using same_users [OF polite_close [OF assms(1)]] assms(2) by blast
  then show ?thesis using assms(3) Some
    by (auto simp: VFS_Close_def Let_def DereferenceMount_def split: if_splits)
qed

lemma AllocHandle_spec:
  assumes "tables_wf s" "n \<noteq> 0" "mapped u s" "VFS_AllocHandle ok u n md s = Ret (fd, s1)"
  shows "tables_wf s1 \<and> (fd = - 1 \<and> s1 = s \<and> (\<forall>h \<in> set (table u s). h_Node h \<noteq> 0) \<or>
    (\<exists>l. VFS_GetHandle s1 fd = Some l \<and> h_Node (handle s l) = 0 \<and>
      handle s1 l = (handle s l)\<lparr>h_Node := n, h_Position := 0, h_Mode := md\<rparr> \<and> (\<forall>k. k \<noteq> l \<longrightarrow> handle s1 k = handle s k)))"
proof (cases "first_free (table u s) 0")
  case None
  then have "fd = - 1 \<and> s1 = s" using assms(4) by (simp add: AllocHandle_run [OF assms(3)])
  then show ?thesis using assms(1) None by (simp add: first_free_None)
next
  case (Some i)
  define l where "l = place u i"
  have free: "slot_ok s l" "h_Node (handle s l) = 0"
    using first_free_Some [OF Some] by (simp_all add: l_def place_simps)
  have s1: "fd = slot_fd l" "s1 = set_handle l ((handle s l)\<lparr>h_Node := n, h_Position := 0, h_Mode := md\<rparr>) s"
    using assms(4) Some by (simp_all add: AllocHandle_run [OF assms(3)] l_def)
  then show ?thesis using free assms(1,2) slot_fd_slot [OF assms(1) free(1)] handle_set [OF free(1)]
    by (auto simp: GetHandle_iff)
qed

section \<open>Sets of handles\<close>

lemma bind_Ret_iff: "bind_outcome r f = Ret y \<longleftrightarrow> (\<exists>x. r = Ret x \<and> f x = Ret y)"
  by (cases r) simp_all

text \<open>Only the counts change, by what a list of handles uses.\<close>

definition same_handles :: "vfs \<Rightarrow> vfs \<Rightarrow> bool" where
  "same_handles s s' \<longleftrightarrow> gaUserHandles s' = gaUserHandles s \<and> gaKernelHandles s' = gaKernelHandles s \<and>
     gaVFS_MarshalledHandles s' = gaVFS_MarshalledHandles s"

lemma handles_on_Cons: "handles_on m (h # hs) = uses m h + handles_on m hs"
  by (simp add: handles_on_def)

definition mounted :: "tVFS_Handle \<Rightarrow> bool" where
  "mounted h \<longleftrightarrow> h_Node h \<noteq> 0 \<longrightarrow> h_Mount h \<noteq> 0"

lemma reference_all_spec:
  assumes "polite T"
  shows "\<forall>h \<in> set hs. mounted h \<Longrightarrow> \<exists>s'. reference_all T hs s = Ret s' \<and> same_handles s s' \<and>
    (\<forall>m. m \<noteq> 0 \<longrightarrow> OpenHandleCount s' m = OpenHandleCount s m + int (handles_on m hs))"
proof (induction hs arbitrary: s)
  case Nil
  then show ?case by (simp add: same_handles_def handles_on_def)
next
  case (Cons h hs)
  show ?case
  proof (cases "h_Node h = 0")
    case True
    then show ?thesis using Cons by (simp add: handles_on_Cons uses_def)
  next
    case False
    define s1 where "s1 = ReferenceNode T (h_Node h) s"
    define s2 where "s2 = s1\<lparr>OpenHandleCount := (OpenHandleCount s1)(h_Mount h := OpenHandleCount s1 (h_Mount h) + 1)\<rparr>"
    have "same_tables s s1" unfolding s1_def by (rule polite_reference [OF assms])
    then have s2: "same_handles s s2" "OpenHandleCount s2 m = OpenHandleCount s m + int (uses m h)" for m
      using False by (auto simp: s2_def same_tables_def same_handles_def uses_def)
    obtain s' where "reference_all T hs s2 = Ret s'" "same_handles s2 s'"
        "\<forall>m. m \<noteq> 0 \<longrightarrow> OpenHandleCount s' m = OpenHandleCount s2 m + int (handles_on m hs)"
      using Cons.IH [of s2] Cons.prems by auto
    then show ?thesis using False Cons.prems s2
      by (auto simp: ReferenceMount_def mounted_def handles_on_Cons same_handles_def simp flip: s1_def s2_def)
  qed
qed

lemma release_all_spec:
  assumes "polite T"
  shows "\<forall>h \<in> set hs. mounted h \<Longrightarrow> \<forall>m. m \<noteq> 0 \<longrightarrow> int (handles_on m hs) \<le> OpenHandleCount s m \<Longrightarrow>
    \<exists>s'. release_all T hs s = Ret s' \<and> same_handles s s' \<and>
    (\<forall>m. m \<noteq> 0 \<longrightarrow> OpenHandleCount s' m = OpenHandleCount s m - int (handles_on m hs))"
proof (induction hs arbitrary: s)
  case Nil
  then show ?case by (simp add: same_handles_def handles_on_def)
next
  case (Cons h hs)
  show ?case
  proof (cases "h_Node h = 0")
    case True
    then show ?thesis using Cons by (simp add: handles_on_Cons uses_def)
  next
    case False
    define s1 where "s1 = CloseNode T (h_Node h) s"
    define s2 where "s2 = s1\<lparr>OpenHandleCount := (OpenHandleCount s1)(h_Mount h := OpenHandleCount s1 (h_Mount h) - 1)\<rparr>"
    have "same_tables s s1" unfolding s1_def by (rule polite_close [OF assms])
    then have s2: "same_handles s s2" "OpenHandleCount s1 = OpenHandleCount s"
        "OpenHandleCount s2 m = OpenHandleCount s m - int (uses m h)" for m
      using False by (auto simp: s2_def same_tables_def same_handles_def uses_def)
    have mt: "h_Mount h \<noteq> 0" using Cons.prems(1) False by (simp add: mounted_def)
    have room: "int (uses m h) + int (handles_on m hs) \<le> OpenHandleCount s m" if "m \<noteq> 0" for m
      using Cons.prems(2) that by (simp add: handles_on_Cons)
    have "int (handles_on m hs) \<le> OpenHandleCount s2 m" if "m \<noteq> 0" for m using room [OF that] s2(3) [of m] by simp
    then obtain s' where s': "release_all T hs s2 = Ret s'" "same_handles s2 s'"
        "\<forall>m. m \<noteq> 0 \<longrightarrow> OpenHandleCount s' m = OpenHandleCount s2 m - int (handles_on m hs)"
      using Cons.IH [of s2] Cons.prems(1) by auto
    have "uses (h_Mount h) h = 1" using False by (simp add: uses_def)
    then have "0 < OpenHandleCount s1 (h_Mount h)" using room [OF mt] s2(2) by simp
    then have "release_all T (h # hs) s = Ret s'"
      using False mt s'(1) by (simp add: DereferenceMount_def flip: s1_def s2_def)
    then show ?thesis using s'(2,3) s2(1,3) by (simp add: handles_on_Cons same_handles_def)
  qed
qed

lemma copy_fds_from: "copy_fds s fds = Some hs \<Longrightarrow> h \<in> set hs \<Longrightarrow> h = free_handle \<or> (\<exists>fd l. VFS_GetHandle s fd = Some l \<and> h = handle s l)"
  by (induction fds arbitrary: hs) (auto split: if_splits option.splits)

lemma slot_in_tables: "slot_ok s l \<Longrightarrow> handle s l \<in> set (gaUserHandles s) \<union> set (gaKernelHandles s)"
  by (cases l) simp_all

lemma copy_fds_length: "copy_fds s fds = Some hs \<Longrightarrow> length hs = length fds"
  by (induction fds arbitrary: hs) (auto split: if_splits option.splits)

text \<open>The saved handles are copies of open handles.\<close>

lemma SaveHandles_run:
  assumes "user_mapped s" "tables_wf s" "VFS_SaveHandles T (Some old) n FDs s = Ret (Some hs, s1)"
    and "\<forall>fds. FDs = Some fds \<longrightarrow> length fds = n"
  obtains ret where "reference_all T ret s = Ret s1" "length ret = min n (length (gaUserHandles s))"
    "set ret \<subseteq> insert free_handle (set (gaUserHandles s) \<union> set (gaKernelHandles s))"
    "hs = ret @ drop (min n (length (gaUserHandles s))) old" "FDs = None \<Longrightarrow> ret = take n (gaUserHandles s)"
proof -
  define k where "k = min n (length (gaUserHandles s))"
  obtain ret where src: "(case FDs of None \<Rightarrow> Some (take k (gaUserHandles s)) | Some fds \<Rightarrow> copy_fds s (take k fds)) = Some ret"
    and "bind_outcome (reference_all T ret s) (\<lambda>s. Ret (Some (ret @ drop (length ret) old), s)) = Ret (Some hs, s1)"
    using assms(1,3) by (auto simp: VFS_SaveHandles_def Let_def k_def [symmetric] split: option.splits)
  then have run: "reference_all T ret s = Ret s1" "hs = ret @ drop (length ret) old" by (auto simp: bind_Ret_iff)
  have len: "length ret = k" using src assms(4) copy_fds_length by (auto simp: k_def split: option.splits)
  have "set ret \<subseteq> insert free_handle (set (gaUserHandles s) \<union> set (gaKernelHandles s))"
  proof (cases FDs)
    case None
    then show ?thesis using src set_take_subset by fastforce
  next
    case (Some fds)
    then have c: "copy_fds s (take k fds) = Some ret" using src by simp
    have "h = free_handle \<or> h \<in> set (gaUserHandles s) \<union> set (gaKernelHandles s)" if "h \<in> set ret" for h
      using copy_fds_from [OF c that] slot_in_tables fd_slot_ok [OF assms(2)] by (auto simp: GetHandle_iff)
    then show ?thesis by blast
  qed
  then show thesis using run src len by (intro that [of ret]) (auto simp: k_def min_def)
qed

lemma reference_all_unmounted: "h \<in> set hs \<Longrightarrow> h_Node h \<noteq> 0 \<Longrightarrow> h_Mount h = 0 \<Longrightarrow> reference_all T hs s = Panicked"
proof (induction hs arbitrary: s)
  case (Cons g hs)
  then show ?case by (cases "g = h") (auto simp: ReferenceMount_def)
qed simp

text \<open>The end of a process: no handle is left, and no count has changed.\<close>

lemma close_all_spec:
  assumes "polite T"
  shows "i + n \<le> length (gaUserHandles s) \<Longrightarrow>
    length (gaUserHandles (close_all T i n s)) = length (gaUserHandles s) \<and>
    (\<forall>k < length (gaUserHandles s). gaUserHandles (close_all T i n s) ! k =
       (if i \<le> k \<and> k < i + n then (gaUserHandles s ! k)\<lparr>h_Node := 0\<rparr> else gaUserHandles s ! k)) \<and>
    gaKernelHandles (close_all T i n s) = gaKernelHandles s \<and>
    gaVFS_MarshalledHandles (close_all T i n s) = gaVFS_MarshalledHandles s \<and>
    OpenHandleCount (close_all T i n s) = OpenHandleCount s"
proof (induction n arbitrary: i s)
  case (Suc n)
  define h where "h = gaUserHandles s ! i"
  define s2 where "s2 = (if h_Node h = 0 then s else set_handle (User i) (h\<lparr>h_Node := 0\<rparr>) (CloseNode T (h_Node h) s))"
  have same: "same_tables s (CloseNode T (h_Node h) s)" by (rule polite_close [OF assms])
  then have run: "close_all T i (Suc n) s = close_all T (i + 1) n s2"
    by (simp add: s2_def h_def Let_def same_tables_def)
  have zero: "h\<lparr>h_Node := 0\<rparr> = h" if "h_Node h = 0" using that by (metis tVFS_Handle.surjective tVFS_Handle.update_convs(1))
  have "gaUserHandles s2 = (gaUserHandles s)[i := h\<lparr>h_Node := 0\<rparr>]"
  proof (cases "h_Node h = 0")
    case True
    then have "(gaUserHandles s)[i := h\<lparr>h_Node := 0\<rparr>] = gaUserHandles s" unfolding zero [OF True] by (simp add: h_def)
    then show ?thesis using True by (simp add: s2_def)
  qed (use same in \<open>simp add: s2_def same_tables_def\<close>)
  moreover have "gaKernelHandles s2 = gaKernelHandles s" "OpenHandleCount s2 = OpenHandleCount s"
    "gaVFS_MarshalledHandles s2 = gaVFS_MarshalledHandles s" using same by (simp_all add: s2_def same_tables_def)
  ultimately show ?case unfolding run using Suc.IH [of "i + 1" s2] Suc.prems by (auto simp: nth_list_update h_def)
qed simp

section \<open>The marshalling table\<close>

text \<open>After a scan no place is free.\<close>

lemma marshal_scan_full:
  "n \<noteq> 0 \<Longrightarrow> marshal_scan n now i r mhs = (r', mhs') \<Longrightarrow> length mhs' = length mhs \<and> (\<forall>mh \<in> set mhs'. h_Node (m_Handle mh) \<noteq> 0)"
  by (induction mhs arbitrary: i r r' mhs') (auto simp: Let_def split: prod.splits if_splits)

lemma marshal_scan_none:
  "\<forall>mh \<in> set mhs. h_Node (m_Handle mh) \<noteq> 0 \<Longrightarrow> marshal_scan n now i r mhs = (r, mhs)"
  by (induction mhs arbitrary: i r) auto

definition no_room :: "vfs \<Rightarrow> bool" where
  "no_room s \<longleftrightarrow> (\<forall>mh \<in> set (gaVFS_MarshalledHandles s). h_Node (m_Handle mh) \<noteq> 0)"

text \<open>The tables of open handles stay, and the marshalling table is full.\<close>

lemma MarshalHandle_fills:
  assumes "polite T" "VFS_GetHandle s FD = Some l" "VFS_MarshalHandle T now r FD s = Ret (v, s1)"
  shows "no_room s1" "gaUserHandles s1 = gaUserHandles s \<and> gaKernelHandles s1 = gaKernelHandles s"
proof -
  define h where "h = handle s l"
  have node: "h_Node h \<noteq> 0" using assms(2) by (simp add: GetHandle_iff h_def)
  obtain ret mhs where scan: "marshal_scan (h_Node h) now 0 (- 1) (gaVFS_MarshalledHandles s) = (ret, mhs)" by fastforce
  then have full: "\<forall>mh \<in> set mhs. h_Node (m_Handle mh) \<noteq> 0" using marshal_scan_full [OF node] by blast
  have "no_room s1 \<and> gaUserHandles s1 = gaUserHandles s \<and> gaKernelHandles s1 = gaKernelHandles s"
  proof (cases "ret < 0")
    case True
    then show ?thesis using assms(2,3) scan full by (auto simp: VFS_MarshalHandle_def Let_def h_def [symmetric] no_room_def)
  next
    case False
    define i s2 where "i = nat ret" and "s2 = s\<lparr>gaVFS_MarshalledHandles := mhs[i := (mhs ! i)\<lparr>m_Handle := h\<rparr>]\<rparr>"
    obtain s3 where ref: "ReferenceMount (h_Mount h) s2 = Ret s3" and
      s1: "s1 = (ReferenceNode T (h_Node h) s3)\<lparr>gaVFS_MarshalledHandles := (gaVFS_MarshalledHandles (ReferenceNode T (h_Node h) s3))
        [i := (gaVFS_MarshalledHandles (ReferenceNode T (h_Node h) s3) ! i)\<lparr>Magic := u32 r\<rparr>]\<rparr>"
      using assms(2,3) scan False
      by (auto simp: VFS_MarshalHandle_def Let_def h_def [symmetric] i_def [symmetric] s2_def [symmetric] bind_Ret_iff)
    have s3: "gaVFS_MarshalledHandles s3 = gaVFS_MarshalledHandles s2" "gaUserHandles s3 = gaUserHandles s" "gaKernelHandles s3 = gaKernelHandles s"
      using ref by (auto simp: ReferenceMount_def s2_def split: if_splits)
    have same: "same_tables s3 (ReferenceNode T (h_Node h) s3)" by (rule polite_reference [OF assms(1)])
    have "\<forall>mh \<in> set (gaVFS_MarshalledHandles s2). h_Node (m_Handle mh) \<noteq> 0"
      using full node by (auto simp: s2_def dest!: set_update_subset_insert [THEN subsetD])
    then have all: "\<forall>mh \<in> set (gaVFS_MarshalledHandles s3). h_Node (m_Handle mh) \<noteq> 0" by (simp add: s3(1))
    have "h_Node (m_Handle mh) \<noteq> 0" if "mh \<in> set ((gaVFS_MarshalledHandles s3)[i := (gaVFS_MarshalledHandles s3 ! i)\<lparr>Magic := u32 r\<rparr>])" for mh
    proof (cases "i < length (gaVFS_MarshalledHandles s3)")
      case True
      then show ?thesis using that all nth_mem [OF True] by (auto dest!: set_update_subset_insert [THEN subsetD])
    qed (use that all in \<open>simp add: not_less list_update_beyond\<close>)
    then show ?thesis using same s3(2,3) by (auto simp: s1 no_room_def same_tables_def)
  qed
  then show "no_room s1" "gaUserHandles s1 = gaUserHandles s \<and> gaKernelHandles s1 = gaKernelHandles s" by simp_all
qed

lemma MarshalHandle_no_room:
  assumes "no_room s" "VFS_GetHandle s FD = Some l"
  shows "\<exists>s2. VFS_MarshalHandle T now r FD s = Ret (2 ^ 64 - 1, s2) \<and> v_errno s2 = EAGAIN"
  using marshal_scan_none assms by (simp add: VFS_MarshalHandle_def no_room_def Let_def)

end
