(* ===== verification/VFS_IO.thy ===== *)
theory VFS_IO
  imports VFS_Files Byte_Lists
begin

text \<open>
  Reading and writing through a handle, \<open>vfs/io.c\<close>. Offsets and positions are unsigned with 64 bits,
  lengths have 32; the length \<open>2 ^ 32 - 1\<close> is the \<open>-1\<close> that tells of a failure.
\<close>

section \<open>The routines\<close>

abbreviation size_fail :: nat where "size_fail \<equiv> 4294967295"

abbreviation VFS_FFLAG_DIRECTORY :: "32 word" where "VFS_FFLAG_DIRECTORY \<equiv> 2"
abbreviation VFS_FFLAG_SYMLINK :: "32 word" where "VFS_FFLAG_SYMLINK \<equiv> 4"
abbreviation VFS_NODETYPEFLAG_NOAUTOEXPAND :: "32 word" where "VFS_NODETYPEFLAG_NOAUTOEXPAND \<equiv> 1"
abbreviation VFS_NODETYPEFLAG_STREAM :: "32 word" where "VFS_NODETYPEFLAG_STREAM \<equiv> 2"

definition io_flags :: "tVFS_Handle \<Rightarrow> nat" where
  "io_flags h = (if h_Mode h AND VFS_OPENFLAG_NONBLOCK \<noteq> 0 then 1 else 0)"

definition is_dir :: "vfs \<Rightarrow> addr \<Rightarrow> bool" where
  "is_dir s n \<longleftrightarrow> n_Flags (v_nodes s n) AND VFS_FFLAG_DIRECTORY \<noteq> 0"

definition advance :: "slot \<Rightarrow> nat \<Rightarrow> vfs \<Rightarrow> vfs" where
  "advance l k s = set_handle l ((handle s l)\<lparr>h_Position := u64 (h_Position (handle s l) + k)\<rparr>) s"

definition VFS_Read :: "types \<Rightarrow> int \<Rightarrow> nat \<Rightarrow> addr \<Rightarrow> vfs \<Rightarrow> nat \<times> vfs" where
  "VFS_Read T FD Length Buffer s =
     (case VFS_GetHandle s FD of None \<Rightarrow> (size_fail, s)
      | Some l \<Rightarrow>
          let h = handle s l; n = h_Node h in
          if h_Mode h AND VFS_OPENFLAG_READ = 0 then (size_fail, s)
          else if is_dir s n then (size_fail, s)
          else case type_of T s n of None \<Rightarrow> (size_fail, s)
          | Some t \<Rightarrow> (case t_Read t of No_method \<Rightarrow> (size_fail, s) | Junk \<Rightarrow> (size_fail, s)
              | Method rd \<Rightarrow>
                  let (ret, s) = rd n (h_Position h) Length Buffer (io_flags h) s
                  in if ret = size_fail then (size_fail, s) else (ret, advance l ret s)))"

text \<open>A method that is a pointer to nothing is reported, and then called.\<close>

definition VFS_ReadAt :: "types \<Rightarrow> int \<Rightarrow> nat \<Rightarrow> nat \<Rightarrow> addr \<Rightarrow> vfs \<Rightarrow> (nat \<times> vfs) outcome" where
  "VFS_ReadAt T FD Offset Length Buffer s =
     (case VFS_GetHandle s FD of None \<Rightarrow> Ret (size_fail, s)
      | Some l \<Rightarrow>
          let h = handle s l; n = h_Node h in
          if h_Mode h AND VFS_OPENFLAG_READ = 0 then Ret (size_fail, s)
          else if is_dir s n then Ret (size_fail, s)
          else case type_of T s n of None \<Rightarrow> Ret (0, s)
          | Some t \<Rightarrow> (case t_Read t of No_method \<Rightarrow> Ret (0, s) | Junk \<Rightarrow> Panicked
              | Method rd \<Rightarrow> Ret (rd n Offset Length Buffer (io_flags h) s)))"

text \<open>How much of a write is passed on: \<open>Truncate\<close> may have made the file longer.\<close>

definition write_length :: "tVFS_NodeType \<Rightarrow> addr \<Rightarrow> nat \<Rightarrow> nat \<Rightarrow> vfs \<Rightarrow> nat \<times> vfs" where
  "write_length t n Offset Length s =
     (if u64 (Offset + Length) > n_Size (v_nodes s n) then
        (case t_Truncate t of None \<Rightarrow> (Length, s)
         | Some trunc \<Rightarrow>
             if t_Flags t AND VFS_NODETYPEFLAG_NOAUTOEXPAND \<noteq> 0 then (u32 (sub64 (n_Size (v_nodes s n)) Offset), s)
             else let (r, s) = trunc n (u64 (Offset + Length)) s in
               if r \<noteq> u64 (Offset + Length) then (u32 (sub64 (n_Size (v_nodes s n)) Offset), s) else (Length, s))
      else (Length, s))"

definition VFS_WriteAt :: "types \<Rightarrow> int \<Rightarrow> nat \<Rightarrow> nat \<Rightarrow> addr \<Rightarrow> vfs \<Rightarrow> nat \<times> vfs" where
  "VFS_WriteAt T FD Offset Length Buffer s =
     (case VFS_GetHandle s FD of None \<Rightarrow> (size_fail, s)
      | Some l \<Rightarrow>
          let h = handle s l; n = h_Node h in
          if h_Mode h AND VFS_OPENFLAG_WRITE = 0 then (size_fail, s\<lparr>v_errno := EBADF\<rparr>)
          else if is_dir s n then (size_fail, s\<lparr>v_errno := EISDIR\<rparr>)
          else case type_of T s n of None \<Rightarrow> (0, s\<lparr>v_errno := EINTERNAL\<rparr>)
          | Some t \<Rightarrow> (case t_Write t of No_method \<Rightarrow> (0, s\<lparr>v_errno := EINTERNAL\<rparr>)
              | Junk \<Rightarrow> (size_fail, s\<lparr>v_errno := EINTERNAL\<rparr>)
              | Method wr \<Rightarrow>
                  if n_Size (v_nodes s n) \<noteq> 2 ^ 64 - 1 \<and> Offset > n_Size (v_nodes s n) then (0, s)
                  else let (Length, s) = write_length t n Offset Length s
                       in wr n Offset Length Buffer (io_flags h) s))"

text \<open>The type of the node is used without a test here and in the routines that follow.\<close>

definition VFS_Write :: "types \<Rightarrow> int \<Rightarrow> nat \<Rightarrow> addr \<Rightarrow> vfs \<Rightarrow> (nat \<times> vfs) outcome" where
  "VFS_Write T FD Length Buffer s =
     (case VFS_GetHandle s FD of None \<Rightarrow> Ret (size_fail, s\<lparr>v_errno := EBADF\<rparr>)
      | Some l \<Rightarrow>
          let (ret, s) = VFS_WriteAt T FD (h_Position (handle s l)) Length Buffer s in
          if ret = size_fail then Ret (size_fail, s)
          else case type_of T s (h_Node (handle s l)) of None \<Rightarrow> Panicked
          | Some t \<Rightarrow> Ret (ret, if t_Flags t AND VFS_NODETYPEFLAG_STREAM = 0 then advance l ret s else s))"

definition VFS_Tell :: "int \<Rightarrow> vfs \<Rightarrow> nat" where
  "VFS_Tell FD s = (case VFS_GetHandle s FD of None \<Rightarrow> 2 ^ 64 - 1 | Some l \<Rightarrow> h_Position (handle s l))"

definition wrap64 :: "int \<Rightarrow> nat" where
  "wrap64 i = nat (i mod 2 ^ 64)"

definition VFS_Seek :: "types \<Rightarrow> int \<Rightarrow> int \<Rightarrow> int \<Rightarrow> vfs \<Rightarrow> (int \<times> vfs) outcome" where
  "VFS_Seek T FD Offset Whence s =
     (case VFS_GetHandle s FD of None \<Rightarrow> Ret (- 1, s)
      | Some l \<Rightarrow>
          let h = handle s l; n = h_Node h; at = (\<lambda>p. set_handle l (h\<lparr>h_Position := p\<rparr>) s) in
          case type_of T s n of None \<Rightarrow> Panicked
          | Some t \<Rightarrow>
              if t_Flags t AND VFS_NODETYPEFLAG_STREAM \<noteq> 0 then Ret (- 1, s)
              else if Whence = 0 then Ret (0, at (wrap64 (int (h_Position h) + Offset)))
              else if Whence < 0 then
                (if n_Size (v_nodes s n) = 2 ^ 64 - 1 then Ret (- 1, s)
                 else Ret (0, at (wrap64 (int (n_Size (v_nodes s n)) - Offset))))
              else Ret (0, at (wrap64 Offset)))"

definition VFS_Truncate :: "types \<Rightarrow> int \<Rightarrow> nat \<Rightarrow> vfs \<Rightarrow> (nat \<times> vfs) outcome" where
  "VFS_Truncate T FD Sz s =
     (case VFS_GetHandle s FD of None \<Rightarrow> Ret (2 ^ 64 - 1, s\<lparr>v_errno := EBADF\<rparr>)
      | Some l \<Rightarrow>
          let n = h_Node (handle s l) in
          case type_of T s n of None \<Rightarrow> Panicked
          | Some t \<Rightarrow> (case t_Truncate t of None \<Rightarrow> Ret (2 ^ 64 - 1, s\<lparr>v_errno := ENOTIMPL\<rparr>)
              | Some trunc \<Rightarrow> Ret (trunc n Sz s)))"

definition VFS_IOCtl :: "types \<Rightarrow> int \<Rightarrow> int \<Rightarrow> addr \<Rightarrow> vfs \<Rightarrow> int \<times> vfs" where
  "VFS_IOCtl T FD Req Buffer s =
     (case VFS_GetHandle s FD of None \<Rightarrow> (- 1, s\<lparr>v_errno := EINVAL\<rparr>)
      | Some l \<Rightarrow>
          let n = h_Node (handle s l) in
          case type_of T s n of None \<Rightarrow> (- 1, s\<lparr>v_errno := EINVAL\<rparr>)
          | Some t \<Rightarrow> (case t_IOCtl t of None \<Rightarrow> (- 1, s\<lparr>v_errno := EINVAL\<rparr>) | Some ioctl \<Rightarrow> ioctl n Req Buffer s))"

record tFInfo =
  f_mount :: nat
  f_inode :: nat
  f_uid :: "32 word"
  f_gid :: "32 word"
  f_flags :: "32 word"
  f_size :: nat
  f_atime :: int
  f_mtime :: int
  f_ctime :: int
  f_numacls :: nat
  f_acls :: "tVFS_ACL list"

text \<open>\<open>f_acls\<close> has the entries that were copied; \<open>MaxACLs\<close> is not negative.\<close>

definition VFS_FInfo :: "int \<Rightarrow> nat \<Rightarrow> vfs \<Rightarrow> (nat \<times> tFInfo) option" where
  "VFS_FInfo FD MaxACLs s =
     (case VFS_GetHandle s FD of None \<Rightarrow> None
      | Some l \<Rightarrow>
          let h = handle s l; n = v_nodes s (h_Node h);
              mx = (if MaxACLs < length (n_ACLs n) then MaxACLs else length (n_ACLs n))
          in Some (mx,
            \<lparr> f_mount = (if h_Mount h \<noteq> 0 then Identifier s (h_Mount h) else 0), f_inode = n_Inode n,
              f_uid = n_UID n, f_gid = n_GID n,
              f_flags = (if n_Flags n AND VFS_FFLAG_DIRECTORY \<noteq> 0 then 0x10 else 0) OR
                        (if n_Flags n AND VFS_FFLAG_SYMLINK \<noteq> 0 then 0x20 else 0),
              f_size = n_Size n, f_atime = n_ATime n, f_mtime = n_CTime n, f_ctime = n_MTime n,
              f_numacls = length (n_ACLs n), f_acls = take mx (n_ACLs n) \<rparr>))"

section \<open>What a file type promises\<close>

text \<open>A handle for reading and writing on a file with the given methods.\<close>

definition open_rw :: "types \<Rightarrow> vfs \<Rightarrow> int \<Rightarrow> slot \<Rightarrow> io_method \<Rightarrow> io_method \<Rightarrow> bool" where
  "open_rw T s FD l rm wm \<longleftrightarrow> tables_wf s \<and> VFS_GetHandle s FD = Some l \<and>
     \<not> is_dir s (h_Node (handle s l)) \<and> h_Mode (handle s l) AND VFS_OPENFLAG_READ \<noteq> 0 \<and>
     h_Mode (handle s l) AND VFS_OPENFLAG_WRITE \<noteq> 0 \<and>
     (case type_of T s (h_Node (handle s l)) of None \<Rightarrow> False
      | Some t \<Rightarrow> t_Read t = rm \<and> t_Write t = wm \<and> t_Flags t AND VFS_NODETYPEFLAG_STREAM = 0)"

lemma handle_mem [simp]: "handle (s\<lparr>v_mem := m\<rparr>) k = handle s k"
  by (cases k) simp_all

lemma mem_update [simp]: "fd_slot (s\<lparr>v_mem := m\<rparr>) FD = fd_slot s FD"
  "tables_wf (s\<lparr>v_mem := m\<rparr>) = tables_wf s" "is_dir (s\<lparr>v_mem := m\<rparr>) n = is_dir s n"
  "type_of T (s\<lparr>v_mem := m\<rparr>) n = type_of T s n"
  by (simp_all add: fd_slot_def tables_wf_def is_dir_def type_of_def)

lemma GetHandle_mem [simp]: "VFS_GetHandle (s\<lparr>v_mem := m\<rparr>) FD = VFS_GetHandle s FD"
  by (simp add: VFS_GetHandle_def split: option.split)

lemma open_rw_mem: "open_rw T (s\<lparr>v_mem := m\<rparr>) FD l rm wm = open_rw T s FD l rm wm"
  by (simp add: open_rw_def)

lemma open_rw_at:
  assumes "open_rw T s FD l rm wm"
  shows "open_rw T (set_handle l ((handle s l)\<lparr>h_Position := p\<rparr>) s) FD l rm wm"
    "handle (set_handle l ((handle s l)\<lparr>h_Position := p\<rparr>) s) l = (handle s l)\<lparr>h_Position := p\<rparr>"
proof -
  have ok: "slot_ok s l" using assms fd_slot_ok [of s FD l] by (simp add: open_rw_def GetHandle_iff)
  show h: "handle (set_handle l ((handle s l)\<lparr>h_Position := p\<rparr>) s) l = (handle s l)\<lparr>h_Position := p\<rparr>"
    using handle_set [OF ok] by simp
  show "open_rw T (set_handle l ((handle s l)\<lparr>h_Position := p\<rparr>) s) FD l rm wm"
    using assms h by (simp add: open_rw_def GetHandle_iff is_dir_def type_of_def)
qed

text \<open>
  A plain file has bytes. Reading and writing are cut at its end, change nothing but memory, and a
  buffer has to be \<open>clear\<close> of the memory the driver works on. The file is not resized.
\<close>

locale plain_file =
  fixes rd wr :: "addr \<Rightarrow> nat \<Rightarrow> nat \<Rightarrow> addr \<Rightarrow> nat \<Rightarrow> vfs \<Rightarrow> nat \<times> vfs"
    and valid :: "vfs \<Rightarrow> addr \<Rightarrow> bool" and content :: "vfs \<Rightarrow> addr \<Rightarrow> 8 word list"
    and clear :: "vfs \<Rightarrow> addr \<Rightarrow> addr \<Rightarrow> nat \<Rightarrow> bool"
  assumes rd_law: "valid s n \<Longrightarrow> clear s n B len \<Longrightarrow> off + len \<le> length (content s n) \<Longrightarrow>
      \<exists>m. rd n off len B fl s = (len, s\<lparr>v_mem := m\<rparr>) \<and> span m B len = slice (content s n) off len \<and>
        content (s\<lparr>v_mem := m\<rparr>) n = content s n \<and> (\<forall>x. x < B \<or> B + len \<le> x \<longrightarrow> m x = v_mem s x)"
    and wr_law: "valid s n \<Longrightarrow> clear s n B len \<Longrightarrow> off + len \<le> length (content s n) \<Longrightarrow>
      \<exists>m. wr n off len B fl s = (len, s\<lparr>v_mem := m\<rparr>) \<and>
        content (s\<lparr>v_mem := m\<rparr>) n = blit (content s n) off (span (v_mem s) B len)"
    and valid_mem: "valid (s\<lparr>v_mem := m\<rparr>) n = valid s n" and clear_mem: "clear (s\<lparr>v_mem := m\<rparr>) n B len = clear s n B len"
    and valid_table: "valid (set_handle l h s) n = valid s n" and clear_table: "clear (set_handle l h s) n B len = clear s n B len"
    and content_table: "content (set_handle l h s) n = content s n"
    and content_size: "valid s n \<Longrightarrow> n_Size (v_nodes s n) = length (content s n) \<and> length (content s n) < size_fail"
begin

text \<open>One write and one read at the position of the handle.\<close>

lemma Write_plain:
  assumes "open_rw T s FD l (Method rd) (Method wr)" "valid s n" "clear s n B len" "n = h_Node (handle s l)" "p = h_Position (handle s l)"
    and "p + len \<le> length (content s n)"
  shows "\<exists>s'. VFS_Write T FD len B s = Ret (len, s') \<and> open_rw T s' FD l (Method rd) (Method wr) \<and>
    handle s' l = (handle s l)\<lparr>h_Position := p + len\<rparr> \<and> content s' n = blit (content s n) p (span (v_mem s) B len) \<and>
    (\<forall>C k. clear s' n C k = clear s n C k) \<and> valid s' n"
proof -
  obtain t where t: "type_of T s n = Some t" "t_Write t = Method wr" "t_Flags t AND VFS_NODETYPEFLAG_STREAM = 0"
    and o: "VFS_GetHandle s FD = Some l" "\<not> is_dir s n" "h_Mode (handle s l) AND VFS_OPENFLAG_WRITE \<noteq> 0"
    using assms(1,4) by (auto simp: open_rw_def split: option.splits)
  have sz: "n_Size (v_nodes s n) = length (content s n)" "length (content s n) < size_fail" using content_size [OF assms(2)] by simp_all
  obtain m where m: "wr n p len B (io_flags (handle s l)) s = (len, s\<lparr>v_mem := m\<rparr>)"
      "content (s\<lparr>v_mem := m\<rparr>) n = blit (content s n) p (span (v_mem s) B len)"
    using wr_law [OF assms(2) assms(3,6)] by blast
  have "u64 (p + len) = p + len" using assms(6) sz(2) by (simp add: u64_def)
  then have w: "VFS_WriteAt T FD p len B s = (len, s\<lparr>v_mem := m\<rparr>)"
    using o t m(1) assms(4,6) sz by (simp add: VFS_WriteAt_def write_length_def Let_def)
  define s' where "s' = set_handle l ((handle s l)\<lparr>h_Position := p + len\<rparr>) (s\<lparr>v_mem := m\<rparr>)"
  have op: "open_rw T (s\<lparr>v_mem := m\<rparr>) FD l (Method rd) (Method wr)" using assms(1) by (simp add: open_rw_mem)
  have "VFS_Write T FD len B s = Ret (len, s')"
    using o(1) w t(1,3) assms(4,5,6) sz(2)
    by (auto simp: VFS_Write_def Let_def type_of_def advance_def s'_def u64_def)
  then show ?thesis using open_rw_at [OF op, of "p + len"] m(2)
    by (simp add: s'_def content_table clear_table clear_mem valid_table valid_mem assms(2))
qed

lemma Read_plain:
  assumes "open_rw T s FD l (Method rd) (Method wr)" "valid s n" "clear s n B len" "n = h_Node (handle s l)" "p = h_Position (handle s l)"
    and "p + len \<le> length (content s n)"
  shows "\<exists>s'. VFS_Read T FD len B s = (len, s') \<and> open_rw T s' FD l (Method rd) (Method wr) \<and>
    handle s' l = (handle s l)\<lparr>h_Position := p + len\<rparr> \<and> span (v_mem s') B len = slice (content s n) p len \<and> content s' n = content s n \<and>
    (\<forall>x. x < B \<or> B + len \<le> x \<longrightarrow> v_mem s' x = v_mem s x)"
proof -
  obtain t where t: "type_of T s n = Some t" "t_Read t = Method rd"
    and o: "VFS_GetHandle s FD = Some l" "\<not> is_dir s n" "h_Mode (handle s l) AND VFS_OPENFLAG_READ \<noteq> 0"
    using assms(1,4) by (auto simp: open_rw_def split: option.splits)
  have sz: "length (content s n) < size_fail" using content_size [OF assms(2)] by simp
  obtain m where m: "rd n p len B (io_flags (handle s l)) s = (len, s\<lparr>v_mem := m\<rparr>)" "span m B len = slice (content s n) p len"
      "content (s\<lparr>v_mem := m\<rparr>) n = content s n" "\<forall>x. x < B \<or> B + len \<le> x \<longrightarrow> m x = v_mem s x"
    using rd_law [OF assms(2) assms(3,6)] by blast
  define s' where "s' = set_handle l ((handle s l)\<lparr>h_Position := p + len\<rparr>) (s\<lparr>v_mem := m\<rparr>)"
  have op: "open_rw T (s\<lparr>v_mem := m\<rparr>) FD l (Method rd) (Method wr)" using assms(1) by (simp add: open_rw_mem)
  have "VFS_Read T FD len B s = (len, s')"
    using o t m(1) assms(4,5,6) sz by (auto simp: VFS_Read_def Let_def advance_def s'_def u64_def)
  then show ?thesis using open_rw_at [OF op, of "p + len"] m(2-4) by (simp add: s'_def content_table)
qed

text \<open>What was written is read back after seeking to where it was written.\<close>

lemma write_seek_read:
  assumes "open_rw T s FD l (Method rd) (Method wr)" "valid s n" "n = h_Node (handle s l)" "p = h_Position (handle s l)"
    and "p + len \<le> length (content s n)" "clear s n B len" "clear s n C len" "0 < whence"
  shows "\<exists>s1 s2 s3. VFS_Write T FD len B s = Ret (len, s1) \<and> VFS_Seek T FD (int p) whence s1 = Ret (0, s2) \<and>
    VFS_Read T FD len C s2 = (len, s3) \<and> span (v_mem s3) C len = span (v_mem s) B len \<and>
    content s3 n = blit (content s n) p (span (v_mem s) B len) \<and> VFS_Tell FD s3 = p + len"
proof -
  obtain s1 where s1: "VFS_Write T FD len B s = Ret (len, s1)" "open_rw T s1 FD l (Method rd) (Method wr)"
      "handle s1 l = (handle s l)\<lparr>h_Position := p + len\<rparr>" "content s1 n = blit (content s n) p (span (v_mem s) B len)"
      "clear s1 n C len" "valid s1 n"
    using Write_plain [OF assms(1,2,6,3,4,5)] assms(7) by blast
  have len: "length (content s1 n) = length (content s n)" using assms(5) by (simp add: s1(4) blit_length)
  then have "p < 2 ^ 64" using content_size [OF assms(2)] assms(5) by simp
  then have wrap: "wrap64 (int p) = p" by (simp add: wrap64_def)
  define s2 where "s2 = set_handle l ((handle s1 l)\<lparr>h_Position := p\<rparr>) s1"
  note at2 = open_rw_at [OF s1(2), of p, folded s2_def]
  have seek: "VFS_Seek T FD (int p) whence s1 = Ret (0, s2)"
    using s1(2) assms(8) wrap by (auto simp: VFS_Seek_def open_rw_def Let_def s2_def split: option.splits)
  have v2: "valid s2 n" "clear s2 n C len" "n = h_Node (handle s2 l)" "p = h_Position (handle s2 l)"
      "p + len \<le> length (content s2 n)"
    using s1(3,5,6) at2(2) assms(3,5) len by (simp_all add: s2_def valid_table clear_table content_table)
  obtain s3 where s3: "VFS_Read T FD len C s2 = (len, s3)" "open_rw T s3 FD l (Method rd) (Method wr)"
      "handle s3 l = (handle s2 l)\<lparr>h_Position := p + len\<rparr>"
      "span (v_mem s3) C len = slice (content s2 n) p len" "content s3 n = content s2 n"
    using Read_plain [OF at2(1) v2] by blast
  have "slice (content s2 n) p len = span (v_mem s) B len"
    using slice_blit_same [of p "content s n" "span (v_mem s) B len"] assms(5) by (simp add: s2_def content_table s1(4))
  moreover have "VFS_Tell FD s3 = p + len" using s3(2,3) by (simp add: VFS_Tell_def open_rw_def)
  moreover have "content s3 n = blit (content s n) p (span (v_mem s) B len)"
    using s3(5) s1(4) by (simp add: s2_def content_table)
  ultimately show ?thesis using s1(1) seek s3(1,4) by metis
qed

end

end
