(* ===== verification/VFS_Memfile.thy ===== *)
theory VFS_Memfile
  imports VFS_IO Libc_String Libc_Memory
begin

text \<open>
  Memory pseudo files, \<open>vfs/memfile.c\<close>: a path \<open>$base:size\<close> names a region of memory, both numbers in
  hexadecimal with capital letters. The type of such a node is the provider of the plain file methods.
\<close>

section \<open>The driver\<close>

definition address_digit :: "8 word \<Rightarrow> bool" where
  "address_digit c \<longleftrightarrow> 48 \<le> c \<and> c \<le> 57 \<or> 65 \<le> c \<and> c \<le> 70"

definition hex_value :: "8 word \<Rightarrow> nat" where
  "hex_value c = (if 65 \<le> c \<and> c \<le> 70 then unat c - 65 + 10 else unat c - 48)"

partial_function (option) read_hex :: "memory \<Rightarrow> addr \<Rightarrow> nat \<Rightarrow> (nat \<times> addr) option" where
  "read_hex m str v =
     (if address_digit (m str) then read_hex m (str + 1) (u32 (u32 (v * 16) + hex_value (m str))) else Some (v, str))"

text \<open>\<open>ret\<close> is the block from \<open>malloc\<close>, \<open>ty\<close> the address of \<open>gVFS_MemFileType\<close>.\<close>

definition VFS_MemFile_Create :: "addr \<Rightarrow> addr \<Rightarrow> addr \<Rightarrow> vfs \<Rightarrow> (addr \<times> vfs) outcome option" where
  "VFS_MemFile_Create Path ret ty s =
     (case read_hex (v_mem s) (Path + 1) 0 of None \<Rightarrow> None
      | Some (base, str) \<Rightarrow>
          if v_mem s str \<noteq> 58 then Some (Ret (0, s))
          else case read_hex (v_mem s) (str + 1) 0 of None \<Rightarrow> None
          | Some (sz, str) \<Rightarrow>
              if v_mem s str \<noteq> 0 then Some (Ret (0, s))
              else if ret = 0 then Some Panicked
              else Some (Ret (ret, s\<lparr>v_nodes := (v_nodes s)(ret :=
                \<lparr> n_Type = ty, n_ImplPtr = base, n_ReferenceCount = 0, n_Inode = base, n_Size = sz, n_Flags = 0,
                  n_ATime = 0, n_MTime = 0, n_CTime = 0, n_UID = 0, n_GID = 0, n_ACLs = [gVFS_ACL_EveryoneRWX] \<rparr>)\<rparr>)))"

text \<open>The node stays in the state when its memory is freed.\<close>

definition VFS_MemFile_Close :: "addr \<Rightarrow> vfs \<Rightarrow> vfs" where
  "VFS_MemFile_Close n s =
     (let nd = v_nodes s n;
          nd = nd\<lparr>n_ReferenceCount := s32 (n_ReferenceCount nd - 1)\<rparr>;
          nd = (if n_ReferenceCount nd = 0 then nd\<lparr>n_ImplPtr := 0\<rparr> else nd)
      in s\<lparr>v_nodes := (v_nodes s)(n := nd)\<rparr>)"

text \<open>The length of an access, cut at the end of the file; none for a freed file or beyond the end.\<close>

definition memfile_length :: "tVFS_FileNode \<Rightarrow> nat \<Rightarrow> nat \<Rightarrow> nat option" where
  "memfile_length nd Offset Length =
     (if n_ImplPtr nd = 0 then None
      else if Offset > n_Size nd then None
      else let Length = (if Length > n_Size nd then n_Size nd else Length)
           in Some (if u64 (Offset + Length) > n_Size nd then n_Size nd - Offset else Length))"

definition VFS_MemFile_Read :: "addr \<Rightarrow> nat \<Rightarrow> nat \<Rightarrow> addr \<Rightarrow> nat \<Rightarrow> vfs \<Rightarrow> nat \<times> vfs" where
  "VFS_MemFile_Read n Offset Length Buffer Flags s =
     (case memfile_length (v_nodes s n) Offset Length of None \<Rightarrow> (0, s)
      | Some k \<Rightarrow> (k, s\<lparr>v_mem := memcpy_x86 (v_mem s) Buffer (u32 (n_ImplPtr (v_nodes s n) + Offset)) k\<rparr>))"

definition VFS_MemFile_Write :: "addr \<Rightarrow> nat \<Rightarrow> nat \<Rightarrow> addr \<Rightarrow> nat \<Rightarrow> vfs \<Rightarrow> nat \<times> vfs" where
  "VFS_MemFile_Write n Offset Length Buffer Flags s =
     (case memfile_length (v_nodes s n) Offset Length of None \<Rightarrow> (0, s)
      | Some k \<Rightarrow> (k, s\<lparr>v_mem := memcpy_x86 (v_mem s) (u32 (n_ImplPtr (v_nodes s n) + Offset)) Buffer k\<rparr>))"

definition gVFS_MemFileType :: tVFS_NodeType where
  "gVFS_MemFileType = \<lparr> t_Flags = 0, t_Reference = None, t_Close = Some VFS_MemFile_Close,
     t_Read = Method VFS_MemFile_Read, t_Write = Method VFS_MemFile_Write, t_Truncate = None, t_IOCtl = None \<rparr>"

section \<open>The contract\<close>

definition memfile_ok :: "vfs \<Rightarrow> addr \<Rightarrow> bool" where
  "memfile_ok s n \<longleftrightarrow> n_ImplPtr (v_nodes s n) \<noteq> 0 \<and> n_ImplPtr (v_nodes s n) + n_Size (v_nodes s n) \<le> size_fail"

definition memfile_bytes :: "vfs \<Rightarrow> addr \<Rightarrow> 8 word list" where
  "memfile_bytes s n = span (v_mem s) (n_ImplPtr (v_nodes s n)) (n_Size (v_nodes s n))"

definition memfile_clear :: "vfs \<Rightarrow> addr \<Rightarrow> addr \<Rightarrow> nat \<Rightarrow> bool" where
  "memfile_clear s n B k \<longleftrightarrow> apart B k (n_ImplPtr (v_nodes s n)) (n_Size (v_nodes s n))"

lemma memfile_length_inside:
  assumes "memfile_ok s n" "off + len \<le> n_Size (v_nodes s n)"
  shows "memfile_length (v_nodes s n) off len = Some len"
    "u32 (n_ImplPtr (v_nodes s n) + off) = n_ImplPtr (v_nodes s n) + off"
  using assms by (auto simp: memfile_length_def memfile_ok_def u64_def u32_def Let_def)

lemma memfile_read_law:
  assumes "memfile_ok s n" "memfile_clear s n B len" "off + len \<le> length (memfile_bytes s n)"
  shows "\<exists>m. VFS_MemFile_Read n off len B fl s = (len, s\<lparr>v_mem := m\<rparr>) \<and> span m B len = slice (memfile_bytes s n) off len \<and>
    memfile_bytes (s\<lparr>v_mem := m\<rparr>) n = memfile_bytes s n \<and> (\<forall>x. x < B \<or> B + len \<le> x \<longrightarrow> m x = v_mem s x)"
proof -
  define a z where "a = n_ImplPtr (v_nodes s n)" and "z = n_Size (v_nodes s n)"
  define m where "m = memcpy (v_mem s) B (a + off) len"
  have fits: "off + len \<le> z" using assms(3) by (simp add: memfile_bytes_def z_def)
  have ap: "B + len \<le> a \<or> a + z \<le> B" using assms(2) by (simp add: memfile_clear_def apart_def a_def z_def)
  have "VFS_MemFile_Read n off len B fl s = (len, s\<lparr>v_mem := m\<rparr>)"
    using memfile_length_inside [OF assms(1), of off len] fits
    by (simp add: VFS_MemFile_Read_def memcpy_x86_bytes m_def a_def z_def)
  moreover have out: "m x = v_mem s x" if "x < B \<or> B + len \<le> x" for x using that by (simp add: m_def memcpy_outside)
  moreover have "span m B len = slice (memfile_bytes s n) off len"
  proof (rule nth_equalityI)
    fix i
    assume "i < length (span m B len)"
    then have "i < len" by simp
    moreover have "B \<le> a + off \<or> a + off + len \<le> B" using ap fits by linarith
    ultimately show "span m B len ! i = slice (memfile_bytes s n) off len ! i"
      using fits by (simp add: memfile_bytes_def slice_span m_def memcpy_apply a_def [symmetric] z_def [symmetric])
  qed (use assms(3) in simp)
  moreover have "memfile_bytes (s\<lparr>v_mem := m\<rparr>) n = memfile_bytes s n"
  proof (rule nth_equalityI)
    fix i
    assume "i < length (memfile_bytes (s\<lparr>v_mem := m\<rparr>) n)"
    then have "i < z" by (simp add: memfile_bytes_def z_def)
    then have "m (a + i) = v_mem s (a + i)" using ap by (intro out) linarith
    then show "memfile_bytes (s\<lparr>v_mem := m\<rparr>) n ! i = memfile_bytes s n ! i"
      using \<open>i < z\<close> by (simp add: memfile_bytes_def a_def z_def)
  qed (simp add: memfile_bytes_def)
  ultimately show ?thesis by blast
qed

lemma memfile_write_law:
  assumes "memfile_ok s n" "memfile_clear s n B len" "off + len \<le> length (memfile_bytes s n)"
  shows "\<exists>m. VFS_MemFile_Write n off len B fl s = (len, s\<lparr>v_mem := m\<rparr>) \<and>
    memfile_bytes (s\<lparr>v_mem := m\<rparr>) n = blit (memfile_bytes s n) off (span (v_mem s) B len)"
proof -
  define a z where "a = n_ImplPtr (v_nodes s n)" and "z = n_Size (v_nodes s n)"
  define m where "m = memcpy (v_mem s) (a + off) B len"
  have fits: "off + len \<le> z" using assms(3) by (simp add: memfile_bytes_def z_def)
  have "B + len \<le> a \<or> a + z \<le> B" using assms(2) by (simp add: memfile_clear_def apart_def a_def z_def)
  then have ap: "a + off \<le> B \<or> B + len \<le> a + off" using fits by linarith
  have "VFS_MemFile_Write n off len B fl s = (len, s\<lparr>v_mem := m\<rparr>)"
    using memfile_length_inside [OF assms(1), of off len] fits
    by (simp add: VFS_MemFile_Write_def memcpy_x86_bytes m_def a_def z_def)
  moreover have "memfile_bytes (s\<lparr>v_mem := m\<rparr>) n = blit (memfile_bytes s n) off (span (v_mem s) B len)"
  proof (rule nth_equalityI)
    fix i
    assume "i < length (memfile_bytes (s\<lparr>v_mem := m\<rparr>) n)"
    then have i: "i < z" by (simp add: memfile_bytes_def z_def)
    have "m (a + i) = (if off \<le> i \<and> i < off + len then v_mem s (B + (i - off)) else v_mem s (a + i))"
    proof (cases "off \<le> i \<and> i < off + len")
      case True
      then have "m (a + off + (i - off)) = v_mem s (B + (i - off))" unfolding m_def using ap by (intro memcpy_apply) auto
      then show ?thesis using True by simp
    next
      case False
      then show ?thesis unfolding m_def by (subst memcpy_outside) auto
    qed
    then show "memfile_bytes (s\<lparr>v_mem := m\<rparr>) n ! i = blit (memfile_bytes s n) off (span (v_mem s) B len) ! i"
      using i fits by (auto simp: memfile_bytes_def blit_nth a_def z_def)
  qed (use fits in \<open>simp add: memfile_bytes_def blit_length z_def\<close>)
  ultimately show ?thesis by blast
qed

interpretation memfile: plain_file VFS_MemFile_Read VFS_MemFile_Write memfile_ok memfile_bytes memfile_clear
proof unfold_locales
  show "n_Size (v_nodes s n) = length (memfile_bytes s n) \<and> length (memfile_bytes s n) < size_fail" if "memfile_ok s n" for s n
    using that by (auto simp: memfile_ok_def memfile_bytes_def)
qed ((rule memfile_read_law memfile_write_law; assumption) | simp add: memfile_ok_def memfile_bytes_def memfile_clear_def)+

section \<open>Creation\<close>

text \<open>The value of a list of digits.\<close>

definition hex_number :: "8 word list \<Rightarrow> nat \<Rightarrow> nat" where
  "hex_number ds v = fold (\<lambda>d v. v * 16 + hex_value d) ds v"

lemma read_hex_digits:
  "\<forall>i < length ds. m (p + i) = ds ! i \<Longrightarrow> \<forall>d \<in> set ds. address_digit d \<Longrightarrow> \<not> address_digit (m (p + length ds)) \<Longrightarrow>
   v < two32 \<Longrightarrow> read_hex m p v = Some (u32 (hex_number ds v), p + length ds)"
proof (induction ds arbitrary: p v)
  case Nil
  then show ?case by (simp add: read_hex.simps [of m p] hex_number_def u32_def)
next
  case (Cons d ds)
  have d: "m p = d" using Cons.prems(1) by force
  define w where "w = u32 (u32 (v * 16) + hex_value d)"
  have w: "w < two32" "w = u32 (v * 16 + hex_value d)" by (simp_all add: w_def u32_def mod_add_left_eq)
  have rest: "\<forall>i < length ds. m (Suc p + i) = ds ! i" using Cons.prems(1) by force
  have "read_hex m p v = read_hex m (Suc p) w" using Cons.prems(2) d by (simp add: read_hex.simps [of m p] w_def)
  also have "\<dots> = Some (u32 (hex_number ds w), Suc p + length ds)"
    using Cons.prems rest w(1) by (intro Cons.IH) simp_all
  also have "u32 (hex_number ds w) = u32 (hex_number ds (v * 16 + hex_value d))"
  proof -
    have "u32 (hex_number ds (u32 x)) = u32 (hex_number ds x)" for x
    proof (induction ds arbitrary: x)
      case (Cons e es)
      have "u32 (u32 x * 16 + hex_value e) = u32 (x * 16 + hex_value e)"
        by (metis u32_def mod_add_left_eq mod_mult_left_eq)
      then show ?case using Cons.IH [of "u32 x * 16 + hex_value e"] Cons.IH [of "x * 16 + hex_value e"]
        by (simp add: hex_number_def)
    qed (simp add: hex_number_def u32_def)
    then show ?thesis by (simp add: w(2))
  qed
  finally show ?case by (simp add: hex_number_def)
qed

lemma MemFile_Create_run:
  assumes "cstr (v_mem s) Path (36 # bs @ 58 # ss)" "\<forall>d \<in> set bs. address_digit d" "\<forall>d \<in> set ss. address_digit d" "ret \<noteq> 0"
  shows "\<exists>nd. VFS_MemFile_Create Path ret ty s = Some (Ret (ret, s\<lparr>v_nodes := (v_nodes s)(ret := nd)\<rparr>)) \<and>
    n_Type nd = ty \<and> n_ImplPtr nd = u32 (hex_number bs 0) \<and> n_Size nd = u32 (hex_number ss 0) \<and> n_ReferenceCount nd = 0"
proof -
  define p q where "p = Path + 1" and "q = p + length bs + 1"
  have c: "cstr (v_mem s) p (bs @ 58 # ss)" using assms(1) by (simp add: p_def)
  then have b: "\<forall>i < length bs. v_mem s (p + i) = bs ! i" and colon: "v_mem s (p + length bs) = 58" and "cstr (v_mem s) q ss"
    by (simp_all add: cstr_append q_def)
  then have sd: "\<forall>i < length ss. v_mem s (q + i) = ss ! i" and fin: "v_mem s (q + length ss) = 0"
    using cstr_nth cstr_end by blast+
  have stop: "\<not> address_digit 58" "\<not> address_digit 0" by (simp_all add: address_digit_def)
  have r1: "read_hex (v_mem s) p 0 = Some (u32 (hex_number bs 0), p + length bs)"
    using b assms(2) colon stop by (intro read_hex_digits) simp_all
  have r2: "read_hex (v_mem s) q 0 = Some (u32 (hex_number ss 0), q + length ss)"
    using sd assms(3) fin stop by (intro read_hex_digits) simp_all
  define nd where "nd = \<lparr> n_Type = ty, n_ImplPtr = u32 (hex_number bs 0), n_ReferenceCount = 0, n_Inode = u32 (hex_number bs 0),
    n_Size = u32 (hex_number ss 0), n_Flags = 0, n_ATime = 0, n_MTime = 0, n_CTime = 0, n_UID = 0, n_GID = 0,
    n_ACLs = [gVFS_ACL_EveryoneRWX] \<rparr>"
  have "VFS_MemFile_Create Path ret ty s = Some (Ret (ret, s\<lparr>v_nodes := (v_nodes s)(ret := nd)\<rparr>))"
    using r1 r2 colon fin assms(4) unfolding VFS_MemFile_Create_def p_def [symmetric] by (simp add: q_def nd_def)
  then show ?thesis by (intro exI [of _ nd]) (simp add: nd_def)
qed

end
