(* ===== verification/VFS_Mounts.thy ===== *)
theory VFS_Mounts
  imports Errno Libc_String "HOL-Library.Monad_Syntax"
begin

text \<open>
  The list of mounts, \<open>vfs/mount.c\<close>: the parsing of mount options, adding and removing mounts, and the
  count of the handles on each. A mount is named by its address; its strings are lists of bytes without
  the terminator. \<open>VFS_Unmount\<close> runs with the lock of the list, so it is one step here.
\<close>

section \<open>Mount options\<close>

text \<open>Both loops continue the search at the comma that was found, not behind it.\<close>

abbreviation comma :: int where "comma \<equiv> 44"

partial_function (option) count_args :: "memory \<Rightarrow> addr \<Rightarrow> nat \<Rightarrow> nat option" where
  "count_args m str nArg =
     (case strchr m str comma of None \<Rightarrow> None
      | Some str' \<Rightarrow> if str' \<noteq> 0 then count_args m str' (nArg + 1) else Some (nArg + 1))"

partial_function (option) split_args :: "memory \<Rightarrow> addr \<Rightarrow> addr list \<Rightarrow> (memory \<times> addr list) option" where
  "split_args m str args =
     (case strchr m str comma of None \<Rightarrow> None
      | Some str' \<Rightarrow> if str' \<noteq> 0 then split_args (m(str' := 0)) str' (args @ [str]) else Some (m, args @ [str]))"

text \<open>The options of a mount, counted for the array and then taken apart.\<close>

definition parse_options :: "memory \<Rightarrow> addr \<Rightarrow> (nat \<times> memory \<times> addr list) option" where
  "parse_options m Options = do {
     nArg \<leftarrow> count_args m Options 0;
     (m, args) \<leftarrow> split_args m Options [];
     Some (nArg, m, args)
   }"

section \<open>The list\<close>

record tVFS_Mount =
  mt_At :: addr
  MountPoint :: "8 word list"
  MountPointLen :: nat
  mt_Identifier :: nat
  mt_OpenHandleCount :: int

text \<open>The end of \<open>VFS_Mount\<close>: the length kept for the root is zero, and the mount goes to the end.\<close>

definition new_mount :: "addr \<Rightarrow> 8 word list \<Rightarrow> nat \<Rightarrow> tVFS_Mount" where
  "new_mount a mp ident = \<lparr> mt_At = a, MountPoint = mp,
     MountPointLen = (if length mp = 1 \<and> mp ! 0 = 47 then 0 else length mp), mt_Identifier = ident, mt_OpenHandleCount = 0 \<rparr>"

definition add_mount :: "tVFS_Mount \<Rightarrow> tVFS_Mount list \<Rightarrow> tVFS_Mount list" where
  "add_mount mnt mounts = mounts @ [mnt]"

text \<open>The mount whose handle count has the mount point of \<open>mnt\<close>: the first that is a prefix.\<close>

definition is_parent :: "tVFS_Mount \<Rightarrow> tVFS_Mount \<Rightarrow> bool" where
  "is_parent mnt mpmnt \<longleftrightarrow> take (MountPointLen mpmnt) (MountPoint mpmnt) = take (MountPointLen mpmnt) (MountPoint mnt) \<and>
     MountPointLen mpmnt < length (MountPoint mnt) \<and> MountPoint mnt ! MountPointLen mpmnt = 47"

fun drop_parent :: "tVFS_Mount \<Rightarrow> tVFS_Mount list \<Rightarrow> tVFS_Mount list outcome" where
  "drop_parent mnt [] = Ret []"
| "drop_parent mnt (mpmnt # ms) =
     (if \<not> is_parent mnt mpmnt then bind_outcome (drop_parent mnt ms) (\<lambda>ms. Ret (mpmnt # ms))
      else if \<not> mt_OpenHandleCount mpmnt > 0 then Panicked
      else Ret (mpmnt\<lparr>mt_OpenHandleCount := mt_OpenHandleCount mpmnt - 1\<rparr> # ms))"

text \<open>\<open>mnt\<close> is already out of the list; the unmount routine of its file system does not change the list.\<close>

definition VFS_int_Unmount :: "addr \<Rightarrow> tVFS_Mount \<Rightarrow> tVFS_Mount list \<Rightarrow> tVFS_Mount list outcome" where
  "VFS_int_Unmount gVFS_RootMount mnt mounts =
     (if mt_At mnt \<noteq> gVFS_RootMount then drop_parent mnt mounts else Ret mounts)"

fun unlink :: "8 word list \<Rightarrow> tVFS_Mount list \<Rightarrow> (tVFS_Mount \<times> tVFS_Mount list) option" where
  "unlink mp [] = None"
| "unlink mp (m # ms) =
     (if MountPoint m = mp then Some (m, ms) else map_option (\<lambda>(x, ms). (x, m # ms)) (unlink mp ms))"

definition VFS_Unmount :: "addr \<Rightarrow> 8 word list \<Rightarrow> tVFS_Mount list \<Rightarrow> (libc_eErrorNumbers \<times> tVFS_Mount list) outcome" where
  "VFS_Unmount gVFS_RootMount mp mounts =
     (case unlink mp mounts of None \<Rightarrow> Ret (ENOENT, mounts)
      | Some (mnt, rest) \<Rightarrow>
          if mt_OpenHandleCount mnt \<noteq> 0 then Ret (EBUSY, mounts)
          else bind_outcome (VFS_int_Unmount gVFS_RootMount mnt rest) (\<lambda>ms. Ret (EOK, ms)))"

lemma drop_parent_length: "drop_parent mnt ms = Ret ms' \<Longrightarrow> length ms' = length ms"
proof (induction ms arbitrary: ms')
  case (Cons m ms)
  then show ?case by (cases "drop_parent mnt ms") (auto split: if_splits)
qed simp

text \<open>The mounts passed over, and those still to look at: a count in either part may change on the way.\<close>

function unmount_loop :: "addr \<Rightarrow> tVFS_Mount list \<Rightarrow> tVFS_Mount list \<Rightarrow> nat \<Rightarrow> (nat \<times> tVFS_Mount list) outcome" where
  "unmount_loop r kept [] n = Ret (n, kept)"
| "unmount_loop r kept (m # ms) n =
     (if \<not> mt_OpenHandleCount m \<ge> 0 then Panicked
      else if mt_OpenHandleCount m > 0 then unmount_loop r (kept @ [m]) ms n
      else case VFS_int_Unmount r m (kept @ ms) of Panicked \<Rightarrow> Panicked
           | Ret l \<Rightarrow> unmount_loop r (take (length kept) l) (drop (length kept) l) (n + 1))"
  by pat_completeness auto

lemma int_Unmount_length: "VFS_int_Unmount r m l = Ret l' \<Longrightarrow> length l' = length l"
  by (auto simp: VFS_int_Unmount_def drop_parent_length split: if_splits)

termination unmount_loop
  by (relation "measure (\<lambda>(r, kept, ms, n). length ms)") (auto dest: int_Unmount_length)

text \<open>With no mount left, the file system layer is shut down.\<close>

definition VFS_UnmountAll :: "addr \<Rightarrow> tVFS_Mount list \<Rightarrow> (int \<times> tVFS_Mount list) outcome" where
  "VFS_UnmountAll gVFS_RootMount mounts =
     (if mounts = [] then Ret (- 1, [])
      else bind_outcome (unmount_loop gVFS_RootMount [] mounts 0) (\<lambda>(n, ms). Ret (int n, ms)))"

fun VFS_GetMountByIdent :: "nat \<Rightarrow> tVFS_Mount list \<Rightarrow> addr \<times> tVFS_Mount list" where
  "VFS_GetMountByIdent i [] = (0, [])"
| "VFS_GetMountByIdent i (m # ms) =
     (if mt_Identifier m = i then (mt_At m, m\<lparr>mt_OpenHandleCount := mt_OpenHandleCount m + 1\<rparr> # ms)
      else let (a, ms) = VFS_GetMountByIdent i ms in (a, m # ms))"

section \<open>What is proved of them\<close>

lemma strchr_here: "sint (m s) = c \<Longrightarrow> m s \<noteq> 0 \<Longrightarrow> strchr m s c = Some s"
  by (simp add: strchr.simps [of m s])

text \<open>From a comma the count never gets away.\<close>

lemma count_args_stuck:
  assumes "count_args m s n = Some r"
  shows "s \<noteq> 0 \<longrightarrow> sint (m s) \<noteq> comma"
  using assms
proof (induction rule: count_args.raw_induct [rotated, consumes 1, case_names step])
  case (step ca m s n r)
  show ?case
  proof (intro impI notI)
    assume s: "s \<noteq> 0" "sint (m s) = comma"
    then have "m s \<noteq> 0" by auto
    then have "strchr m s comma = Some s" using strchr_here s(2) by blast
    then have "ca m s (n + 1) = Some r" using step(2) s(1) by simp
    then show False using step(1) s by blast
  qed
qed

lemma count_args_none:
  assumes "cstr m s xs" "comma \<notin> sint ` set xs"
  shows "count_args m s n = Some (n + 1)"
  using strchr_absent [OF assms] by (simp add: count_args.simps [of m s])

lemma count_args_hangs:
  assumes "cstr m s (xs @ x # ys)" "comma \<notin> sint ` set xs" "sint x = comma" "s \<noteq> 0"
  shows "count_args m s n = None"
proof (cases "count_args m s n")
  case (Some r)
  define q where "q = s + length xs"
  have "strchr m s comma = Some q" using strchr_present [OF assms(1-3)] by (simp add: q_def)
  then have "count_args m q (n + 1) = Some r" using Some assms(4) by (simp add: count_args.simps [of m s] q_def)
  moreover have "m q = x" using assms(1) by (simp add: cstr_append q_def)
  ultimately show ?thesis using count_args_stuck [of m q "n + 1" r] assms(3,4) by (simp add: q_def)
qed simp

text \<open>The root comes first in the list and its kept length is zero, so it is the parent of every mount.\<close>

lemma root_is_parent: "MountPoint mnt ! 0 = 47 \<Longrightarrow> MountPoint mnt \<noteq> [] \<Longrightarrow> is_parent mnt (new_mount r [47] i\<lparr>mt_OpenHandleCount := c\<rparr>)"
  by (simp add: is_parent_def new_mount_def)

end
