(* ===== verification/VFS_Theorems.thy ===== *)
theory VFS_Theorems
  imports VFS_Path Inode_Cache VFS_Memfile VFS_Mounts
begin

text \<open>
  The properties of the virtual file system: paths, permissions, cached nodes, handles, input and
  output on memory files, and mounts.
\<close>

section \<open>Paths\<close>

text \<open>
  C30: an absolute path becomes the root directory of the process followed by the parts of the path, with
  empty parts and \<open>.\<close> left out and each \<open>..\<close> taking away the part before it; the result has only plain
  parts, so it never leaves the root directory, and only the new block is written.
\<close>

theorem VFS_GetAbsPath_absolute:
  fixes xs rs :: "8 word list"
  assumes "root_is m chroot rs" "cstr m Path (slash # xs)" "ret \<noteq> 0" "length (split_on slash xs) < MAX_PATH_SLASHES"
    and "apart Path (length xs + 2) ret (length (trimmed rs) + length xs + 2)"
    and "apart chroot (length rs + 1) ret (length (trimmed rs) + length xs + 2)"
  defines "parts \<equiv> normal (split_on slash xs) []"
  shows "\<exists>m'. VFS_GetAbsPath m chroot cwd root Path ret = Some (ret, m') \<and>
    cstr m' ret (abs_text (trimmed rs) parts) \<and> (\<forall>s \<in> set parts. plain_part s) \<and>
    changed_at_most m m' ret (length (trimmed rs) + length xs + 2)"
proof -
  obtain m1 where m1: "place_path m (length (trimmed rs)) (if cwd = 0 then root else cwd) Path ret = Some m1"
      "cstr m1 (ret + length (trimmed rs)) (slash # xs)" "changed_at_most m m1 ret (length (trimmed rs) + length xs + 2)"
    using place_absolute [OF assms(2,5)] by blast
  have "m Path \<noteq> 36" using assms(2) by simp
  moreover have "\<forall>s \<in> set parts. plain_part s"
    unfolding parts_def using split_on_no_sep by (intro normal_plain) auto
  ultimately show ?thesis
    using placed_then_rebuilt [OF assms(1,6) m1 assms(4) _ assms(3) order_refl] unfolding parts_def by blast
qed

text \<open>\<open>/b/../a//.\<close> at 100, the root \<open>/r/\<close> at 150, the directory \<open>/home\<close> at 160, the path \<open>x/y\<close> at 170.\<close>

definition path_mem :: memory where
  "path_mem = overwrite (overwrite (overwrite (overwrite (\<lambda>_. 0) 100 [47, 98, 47, 46, 46, 47, 97, 47, 47, 46])
     150 [47, 114, 47]) 160 [47, 104, 111, 109, 101]) 170 [120, 47, 121]"

lemma path_mem_strings:
  "cstr path_mem 100 [47, 98, 47, 46, 46, 47, 97, 47, 47, 46]" "cstr path_mem 150 [47, 114, 47]"
  "cstr path_mem 160 [47, 104, 111, 109, 101]" "cstr path_mem 170 [120, 47, 121]"
  by (simp_all add: path_mem_def overwrite_def)

theorem VFS_GetAbsPath_absolute_witness:
  "\<exists>m'. VFS_GetAbsPath path_mem 150 0 0 100 200 = Some (200, m') \<and> cstr m' 200 [47, 114, 47, 97]"
proof -
  have parts: "normal (split_on slash [98, 47, 46, 46, 47, 97, 47, 47, 46]) [] = [[97]]" by simp
  have few: "length (split_on slash [98, 47, 46, 46, 47, 97, 47, 47, 46]) < MAX_PATH_SLASHES" by simp
  show ?thesis
    using VFS_GetAbsPath_absolute [of path_mem 150 "[47, 114, 47]" 100 "[98, 47, 46, 46, 47, 97, 47, 47, 46]" 200 0 0]
      path_mem_strings few unfolding parts
    by (auto simp: root_is_def apart_def trimmed_def abs_text_def path_text_def)
qed

lemma placed_below:
  assumes "cstr m wd (slash # ws)" "cstr m Path xs" "m Path \<noteq> slash"
    and "apart wd (length ws + 2) ret (length ws + length xs + 3)" "apart Path (length xs + 1) ret (length ws + length xs + 3)"
  shows "\<exists>m1. place_path m 0 wd Path ret = Some m1 \<and> cstr m1 ret (slash # ws @ slash # xs) \<and>
    changed_at_most m m1 ret (length ws + length xs + 3)"
proof -
  have "\<exists>m1. place_path m 0 wd Path ret = Some m1 \<and>
      cstr m1 (ret + 0) (if (0::nat) = 0 then (slash # ws) @ slash # xs else slash # ws) \<and>
      changed_at_most m m1 ret (0 + length (slash # ws) + length xs + 2)"
    using assms(4,5) by (intro place_relative [OF assms(1-3)]) (simp_all add: numeral_3_eq_3 numeral_2_eq_2)
  then show ?thesis by (simp add: numeral_3_eq_3 numeral_2_eq_2)
qed

text \<open>
  C31: without a root directory of its own, a relative path is taken below the working directory of the
  process, and cleaned up in the same way together with it.
\<close>

theorem VFS_GetAbsPath_relative:
  fixes xs ws rs :: "8 word list"
  assumes "root_is m chroot rs" "trimmed rs = []" "cstr m (if cwd = 0 then root else cwd) (slash # ws)" "cstr m Path xs"
    and "m Path \<noteq> slash" "m Path \<noteq> 36" "ret \<noteq> 0" "length (split_on slash ws) + length (split_on slash xs) < MAX_PATH_SLASHES"
    and "apart (if cwd = 0 then root else cwd) (length ws + 2) ret (length ws + length xs + 3)"
    and "apart Path (length xs + 1) ret (length ws + length xs + 3)" "apart chroot (length rs + 1) ret (length ws + length xs + 3)"
  shows "\<exists>m'. VFS_GetAbsPath m chroot cwd root Path ret = Some (ret, m') \<and>
    cstr m' ret (abs_text [] (normal (split_on slash ws @ split_on slash xs) [])) \<and>
    changed_at_most m m' ret (length ws + length xs + 3)"
proof -
  define ys where "ys = ws @ slash # xs"
  obtain m1 where m1: "place_path m (length (trimmed rs)) (if cwd = 0 then root else cwd) Path ret = Some m1"
      "cstr m1 (ret + length (trimmed rs)) (slash # ys)" "changed_at_most m m1 ret (length ws + length xs + 3)"
    using placed_below [OF assms(3-5,9,10)] unfolding assms(2) ys_def by auto
  have "length (split_on slash ys) < MAX_PATH_SLASHES" using assms(8) by (simp add: ys_def split_on_append)
  from placed_then_rebuilt [OF assms(1,11) m1 this assms(6,7)] show ?thesis
    by (simp add: assms(2) ys_def split_on_append)
qed

theorem VFS_GetAbsPath_relative_witness:
  "\<exists>m'. VFS_GetAbsPath path_mem 0 160 0 170 200 = Some (200, m') \<and> cstr m' 200 [47, 104, 111, 109, 101, 47, 120, 47, 121]"
proof -
  have parts: "normal (split_on slash [104, 111, 109, 101] @ split_on slash [120, 47, 121]) [] = [[104, 111, 109, 101], [120], [121]]"
    by simp
  have few: "length (split_on slash [104, 111, 109, 101]) + length (split_on slash [120, 47, 121]) < MAX_PATH_SLASHES" by simp
  have "path_mem 170 = 120" using path_mem_strings(4) by simp
  then show ?thesis
    using VFS_GetAbsPath_relative [of path_mem 0 "[]" 160 0 "[104, 111, 109, 101]" 170 "[120, 47, 121]" 200]
      path_mem_strings few unfolding parts
    by (auto simp: root_is_def apart_def trimmed_def abs_text_def path_text_def)
qed






text \<open>
  With a root directory that is longer than the working directory, a relative path is not looked at:
  the result is the working directory below the root directory.
\<close>

theorem VFS_GetAbsPath_chroot_ignores_path:
  fixes xs ws rs :: "8 word list"
  assumes "root_is m chroot rs" "length ws + 1 < length (trimmed rs)"
    and "cstr m (if cwd = 0 then root else cwd) (slash # ws)" "cstr m Path xs"
    and "m Path \<noteq> slash" "m Path \<noteq> 36" "ret \<noteq> 0" "length (split_on slash ws) < MAX_PATH_SLASHES"
    and "apart (if cwd = 0 then root else cwd) (length ws + 2) ret (length (trimmed rs) + length ws + length xs + 3)"
    and "apart Path (length xs + 1) ret (length (trimmed rs) + length ws + length xs + 3)"
    and "apart chroot (length rs + 1) ret (length (trimmed rs) + length ws + length xs + 3)"
  shows "\<exists>m'. VFS_GetAbsPath m chroot cwd root Path ret = Some (ret, m') \<and>
    cstr m' ret (abs_text (trimmed rs) (normal (split_on slash ws) []))"
proof -
  define L where "L = length (trimmed rs)"
  have "L \<noteq> 0" using assms(2) by (auto simp: L_def)
  have "\<exists>m1. place_path m L (if cwd = 0 then root else cwd) Path ret = Some m1 \<and>
      cstr m1 (ret + L) (if L = 0 then (slash # ws) @ slash # xs else slash # ws) \<and>
      changed_at_most m m1 ret (L + length (slash # ws) + length xs + 2)"
    using assms(2,9,10) by (intro place_relative [OF assms(3,4,5)]) (simp_all add: numeral_3_eq_3 numeral_2_eq_2 L_def)
  then obtain m1 where m1: "place_path m (length (trimmed rs)) (if cwd = 0 then root else cwd) Path ret = Some m1"
      "cstr m1 (ret + length (trimmed rs)) (slash # ws)" "changed_at_most m m1 ret (length (trimmed rs) + length ws + length xs + 3)"
    using \<open>L \<noteq> 0\<close> unfolding L_def by (auto simp: numeral_3_eq_3 numeral_2_eq_2)
  show ?thesis using placed_then_rebuilt [OF assms(1,11) m1 assms(8,6,7)] by auto
qed

section \<open>Permissions\<close>

text \<open>The permissions a Unix mode gives to one of its classes, from the lowest bit of the class.\<close>

definition class_perms :: "32 word \<Rightarrow> nat \<Rightarrow> 32 word" where
  "class_perms Mode k = (if bit Mode (k + 2) then 1 else 0) OR (if bit Mode (k + 1) then 2 else 0) OR (if bit Mode k then 8 else 0)"

lemma mode_mask_bit: "Mode AND 2 ^ k \<noteq> 0 \<longleftrightarrow> bit Mode k" for Mode :: "32 word"
  using bit_iff_and_push_bit_not_eq_0 [of Mode k] by (simp add: push_bit_eq_mult)

lemma class_masks:
  "ucast (mode_perms Mode 0x100 0x80 0x40) = class_perms Mode 6" "ucast (mode_perms Mode 0x20 0x10 0x8) = class_perms Mode 3"
  "ucast (mode_perms Mode 0x4 0x2 0x1) = class_perms Mode 0"
  unfolding mode_perms_ucast class_perms_def
  using mode_mask_bit [of Mode 8] mode_mask_bit [of Mode 7] mode_mask_bit [of Mode 6] mode_mask_bit [of Mode 5] mode_mask_bit [of Mode 4]
    mode_mask_bit [of Mode 3] mode_mask_bit [of Mode 2] mode_mask_bit [of Mode 1] mode_mask_bit [of Mode 0] by (simp_all add: numeral_2_eq_2)

lemma ucast_small:
  fixes w :: "32 word"
  assumes "w < 0x7FFFFFFF"
  shows "ucast (ucast w :: 31 word) = w" "(ucast w :: 31 word) \<noteq> VFS_ACLENT_ALL"
proof -
  have w: "unat w < 0x7FFFFFFF" using assms by (simp add: word_less_nat_alt)
  have u: "unat (ucast w :: 31 word) = unat w" using w by (simp add: unsigned_ucast_eq take_bit_nat_eq_self)
  show "ucast (ucast w :: 31 word) = w" using w by (intro word_unat_eq_iff [THEN iffD2]) (simp add: unsigned_ucast_eq unsigned_take_bit_eq take_bit_nat_eq_self)
  show "(ucast w :: 31 word) \<noteq> VFS_ACLENT_ALL" using w u by (auto simp: word_unat_eq_iff)
qed

text \<open>
  C33: the entries made from a Unix mode allow an access to a user exactly when one of the classes the
  user belongs to has all the permissions that are asked for.
\<close>

theorem VFS_UnixToAcessACL_allows:
  assumes "VFS_UnixToAcessACL room Mode Owner Grp = Some acls" "Owner < 0x7FFFFFFF" "Grp < 0x7FFFFFFF" "p \<noteq> 0"
  shows "VFS_int_CheckACLs acls False p uid gid = 0 \<longleftrightarrow>
    uid = Owner \<and> class_perms Mode 6 AND p = p \<or> gid = Grp \<and> class_perms Mode 3 AND p = p \<or> class_perms Mode 0 AND p = p"
proof -
  have "acls = the (VFS_UnixToAcessACL True Mode Owner Grp)"
    using assms(1) by (simp add: VFS_UnixToAcessACL_def split: if_splits)
  then show ?thesis using assms(4) ucast_small [OF assms(2)] ucast_small [OF assms(3)]
    by (auto simp: VFS_UnixToAcessACL_def check_allow acl_grants_def acl_applies_def class_masks)
qed

theorem VFS_UnixToAcessACL_allows_witness:
  "\<exists>acls. VFS_UnixToAcessACL True 0x1A0 7 9 = Some acls \<and> VFS_int_CheckACLs acls False 3 7 1 = 0 \<and> VFS_int_CheckACLs acls False 3 8 9 \<noteq> 0"
  using VFS_UnixToAcessACL_allows [of True "0x1A0" 7 9 _ 3 7 1] VFS_UnixToAcessACL_allows [of True "0x1A0" 7 9 _ 3 8 9]
  by (simp add: VFS_UnixToAcessACL_def class_perms_def)

text \<open>No check of a list ever lets a user but root in: the second \<open>return 0\<close> is always reached.\<close>

theorem VFS_CheckACL_only_root: "VFS_CheckACL ACLs p uid gid = (if uid = 0 then 1 else 0)"
  by (simp add: VFS_CheckACL_def)

section \<open>Cached nodes\<close>

text \<open>
  C34: a node that is put into the cache of a file system stays at its address through any number of
  references taken and given back, and is cleaned up and gone with the last one; the other nodes in the
  cache are not touched.
\<close>

theorem Inode_cache_node_lives:
  assumes "cache_wf c" "entry c (Inode nd) = None" "a \<noteq> 0" "a \<notin> At ` set (FirstNode c)" "n + 1 < 2 ^ 32"
  defines "c1 \<equiv> snd (Inode_CacheNodeEx c nd a)"
  defines "c2 \<equiv> ((\<lambda>c. snd (Inode_GetCache c (Inode nd))) ^^ n) c1"
  defines "c3 \<equiv> ((\<lambda>c. fst (snd (Inode_UncacheNode c (Inode nd)))) ^^ n) c2"
  shows "entry c3 = (entry c)(Inode nd \<mapsto> (a, 1, Fields nd)) \<and>
    (\<exists>c4 x. Inode_UncacheNode c3 (Inode nd) = (1, c4, Some x) \<and> cache_wf c4 \<and> entry c4 = entry c)"
proof -
  obtain c' where "Inode_CacheNodeEx c nd a = (a, c')" "cache_wf c'" "entry c' = (entry c)(Inode nd \<mapsto> (a, 1, Fields nd))"
    using put_miss [OF assms(1-4)] by blast
  then have c1: "cache_wf c1" "entry c1 = (entry c)(Inode nd \<mapsto> (a, 1, Fields nd))" by (simp_all add: c1_def)
  then have "entry c1 (Inode nd) = Some (a, 1, Fields nd)" "1 + n < (2 :: nat) ^ 32" using assms(5) by simp_all
  note lives = nodes.lives_with_references [OF c1(1) this(1) zero_less_one this(2)]
  have "(entry c1)(Inode nd := None) = entry c" using c1(2) assms(2) by auto
  then show ?thesis using lives c1(2) by (simp add: c3_def c2_def)
qed

theorem Inode_cache_node_lives_witness:
  "entry (((\<lambda>c. fst (snd (Inode_UncacheNode c 5))) ^^ 3) (((\<lambda>c. snd (Inode_GetCache c 5)) ^^ 3)
     (snd (Inode_CacheNodeEx \<lparr> FirstNode = [], MaxCached = 0 \<rparr> \<lparr> Inode = 5, ReferenceCount = 0, Fields = () \<rparr> 64)))) 5 = Some (64, 1, ())"
  using Inode_cache_node_lives [of "\<lparr> FirstNode = [], MaxCached = 0 \<rparr>" "\<lparr> Inode = 5, ReferenceCount = 0, Fields = () \<rparr>" 64 3]
  by (simp add: fresh_cache)

section \<open>Handles\<close>

text \<open>The state of the examples: two user handles, the second of them free, and one open kernel file.\<close>

definition sample_types :: types where
  "sample_types = (\<lambda>p. if p = 8 then Some gVFS_MemFileType else None)"

definition sample_node :: tVFS_FileNode where
  "sample_node = \<lparr> n_Type = 8, n_ImplPtr = 500, n_ReferenceCount = 1, n_Inode = 500, n_Size = 10, n_Flags = 0,
     n_ATime = 0, n_MTime = 0, n_CTime = 0, n_UID = 0, n_GID = 0, n_ACLs = [gVFS_ACL_EveryoneRWX] \<rparr>"

definition sample_handle :: tVFS_Handle where
  "sample_handle = \<lparr> h_Node = 16, h_Mount = 24, h_Position = 2, h_Mode = 6 \<rparr>"

definition sample_vfs :: vfs where
  "sample_vfs = \<lparr> v_mem = (\<lambda>a. of_nat a), v_errno = EOK, v_nodes = (\<lambda>_. sample_node),
     OpenHandleCount = (\<lambda>m. if m = 24 then 1 else 0), Identifier = (\<lambda>_. 1), gaUserHandles = [sample_handle, free_handle],
     gaKernelHandles = replicate 128 free_handle, user_mapped = True, kernel_mapped = True,
     gaVFS_MarshalledHandles = replicate 16 \<lparr> Magic = 0, AllocTime = 0, m_Handle = free_handle \<rparr> \<rparr>"

lemma sample_polite: "polite sample_types"
  by (auto simp: polite_def sample_types_def gVFS_MemFileType_def same_tables_def VFS_MemFile_Close_def Let_def split: if_splits)

lemma sample_handles_on: "handles_on m (replicate n free_handle) = 0"
  by (simp add: handles_on_def uses_def free_handle_def sum_list_replicate)

lemma sample_accounted: "accounted sample_vfs"
proof -
  have "users m sample_vfs = uses m sample_handle" for m
    using sample_handles_on [of m 1]
    by (simp add: users_def sample_vfs_def map_replicate handles_on_Cons sample_handles_on)
  then show ?thesis by (auto simp: accounted_def tables_wf_def sample_vfs_def uses_def sample_handle_def)
qed

lemma sample_open: "VFS_GetHandle sample_vfs 0 = Some (User 0)" "handle sample_vfs (User 0) = sample_handle"
  by (simp_all add: VFS_GetHandle_def fd_slot_def kernel_fd_def sample_vfs_def sample_handle_def)

text \<open>
  C35: when the count of each mount is the number of handles on it, closing a handle does not fail the
  assertion on the count, leaves all other handles as they are, and the counts right.
\<close>

theorem VFS_Close_keeps_counts:
  assumes "polite T" "accounted s" "VFS_GetHandle s FD = Some l"
  shows "\<exists>s'. VFS_Close T FD s = Ret s' \<and> accounted s' \<and> VFS_GetHandle s' FD = None \<and> (\<forall>k. k \<noteq> l \<longrightarrow> handle s' k = handle s k)"
  using Close_accounted [OF assms] by auto

theorem VFS_Close_keeps_counts_witness:
  "\<exists>s'. VFS_Close sample_types 0 sample_vfs = Ret s' \<and> accounted s' \<and> VFS_GetHandle s' 0 = None"
  using VFS_Close_keeps_counts [OF sample_polite sample_accounted sample_open(1)] by blast

text \<open>
  C36: a handle on a mounted file is copied into the place that is free or asked for; both then are equal,
  the counts are right, and closing the copy gives back the handles and counts of before.
\<close>

theorem VFS_DuplicateFD_then_Close:
  assumes "polite T" "accounted s" "VFS_GetHandle s SrcFD = Some src" "h_Mount (handle s src) \<noteq> 0"
    and "copy_place s SrcFD DstFD = Some (dst, fd)"
  shows "\<exists>s1 s2. VFS_DuplicateFD T ok SrcFD DstFD s = Ret (fd, s1) \<and> VFS_GetHandle s1 fd = Some dst \<and>
    handle s1 dst = handle s src \<and> accounted s1 \<and> VFS_Close T fd s1 = Ret s2 \<and> accounted s2 \<and>
    (\<forall>k. k \<noteq> dst \<longrightarrow> handle s2 k = handle s k) \<and> h_Node (handle s2 dst) = 0"
proof -
  obtain s1 where s1: "VFS_DuplicateFD T ok SrcFD DstFD s = Ret (fd, s1)" "accounted s1" "VFS_GetHandle s1 fd = Some dst"
      "\<forall>k. handle s1 k = (if k = dst then handle s src else handle s k)"
    using DuplicateFD_accounted [OF assms] by blast
  obtain s2 where "VFS_Close T fd s1 = Ret s2" "accounted s2"
      "\<forall>k. handle s2 k = (if k = dst then (handle s1 dst)\<lparr>h_Node := 0\<rparr> else handle s1 k)"
    using Close_accounted [OF assms(1) s1(2,3)] by blast
  then show ?thesis using s1 by simp
qed

theorem VFS_DuplicateFD_then_Close_witness:
  "\<exists>s1. VFS_DuplicateFD sample_types (\<lambda>_. True) 0 (- 1) sample_vfs = Ret (1, s1) \<and> handle s1 (User 1) = sample_handle"
proof -
  have "copy_place sample_vfs 0 (- 1) = Some (User 1, 1)"
    by (simp add: copy_place_def kernel_fd_def mapped_def table_def place_def sample_vfs_def sample_handle_def free_handle_def)
  then show ?thesis
    using VFS_DuplicateFD_then_Close [OF sample_polite sample_accounted sample_open(1), of "- 1" "User 1" 1 "\<lambda>_. True"] sample_open(2)
    by (auto simp: sample_handle_def)
qed

lemma handles_on_append: "handles_on m (xs @ ys) = handles_on m xs + handles_on m ys"
  by (simp add: handles_on_def)

lemma save_then_free:
  assumes "polite T" "tables_wf s" "user_mapped s" "\<forall>fds. FDs = Some fds \<longrightarrow> length fds = n"
    and mt: "\<forall>h \<in> set (gaUserHandles s) \<union> set (gaKernelHandles s) \<union> set rest. mounted h"
    and save: "VFS_SaveHandles T (Some old) n FDs s = Ret (Some hs, s1)"
    and rest: "rest = drop (min n (length (gaUserHandles s))) old" "length old = n"
    and counts: "\<forall>m. m \<noteq> 0 \<longrightarrow> int (handles_on m rest) \<le> OpenHandleCount s m"
  shows "\<exists>s2. VFS_FreeSavedHandles T n (Some hs) s1 = Ret s2 \<and> same_handles s s2 \<and>
    (\<forall>m. m \<noteq> 0 \<longrightarrow> OpenHandleCount s1 m + int (handles_on m rest) = OpenHandleCount s m + int (handles_on m hs) \<and>
       OpenHandleCount s2 m = OpenHandleCount s m - int (handles_on m rest))"
proof -
  obtain ret where ret: "reference_all T ret s = Ret s1" "length ret = min n (length (gaUserHandles s))" "hs = ret @ rest"
      "set ret \<subseteq> insert free_handle (set (gaUserHandles s) \<union> set (gaKernelHandles s))"
    using SaveHandles_run [OF assms(3,2) save assms(4)] rest(1) by metis
  have mt1: "\<forall>h \<in> set ret. mounted h" "\<forall>h \<in> set hs. mounted h"
    using ret(3,4) mt by (auto simp: mounted_def free_handle_def)
  obtain s1' where "reference_all T ret s = Ret s1'" and s1: "same_handles s s1'"
      "\<forall>m. m \<noteq> 0 \<longrightarrow> OpenHandleCount s1' m = OpenHandleCount s m + int (handles_on m ret)"
    using reference_all_spec [OF assms(1) mt1(1)] by blast
  then have [simp]: "s1' = s1" using ret(1) by simp
  have "\<forall>m. m \<noteq> 0 \<longrightarrow> int (handles_on m hs) \<le> OpenHandleCount s1 m" using s1(2) counts by (simp add: ret(3) handles_on_append)
  from release_all_spec [OF assms(1) mt1(2) this] obtain s2 where s2: "release_all T hs s1 = Ret s2" "same_handles s1 s2"
      "\<forall>m. m \<noteq> 0 \<longrightarrow> OpenHandleCount s2 m = OpenHandleCount s1 m - int (handles_on m hs)" by blast
  have "length hs = n" using ret(2,3) rest by simp
  then show ?thesis using s1 s2 by (auto simp: VFS_FreeSavedHandles_def same_handles_def ret(3) handles_on_append)
qed

text \<open>
  C37: up to \<open>MaxFD\<close> handles are saved for a new process, from its own table or by their numbers: they
  take one reference each, and freeing as many gives all of them back, so that the tables and the counts
  are then what they were. Every open handle of the tables is assumed to have a mount; saving one
  without is \<open>VFS_SaveHandles_needs_mount\<close>, and more than \<open>MaxFD\<close> is \<open>VFS_SaveHandles_too_many\<close>.
\<close>

theorem VFS_SaveHandles_then_Free:
  assumes "polite T" "tables_wf s" "user_mapped s" "n \<le> length (gaUserHandles s)" "length old = n"
    and "\<forall>fds. FDs = Some fds \<longrightarrow> length fds = n" "\<forall>h \<in> set (gaUserHandles s) \<union> set (gaKernelHandles s). mounted h"
    and "\<forall>m. m \<noteq> 0 \<longrightarrow> 0 \<le> OpenHandleCount s m" "VFS_SaveHandles T (Some old) n FDs s = Ret (Some hs, s1)"
  shows "\<exists>s2. VFS_FreeSavedHandles T n (Some hs) s1 = Ret s2 \<and> same_handles s s2 \<and>
    (\<forall>m. m \<noteq> 0 \<longrightarrow> OpenHandleCount s1 m = OpenHandleCount s m + int (handles_on m hs) \<and> OpenHandleCount s2 m = OpenHandleCount s m)"
  using save_then_free [OF assms(1-3,6) _ assms(9), of "[]"] assms(4,5,7,8) by (simp add: handles_on_def)

lemma sample_mounted: "\<forall>h \<in> set (gaUserHandles sample_vfs) \<union> set (gaKernelHandles sample_vfs). mounted h"
  by (auto simp: sample_vfs_def mounted_def sample_handle_def free_handle_def)

lemma sample_saved:
  "\<exists>s1. VFS_SaveHandles sample_types (Some ([free_handle, free_handle] @ rest)) (2 + length rest) None sample_vfs =
     Ret (Some ([sample_handle, free_handle] @ rest), s1)"
proof -
  have "reference_all sample_types [sample_handle, free_handle] sample_vfs =
      Ret (s1\<lparr>OpenHandleCount := (OpenHandleCount s1)(24 := OpenHandleCount s1 24 + 1)\<rparr>)"
    if "s1 = ReferenceNode sample_types 16 sample_vfs" for s1
    using that by (simp add: sample_handle_def free_handle_def ReferenceMount_def)
  then show ?thesis by (simp add: VFS_SaveHandles_def sample_vfs_def)
qed

theorem VFS_SaveHandles_then_Free_witness:
  "\<exists>s1 s2. VFS_SaveHandles sample_types (Some [free_handle, free_handle]) 2 None sample_vfs = Ret (Some [sample_handle, free_handle], s1) \<and>
     VFS_FreeSavedHandles sample_types 2 (Some [sample_handle, free_handle]) s1 = Ret s2 \<and> OpenHandleCount s2 24 = 1"
proof -
  have wf: "tables_wf sample_vfs" using sample_accounted by (simp add: accounted_def)
  obtain s1 where s1: "VFS_SaveHandles sample_types (Some [free_handle, free_handle]) 2 None sample_vfs =
      Ret (Some [sample_handle, free_handle], s1)" using sample_saved [of "[]"] by (auto simp: numeral_2_eq_2)
  have "user_mapped sample_vfs" "\<forall>m. m \<noteq> 0 \<longrightarrow> 0 \<le> OpenHandleCount sample_vfs m" "OpenHandleCount sample_vfs 24 = 1"
    "length (gaUserHandles sample_vfs) = 2" by (simp_all add: sample_vfs_def)
  then show ?thesis
    using VFS_SaveHandles_then_Free [OF sample_polite wf _ _ _ _ sample_mounted _ s1] s1 by auto
qed

text \<open>
  The number of handles is capped in the copy, but not where they are freed: asked for more than
  \<open>MaxFD\<close>, the kernel goes on to what \<open>malloc\<close> left in the rest of the block and gives back references
  that nobody has taken. Here that rest happens to look like handles on mounts in use.
\<close>

theorem VFS_SaveHandles_too_many:
  assumes "polite T" "tables_wf s" "user_mapped s" "\<forall>h \<in> set (gaUserHandles s) \<union> set (gaKernelHandles s) \<union> set rest. mounted h"
    and "VFS_SaveHandles T (Some old) n None s = Ret (Some hs, s1)" "length (gaUserHandles s) < n" "length old = n"
    and "rest = drop (length (gaUserHandles s)) old" "\<forall>m. m \<noteq> 0 \<longrightarrow> int (handles_on m rest) \<le> OpenHandleCount s m"
  shows "\<exists>s2. VFS_FreeSavedHandles T n (Some hs) s1 = Ret s2 \<and>
    (\<forall>m. m \<noteq> 0 \<longrightarrow> OpenHandleCount s2 m = OpenHandleCount s m - int (handles_on m rest))"
  using save_then_free [OF assms(1-3) _ assms(4,5) _ assms(7,9)] assms(6,8) by auto

theorem VFS_SaveHandles_too_many_witness:
  "OpenHandleCount sample_vfs 24 = 1 \<and> (\<exists>hs s1 s2. VFS_SaveHandles sample_types (Some [free_handle, free_handle, sample_handle]) 3 None sample_vfs =
     Ret (Some hs, s1) \<and> VFS_FreeSavedHandles sample_types 3 (Some hs) s1 = Ret s2 \<and> OpenHandleCount s2 24 = 0)"
proof -
  have wf: "tables_wf sample_vfs" using sample_accounted by (simp add: accounted_def)
  obtain s1 where s1: "VFS_SaveHandles sample_types (Some [free_handle, free_handle, sample_handle]) 3 None sample_vfs =
      Ret (Some [sample_handle, free_handle, sample_handle], s1)" using sample_saved [of "[sample_handle]"] by (auto simp: numeral_3_eq_3)
  have mt: "\<forall>h \<in> set (gaUserHandles sample_vfs) \<union> set (gaKernelHandles sample_vfs) \<union> set [sample_handle]. mounted h"
    using sample_mounted by (auto simp: mounted_def sample_handle_def)
  have on: "handles_on m [sample_handle] = (if m = 24 then 1 else 0)" for m
    by (simp add: handles_on_def uses_def sample_handle_def)
  have "user_mapped sample_vfs" "length (gaUserHandles sample_vfs) = 2"
    "\<forall>m. m \<noteq> 0 \<longrightarrow> int (handles_on m [sample_handle]) \<le> OpenHandleCount sample_vfs m" "OpenHandleCount sample_vfs 24 = 1"
    unfolding on by (simp_all add: sample_vfs_def)
  then show ?thesis using VFS_SaveHandles_too_many [OF sample_polite wf _ mt s1] s1 on [of 24] by auto
qed

text \<open>Saving an open handle without a mount, as on a memory file, faults.\<close>

theorem VFS_SaveHandles_needs_mount:
  assumes "user_mapped s" "h \<in> set (take n (gaUserHandles s))" "h_Node h \<noteq> 0" "h_Mount h = 0"
  shows "VFS_SaveHandles T (Some old) n None s = Panicked"
proof -
  have "take (min n (length (gaUserHandles s))) (gaUserHandles s) = take n (gaUserHandles s)" by (simp add: min_def)
  then show ?thesis using assms(1) reference_all_unmounted [OF assms(2-4)] by (simp add: VFS_SaveHandles_def Let_def)
qed

theorem VFS_SaveHandles_needs_mount_witness:
  "VFS_SaveHandles sample_types (Some [free_handle]) 1 None (sample_vfs\<lparr>gaUserHandles := [sample_handle\<lparr>h_Mount := 0\<rparr>]\<rparr>) = Panicked"
  by (rule VFS_SaveHandles_needs_mount [of _ "sample_handle\<lparr>h_Mount := 0\<rparr>"]) (simp_all add: sample_vfs_def sample_handle_def)

text \<open>
  C38: the routines on handles keep the tables at their sizes; a new descriptor is one that the lookup
  accepts and has a place that was free, and there is none only when every place is taken.
\<close>

theorem handle_operations_well_formed:
  assumes "tables_wf s" "polite T" "n \<noteq> 0" "mapped u s"
  shows "tables_wf (snd (VFS_SetHandle FD n md s)) \<and> tables_wf (snd (VFS_SetFDFlags FD Mask Value s)) \<and>
    (\<forall>s2. VFS_Close T FD s = Ret s2 \<longrightarrow> tables_wf s2) \<and>
    (\<exists>fd s1. VFS_AllocHandle ok u n md s = Ret (fd, s1) \<and> tables_wf s1 \<and>
      (fd = - 1 \<and> s1 = s \<and> (\<forall>h \<in> set (table u s). h_Node h \<noteq> 0) \<or>
       (\<exists>l. VFS_GetHandle s1 fd = Some l \<and> h_Node (handle s l) = 0 \<and>
         handle s1 l = (handle s l)\<lparr>h_Node := n, h_Position := 0, h_Mode := md\<rparr> \<and> (\<forall>k. k \<noteq> l \<longrightarrow> handle s1 k = handle s k))))"
proof -
  obtain fd s1 where run: "VFS_AllocHandle ok u n md s = Ret (fd, s1)"
    using AllocHandle_run [OF assms(4), of ok n md] by (cases "first_free (table u s) 0") simp_all
  show ?thesis using SetHandle_wf [OF assms(1)] SetFDFlags_wf [OF assms(1)] Close_wf [OF assms(2,1)]
      run AllocHandle_spec [OF assms(1,3,4) run] by blast
qed

theorem handle_operations_well_formed_witness:
  "\<exists>fd s1. VFS_AllocHandle (\<lambda>_. True) True 16 6 sample_vfs = Ret (fd, s1) \<and> tables_wf s1 \<and> (\<exists>l. VFS_GetHandle s1 fd = Some l)"
proof -
  have "tables_wf sample_vfs" "mapped True sample_vfs" "\<not> (\<forall>h \<in> set (table True sample_vfs). h_Node h \<noteq> 0)"
    using sample_accounted by (simp_all add: accounted_def) (simp_all add: mapped_def table_def sample_vfs_def free_handle_def)
  then show ?thesis
    using handle_operations_well_formed [OF _ sample_polite, of sample_vfs 16 True 0 6 0 0 "\<lambda>_. True"] by auto
qed

text \<open>The end of a process closes its nodes but keeps the mounts busy: no count goes down.\<close>

theorem VFS_CloseAllUserHandles_keeps_counts:
  assumes "polite T" "user_mapped s" "length (gaUserHandles s) < 204" "accounted s" "m \<noteq> 0"
  shows "\<exists>s'. VFS_CloseAllUserHandles T s = Ret s' \<and> (\<forall>h \<in> set (gaUserHandles s'). h_Node h = 0) \<and>
    OpenHandleCount s' m = int (users m s') + int (handles_on m (gaUserHandles s))"
proof -
  define s' where "s' = close_all T 0 (length (gaUserHandles s)) s"
  have run: "VFS_CloseAllUserHandles T s = Ret s'" using assms(2,3) by (simp add: VFS_CloseAllUserHandles_def s'_def Let_def)
  note all = close_all_spec [OF assms(1), of 0 "length (gaUserHandles s)" s, folded s'_def, simplified]
  then have gone: "\<forall>h \<in> set (gaUserHandles s'). h_Node h = 0" by (auto simp: in_set_conv_nth)
  then have "handles_on m (gaUserHandles s') = 0" by (simp add: handles_on_def uses_def)
  then have "users m s' + handles_on m (gaUserHandles s) = users m s" using all by (simp add: users_def)
  then show ?thesis using run gone assms(4,5) all by (auto simp: accounted_def)
qed

text \<open>After one handle has been handed over, there is no place for a second one.\<close>

theorem VFS_MarshalHandle_only_once:
  assumes "polite T" "VFS_GetHandle s FD = Some l" "VFS_MarshalHandle T now r FD s = Ret (v, s1)"
  shows "\<exists>s2. VFS_MarshalHandle T now' r' FD s1 = Ret (2 ^ 64 - 1, s2) \<and> v_errno s2 = EAGAIN"
proof -
  note full = MarshalHandle_fills [OF assms]
  have "handle s1 k = handle s k" for k using full(2) by (cases k) simp_all
  moreover have "fd_slot s1 FD = fd_slot s FD" using full(2) by (simp add: fd_slot_def)
  ultimately have "VFS_GetHandle s1 FD = Some l" using assms(2) by (simp add: GetHandle_iff)
  then show ?thesis by (rule MarshalHandle_no_room [OF full(1)])
qed

text \<open>The place in a marshalled handle is not tested for being negative.\<close>

theorem VFS_UnmarshalHandle_negative_place:
  assumes "2 ^ 31 \<le> Handle mod 2 ^ 32"
  shows "VFS_UnmarshalHandle ok Handle s = Panicked"
proof -
  have "Handle mod 2 ^ 32 < 2 ^ 32" by simp
  then show ?thesis using assms by (simp add: VFS_UnmarshalHandle_def Let_def)
qed

text \<open>A handle without a mount, as on a memory file, cannot be copied.\<close>

theorem VFS_DuplicateFD_needs_mount:
  assumes "tables_wf s" "VFS_GetHandle s SrcFD = Some src" "h_Mount (handle s src) = 0" "copy_place s SrcFD DstFD = Some (dst, fd)"
  shows "VFS_DuplicateFD T ok SrcFD DstFD s = Panicked"
proof -
  note dst = copy_place_free [OF assms(1,4)]
  obtain h where run: "VFS_DuplicateFD T ok SrcFD DstFD s = copy_handle T src fd (set_handle dst h s)"
    using DuplicateFD_run [OF assms(2,4) dst(1)] by blast
  have "src \<noteq> dst" using assms(2) dst(2) by (auto simp: GetHandle_iff)
  then show ?thesis using assms(3) handle_set [OF dst(1)] by (simp add: run copy_handle_def ReferenceMount_def)
qed

text \<open>The information on a file has its times of change and creation exchanged.\<close>

theorem VFS_FInfo_exchanges_times:
  assumes "VFS_FInfo FD n s = Some (k, i)" "VFS_GetHandle s FD = Some l"
  shows "f_mtime i = n_CTime (v_nodes s (h_Node (handle s l))) \<and> f_ctime i = n_MTime (v_nodes s (h_Node (handle s l)))"
  using assms by (auto simp: VFS_FInfo_def Let_def)

section \<open>Memory files\<close>

text \<open>
  C39: on a handle for reading and writing on a memory file, what is written at the position is read back
  after seeking there, through the handle table, the checks of the routines and the driver; the rest of the
  file is unchanged and the position is behind the data.
\<close>

theorem memory_file_write_seek_read:
  assumes "open_rw T s FD l (Method VFS_MemFile_Read) (Method VFS_MemFile_Write)" "n = h_Node (handle s l)" "memfile_ok s n"
    and "p = h_Position (handle s l)" "p + len \<le> n_Size (v_nodes s n)" "memfile_clear s n B len" "memfile_clear s n C len" "0 < whence"
  shows "\<exists>s1 s2 s3. VFS_Write T FD len B s = Ret (len, s1) \<and> VFS_Seek T FD (int p) whence s1 = Ret (0, s2) \<and>
    VFS_Read T FD len C s2 = (len, s3) \<and> span (v_mem s3) C len = span (v_mem s) B len \<and>
    memfile_bytes s3 n = blit (memfile_bytes s n) p (span (v_mem s) B len) \<and> VFS_Tell FD s3 = p + len"
  using memfile.write_seek_read [OF assms(1,3,2,4) _ assms(6,7,8)] assms(5) by (simp add: memfile_bytes_def)

theorem memory_file_write_seek_read_witness:
  "\<exists>s1 s2 s3. VFS_Write sample_types 0 3 700 sample_vfs = Ret (3, s1) \<and> VFS_Seek sample_types 0 2 1 s1 = Ret (0, s2) \<and>
    VFS_Read sample_types 0 3 800 s2 = (3, s3) \<and> span (v_mem s3) 800 3 = span (v_mem sample_vfs) 700 3"
proof -
  have wf: "tables_wf sample_vfs" using sample_accounted by (simp add: accounted_def)
  have o: "open_rw sample_types sample_vfs 0 (User 0) (Method VFS_MemFile_Read) (Method VFS_MemFile_Write)"
    using wf sample_open
    by (simp add: open_rw_def is_dir_def type_of_def sample_types_def sample_handle_def gVFS_MemFileType_def)
      (simp add: sample_vfs_def sample_node_def)
  have n: "16 = h_Node (handle sample_vfs (User 0))" "2 = h_Position (handle sample_vfs (User 0))"
    unfolding sample_open(2) by (simp_all add: sample_handle_def)
  have f: "memfile_ok sample_vfs 16" "2 + 3 \<le> n_Size (v_nodes sample_vfs 16)"
      "memfile_clear sample_vfs 16 700 3" "memfile_clear sample_vfs 16 800 3"
    by (simp_all add: memfile_ok_def memfile_clear_def apart_def sample_vfs_def sample_node_def)
  from memory_file_write_seek_read [OF o n(1) f(1) n(2) f(2-4), of 1] show ?thesis by auto
qed

text \<open>A memory file is made with no reference, so that closing it once does not free it.\<close>

theorem VFS_MemFile_Close_leaks:
  assumes "cstr (v_mem s) Path (36 # bs @ 58 # ss)" "\<forall>d \<in> set bs. address_digit d" "\<forall>d \<in> set ss. address_digit d" "ret \<noteq> 0"
    and "VFS_MemFile_Create Path ret ty s = Some (Ret (ret, s1))"
  shows "n_ImplPtr (v_nodes (VFS_MemFile_Close ret s1) ret) = u32 (hex_number bs 0)"
  using MemFile_Create_run [OF assms(1-4), of ty] assms(5) by (auto simp: VFS_MemFile_Close_def Let_def s32_id)

section \<open>Mount options\<close>

lemma comma_byte: "sint (x :: 8 word) = comma \<longleftrightarrow> x = 44"
  using signed_word_eqI [of x 44] by auto

text \<open>
  C40: the parsing of mount options returns exactly when there is no comma in them; with a comma,
  mounting never returns.
\<close>

theorem VFS_Mount_options_end:
  assumes "cstr m p xs" "p \<noteq> 0"
  shows "parse_options m p = (if 44 \<in> set xs then None else Some (1, m, [p]))"
proof (cases "44 \<in> set xs")
  case True
  obtain ys zs where xs: "xs = ys @ 44 # zs" "44 \<notin> set ys" using split_list_first [OF True] by blast
  have "comma \<notin> sint ` set ys" using xs(2) by (auto simp: comma_byte)
  then have "count_args m p 0 = None" using count_args_hangs [of m p ys 44 zs 0] assms xs(1) by simp
  then show ?thesis using True by (simp add: parse_options_def)
next
  case False
  then have no: "comma \<notin> sint ` set xs" by (auto simp: comma_byte)
  have "split_args m p [] = Some (m, [p])"
    using strchr_absent [OF assms(1) no] by (simp add: split_args.simps [of m p])
  then show ?thesis using False count_args_none [OF assms(1) no] by (simp add: parse_options_def)
qed

theorem VFS_Mount_options_end_witness:
  "parse_options (overwrite (\<lambda>_. 0) 8 [114, 44, 119]) 8 = None \<and> parse_options (overwrite (\<lambda>_. 0) 8 [114, 119]) 8 \<noteq> None"
  using VFS_Mount_options_end [of "overwrite (\<lambda>_. 0) 8 [114, 44, 119]" 8 "[114, 44, 119]"]
    VFS_Mount_options_end [of "overwrite (\<lambda>_. 0) 8 [114, 119]" 8 "[114, 119]"] by (simp add: overwrite_def)

text \<open>
  Whatever lies between, the count that goes down with an unmounted file system is that of the root,
  which is first in the list, and not that of the mount its mount point lies on.
\<close>

theorem VFS_Unmount_charges_root:
  assumes "unlink mp ms = Some (mnt, rest)" "MountPoint mnt \<noteq> []" "MountPoint mnt ! 0 = 47" "mt_At mnt \<noteq> r"
    and "MountPoint rt \<noteq> mp" "MountPointLen rt = 0" "mt_OpenHandleCount mnt = 0" "0 < mt_OpenHandleCount rt"
  shows "VFS_Unmount r mp (rt # ms) = Ret (EOK, rt\<lparr>mt_OpenHandleCount := mt_OpenHandleCount rt - 1\<rparr> # rest)"
  using assms by (simp add: VFS_Unmount_def VFS_int_Unmount_def is_parent_def)

end
