(* ===== verification/Spec2Isabelle.thy ===== *)
theory Spec2Isabelle
  imports Heap_Theorems Thread_Theorems Libc_Theorems Storage_Theorems Memory_Theorems VFS_Theorems
begin

text \<open>
  A verification development for the kernel of Acess2, a hobby operating system in C, in its x86 build.
  Paths below are those of the repository, with \<open>Kernel\<close> for \<open>src/KernelLand/Kernel\<close> and \<open>Modules\<close> for
  \<open>src/KernelLand/Modules\<close>.

  \<^bold>\<open>The parts and how they interact.\<close> The heap hands out the blocks in which almost every other part keeps
  its data. Threads are structures linked into queues; the scheduler chooses among those that are ready, and
  mutexes, semaphores, reader/writer locks, events, work queues and messages put threads to sleep and wake
  them. The kernel has a C library of its own, whose memory and string routines the other parts call. The file
  layer turns paths into absolute ones, checks permissions, caches the nodes of file systems and serves reads
  and writes through handles by calling the driver of a node. Disks are registered with the volume manager,
  which reads through a cache of sectors and gives byte access to partitions. At boot the map of physical
  memory is put in order and the kernel's own ranges are marked.

  \<^bold>\<open>How code is modelled.\<close> Every definition is a function of HOL that can be evaluated. Pointers, \<open>Uint\<close> and
  \<open>size_t\<close> are natural numbers below \<open>2 ^ 32\<close> with the wrap-around written out (\<open>u32\<close>, \<open>sub32\<close>, \<open>u64\<close>,
  \<open>sub64\<close> of \<open>Prelude\<close>), or words where bits matter; the sums of an \<open>int\<close> that may overflow wrap around too (\<open>s32\<close>). Memory is a function from addresses to bytes. A routine
  that can panic returns an \<open>outcome\<close>. A loop that need not end is a \<open>partial_function\<close> into options, and
  returning \<^const>\<open>None\<close> means that it does not end; no fuel is used anywhere. A routine that runs with a spinlock
  held is one step; a routine that sleeps is split where it sleeps. What \<open>malloc\<close> returns is an argument where
  the heap itself is not in the state. Callbacks of drivers are parameters, with what is relied on stated as
  hypotheses or as the laws of a locale.

  \<^bold>\<open>Foundations.\<close> \<open>Prelude\<close> has the integers, memory and outcomes; \<open>Byte_Lists\<close> has slices of byte lists and of
  disks; \<open>Errno\<close> the error numbers.

  \<^bold>\<open>The heap\<close> (\<open>Kernel/heap.c\<close>). \<open>Kernel_Heap\<close> has every routine over the headers and footers in memory,
  \<open>Heap_Invariant\<close> the invariant that the blocks tile the heap, \<open>Heap_Correct\<close> its preservation. \<open>Allocator\<close> is
  the contract of \<open>malloc\<close> and \<open>free\<close>, which \<open>Heap_Contract\<close> interprets on these routines; \<open>Heap_Realloc\<close> treats
  reallocation. \<open>Heap_Theorems\<close>: a block is new, large enough and apart from all others, freeing gives it back,
  a fitting free block is always found, any history of allocations, frees and writes keeps the invariant, and the
  three ways a block is reallocated, one of which damages the heap. Requests are below 768 MiB throughout, see below.

  \<^bold>\<open>Threads\<close> (\<open>Kernel/threads.c\<close>, \<open>mutex.c\<close>, \<open>semaphore.c\<close>, \<open>rwlock.c\<close>, \<open>events.c\<close>, \<open>workqueue.c\<close>,
  \<open>messages.c\<close>, \<open>arch/x86/proc.c\<close>). \<open>Linked_Queue\<close> is the interface of linked queues, interpreted in
  \<open>Thread_Queues\<close> and \<open>Workqueue\<close> on the lists of the code. \<open>Thread_State\<close> has the structures and globals;
  \<open>Scheduler\<close>, \<open>Mutex\<close>, \<open>Semaphore\<close>, \<open>RWLock\<close>, \<open>Events\<close>, \<open>Workqueue\<close>, \<open>Thread_Life\<close>, \<open>Thread_Life_Correct\<close> and
  \<open>Messages\<close> have the handlers with their lemmas. \<open>Thread_Theorems\<close>: mutual exclusion for every sequence of lock
  operations, the choice of the most urgent thread and the turn of equal ones, that a signal of a semaphore loses no units,
  that the status of a dead thread reaches its parent and a message its receiver, that queues are lists, and
  the places where locks, priorities and exits go wrong.

  \<^bold>\<open>The library\<close> (\<open>Kernel/libc.c\<close>, \<open>lib.c\<close>, \<open>utf16.c\<close>, \<open>adt.c\<close>, \<open>arch/x86/lib.c\<close>, \<open>arch/helpers.h\<close>, and
  \<open>strtoi.c\<close> of the user C library). \<open>Libc_Memory\<close>, \<open>Division\<close>, \<open>Libc_String\<close>, \<open>Libc_Number\<close>, \<open>Kernel_Lib\<close>,
  \<open>Printf\<close> and \<open>Ring_Buffer\<close> model them. \<open>Libc_Theorems\<close>: the fast copying and division routines equal their
  plain definitions, numbers and UTF-8 survive being printed and read, formatted output stays in its buffer, and
  a ring buffer is a first-in first-out queue (the locale \<open>byte_fifo\<close>).

  \<^bold>\<open>Storage\<close> (\<open>Kernel/drvutil_disk.c\<close>, \<open>Kernel/drv/iocache.c\<close>, \<open>Modules/Storage/LVM\<close>). \<open>Disk_Util\<close> turns block
  access into byte access, over the locales \<open>block_source\<close> and \<open>block_device\<close>; \<open>IO_Cache\<close> is the sector cache;
  \<open>Logical_Volumes\<close> has volumes, partitions and the partition table, and interprets both locales.
  \<open>Storage_Theorems\<close>: reading a partition through the cache returns the bytes of the disk and always ends, writing
  without the cache changes these bytes only, writing with it loses data, and a disk gets the partitions that the
  bytes of its table describe.

  \<^bold>\<open>Physical memory\<close> (\<open>Kernel/pmemmap.c\<close>). \<open>Physical_Map\<close> models the map, \<open>Memory_Theorems\<close> states that putting
  it in order says the same of every address and that marking a range marks the pages it touches, or misses the
  last one when the range starts inside a page and needs the room.

  \<^bold>\<open>Files\<close> (\<open>Kernel/vfs\<close>). \<open>VFS_Path\<close> is \<open>VFS_GetAbsPath\<close>, \<open>VFS_ACL\<close> is \<open>acls.c\<close>, \<open>Inode_Cache\<close> is
  \<open>nodecache.c\<close> with the locale \<open>node_refs\<close>, \<open>VFS_Files\<close> is \<open>handle.c\<close> and what \<open>open.c\<close> does with handles, \<open>VFS_IO\<close>
  is \<open>io.c\<close> with the locale \<open>plain_file\<close>, which \<open>VFS_Memfile\<close> (\<open>memfile.c\<close>) interprets, and \<open>VFS_Mounts\<close> is the
  list of \<open>mount.c\<close>. \<open>VFS_Theorems\<close>: a path is cleaned and stays below the root directory, the entries made from a
  Unix mode allow what the mode allows, a cached node lives as long as its references, the counts of open handles
  stay right through closing, copying, saving and freeing, data written to a memory file are read back, when the
  parsing of mount options ends, and where these routines go wrong.

  \<^bold>\<open>Bounds.\<close> Sizes and counts are as in the code: 256 parts of a path, 128 kernel handles, 16 marshalled handles,
  pages of 4096 bytes. Most bounds in the theorems are the widths of the integers of the code: a length, a number of
  blocks or the value of a semaphore is below \<open>2 ^ 31\<close> where it is an \<open>int\<close>, a byte address on a disk below
  \<open>2 ^ 64\<close>. One is not: requests to the heap are below \<open>0x30000000\<close> bytes. The heap lies between \<open>0xC0400000\<close>
  and \<open>0xCF000000\<close>, so no larger request can be met, and below this bound its end plus the block size does not
  wrap around at \<open>2 ^ 32\<close>. Above it the code does not refuse what it should (\<open>Heap_Extend_limit_wraps\<close>,
  \<open>Heap_int_GetBlockSize_wraps\<close>). Table sizes have the bounds of the code as well: at most \<open>MaxFD\<close> handles are
  saved, and marking a range of memory needs two free entries.

  \<^bold>\<open>Not modelled.\<close> The walk over directories (\<open>VFS_ParsePath\<close> and what opens files through it), since each step is
  a call into a file system driver that makes and frees nodes. Page tables, physical page allocation, interrupts,
  the switch of registers and the boot code: they act through the processor, which the model does not have. More
  than one processor, and the spinlocks that serve for it. System calls, program images and memory mapped files,
  which rest on page tables. Device drivers, the network stack, the file systems and the terminals. Output for
  logging and debugging. The other architectures, and everything that runs in user mode but the number routines.
  The effect of freeing a block is not shown in the parts whose state does not have the heap.
\<close>

end
